(* ===== verification/Prelude.thy ===== *)
theory Prelude
  imports Complex_Main "HOL-Library.Word"
begin

text \<open>
  Shared vocabulary of the development. Three groups of definitions: the state-and-exception
  programs every service method is written in (a Python coroutine reads and writes the session
  and Redis, and leaves by returning or by raising; a raise keeps what was written so far), the
  list functions that SQL statements over a table become, and the string functions of Python's
  standard library that the code calls. Strings are ASCII (a HOL \<open>char\<close> is one byte).
\<close>

named_theorems prog_simps \<open>running a program one constructor at a time\<close>
named_theorems prog_keeps \<open>introduction rules for what a program preserves\<close>
named_theorems table_simps \<open>facts on selected, updated and deleted rows\<close>

section \<open>Programs with state and exceptions\<close>

type_synonym ('s, 'e, 'a) prog = "'s \<Rightarrow> ('e + 'a) \<times> 's"

definition ret :: "'a \<Rightarrow> ('s, 'e, 'a) prog" where
  "ret x = (\<lambda>s. (Inr x, s))"

definition raise :: "'e \<Rightarrow> ('s, 'e, 'a) prog" where
  "raise e = (\<lambda>s. (Inl e, s))"

definition bindP :: "('s, 'e, 'a) prog \<Rightarrow> ('a \<Rightarrow> ('s, 'e, 'b) prog) \<Rightarrow> ('s, 'e, 'b) prog" where
  "bindP m f = (\<lambda>s. case m s of (Inl e, s') \<Rightarrow> (Inl e, s') | (Inr x, s') \<Rightarrow> f x s')"

definition thenP :: "('s, 'e, 'a) prog \<Rightarrow> ('s, 'e, 'b) prog \<Rightarrow> ('s, 'e, 'b) prog" where
  "thenP m k = bindP m (\<lambda>_. k)"

definition gets :: "('s \<Rightarrow> 'a) \<Rightarrow> ('s, 'e, 'a) prog" where
  "gets f = (\<lambda>s. (Inr (f s), s))"

definition modifyP :: "('s \<Rightarrow> 's) \<Rightarrow> ('s, 'e, unit) prog" where
  "modifyP f = (\<lambda>s. (Inr (), f s))"

definition ofSum :: "'e + 'a \<Rightarrow> ('s, 'e, 'a) prog" where
  "ofSum r = (\<lambda>s. (r, s))"

definition raise_if :: "bool \<Rightarrow> 'e \<Rightarrow> ('s, 'e, unit) prog" where
  "raise_if b e = (if b then raise e else ret ())"

text \<open>A \<open>for\<close> loop over a list, collecting the values its body returns.\<close>

fun mapP :: "('x \<Rightarrow> ('s, 'e, 'a) prog) \<Rightarrow> 'x list \<Rightarrow> ('s, 'e, 'a list) prog" where
  "mapP f [] = ret []"
| "mapP f (x # xs) = bindP (f x) (\<lambda>y. bindP (mapP f xs) (\<lambda>ys. ret (y # ys)))"

text \<open>\<open>except Exception: h; raise\<close>: the handler runs on the state the failure left, and the
  failure (or the handler's own) is what leaves.\<close>

definition on_error :: "('s, 'e, 'a) prog \<Rightarrow> ('s, 'e, unit) prog \<Rightarrow> ('s, 'e, 'a) prog" where
  "on_error m h = (\<lambda>s. case m s of
     (Inl e, s') \<Rightarrow> (case h s' of (Inl e', s'') \<Rightarrow> (Inl e', s'') | (Inr _, s'') \<Rightarrow> (Inl e, s''))
   | (Inr x, s') \<Rightarrow> (Inr x, s'))"

lemma ret_run [prog_simps]: "ret x s = (Inr x, s)"
  by (simp add: ret_def)

lemma raise_run [prog_simps]: "raise e s = (Inl e, s)"
  by (simp add: raise_def)

lemma gets_run [prog_simps]: "gets f s = (Inr (f s), s)"
  by (simp add: gets_def)

lemma modifyP_run [prog_simps]: "modifyP f s = (Inr (), f s)"
  by (simp add: modifyP_def)

lemma ofSum_run [prog_simps]: "ofSum r s = (r, s)"
  by (simp add: ofSum_def)

lemma bindP_run [prog_simps]:
  "bindP m f s = (case m s of (Inl e, s') \<Rightarrow> (Inl e, s') | (Inr x, s') \<Rightarrow> f x s')"
  by (simp add: bindP_def)

lemma thenP_run [prog_simps]:
  "thenP m k s = (case m s of (Inl e, s') \<Rightarrow> (Inl e, s') | (Inr _, s') \<Rightarrow> k s')"
  by (simp add: thenP_def bindP_def)

lemma raise_if_run [prog_simps]: "raise_if b e s = (if b then Inl e else Inr (), s)"
  by (simp add: raise_if_def ret_def raise_def)

lemma on_error_run [prog_simps]:
  "on_error m h s = (case m s of
     (Inl e, s') \<Rightarrow> (case h s' of (Inl e', s'') \<Rightarrow> (Inl e', s'') | (Inr _, s'') \<Rightarrow> (Inl e, s''))
   | (Inr x, s') \<Rightarrow> (Inr x, s'))"
  by (simp add: on_error_def)

lemma bindP_Inr:
  assumes "bindP m f s = (Inr y, t)"
  obtains x s' where "m s = (Inr x, s')" and "f x s' = (Inr y, t)"
  using assms by (auto simp: bindP_def split: prod.splits sum.splits)

lemma bindP_assoc: "bindP (bindP m f) g = bindP m (\<lambda>x. bindP (f x) g)"
  by (auto simp: bindP_def fun_eq_iff split: prod.splits sum.splits)

lemma mapP_length: "mapP f xs s = (Inr ys, t) \<Longrightarrow> length ys = length xs"
  by (induction xs arbitrary: s ys t)
     (auto simp: prog_simps split: prod.splits sum.splits)

section \<open>What a program preserves\<close>

text \<open>The predicate holds of the state the program leaves, whether it returns or raises.\<close>

definition preserves :: "('s \<Rightarrow> bool) \<Rightarrow> ('s, 'e, 'a) prog \<Rightarrow> bool" where
  "preserves P m \<longleftrightarrow> (\<forall>s. P s \<longrightarrow> P (snd (m s)))"

lemma preservesI: "(\<And>s. P s \<Longrightarrow> P (snd (m s))) \<Longrightarrow> preserves P m"
  by (simp add: preserves_def)

lemma preservesD: "preserves P m \<Longrightarrow> P s \<Longrightarrow> P (snd (m s))"
  by (simp add: preserves_def)

lemma preserves_ret [prog_keeps]: "preserves P (ret x)"
  by (simp add: preserves_def ret_def)

lemma preserves_raise [prog_keeps]: "preserves P (raise e)"
  by (simp add: preserves_def raise_def)

lemma preserves_raise_if [prog_keeps]: "preserves P (raise_if b e)"
  by (simp add: preserves_def prog_simps)

lemma preserves_gets [prog_keeps]: "preserves P (gets f)"
  by (simp add: preserves_def gets_def)

lemma preserves_ofSum [prog_keeps]: "preserves P (ofSum r)"
  by (simp add: preserves_def ofSum_def)

lemma preserves_modifyP: "(\<And>s. P s \<Longrightarrow> P (f s)) \<Longrightarrow> preserves P (modifyP f)"
  by (simp add: preserves_def modifyP_def)

lemma preserves_bindP [prog_keeps]:
  "preserves P m \<Longrightarrow> (\<And>x. preserves P (f x)) \<Longrightarrow> preserves P (bindP m f)"
  by (fastforce simp: preserves_def bindP_def split: prod.splits sum.splits)

lemma preserves_thenP [prog_keeps]:
  "preserves P m \<Longrightarrow> preserves P k \<Longrightarrow> preserves P (thenP m k)"
  by (simp add: thenP_def preserves_bindP)

lemma preserves_if [prog_keeps]:
  "(b \<Longrightarrow> preserves P m) \<Longrightarrow> (\<not> b \<Longrightarrow> preserves P k) \<Longrightarrow> preserves P (if b then m else k)"
  by simp

lemma preserves_case_option [prog_keeps]:
  "(x = None \<Longrightarrow> preserves P m) \<Longrightarrow> (\<And>y. x = Some y \<Longrightarrow> preserves P (k y)) \<Longrightarrow>
   preserves P (case x of None \<Rightarrow> m | Some y \<Rightarrow> k y)"
  by (cases x) simp_all

lemma preserves_mapP [prog_keeps]:
  "(\<And>x. preserves P (f x)) \<Longrightarrow> preserves P (mapP f xs)"
  by (induction xs) (auto intro: prog_keeps)

text \<open>A program that writes nothing.\<close>

definition reads :: "('s, 'e, 'a) prog \<Rightarrow> bool" where
  "reads m \<longleftrightarrow> (\<forall>s. snd (m s) = s)"

lemma reads_ret [prog_keeps]: "reads (ret x)"
  and reads_raise [prog_keeps]: "reads (raise e)"
  and reads_gets [prog_keeps]: "reads (gets f)"
  and reads_ofSum [prog_keeps]: "reads (ofSum r)"
  and reads_raise_if [prog_keeps]: "reads (raise_if b e)"
  by (simp_all add: reads_def prog_simps)

lemma reads_bindP [prog_keeps]:
  "reads m \<Longrightarrow> (\<And>x. reads (f x)) \<Longrightarrow> reads (bindP m f)"
  by (auto simp: reads_def bindP_def split: prod.splits sum.splits) (metis snd_conv)+

lemma reads_case_option [prog_keeps]:
  "reads m \<Longrightarrow> (\<And>y. reads (k y)) \<Longrightarrow> reads (case x of None \<Rightarrow> m | Some y \<Rightarrow> k y)"
  by (cases x) simp_all

lemma reads_if [prog_keeps]: "reads m \<Longrightarrow> reads k \<Longrightarrow> reads (if b then m else k)"
  by simp

lemma reads_preserves [prog_keeps]: "reads m \<Longrightarrow> preserves P m"
  by (simp add: reads_def preserves_def)

lemma reads_run: "reads m \<Longrightarrow> m s = (r, t) \<Longrightarrow> t = s"
  unfolding reads_def by (metis snd_conv)

section \<open>Tables: SELECT, UPDATE and DELETE over a list of rows\<close>

definition update_where :: "('a \<Rightarrow> bool) \<Rightarrow> ('a \<Rightarrow> 'a) \<Rightarrow> 'a list \<Rightarrow> 'a list" where
  "update_where P f xs = map (\<lambda>x. if P x then f x else x) xs"

definition delete_where :: "('a \<Rightarrow> bool) \<Rightarrow> 'a list \<Rightarrow> 'a list" where
  "delete_where P xs = filter (\<lambda>x. \<not> P x) xs"

text \<open>\<open>ORDER BY k DESC\<close>, then \<open>OFFSET\<close> and \<open>LIMIT\<close>. SQL leaves ties in any order; the model
  keeps them in table order.\<close>

definition order_desc :: "('a \<Rightarrow> int) \<Rightarrow> 'a list \<Rightarrow> 'a list" where
  "order_desc k xs = sort_key (\<lambda>x. - k x) xs"

definition page :: "nat \<Rightarrow> nat \<Rightarrow> 'a list \<Rightarrow> 'a list" where
  "page lmt off xs = take lmt (drop off xs)"

lemma update_where_Nil [table_simps]: "update_where P f [] = []"
  and update_where_Cons [table_simps]:
    "update_where P f (x # xs) = (if P x then f x else x) # update_where P f xs"
  by (simp_all add: update_where_def)

lemma delete_where_Nil [table_simps]: "delete_where P [] = []"
  and delete_where_Cons [table_simps]:
    "delete_where P (x # xs) = (if P x then delete_where P xs else x # delete_where P xs)"
  by (simp_all add: delete_where_def)

lemma map_update_where [table_simps]:
  "(\<And>x. P x \<Longrightarrow> k (f x) = k x) \<Longrightarrow> map k (update_where P f xs) = map k xs"
  by (induction xs) (auto simp: table_simps)

lemma length_update_where [table_simps, simp]: "length (update_where P f xs) = length xs"
  by (simp add: update_where_def)

lemma set_update_where:
  "set (update_where P f xs) = f ` {x \<in> set xs. P x} \<union> {x \<in> set xs. \<not> P x}"
  by (auto simp: update_where_def)

lemma in_update_where: "y \<in> set (update_where P f xs) \<longleftrightarrow>
    (\<exists>x \<in> set xs. y = (if P x then f x else x))"
  by (auto simp: update_where_def)

lemma image_update_where:
  "(\<And>x. P x \<Longrightarrow> k (f x) = k x) \<Longrightarrow> k ` set (update_where P f xs) = k ` set xs"
  using map_update_where [of P k f xs] by (metis set_map)

lemma set_delete_where [table_simps]: "set (delete_where P xs) = {x \<in> set xs. \<not> P x}"
  by (auto simp: delete_where_def)

lemma update_where_none: "(\<And>x. x \<in> set xs \<Longrightarrow> \<not> P x) \<Longrightarrow> update_where P f xs = xs"
  by (simp add: update_where_def map_idI)

lemma update_where_idem:
  "(\<And>x. P x \<Longrightarrow> \<not> P (f x)) \<Longrightarrow> update_where P f (update_where P f xs) = update_where P f xs"
  by (induction xs) (auto simp: table_simps)

lemma distinct_delete_where [table_simps]:
  "distinct (map k xs) \<Longrightarrow> distinct (map k (delete_where P xs))"
  by (auto simp: delete_where_def distinct_map inj_on_def)

lemma set_order_desc [table_simps]: "set (order_desc k xs) = set xs"
  by (simp add: order_desc_def)

lemma length_order_desc [table_simps]: "length (order_desc k xs) = length xs"
  by (simp add: order_desc_def)

lemma set_page: "set (page lmt off xs) \<subseteq> set xs"
  by (auto simp: page_def dest: in_set_takeD in_set_dropD)

lemma length_page: "length (page lmt off xs) \<le> lmt"
  by (simp add: page_def)

text \<open>A selection that an UPDATE, DELETE or INSERT of other rows does not see.\<close>

lemma filter_update_where: "(\<And>x. P x \<Longrightarrow> \<not> Q x \<and> \<not> Q (f x)) \<Longrightarrow> filter Q (update_where P f xs) = filter Q xs"
  by (induction xs) (auto simp: table_simps)

lemma filter_delete_where: "(\<And>x. x \<in> set xs \<Longrightarrow> P x \<Longrightarrow> \<not> Q x) \<Longrightarrow> filter Q (delete_where P xs) = filter Q xs"
  by (induction xs) (auto simp: table_simps)

text \<open>A unique column selects at most one row.\<close>

lemma filter_unique_le1:
  assumes "distinct (map k xs)"
  shows "length (filter (\<lambda>x. k x = v \<and> Q x) xs) \<le> 1"
proof -
  have "distinct (filter (\<lambda>x. k x = v \<and> Q x) xs)"
    using assms by (simp add: distinct_map)
  moreover have "\<exists>y. set (filter (\<lambda>x. k x = v \<and> Q x) xs) \<subseteq> {y}"
    using assms by (auto simp: distinct_map inj_on_def)
  ultimately show ?thesis
    by (metis (no_types, lifting) card.empty card_insert_disjoint distinct_card empty_iff
        finite.emptyI subset_singleton_iff le_numeral_extra(4) One_nat_def zero_le_one)
qed

lemma unique_row:
  assumes "distinct (map k xs)" "x \<in> set xs" "y \<in> set xs" "k x = k y"
  shows "x = y"
  using assms by (auto simp: distinct_map inj_on_def)

lemma find_Some_iff_unique:
  assumes "distinct (map k xs)" "x \<in> set xs" "k x = v"
  shows "find (\<lambda>y. k y = v) xs = Some x"
  using assms by (induction xs) auto

lemma find_SomeD: "find P xs = Some x \<Longrightarrow> x \<in> set xs \<and> P x"
  by (induction xs) (auto split: if_splits)

lemma find_filter: "find P xs = (case filter P xs of [] \<Rightarrow> None | x # _ \<Rightarrow> Some x)"
  by (induction xs) auto

lemma find_append: "find P (xs @ ys) = (case find P xs of None \<Rightarrow> find P ys | Some x \<Rightarrow> Some x)"
  by (induction xs) auto

lemma find_update_where:
  "(\<And>x. P x \<Longrightarrow> Q (f x) = Q x) \<Longrightarrow>
   find Q (update_where P f xs) = map_option (\<lambda>x. if P x then f x else x) (find Q xs)"
  by (induction xs) (auto simp: table_simps)

section \<open>Strings\<close>

definition is_upper_ascii :: "char \<Rightarrow> bool" where
  "is_upper_ascii c \<longleftrightarrow> 65 \<le> (of_char c :: nat) \<and> (of_char c :: nat) \<le> 90"

definition is_lower_ascii :: "char \<Rightarrow> bool" where
  "is_lower_ascii c \<longleftrightarrow> 97 \<le> (of_char c :: nat) \<and> (of_char c :: nat) \<le> 122"

definition is_digit_ascii :: "char \<Rightarrow> bool" where
  "is_digit_ascii c \<longleftrightarrow> 48 \<le> (of_char c :: nat) \<and> (of_char c :: nat) \<le> 57"

definition lower_char :: "char \<Rightarrow> char" where
  "lower_char c = (if is_upper_ascii c then char_of ((of_char c :: nat) + 32) else c)"

definition upper_char :: "char \<Rightarrow> char" where
  "upper_char c = (if is_lower_ascii c then char_of ((of_char c :: nat) - 32) else c)"

definition str_lower :: "string \<Rightarrow> string" where
  "str_lower s = map lower_char s"

definition str_upper :: "string \<Rightarrow> string" where
  "str_upper s = map upper_char s"

definition is_space :: "char \<Rightarrow> bool" where
  "is_space c \<longleftrightarrow> (of_char c :: nat) \<in> {9, 10, 11, 12, 13, 28, 29, 30, 31, 32}"

definition lstrip_by :: "(char \<Rightarrow> bool) \<Rightarrow> string \<Rightarrow> string" where
  "lstrip_by P s = dropWhile P s"

definition rstrip_by :: "(char \<Rightarrow> bool) \<Rightarrow> string \<Rightarrow> string" where
  "rstrip_by P s = rev (dropWhile P (rev s))"

definition strip_by :: "(char \<Rightarrow> bool) \<Rightarrow> string \<Rightarrow> string" where
  "strip_by P s = rstrip_by P (lstrip_by P s)"

fun split_on :: "char \<Rightarrow> string \<Rightarrow> string list" where
  "split_on d [] = [[]]"
| "split_on d (c # cs) =
     (if c = d then [] # split_on d cs
      else (case split_on d cs of [] \<Rightarrow> [[c]] | w # ws \<Rightarrow> (c # w) # ws))"

text \<open>Python's \<open>a or b\<close> on strings: the empty string is false.\<close>

definition or_str :: "string \<Rightarrow> string \<Rightarrow> string" where
  "or_str a b = (if a = [] then b else a)"

fun nat_str :: "nat \<Rightarrow> string" where
  "nat_str n = (if n < 10 then [char_of (48 + n)] else nat_str (n div 10) @ [char_of (48 + n mod 10)])"

declare nat_str.simps [simp del]

definition int_str :: "int \<Rightarrow> string" where
  "int_str i = (if i < 0 then ''-'' @ nat_str (nat (- i)) else nat_str (nat i))"

definition str_val :: "string \<Rightarrow> nat" where
  "str_val = foldl (\<lambda>a c. 10 * a + (of_char c - 48)) 0"

lemma str_val_snoc: "str_val (s @ [c]) = 10 * str_val s + (of_char c - 48)"
  by (simp add: str_val_def)

lemma of_char_digit: "n < 10 \<Longrightarrow> (of_char (char_of (48 + n) :: char) :: nat) = 48 + n"
  by (simp add: of_char_of)

lemma str_val_nat_str: "str_val (nat_str n) = n"
proof (induction n rule: nat_str.induct)
  case (1 n)
  show ?case
  proof (cases "n < 10")
    case True
    then show ?thesis
      by (simp add: nat_str.simps [of n] str_val_def of_char_digit)
  next
    case False
    then show ?thesis
      using 1 by (simp add: nat_str.simps [of n] str_val_snoc of_char_digit)
  qed
qed

lemma nat_str_inj: "nat_str m = nat_str n \<Longrightarrow> m = n"
  by (metis str_val_nat_str)

lemma nat_str_nonempty: "nat_str n \<noteq> []"
  by (subst nat_str.simps) simp

lemma nat_str_digits: "c \<in> set (nat_str n) \<Longrightarrow> is_digit_ascii c"
proof (induction n rule: nat_str.induct)
  case (1 n)
  show ?case
  proof (cases "n < 10")
    case True
    then show ?thesis
      using "1.prems" by (simp add: nat_str.simps [of n] is_digit_ascii_def of_char_digit)
  next
    case False
    then show ?thesis
      using 1 by (auto simp: nat_str.simps [of n] is_digit_ascii_def of_char_digit)
  qed
qed

lemma lower_char_idem: "lower_char (lower_char c) = lower_char c"
proof (cases "is_upper_ascii c")
  case True
  then have b: "65 \<le> (of_char c :: nat)" "(of_char c :: nat) \<le> 90"
    by (simp_all add: is_upper_ascii_def)
  then have "(of_char (char_of ((of_char c :: nat) + 32) :: char) :: nat) = of_char c + 32"
    by (simp add: of_char_of)
  then show ?thesis
    using b by (simp add: lower_char_def is_upper_ascii_def)
qed (simp add: lower_char_def)

lemma str_lower_idem [simp]: "str_lower (str_lower s) = str_lower s"
  by (simp add: str_lower_def lower_char_idem)

lemma set_rstrip_by: "set (rstrip_by P s) \<subseteq> set s"
  by (auto simp: rstrip_by_def dest: set_dropWhileD)

lemma set_strip_by: "set (strip_by P s) \<subseteq> set s"
  using set_rstrip_by [of P "lstrip_by P s"]
  by (auto simp: strip_by_def lstrip_by_def dest: set_dropWhileD)

lemma rstrip_by_last: "rstrip_by P s \<noteq> [] \<Longrightarrow> \<not> P (last (rstrip_by P s))"
  using hd_dropWhile [of P "rev s"] by (auto simp: rstrip_by_def last_rev)

section \<open>UUIDs\<close>

text \<open>A UUID is a 128-bit number; \<open>uuid4()\<close> is an argument of the operations that draw one.
  \<open>str(u)\<close> is the 8-4-4-4-12 form in lower-case hex and \<open>uuid.UUID(s)\<close> reads it back.\<close>

type_synonym uuid = "128 word"

fun hex_digits :: "nat \<Rightarrow> nat \<Rightarrow> nat list" where
  "hex_digits 0 n = []"
| "hex_digits (Suc k) n = hex_digits k (n div 16) @ [n mod 16]"

definition hex_char :: "nat \<Rightarrow> char" where
  "hex_char d = (if d < 10 then char_of (48 + d) else char_of (87 + d))"

definition hex_val :: "char \<Rightarrow> nat option" where
  "hex_val c = (let n = of_char c in
     if 48 \<le> n \<and> n \<le> 57 then Some (n - 48)
     else if 97 \<le> n \<and> n \<le> 102 then Some (n - 87)
     else if 65 \<le> n \<and> n \<le> 70 then Some (n - 55) else None)"

definition uuid_str :: "uuid \<Rightarrow> string" where
  "uuid_str u = (let h = map hex_char (hex_digits 32 (unat u)) in
     take 8 h @ ''-'' @ take 4 (drop 8 h) @ ''-'' @ take 4 (drop 12 h) @ ''-'' @
     take 4 (drop 16 h) @ ''-'' @ drop 20 h)"

definition uuid_of_str :: "string \<Rightarrow> uuid option" where
  "uuid_of_str s = (let h = filter (\<lambda>c. c \<noteq> CHR ''-'') s; ds = map hex_val h in
     if length h = 32 \<and> None \<notin> set ds
     then Some (of_nat (foldl (\<lambda>a d. 16 * a + the d) 0 ds)) else None)"

lemma length_hex_digits [simp]: "length (hex_digits k n) = k"
  by (induction k arbitrary: n) simp_all

lemma hex_digits_bound: "d \<in> set (hex_digits k n) \<Longrightarrow> d < 16"
  by (induction k arbitrary: n) auto

lemma foldl_hex_digits: "foldl (\<lambda>a d. 16 * a + d) 0 (hex_digits k n) = n mod 16 ^ k"
  by (induction k arbitrary: n) (simp_all add: mod_mult2_eq)

lemma of_char_hex_char:
  "d < 16 \<Longrightarrow> (of_char (hex_char d) :: nat) = (if d < 10 then 48 + d else 87 + d)"
  by (auto simp: hex_char_def of_char_of)

lemma hex_val_char: "d < 16 \<Longrightarrow> hex_val (hex_char d) = Some d"
  by (simp add: hex_val_def of_char_hex_char Let_def)

lemma hex_char_not_dash: "d < 16 \<Longrightarrow> hex_char d \<noteq> CHR ''-''"
  using of_char_hex_char [of d] by (auto split: if_splits)

lemma uuid_str_pieces:
  "take 8 h @ take 4 (drop 8 h) @ take 4 (drop 12 h) @ take 4 (drop 16 h) @ drop 20 h = h"
  (is "?l = _")
proof -
  have step: "take 4 (drop n h) @ drop (n + 4) h = drop n h" for n
    using append_take_drop_id [of 4 "drop n h"] by (simp add: add.commute)
  have "?l = take 8 h @ take 4 (drop 8 h) @ take 4 (drop 12 h) @ drop 16 h"
    using step [of 16] by simp
  also have "\<dots> = take 8 h @ take 4 (drop 8 h) @ drop 12 h"
    using step [of 12] by simp
  also have "\<dots> = take 8 h @ drop 8 h"
    using step [of 8] by simp
  finally show ?thesis by simp
qed

lemma filter_uuid_str:
  "filter (\<lambda>c. c \<noteq> CHR ''-'') (uuid_str u) = map hex_char (hex_digits 32 (unat u))"
proof -
  define h where "h = map hex_char (hex_digits 32 (unat u))"
  have nodash: "c \<noteq> CHR ''-''" if "c \<in> set h" for c
    using that unfolding h_def by (auto dest: hex_digits_bound simp: hex_char_not_dash)
  have keep: "filter (\<lambda>c. c \<noteq> CHR ''-'') xs = xs" if "set xs \<subseteq> set h" for xs
    using that nodash by (auto simp: filter_id_conv)
  have parts: "filter (\<lambda>c. c \<noteq> CHR ''-'') (take m (drop n h)) = take m (drop n h)"
    "filter (\<lambda>c. c \<noteq> CHR ''-'') (take m h) = take m h"
    "filter (\<lambda>c. c \<noteq> CHR ''-'') (drop n h) = drop n h" for m n
    by (rule keep, auto dest: in_set_takeD in_set_dropD)+
  have "uuid_str u = take 8 h @ ''-'' @ take 4 (drop 8 h) @ ''-'' @ take 4 (drop 12 h) @ ''-'' @
      take 4 (drop 16 h) @ ''-'' @ drop 20 h"
    by (simp only: uuid_str_def Let_def h_def)
  then show ?thesis
    using uuid_str_pieces [of h] by (simp add: parts flip: h_def)
qed

lemma foldl_the_Some:
  "(\<And>d. d \<in> set ds \<Longrightarrow> d < 16) \<Longrightarrow>
   foldl (\<lambda>a d. 16 * a + the d) (a :: nat) (map (hex_val \<circ> hex_char) ds) =
   foldl (\<lambda>a d. 16 * a + d) a ds"
  by (induction ds arbitrary: a) (simp_all add: hex_val_char)

lemma uuid_roundtrip: "uuid_of_str (uuid_str u) = Some u"
proof -
  let ?ds = "hex_digits 32 (unat u)"
  have vals: "None \<notin> set (map hex_val (map hex_char ?ds))"
    by (auto simp: hex_val_char dest!: hex_digits_bound)
  have "unat u mod 16 ^ 32 = unat u"
    using unsigned_less [of u, where ?'a = nat] by simp
  then have "(of_nat (foldl (\<lambda>a d. 16 * a + the d) 0 (map (hex_val \<circ> hex_char) ?ds)) :: uuid) = u"
    by (simp add: foldl_the_Some hex_digits_bound foldl_hex_digits del: of_nat_mod)
  with vals show ?thesis
    unfolding uuid_of_str_def filter_uuid_str Let_def by simp
qed

lemma uuid_str_inj: "uuid_str u = uuid_str v \<Longrightarrow> u = v"
  by (metis option.inject uuid_roundtrip)

end
