(* ===== verification/Errors.thy ===== *)
theory Errors
  imports Prelude
begin

text \<open>
  \<open>core/errors.py\<close>: the exception classes of the domain code and the handlers that turn what
  leaves a route into the JSON error envelope. An exception of the model is either an
  \<open>AppError\<close> object, a request the framework refuses (\<open>RequestValidationError\<close>, Starlette's
  \<open>HTTPException\<close>), or any other Python exception, named by its class: the last group is what
  the generic handler answers with a 500.
\<close>

section \<open>JSON values\<close>

datatype json =
    JNull
  | JBool bool
  | JInt int
  | JNum rat
  | JStr string
  | JList "json list"
  | JObj "(string \<times> json) list"

text \<open>A Python value in a boolean context: \<open>None\<close>, \<open>False\<close>, zero and empty containers are
  false.\<close>

fun truthy :: "json \<Rightarrow> bool" where
  "truthy JNull = False"
| "truthy (JBool b) = b"
| "truthy (JInt i) = (i \<noteq> 0)"
| "truthy (JNum q) = (q \<noteq> 0)"
| "truthy (JStr s) = (s \<noteq> [])"
| "truthy (JList xs) = (xs \<noteq> [])"
| "truthy (JObj kvs) = (kvs \<noteq> [])"

section \<open>Application errors\<close>

datatype error_class =
    AppError
  | NotFoundError
  | ConflictError
  | ValidationAppError
  | AuthenticationError
  | PermissionDeniedError
  | RateLimitedError
  | QuotaExceededError
  | UpstreamError

fun class_status :: "error_class \<Rightarrow> int" where
  "class_status AppError = 400"
| "class_status NotFoundError = 404"
| "class_status ConflictError = 409"
| "class_status ValidationAppError = 422"
| "class_status AuthenticationError = 401"
| "class_status PermissionDeniedError = 403"
| "class_status RateLimitedError = 429"
| "class_status QuotaExceededError = 429"
| "class_status UpstreamError = 502"

fun class_code :: "error_class \<Rightarrow> string" where
  "class_code AppError = ''bad_request''"
| "class_code NotFoundError = ''not_found''"
| "class_code ConflictError = ''conflict''"
| "class_code ValidationAppError = ''validation_error''"
| "class_code AuthenticationError = ''unauthenticated''"
| "class_code PermissionDeniedError = ''permission_denied''"
| "class_code RateLimitedError = ''rate_limited''"
| "class_code QuotaExceededError = ''quota_exceeded''"
| "class_code UpstreamError = ''upstream_error''"

fun class_message :: "error_class \<Rightarrow> string" where
  "class_message AppError = ''Bad request.''"
| "class_message NotFoundError = ''Resource not found.''"
| "class_message ConflictError = ''Resource already exists.''"
| "class_message ValidationAppError = ''Validation failed.''"
| "class_message AuthenticationError = ''Authentication required.''"
| "class_message PermissionDeniedError = ''You do not have permission to perform this action.''"
| "class_message RateLimitedError = ''Rate limit exceeded.''"
| "class_message QuotaExceededError = ''Quota exceeded.''"
| "class_message UpstreamError = ''Upstream service returned an error or is unreachable.''"

record app_error =
  err_class :: error_class
  err_message :: string
  err_code :: string
  err_details :: "(string \<times> json) list"
  err_status :: int

text \<open>\<open>AppError.__init__\<close>: an empty message, code or details falls back to the class's own, as
  Python's \<open>or\<close> does.\<close>

definition mk_error ::
  "error_class \<Rightarrow> string option \<Rightarrow> string option \<Rightarrow> (string \<times> json) list option \<Rightarrow> int option \<Rightarrow> app_error"
where
  "mk_error c msg code details status =
     \<lparr> err_class = c,
       err_message = (case msg of Some m \<Rightarrow> or_str m (class_message c) | None \<Rightarrow> class_message c),
       err_code = (case code of Some k \<Rightarrow> or_str k (class_code c) | None \<Rightarrow> class_code c),
       err_details = (case details of Some d \<Rightarrow> d | None \<Rightarrow> []),
       err_status = (case status of Some n \<Rightarrow> n | None \<Rightarrow> class_status c) \<rparr>"

record field_error =
  fe_type :: string
  fe_loc :: "string list"
  fe_msg :: string
  fe_ctx :: "(string \<times> string) list option"

datatype exn =
    App app_error
  | RequestInvalid "field_error list"
  | HttpExc int string
  | PyExc string

text \<open>How the services raise: the class and its message, and where the code passes them a code
  or details.\<close>

definition err :: "error_class \<Rightarrow> string \<Rightarrow> exn" where
  "err c msg = App (mk_error c (Some msg) None None None)"

definition err_coded :: "error_class \<Rightarrow> string \<Rightarrow> string \<Rightarrow> exn" where
  "err_coded c msg code = App (mk_error c (Some msg) (Some code) None None)"

definition err_detailed :: "error_class \<Rightarrow> string \<Rightarrow> (string \<times> json) list \<Rightarrow> exn" where
  "err_detailed c msg d = App (mk_error c (Some msg) None (Some d) None)"

definition IntegrityError :: exn where
  "IntegrityError = PyExc ''IntegrityError''"

definition DataError :: exn where
  "DataError = PyExc ''DataError''"

definition MultipleResultsFound :: exn where
  "MultipleResultsFound = PyExc ''MultipleResultsFound''"

definition is_class :: "error_class \<Rightarrow> exn \<Rightarrow> bool" where
  "is_class c e = (case e of App a \<Rightarrow> err_class a = c | _ \<Rightarrow> False)"

lemma err_fields [simp]:
  "err c msg = App a \<Longrightarrow> err_class a = c"
  "err_coded c msg k = App a \<Longrightarrow> err_class a = c"
  "err_detailed c msg d = App a \<Longrightarrow> err_class a = c"
  by (auto simp: err_def err_coded_def err_detailed_def mk_error_def)

lemma is_class_err [simp]:
  "is_class c (err c' m) \<longleftrightarrow> c = c'"
  "is_class c (err_coded c' m k) \<longleftrightarrow> c = c'"
  "is_class c (err_detailed c' m d) \<longleftrightarrow> c = c'"
  "\<not> is_class c IntegrityError" "\<not> is_class c DataError" "\<not> is_class c MultipleResultsFound"
  by (auto simp: is_class_def err_def err_coded_def err_detailed_def mk_error_def
      IntegrityError_def DataError_def MultipleResultsFound_def)

lemma err_eq_iff [simp]:
  "err c m = err c' m' \<longleftrightarrow> c = c' \<and> or_str m (class_message c) = or_str m' (class_message c')"
  by (auto simp: err_def mk_error_def)

lemma err_not_py [simp]:
  "err c m \<noteq> IntegrityError" "err c m \<noteq> DataError" "err c m \<noteq> MultipleResultsFound"
  "IntegrityError \<noteq> err c m" "DataError \<noteq> err c m" "MultipleResultsFound \<noteq> err c m"
  by (simp_all add: err_def IntegrityError_def DataError_def MultipleResultsFound_def)

section \<open>The error envelope\<close>

text \<open>One entry of pydantic's \<open>errors()\<close>; a \<open>ctx\<close> value is any Python object, and \<open>str\<close> of
  it is the function \<open>show\<close>.\<close>

record 'o raw_error =
  re_type :: string
  re_loc :: "'o list"
  re_msg :: string
  re_ctx :: "(string \<times> 'o) list option"

definition safe_validation_errors :: "('o \<Rightarrow> string) \<Rightarrow> 'o raw_error list \<Rightarrow> field_error list" where
  "safe_validation_errors show es =
     map (\<lambda>e. \<lparr> fe_type = re_type e, fe_loc = map show (re_loc e), fe_msg = re_msg e,
                fe_ctx = map_option (map (\<lambda>(k, v). (k, show v))) (re_ctx e) \<rparr>) es"

definition field_error_json :: "field_error \<Rightarrow> json" where
  "field_error_json f = JObj ([(''type'', JStr (fe_type f)), (''loc'', JList (map JStr (fe_loc f))),
     (''msg'', JStr (fe_msg f))] @
     (case fe_ctx f of None \<Rightarrow> [] | Some kvs \<Rightarrow> [(''ctx'', JObj (map (\<lambda>(k, v). (k, JStr v)) kvs))]))"

definition opt_str_json :: "string option \<Rightarrow> json" where
  "opt_str_json s = (case s of None \<Rightarrow> JNull | Some x \<Rightarrow> JStr x)"

definition envelope :: "string \<Rightarrow> string \<Rightarrow> (string \<times> json) list \<Rightarrow> string option \<Rightarrow> json" where
  "envelope code msg details rid =
     JObj [(''error'', JObj [(''code'', JStr code), (''message'', JStr msg),
                            (''details'', JObj details), (''request_id'', opt_str_json rid)])]"

record http_response =
  hr_status :: int
  hr_headers :: "(string \<times> string) list"
  hr_body :: json

text \<open>\<open>str(retry_after)\<close>: the details the domain code attaches hold integers there.\<close>

fun json_text :: "json \<Rightarrow> string" where
  "json_text (JInt i) = int_str i"
| "json_text (JStr s) = s"
| "json_text _ = []"

definition retry_after_header :: "(string \<times> json) list \<Rightarrow> (string \<times> string) list" where
  "retry_after_header details = (case map_of details ''retry_after'' of
     None \<Rightarrow> []
   | Some v \<Rightarrow> if truthy v then [(''Retry-After'', json_text v)] else [])"

definition handle_exn :: "string option \<Rightarrow> exn \<Rightarrow> http_response" where
  "handle_exn rid e = (case e of
     App a \<Rightarrow> \<lparr> hr_status = err_status a,
                hr_headers = retry_after_header (err_details a),
                hr_body = envelope (err_code a) (err_message a) (err_details a) rid \<rparr>
   | RequestInvalid fs \<Rightarrow> \<lparr> hr_status = 422, hr_headers = [],
                hr_body = envelope ''validation_error'' ''Request validation failed.''
                            [(''errors'', JList (map field_error_json fs))] rid \<rparr>
   | HttpExc st detail \<Rightarrow> \<lparr> hr_status = st, hr_headers = [],
                hr_body = envelope ''http_error'' detail [] rid \<rparr>
   | PyExc nm \<Rightarrow> \<lparr> hr_status = 500, hr_headers = [],
                hr_body = envelope ''internal_error'' ''An internal error occurred.'' [] rid \<rparr>)"

fun jfield :: "string \<Rightarrow> json \<Rightarrow> json option" where
  "jfield k (JObj kvs) = map_of kvs k"
| "jfield k _ = None"

definition error_code_of :: "http_response \<Rightarrow> json option" where
  "error_code_of r = Option.bind (jfield ''error'' (hr_body r)) (jfield ''code'')"

text \<open>Whatever exception leaves a route, the client gets one envelope: an object whose only
  key is \<open>error\<close>, holding exactly \<open>code\<close>, \<open>message\<close>, \<open>details\<close> and the request id; the status is
  the error's own (500 for an unexpected exception), and for an unexpected exception the whole
  response is the same whatever the exception was, so nothing of it reaches the client.\<close>

theorem envelope_uniform:
  "(\<exists>code msg details. hr_body (handle_exn rid e) = JObj [(''error'', JObj
       [(''code'', JStr code), (''message'', JStr msg), (''details'', JObj details),
        (''request_id'', opt_str_json rid)])]) \<and>
   hr_status (handle_exn rid e) = (case e of App a \<Rightarrow> err_status a | RequestInvalid _ \<Rightarrow> 422
      | HttpExc st _ \<Rightarrow> st | PyExc _ \<Rightarrow> 500) \<and>
   handle_exn rid (PyExc nm) = handle_exn rid (PyExc nm')"
  by (cases e) (auto simp: handle_exn_def envelope_def)

lemma handle_err_status [simp]:
  "hr_status (handle_exn rid (err c m)) = class_status c"
  "hr_status (handle_exn rid (err_coded c m k)) = class_status c"
  "hr_status (handle_exn rid (err_detailed c m d)) = class_status c"
  by (simp_all add: handle_exn_def err_def err_coded_def err_detailed_def mk_error_def)

lemma retry_after_present:
  "map_of d ''retry_after'' = Some (JInt n) \<Longrightarrow> n \<noteq> 0 \<Longrightarrow>
   (''Retry-After'', int_str n) \<in> set (hr_headers (handle_exn rid (err_detailed c m d)))"
  by (simp add: handle_exn_def err_detailed_def mk_error_def retry_after_header_def)

end
