(* ===== verification/Permissions.thy ===== *)
theory Permissions
  imports Prelude "HOL-Library.List_Lexorder" "HOL-Library.Char_ord"
begin

text \<open>
  \<open>core/permissions.py\<close>: the permission catalog, the built-in roles and the mapping the
  authorization checks use. A \<open>StrEnum\<close> is a datatype with its string value; two members are
  equal exactly when their strings are, and \<open>sorted(...)\<close> orders them by it.
\<close>

datatype permission =
    ORG_READ | ORG_UPDATE | ORG_DELETE
  | MEMBER_READ | MEMBER_INVITE | MEMBER_UPDATE_ROLE | MEMBER_REMOVE
  | API_CREATE | API_READ | API_UPDATE | API_DELETE
  | KEY_CREATE | KEY_READ | KEY_REVOKE | KEY_ROTATE
  | ANALYTICS_READ | AUDIT_READ

fun perm_code :: "permission \<Rightarrow> string" where
  "perm_code ORG_READ = ''org:read''"
| "perm_code ORG_UPDATE = ''org:update''"
| "perm_code ORG_DELETE = ''org:delete''"
| "perm_code MEMBER_READ = ''member:read''"
| "perm_code MEMBER_INVITE = ''member:invite''"
| "perm_code MEMBER_UPDATE_ROLE = ''member:update_role''"
| "perm_code MEMBER_REMOVE = ''member:remove''"
| "perm_code API_CREATE = ''api:create''"
| "perm_code API_READ = ''api:read''"
| "perm_code API_UPDATE = ''api:update''"
| "perm_code API_DELETE = ''api:delete''"
| "perm_code KEY_CREATE = ''key:create''"
| "perm_code KEY_READ = ''key:read''"
| "perm_code KEY_REVOKE = ''key:revoke''"
| "perm_code KEY_ROTATE = ''key:rotate''"
| "perm_code ANALYTICS_READ = ''analytics:read''"
| "perm_code AUDIT_READ = ''audit:read''"

datatype role_name = OWNER | ADMIN | DEVELOPER | VIEWER

fun role_code :: "role_name \<Rightarrow> string" where
  "role_code OWNER = ''owner''"
| "role_code ADMIN = ''admin''"
| "role_code DEVELOPER = ''developer''"
| "role_code VIEWER = ''viewer''"

text \<open>\<open>RoleName(s)\<close>: the member with that value, or a \<open>ValueError\<close>.\<close>

definition all_roles :: "role_name list" where
  "all_roles = [OWNER, ADMIN, DEVELOPER, VIEWER]"

definition role_of_code :: "string \<Rightarrow> role_name option" where
  "role_of_code s = find (\<lambda>r. role_code r = s) all_roles"

definition all_permissions :: "permission list" where
  "all_permissions =
     [ORG_READ, ORG_UPDATE, ORG_DELETE, MEMBER_READ, MEMBER_INVITE, MEMBER_UPDATE_ROLE,
      MEMBER_REMOVE, API_CREATE, API_READ, API_UPDATE, API_DELETE, KEY_CREATE, KEY_READ,
      KEY_REVOKE, KEY_ROTATE, ANALYTICS_READ, AUDIT_READ]"

definition read_only :: "permission set" where
  "read_only = {ORG_READ, MEMBER_READ, API_READ, KEY_READ, ANALYTICS_READ, AUDIT_READ}"

definition developer_permissions :: "permission set" where
  "developer_permissions =
     read_only \<union> {API_CREATE, API_UPDATE, API_DELETE, KEY_CREATE, KEY_REVOKE, KEY_ROTATE}"

fun role_permissions :: "role_name \<Rightarrow> permission set" where
  "role_permissions OWNER = set all_permissions"
| "role_permissions ADMIN = set all_permissions - {ORG_DELETE}"
| "role_permissions DEVELOPER = developer_permissions"
| "role_permissions VIEWER = read_only"

fun role_description :: "role_name \<Rightarrow> string" where
  "role_description OWNER = ''Full control, including deleting the organization.''"
| "role_description ADMIN = ''Manage members, APIs, and keys; cannot delete the organization.''"
| "role_description DEVELOPER = ''Create and manage APIs and keys; read analytics.''"
| "role_description VIEWER = ''Read-only access.''"

definition role_has_permission :: "role_name \<Rightarrow> permission \<Rightarrow> bool" where
  "role_has_permission r p \<longleftrightarrow> p \<in> role_permissions r"

lemmas role_permission_defs =
  role_has_permission_def all_permissions_def read_only_def developer_permissions_def

lemma perm_code_inj: "perm_code p = perm_code q \<longleftrightarrow> p = q"
  by (cases p; cases q; simp)

lemma role_code_inj: "role_code r = role_code s \<longleftrightarrow> r = s"
  by (cases r; cases s; simp)

lemma all_permissions_complete: "p \<in> set all_permissions"
  by (cases p) (simp_all add: all_permissions_def)

lemma all_roles_complete: "r \<in> set all_roles"
  by (cases r) (simp_all add: all_roles_def)

lemma role_of_code_roundtrip [simp]: "role_of_code (role_code r) = Some r"
  by (cases r) (simp_all add: role_of_code_def all_roles_def)

lemma role_of_code_Some: "role_of_code s = Some r \<Longrightarrow> s = role_code r"
  by (auto simp: role_of_code_def dest: find_SomeD)

text \<open>The order of \<open>sorted(ALL_PERMISSIONS)\<close>: by string value.\<close>

instantiation permission :: linorder
begin

definition less_eq_permission :: "permission \<Rightarrow> permission \<Rightarrow> bool" where
  "less_eq_permission p q \<longleftrightarrow> perm_code p \<le> perm_code q"

definition less_permission :: "permission \<Rightarrow> permission \<Rightarrow> bool" where
  "less_permission p q \<longleftrightarrow> perm_code p < perm_code q"

instance
  by standard (auto simp: less_eq_permission_def less_permission_def perm_code_inj
      dest: antisym [of "perm_code _" "perm_code _"])

end

definition sorted_permissions :: "permission list" where
  "sorted_permissions = sort all_permissions"

lemma set_sorted_permissions [simp]: "set sorted_permissions = UNIV"
  using all_permissions_complete by (auto simp: sorted_permissions_def)

text \<open>The role hierarchy. Each role's permissions contain those of the role below it, the
  only permission an owner has and an admin lacks is deleting the organization, and a viewer can
  do nothing that writes: every one of the eleven mutating permissions is refused to it.\<close>

theorem role_hierarchy:
  "role_permissions VIEWER \<subset> role_permissions DEVELOPER \<and>
   role_permissions DEVELOPER \<subset> role_permissions ADMIN \<and>
   role_permissions ADMIN \<subset> role_permissions OWNER \<and>
   (\<forall>p. role_has_permission OWNER p) \<and>
   {p. role_has_permission OWNER p \<and> \<not> role_has_permission ADMIN p} = {ORG_DELETE} \<and>
   {p. \<not> role_has_permission VIEWER p} =
     {ORG_UPDATE, ORG_DELETE, MEMBER_INVITE, MEMBER_UPDATE_ROLE, MEMBER_REMOVE, API_CREATE,
      API_UPDATE, API_DELETE, KEY_CREATE, KEY_REVOKE, KEY_ROTATE}"
proof -
  have all: "p \<in> set all_permissions" for p
    by (rule all_permissions_complete)
  have viewer: "p \<in> read_only \<longleftrightarrow> p \<notin> {ORG_UPDATE, ORG_DELETE, MEMBER_INVITE,
      MEMBER_UPDATE_ROLE, MEMBER_REMOVE, API_CREATE, API_UPDATE, API_DELETE, KEY_CREATE,
      KEY_REVOKE, KEY_ROTATE}" for p
    by (cases p) (simp_all add: read_only_def)
  have "ORG_DELETE \<notin> developer_permissions" "MEMBER_INVITE \<notin> developer_permissions"
    "API_CREATE \<in> developer_permissions" "API_CREATE \<notin> read_only"
    by (simp_all add: developer_permissions_def read_only_def)
  then have "role_permissions VIEWER \<subset> role_permissions DEVELOPER"
    "role_permissions DEVELOPER \<subset> role_permissions ADMIN"
    "role_permissions ADMIN \<subset> role_permissions OWNER"
    using all by (auto simp: developer_permissions_def)
  with all viewer show ?thesis
    by (auto simp: role_has_permission_def)
qed

end
