(* ===== verification/Models.thy ===== *)
theory Models
  imports Errors Permissions
begin

text \<open>
  \<open>app/models\<close>: one record per ORM class, one list of rows per table, and the database as the
  record of all tables. A row carries its UUID, and \<open>created_at\<close> where the code orders by it or
  returns it; \<open>updated_at\<close> is never read. A \<open>timestamptz\<close> is a number of microseconds since the
  epoch in UTC, a \<open>date\<close> a number of days since it, and a Python or Postgres float an exact
  rational. The constraints the models declare (\<open>UniqueConstraint\<close>, \<open>unique=True\<close>, \<open>ForeignKey\<close>,
  \<open>ondelete\<close>, the length of a slug) are what an INSERT is checked against: a row that breaks one
  raises, as Postgres does at the flush.
\<close>

type_synonym instant = int
type_synonym date = int

definition us_per_second :: int where "us_per_second = 1000000"
definition us_per_day :: int where "us_per_day = 86400000000"

definition date_of :: "instant \<Rightarrow> date" where
  "date_of t = t div us_per_day"

datatype quota_period = DAILY | MONTHLY

fun period_str :: "quota_period \<Rightarrow> string" where
  "period_str DAILY = ''daily''"
| "period_str MONTHLY = ''monthly''"

datatype rate_limit_algorithm = FIXED_WINDOW | SLIDING_WINDOW | TOKEN_BUCKET

fun algorithm_str :: "rate_limit_algorithm \<Rightarrow> string" where
  "algorithm_str FIXED_WINDOW = ''fixed_window''"
| "algorithm_str SLIDING_WINDOW = ''sliding_window''"
| "algorithm_str TOKEN_BUCKET = ''token_bucket''"

section \<open>Rows\<close>

record user =
  u_id :: uuid
  u_email :: string
  u_full_name :: "string option"
  u_password_hash :: string
  u_is_active :: bool
  u_is_email_verified :: bool
  u_is_superuser :: bool
  u_created_at :: instant

record refresh_token =
  rt_id :: uuid
  rt_user_id :: uuid
  rt_family_id :: uuid
  rt_token_hash :: string
  rt_expires_at :: instant
  rt_revoked_at :: "instant option"
  rt_rotated_to :: "uuid option"

definition token_is_active :: "refresh_token \<Rightarrow> bool" where
  "token_is_active t \<longleftrightarrow> rt_revoked_at t = None"

record permission_row =
  p_id :: uuid
  p_code :: string
  p_description :: string

text \<open>\<open>r_permissions\<close> is the \<open>role_permissions\<close> association of the role.\<close>

record role =
  r_id :: uuid
  r_name :: string
  r_description :: string
  r_is_system :: bool
  r_permissions :: "uuid list"

record organization =
  o_id :: uuid
  o_name :: string
  o_slug :: string
  o_created_at :: instant

record organization_member =
  m_id :: uuid
  m_organization_id :: uuid
  m_user_id :: uuid
  m_role_id :: uuid
  m_created_at :: instant

record api =
  a_id :: uuid
  a_organization_id :: uuid
  a_name :: string
  a_slug :: string
  a_description :: string
  a_is_active :: bool
  a_created_at :: instant

record api_version =
  v_id :: uuid
  v_api_id :: uuid
  v_version :: string
  v_upstream_base_url :: string
  v_is_active :: bool
  v_created_at :: instant

record quota =
  q_id :: uuid
  q_api_id :: uuid
  q_period :: quota_period
  q_max_requests :: int

record rate_limit_rule =
  l_id :: uuid
  l_api_id :: uuid
  l_algorithm :: rate_limit_algorithm
  l_requests :: int
  l_window_seconds :: int
  l_burst :: "int option"

record api_key =
  k_id :: uuid
  k_api_id :: uuid
  k_organization_id :: uuid
  k_name :: string
  k_prefix :: string
  k_last_four :: string
  k_key_hash :: string
  k_created_by_user_id :: "uuid option"
  k_expires_at :: "instant option"
  k_revoked_at :: "instant option"
  k_rotated_to :: "uuid option"
  k_created_at :: instant

definition is_valid_at :: "api_key \<Rightarrow> instant \<Rightarrow> bool" where
  "is_valid_at k now \<longleftrightarrow>
     (if k_revoked_at k \<noteq> None then False
      else \<not> (case k_expires_at k of None \<Rightarrow> False | Some e \<Rightarrow> e \<le> now))"

record request_log =
  g_id :: uuid
  g_organization_id :: uuid
  g_api_id :: uuid
  g_api_version_id :: uuid
  g_api_key_id :: "uuid option"
  g_method :: string
  g_path :: string
  g_status_code :: int
  g_latency_ms :: rat
  g_request_bytes :: int
  g_response_bytes :: int
  g_client_ip :: string
  g_upstream_url :: string
  g_created_at :: instant

record api_key_usage =
  ku_id :: uuid
  ku_api_key_id :: uuid
  ku_api_id :: uuid
  ku_usage_date :: date
  ku_request_count :: int
  ku_error_count :: int

record audit_log =
  al_id :: uuid
  al_organization_id :: "uuid option"
  al_actor_user_id :: "uuid option"
  al_action :: string
  al_resource_type :: string
  al_resource_id :: "uuid option"
  al_ip :: "string option"
  al_metadata :: "(string \<times> json) list"
  al_created_at :: instant

record telemetry_outbox =
  ob_id :: uuid
  ob_event_type :: string
  ob_schema_version :: string
  ob_payload :: json
  ob_published_at :: "instant option"
  ob_attempts :: int
  ob_created_at :: instant

record daily_usage =
  du_id :: uuid
  du_organization_id :: uuid
  du_api_id :: uuid
  du_usage_date :: date
  du_request_count :: int
  du_error_count :: int
  du_total_latency_ms :: rat
  du_total_request_bytes :: int
  du_total_response_bytes :: int

record notification =
  n_id :: uuid
  n_user_id :: uuid
  n_organization_id :: "uuid option"
  n_type :: string
  n_title :: string
  n_body :: string
  n_read_at :: "instant option"
  n_created_at :: instant

section \<open>The database\<close>

record db =
  db_users :: "user list"
  db_tokens :: "refresh_token list"
  db_permissions :: "permission_row list"
  db_roles :: "role list"
  db_orgs :: "organization list"
  db_members :: "organization_member list"
  db_apis :: "api list"
  db_versions :: "api_version list"
  db_quotas :: "quota list"
  db_rules :: "rate_limit_rule list"
  db_keys :: "api_key list"
  db_logs :: "request_log list"
  db_usage :: "api_key_usage list"
  db_audit :: "audit_log list"
  db_outbox :: "telemetry_outbox list"
  db_daily :: "daily_usage list"
  db_notes :: "notification list"

type_synonym 'a dbprog = "(db, exn, 'a) prog"

definition empty_db :: db where
  "empty_db = \<lparr> db_users = [], db_tokens = [], db_permissions = [], db_roles = [], db_orgs = [],
     db_members = [], db_apis = [], db_versions = [], db_quotas = [], db_rules = [], db_keys = [],
     db_logs = [], db_usage = [], db_audit = [], db_outbox = [], db_daily = [], db_notes = [] \<rparr>"

text \<open>\<open>scalar_one_or_none()\<close>: no row is \<open>None\<close>, one row is the row, more raise.\<close>

fun scalar_one_or_none :: "'a list \<Rightarrow> exn + 'a option" where
  "scalar_one_or_none [] = Inr None"
| "scalar_one_or_none [x] = Inr (Some x)"
| "scalar_one_or_none _ = Inl MultipleResultsFound"

definition select_one :: "(db \<Rightarrow> 'a list) \<Rightarrow> ('a \<Rightarrow> bool) \<Rightarrow> 'a option dbprog" where
  "select_one tab P = (\<lambda>d. (scalar_one_or_none (filter P (tab d)), d))"

lemma reads_select_one [prog_keeps]: "reads (select_one tab P)"
  by (simp add: select_one_def reads_def)

lemma scalar_unique:
  assumes "distinct (map k xs)"
  shows "scalar_one_or_none (filter (\<lambda>x. k x = v \<and> Q x) xs) = Inr (find (\<lambda>x. k x = v \<and> Q x) xs)"
proof -
  have "length (filter (\<lambda>x. k x = v \<and> Q x) xs) \<le> 1"
    by (rule filter_unique_le1 [OF assms])
  then show ?thesis
    by (cases "filter (\<lambda>x. k x = v \<and> Q x) xs" rule: scalar_one_or_none.cases)
       (auto simp: find_filter)
qed

lemma scalar_unique1:
  "distinct (map k xs) \<Longrightarrow>
   scalar_one_or_none (filter (\<lambda>x. k x = v) xs) = Inr (find (\<lambda>x. k x = v) xs)"
  using scalar_unique [of k xs v "\<lambda>_. True"] by simp

lemma scalar_unique2:
  "distinct (map (\<lambda>x. (j x, k x)) xs) \<Longrightarrow>
   scalar_one_or_none (filter (\<lambda>x. j x = u \<and> k x = v) xs) = Inr (find (\<lambda>x. j x = u \<and> k x = v) xs)"
  using scalar_unique1 [of "\<lambda>x. (j x, k x)" xs "(u, v)"] by simp

section \<open>The declared constraints\<close>

definition users_ok :: "user list \<Rightarrow> bool" where
  "users_ok us \<longleftrightarrow> distinct (map u_id us) \<and> distinct (map u_email us)"

definition tokens_ok :: "user list \<Rightarrow> refresh_token list \<Rightarrow> bool" where
  "tokens_ok us ts \<longleftrightarrow> distinct (map rt_id ts) \<and> distinct (map rt_token_hash ts) \<and>
     rt_user_id ` set ts \<subseteq> u_id ` set us"

definition roles_ok :: "permission_row list \<Rightarrow> role list \<Rightarrow> bool" where
  "roles_ok ps rs \<longleftrightarrow> distinct (map p_id ps) \<and> distinct (map p_code ps) \<and>
     distinct (map r_id rs) \<and> distinct (map r_name rs)"

definition orgs_ok :: "organization list \<Rightarrow> bool" where
  "orgs_ok os \<longleftrightarrow> distinct (map o_id os) \<and> distinct (map o_slug os)"

definition members_ok ::
  "user list \<Rightarrow> role list \<Rightarrow> organization list \<Rightarrow> organization_member list \<Rightarrow> bool" where
  "members_ok us rs os ms \<longleftrightarrow> distinct (map m_id ms) \<and>
     distinct (map (\<lambda>m. (m_user_id m, m_organization_id m)) ms) \<and>
     m_organization_id ` set ms \<subseteq> o_id ` set os \<and> m_user_id ` set ms \<subseteq> u_id ` set us \<and>
     m_role_id ` set ms \<subseteq> r_id ` set rs"

definition apis_ok :: "organization list \<Rightarrow> api list \<Rightarrow> bool" where
  "apis_ok os as \<longleftrightarrow> distinct (map a_id as) \<and>
     distinct (map (\<lambda>a. (a_slug a, a_organization_id a)) as) \<and>
     a_organization_id ` set as \<subseteq> o_id ` set os"

definition versions_ok :: "api list \<Rightarrow> api_version list \<Rightarrow> bool" where
  "versions_ok as vs \<longleftrightarrow> distinct (map v_id vs) \<and>
     distinct (map (\<lambda>v. (v_api_id v, v_version v)) vs) \<and> v_api_id ` set vs \<subseteq> a_id ` set as"

definition quotas_ok :: "api list \<Rightarrow> quota list \<Rightarrow> bool" where
  "quotas_ok as qs \<longleftrightarrow> distinct (map q_id qs) \<and>
     distinct (map (\<lambda>q. (q_api_id q, q_period q)) qs) \<and> q_api_id ` set qs \<subseteq> a_id ` set as"

definition rules_ok :: "api list \<Rightarrow> rate_limit_rule list \<Rightarrow> bool" where
  "rules_ok as ls \<longleftrightarrow> distinct (map l_id ls) \<and> distinct (map l_api_id ls) \<and>
     l_api_id ` set ls \<subseteq> a_id ` set as"

definition keys_ok :: "organization list \<Rightarrow> api list \<Rightarrow> api_key list \<Rightarrow> bool" where
  "keys_ok os as ks \<longleftrightarrow> distinct (map k_id ks) \<and> distinct (map k_key_hash ks) \<and>
     k_api_id ` set ks \<subseteq> a_id ` set as \<and> k_organization_id ` set ks \<subseteq> o_id ` set os"

definition usage_ok :: "api_key list \<Rightarrow> api_key_usage list \<Rightarrow> bool" where
  "usage_ok ks us \<longleftrightarrow> distinct (map ku_id us) \<and>
     distinct (map (\<lambda>u. (ku_api_key_id u, ku_usage_date u)) us) \<and>
     ku_api_key_id ` set us \<subseteq> k_id ` set ks"

definition daily_ok :: "daily_usage list \<Rightarrow> bool" where
  "daily_ok us \<longleftrightarrow> distinct (map du_id us) \<and>
     distinct (map (\<lambda>u. (du_api_id u, du_usage_date u)) us)"

definition notes_ok :: "user list \<Rightarrow> notification list \<Rightarrow> bool" where
  "notes_ok us ns \<longleftrightarrow> distinct (map n_id ns) \<and> n_user_id ` set ns \<subseteq> u_id ` set us"

definition streams_ok :: "request_log list \<Rightarrow> audit_log list \<Rightarrow> telemetry_outbox list \<Rightarrow> bool" where
  "streams_ok gs as obs \<longleftrightarrow> distinct (map g_id gs) \<and> distinct (map al_id as) \<and>
     distinct (map ob_id obs)"

definition db_ok :: "db \<Rightarrow> bool" where
  "db_ok d \<longleftrightarrow> users_ok (db_users d) \<and> tokens_ok (db_users d) (db_tokens d) \<and>
     roles_ok (db_permissions d) (db_roles d) \<and> orgs_ok (db_orgs d) \<and>
     members_ok (db_users d) (db_roles d) (db_orgs d) (db_members d) \<and>
     apis_ok (db_orgs d) (db_apis d) \<and> versions_ok (db_apis d) (db_versions d) \<and>
     quotas_ok (db_apis d) (db_quotas d) \<and> rules_ok (db_apis d) (db_rules d) \<and>
     keys_ok (db_orgs d) (db_apis d) (db_keys d) \<and> usage_ok (db_keys d) (db_usage d) \<and>
     daily_ok (db_daily d) \<and> notes_ok (db_users d) (db_notes d) \<and>
     streams_ok (db_logs d) (db_audit d) (db_outbox d)"

lemmas table_ok_defs =
  users_ok_def tokens_ok_def roles_ok_def orgs_ok_def members_ok_def apis_ok_def versions_ok_def
  quotas_ok_def rules_ok_def keys_ok_def usage_ok_def daily_ok_def notes_ok_def streams_ok_def

lemma db_okD:
  assumes "db_ok d"
  shows "users_ok (db_users d)" "tokens_ok (db_users d) (db_tokens d)"
    "roles_ok (db_permissions d) (db_roles d)" "orgs_ok (db_orgs d)"
    "members_ok (db_users d) (db_roles d) (db_orgs d) (db_members d)"
    "apis_ok (db_orgs d) (db_apis d)" "versions_ok (db_apis d) (db_versions d)"
    "quotas_ok (db_apis d) (db_quotas d)" "rules_ok (db_apis d) (db_rules d)"
    "keys_ok (db_orgs d) (db_apis d) (db_keys d)" "usage_ok (db_keys d) (db_usage d)"
    "daily_ok (db_daily d)" "notes_ok (db_users d) (db_notes d)"
    "streams_ok (db_logs d) (db_audit d) (db_outbox d)"
  using assms by (simp_all add: db_ok_def)

lemma db_ok_empty: "db_ok empty_db"
  by (simp add: db_ok_def table_ok_defs empty_db_def)

text \<open>New rows in a referenced table never break a reference to it.\<close>

lemma ok_grow:
  "tokens_ok us ts \<Longrightarrow> tokens_ok (us @ us') ts"
  "members_ok us rs os ms \<Longrightarrow> members_ok (us @ us') rs os ms"
  "members_ok us rs os ms \<Longrightarrow> members_ok us (rs @ rs') os ms"
  "members_ok us rs os ms \<Longrightarrow> members_ok us rs (os @ os') ms"
  "apis_ok os as \<Longrightarrow> apis_ok (os @ os') as"
  "versions_ok as vs \<Longrightarrow> versions_ok (as @ as') vs"
  "quotas_ok as qs \<Longrightarrow> quotas_ok (as @ as') qs"
  "rules_ok as ls \<Longrightarrow> rules_ok (as @ as') ls"
  "keys_ok os as ks \<Longrightarrow> keys_ok (os @ os') as ks"
  "keys_ok os as ks \<Longrightarrow> keys_ok os (as @ as') ks"
  "usage_ok ks us2 \<Longrightarrow> usage_ok (ks @ ks') us2"
  "notes_ok us ns \<Longrightarrow> notes_ok (us @ us') ns"
  by (auto simp: table_ok_defs)

section \<open>INSERT\<close>

text \<open>\<open>session.add(row)\<close> and \<open>flush()\<close>: the row is appended when it fits, and an \<open>IntegrityError\<close>
  (a \<open>DataError\<close> for a value that does not fit its column, where a request can carry one) leaves the table as it was otherwise.\<close>

definition insert_row :: "(db \<Rightarrow> bool) \<Rightarrow> (db \<Rightarrow> db) \<Rightarrow> unit dbprog" where
  "insert_row fits app = (\<lambda>d. if fits d then (Inr (), app d) else (Inl IntegrityError, d))"

lemma insert_row_run [prog_simps]:
  "insert_row fits app d = (if fits d then (Inr (), app d) else (Inl IntegrityError, d))"
  by (simp add: insert_row_def)

lemma preserves_insert_row:
  "(\<And>d. P d \<Longrightarrow> fits d \<Longrightarrow> P (app d)) \<Longrightarrow> preserves P (insert_row fits app)"
  by (simp add: preserves_def prog_simps)

definition SLUG_LENGTH :: nat where "SLUG_LENGTH = 120"

text \<open>An \<open>Integer\<close> column is 32 bits wide.\<close>

definition int32 :: "int \<Rightarrow> bool" where
  "int32 i \<longleftrightarrow> - (2 ^ 31) \<le> i \<and> i < 2 ^ 31"

definition rule_fits :: "int \<Rightarrow> int \<Rightarrow> int option \<Rightarrow> bool" where
  "rule_fits requests window burst \<longleftrightarrow> int32 requests \<and> int32 window \<and>
     (case burst of None \<Rightarrow> True | Some b \<Rightarrow> int32 b)"

definition log_fits :: "request_log \<Rightarrow> bool" where
  "log_fits g \<longleftrightarrow> length (g_method g) \<le> 10 \<and> length (g_path g) \<le> 2048 \<and> length (g_client_ip g) \<le> 64 \<and>
     length (g_upstream_url g) \<le> 2048 \<and> int32 (g_status_code g) \<and> int32 (g_request_bytes g) \<and>
     int32 (g_response_bytes g)"

definition audit_fits :: "audit_log \<Rightarrow> bool" where
  "audit_fits a \<longleftrightarrow> length (al_action a) \<le> 100 \<and> length (al_resource_type a) \<le> 64 \<and>
     (case al_ip a of None \<Rightarrow> True | Some ip \<Rightarrow> length ip \<le> 64)"

definition add_user :: "user \<Rightarrow> unit dbprog" where
  "add_user u = insert_row
     (\<lambda>d. u_id u \<notin> u_id ` set (db_users d) \<and> u_email u \<notin> u_email ` set (db_users d))
     (\<lambda>d. d\<lparr>db_users := db_users d @ [u]\<rparr>)"

definition add_token :: "refresh_token \<Rightarrow> unit dbprog" where
  "add_token t = insert_row
     (\<lambda>d. rt_id t \<notin> rt_id ` set (db_tokens d) \<and> rt_token_hash t \<notin> rt_token_hash ` set (db_tokens d) \<and>
          rt_user_id t \<in> u_id ` set (db_users d))
     (\<lambda>d. d\<lparr>db_tokens := db_tokens d @ [t]\<rparr>)"

definition add_permission :: "permission_row \<Rightarrow> unit dbprog" where
  "add_permission p = insert_row
     (\<lambda>d. p_id p \<notin> p_id ` set (db_permissions d) \<and> p_code p \<notin> p_code ` set (db_permissions d))
     (\<lambda>d. d\<lparr>db_permissions := db_permissions d @ [p]\<rparr>)"

definition add_role :: "role \<Rightarrow> unit dbprog" where
  "add_role r = insert_row
     (\<lambda>d. r_id r \<notin> r_id ` set (db_roles d) \<and> r_name r \<notin> r_name ` set (db_roles d))
     (\<lambda>d. d\<lparr>db_roles := db_roles d @ [r]\<rparr>)"

definition add_org :: "organization \<Rightarrow> unit dbprog" where
  "add_org r = thenP (raise_if (SLUG_LENGTH < length (o_slug r)) DataError) (insert_row
     (\<lambda>d. o_id r \<notin> o_id ` set (db_orgs d) \<and> o_slug r \<notin> o_slug ` set (db_orgs d))
     (\<lambda>d. d\<lparr>db_orgs := db_orgs d @ [r]\<rparr>))"

definition add_member :: "organization_member \<Rightarrow> unit dbprog" where
  "add_member m = insert_row
     (\<lambda>d. m_id m \<notin> m_id ` set (db_members d) \<and>
          (m_user_id m, m_organization_id m) \<notin>
            (\<lambda>m. (m_user_id m, m_organization_id m)) ` set (db_members d) \<and>
          m_organization_id m \<in> o_id ` set (db_orgs d) \<and> m_user_id m \<in> u_id ` set (db_users d) \<and>
          m_role_id m \<in> r_id ` set (db_roles d))
     (\<lambda>d. d\<lparr>db_members := db_members d @ [m]\<rparr>)"

definition add_api :: "api \<Rightarrow> unit dbprog" where
  "add_api a = thenP (raise_if (SLUG_LENGTH < length (a_slug a)) DataError) (insert_row
     (\<lambda>d. a_id a \<notin> a_id ` set (db_apis d) \<and>
          (a_slug a, a_organization_id a) \<notin> (\<lambda>a. (a_slug a, a_organization_id a)) ` set (db_apis d) \<and>
          a_organization_id a \<in> o_id ` set (db_orgs d))
     (\<lambda>d. d\<lparr>db_apis := db_apis d @ [a]\<rparr>))"

definition add_version_row :: "api_version \<Rightarrow> unit dbprog" where
  "add_version_row v = thenP (raise_if (2048 < length (v_upstream_base_url v)) DataError) (insert_row
     (\<lambda>d. v_id v \<notin> v_id ` set (db_versions d) \<and>
          (v_api_id v, v_version v) \<notin> (\<lambda>v. (v_api_id v, v_version v)) ` set (db_versions d) \<and>
          v_api_id v \<in> a_id ` set (db_apis d))
     (\<lambda>d. d\<lparr>db_versions := db_versions d @ [v]\<rparr>))"

definition add_quota :: "quota \<Rightarrow> unit dbprog" where
  "add_quota q = thenP (raise_if (\<not> int32 (q_max_requests q)) DataError) (insert_row
     (\<lambda>d. q_id q \<notin> q_id ` set (db_quotas d) \<and>
          (q_api_id q, q_period q) \<notin> (\<lambda>q. (q_api_id q, q_period q)) ` set (db_quotas d) \<and>
          q_api_id q \<in> a_id ` set (db_apis d))
     (\<lambda>d. d\<lparr>db_quotas := db_quotas d @ [q]\<rparr>))"

definition add_rule :: "rate_limit_rule \<Rightarrow> unit dbprog" where
  "add_rule l = thenP (raise_if (\<not> rule_fits (l_requests l) (l_window_seconds l) (l_burst l)) DataError) (insert_row
     (\<lambda>d. l_id l \<notin> l_id ` set (db_rules d) \<and> l_api_id l \<notin> l_api_id ` set (db_rules d) \<and>
          l_api_id l \<in> a_id ` set (db_apis d))
     (\<lambda>d. d\<lparr>db_rules := db_rules d @ [l]\<rparr>))"

definition add_key :: "api_key \<Rightarrow> unit dbprog" where
  "add_key k = insert_row
     (\<lambda>d. k_id k \<notin> k_id ` set (db_keys d) \<and> k_key_hash k \<notin> k_key_hash ` set (db_keys d) \<and>
          k_api_id k \<in> a_id ` set (db_apis d) \<and> k_organization_id k \<in> o_id ` set (db_orgs d))
     (\<lambda>d. d\<lparr>db_keys := db_keys d @ [k]\<rparr>)"

definition add_log :: "request_log \<Rightarrow> unit dbprog" where
  "add_log g = thenP (raise_if (\<not> log_fits g) DataError) (insert_row (\<lambda>d. g_id g \<notin> g_id ` set (db_logs d))
     (\<lambda>d. d\<lparr>db_logs := db_logs d @ [g]\<rparr>))"

definition add_audit :: "audit_log \<Rightarrow> unit dbprog" where
  "add_audit a = thenP (raise_if (\<not> audit_fits a) DataError) (insert_row (\<lambda>d. al_id a \<notin> al_id ` set (db_audit d))
     (\<lambda>d. d\<lparr>db_audit := db_audit d @ [a]\<rparr>))"

definition add_outbox :: "telemetry_outbox \<Rightarrow> unit dbprog" where
  "add_outbox r = insert_row (\<lambda>d. ob_id r \<notin> ob_id ` set (db_outbox d))
     (\<lambda>d. d\<lparr>db_outbox := db_outbox d @ [r]\<rparr>)"

definition daily_fits :: "daily_usage \<Rightarrow> bool" where
  "daily_fits u \<longleftrightarrow> int32 (du_request_count u) \<and> int32 (du_error_count u) \<and>
     int32 (du_total_request_bytes u) \<and> int32 (du_total_response_bytes u)"

definition add_daily :: "daily_usage \<Rightarrow> unit dbprog" where
  "add_daily u = thenP (raise_if (\<not> daily_fits u) DataError) (insert_row
     (\<lambda>d. du_id u \<notin> du_id ` set (db_daily d) \<and>
          (du_api_id u, du_usage_date u) \<notin> (\<lambda>u. (du_api_id u, du_usage_date u)) ` set (db_daily d))
     (\<lambda>d. d\<lparr>db_daily := db_daily d @ [u]\<rparr>))"

definition add_note :: "notification \<Rightarrow> unit dbprog" where
  "add_note n = insert_row
     (\<lambda>d. n_id n \<notin> n_id ` set (db_notes d) \<and> n_user_id n \<in> u_id ` set (db_users d))
     (\<lambda>d. d\<lparr>db_notes := db_notes d @ [n]\<rparr>)"

lemmas add_defs =
  add_user_def add_token_def add_permission_def add_role_def add_org_def add_member_def add_api_def
  add_version_row_def add_quota_def add_rule_def add_key_def add_log_def add_audit_def
  add_outbox_def add_daily_def add_note_def

section \<open>DELETE with its cascades\<close>

text \<open>\<open>ON DELETE CASCADE\<close> from \<open>api_keys\<close> to \<open>api_key_usage\<close>, and from \<open>apis\<close> to its versions,
  quotas, rate-limit rule and keys.\<close>

definition delete_keys_where :: "(api_key \<Rightarrow> bool) \<Rightarrow> db \<Rightarrow> db" where
  "delete_keys_where P d = d\<lparr>
     db_usage := delete_where (\<lambda>u. ku_api_key_id u \<in> k_id ` {k \<in> set (db_keys d). P k}) (db_usage d),
     db_keys := delete_where P (db_keys d)\<rparr>"

definition delete_apis_where :: "(api \<Rightarrow> bool) \<Rightarrow> db \<Rightarrow> db" where
  "delete_apis_where P d =
     (let gone = a_id ` {a \<in> set (db_apis d). P a};
          d1 = delete_keys_where (\<lambda>k. k_api_id k \<in> gone) d
      in d1\<lparr>db_versions := delete_where (\<lambda>v. v_api_id v \<in> gone) (db_versions d1),
            db_quotas := delete_where (\<lambda>q. q_api_id q \<in> gone) (db_quotas d1),
            db_rules := delete_where (\<lambda>l. l_api_id l \<in> gone) (db_rules d1),
            db_apis := delete_where P (db_apis d1)\<rparr>)"

definition delete_org_row :: "uuid \<Rightarrow> db \<Rightarrow> db" where
  "delete_org_row oid d =
     (let d1 = delete_apis_where (\<lambda>a. a_organization_id a = oid) d;
          d2 = delete_keys_where (\<lambda>k. k_organization_id k = oid) d1
      in d2\<lparr>db_members := delete_where (\<lambda>m. m_organization_id m = oid) (db_members d2),
            db_orgs := delete_where (\<lambda>r. o_id r = oid) (db_orgs d2)\<rparr>)"

lemma fk_delete_children:
  "f ` set xs \<subseteq> g ` set ys \<Longrightarrow>
   f ` set (delete_where (\<lambda>x. f x \<in> g ` {y \<in> set ys. P y}) xs) \<subseteq> g ` set (delete_where P ys)"
  by (force simp: table_simps)

lemma fk_delete_parent:
  "f ` set xs \<subseteq> g ` set ys \<Longrightarrow>
   f ` set (delete_where (\<lambda>x. f x = v) xs) \<subseteq> g ` set (delete_where (\<lambda>y. g y = v) ys)"
  by (force simp: table_simps)

lemma fk_delete: "f ` set xs \<subseteq> A \<Longrightarrow> f ` set (delete_where P xs) \<subseteq> A"
  by (auto simp: table_simps)

lemma db_ok_delete_keys: "db_ok d \<Longrightarrow> db_ok (delete_keys_where P d)"
  by (simp add: db_ok_def delete_keys_where_def)
     (simp add: keys_ok_def usage_ok_def distinct_delete_where fk_delete fk_delete_children)

lemma delete_keys_frame [simp]:
  "db_apis (delete_keys_where P d) = db_apis d" "db_orgs (delete_keys_where P d) = db_orgs d"
  "db_members (delete_keys_where P d) = db_members d"
  "db_keys (delete_keys_where P d) = delete_where P (db_keys d)"
  by (simp_all add: delete_keys_where_def)

lemma delete_apis_frame [simp]:
  "db_apis (delete_apis_where P d) = delete_where P (db_apis d)"
  "db_orgs (delete_apis_where P d) = db_orgs d"
  "db_members (delete_apis_where P d) = db_members d"
  by (simp_all add: delete_apis_where_def Let_def)

lemma db_ok_delete_apis:
  assumes ok: "db_ok d"
  shows "db_ok (delete_apis_where P d)"
proof -
  let ?gone = "a_id ` {a \<in> set (db_apis d). P a}"
  let ?d1 = "delete_keys_where (\<lambda>k. k_api_id k \<in> ?gone) d"
  let ?as = "delete_where P (db_apis d)"
  have ok1: "db_ok ?d1" by (rule db_ok_delete_keys [OF ok])
  have "keys_ok (db_orgs d) ?as (db_keys ?d1)"
    using db_okD(10) [OF ok]
    by (simp add: keys_ok_def fk_delete_children distinct_delete_where fk_delete)
  moreover have "versions_ok ?as (delete_where (\<lambda>v. v_api_id v \<in> ?gone) (db_versions ?d1))"
    using db_okD(7) [OF ok1] by (simp add: versions_ok_def fk_delete_children distinct_delete_where)
  moreover have "quotas_ok ?as (delete_where (\<lambda>q. q_api_id q \<in> ?gone) (db_quotas ?d1))"
    using db_okD(8) [OF ok1] by (simp add: quotas_ok_def fk_delete_children distinct_delete_where)
  moreover have "rules_ok ?as (delete_where (\<lambda>l. l_api_id l \<in> ?gone) (db_rules ?d1))"
    using db_okD(9) [OF ok1] by (simp add: rules_ok_def fk_delete_children distinct_delete_where)
  moreover have "apis_ok (db_orgs d) ?as"
    using db_okD(6) [OF ok] by (simp add: apis_ok_def distinct_delete_where fk_delete)
  ultimately show ?thesis
    using ok1 by (simp add: db_ok_def delete_apis_where_def Let_def)
qed

lemma db_ok_delete_org:
  assumes ok: "db_ok d"
  shows "db_ok (delete_org_row oid d)"
proof -
  let ?d1 = "delete_apis_where (\<lambda>a. a_organization_id a = oid) d"
  let ?d2 = "delete_keys_where (\<lambda>k. k_organization_id k = oid) ?d1"
  let ?os = "delete_where (\<lambda>r. o_id r = oid) (db_orgs d)"
  have ok1: "db_ok ?d1" by (rule db_ok_delete_apis [OF ok])
  have ok2: "db_ok ?d2" by (rule db_ok_delete_keys [OF ok1])
  have "keys_ok ?os (db_apis ?d2) (db_keys ?d2)"
    using db_okD(10) [OF ok1] by (simp add: keys_ok_def distinct_delete_where fk_delete fk_delete_parent)
  moreover have "apis_ok ?os (db_apis ?d2)"
    using db_okD(6) [OF ok] by (simp add: apis_ok_def distinct_delete_where fk_delete_parent)
  moreover have "members_ok (db_users ?d2) (db_roles ?d2) ?os
      (delete_where (\<lambda>m. m_organization_id m = oid) (db_members ?d2))"
    using db_okD(5) [OF ok2] by (simp add: members_ok_def distinct_delete_where fk_delete fk_delete_parent)
  moreover have "orgs_ok ?os"
    using db_okD(4) [OF ok] by (simp add: orgs_ok_def distinct_delete_where)
  ultimately show ?thesis
    using ok2 by (simp add: db_ok_def delete_org_row_def Let_def)
qed

section \<open>Every INSERT keeps the constraints\<close>

lemma db_ok_add [prog_keeps]:
  "preserves db_ok (add_user u)" "preserves db_ok (add_token t)"
  "preserves db_ok (add_permission p)" "preserves db_ok (add_role r)"
  "preserves db_ok (add_org g)" "preserves db_ok (add_member m)" "preserves db_ok (add_api a)"
  "preserves db_ok (add_version_row v)" "preserves db_ok (add_quota q)"
  "preserves db_ok (add_rule l)" "preserves db_ok (add_key k)" "preserves db_ok (add_log lg)"
  "preserves db_ok (add_audit al)" "preserves db_ok (add_outbox b)"
  "preserves db_ok (add_daily du)" "preserves db_ok (add_note n)"
  unfolding add_defs thenP_def
  by (intro preserves_bindP preserves_raise_if preserves_insert_row;
      simp add: db_ok_def ok_grow; simp add: table_ok_defs)+

text \<open>An UPDATE that touches no key column keeps them as well: one lemma per table the code
  updates.\<close>

lemma db_ok_update_users:
  assumes "db_ok d" "\<And>x. u_id (f x) = u_id x" "\<And>x. u_email (f x) = u_email x"
  shows "db_ok (d\<lparr>db_users := update_where P f (db_users d)\<rparr>)"
proof -
  have ids: "u_id ` set (update_where P f (db_users d)) = u_id ` set (db_users d)"
    by (metis assms(2) list.set_map map_update_where)
  show ?thesis
    using assms by (simp add: db_ok_def table_ok_defs map_update_where ids)
qed

lemma db_ok_update_tokens:
  assumes "db_ok d" "\<And>x. rt_id (f x) = rt_id x" "\<And>x. rt_token_hash (f x) = rt_token_hash x"
    "\<And>x. rt_user_id (f x) = rt_user_id x"
  shows "db_ok (d\<lparr>db_tokens := update_where P f (db_tokens d)\<rparr>)"
proof -
  have ids: "rt_user_id ` set (update_where P f (db_tokens d)) = rt_user_id ` set (db_tokens d)"
    by (metis assms(4) list.set_map map_update_where)
  show ?thesis
    using assms by (simp add: db_ok_def tokens_ok_def map_update_where ids)
qed

lemma db_ok_update_orgs:
  assumes "db_ok d" "\<And>x. o_id (f x) = o_id x" "\<And>x. o_slug (f x) = o_slug x"
  shows "db_ok (d\<lparr>db_orgs := update_where P f (db_orgs d)\<rparr>)"
proof -
  have ids: "o_id ` set (update_where P f (db_orgs d)) = o_id ` set (db_orgs d)"
    by (metis assms(2) list.set_map map_update_where)
  show ?thesis
    using assms by (simp add: db_ok_def orgs_ok_def members_ok_def apis_ok_def keys_ok_def
        map_update_where ids)
qed

lemma db_ok_update_apis:
  assumes "db_ok d" "\<And>x. a_id (f x) = a_id x" "\<And>x. a_slug (f x) = a_slug x"
    "\<And>x. a_organization_id (f x) = a_organization_id x"
  shows "db_ok (d\<lparr>db_apis := update_where P f (db_apis d)\<rparr>)"
proof -
  have ids: "a_id ` set (update_where P f (db_apis d)) = a_id ` set (db_apis d)"
    and orgs: "a_organization_id ` set (update_where P f (db_apis d)) =
      a_organization_id ` set (db_apis d)"
    by (metis assms(2) list.set_map map_update_where, metis assms(4) list.set_map map_update_where)
  show ?thesis
    using assms by (simp add: db_ok_def apis_ok_def versions_ok_def quotas_ok_def rules_ok_def
        keys_ok_def map_update_where ids orgs)
qed

lemma db_ok_update_keys:
  assumes "db_ok d" "\<And>x. k_id (f x) = k_id x" "\<And>x. k_key_hash (f x) = k_key_hash x"
    "\<And>x. k_api_id (f x) = k_api_id x" "\<And>x. k_organization_id (f x) = k_organization_id x"
  shows "db_ok (d\<lparr>db_keys := update_where P f (db_keys d)\<rparr>)"
proof -
  have ids: "k_id ` set (update_where P f (db_keys d)) = k_id ` set (db_keys d)"
    "k_api_id ` set (update_where P f (db_keys d)) = k_api_id ` set (db_keys d)"
    "k_organization_id ` set (update_where P f (db_keys d)) = k_organization_id ` set (db_keys d)"
    by (metis assms(2) list.set_map map_update_where, metis assms(4) list.set_map map_update_where,
        metis assms(5) list.set_map map_update_where)
  show ?thesis
    using assms by (simp add: db_ok_def keys_ok_def usage_ok_def map_update_where ids)
qed

lemma db_ok_update_outbox:
  assumes "db_ok d" "\<And>x. ob_id (f x) = ob_id x"
  shows "db_ok (d\<lparr>db_outbox := update_where P f (db_outbox d)\<rparr>)"
  using assms by (simp add: db_ok_def streams_ok_def map_update_where)

lemma db_ok_update_notes:
  assumes "db_ok d" "\<And>x. n_id (f x) = n_id x" "\<And>x. n_user_id (f x) = n_user_id x"
  shows "db_ok (d\<lparr>db_notes := update_where P f (db_notes d)\<rparr>)"
proof -
  have ids: "n_user_id ` set (update_where P f (db_notes d)) = n_user_id ` set (db_notes d)"
    by (metis assms(3) list.set_map map_update_where)
  show ?thesis
    using assms by (simp add: db_ok_def notes_ok_def map_update_where ids)
qed

lemma db_ok_update_rules:
  assumes "db_ok d" "\<And>x. l_id (f x) = l_id x" "\<And>x. l_api_id (f x) = l_api_id x"
  shows "db_ok (d\<lparr>db_rules := update_where P f (db_rules d)\<rparr>)"
proof -
  have ids: "l_api_id ` set (update_where P f (db_rules d)) = l_api_id ` set (db_rules d)"
    by (metis assms(3) list.set_map map_update_where)
  show ?thesis
    using assms by (simp add: db_ok_def rules_ok_def map_update_where ids)
qed

lemma db_ok_update_usage:
  assumes "db_ok d" "\<And>x. ku_id (f x) = ku_id x" "\<And>x. ku_api_key_id (f x) = ku_api_key_id x"
    "\<And>x. ku_usage_date (f x) = ku_usage_date x"
  shows "db_ok (d\<lparr>db_usage := update_where P f (db_usage d)\<rparr>)"
proof -
  have ids: "ku_api_key_id ` set (update_where P f (db_usage d)) = ku_api_key_id ` set (db_usage d)"
    by (metis assms(3) list.set_map map_update_where)
  show ?thesis
    using assms by (simp add: db_ok_def usage_ok_def map_update_where ids)
qed

end
