(* ===== verification/Redis.thy ===== *)
theory Redis
  imports Prelude
begin

text \<open>
  The Redis server is a service the code calls, not code of the repository: the operations the
  scripts and services use are the fields of an argument \<open>R\<close>, and what Redis documents about them
  is the locale \<open>redis_server\<close>. The locale speaks of a server state through \<open>view\<close>, the keys with
  their values and expiry deadlines; a key whose deadline is past is dead, and every command
  treats it as absent. Each command takes the server's own clock (milliseconds) as its first
  argument. \<open>mem_redis\<close>, an in-memory server with that behaviour, satisfies the laws, so they can
  hold, and is what concrete evaluations run on.
\<close>

datatype rval = RInt int | RZset "(string \<times> int) list" | RHash "(string \<times> rat) list"

type_synonym store = "string \<Rightarrow> (rval \<times> int option) option"

definition live :: "store \<Rightarrow> int \<Rightarrow> string \<Rightarrow> (rval \<times> int option) option" where
  "live st t k = (case st k of
     Some (v, Some d) \<Rightarrow> if d \<le> t then None else Some (v, Some d)
   | r \<Rightarrow> r)"

definition deadline_at :: "store \<Rightarrow> int \<Rightarrow> string \<Rightarrow> int option" where
  "deadline_at st t k = (case live st t k of None \<Rightarrow> None | Some (v, d) \<Rightarrow> d)"

definition counter_at :: "store \<Rightarrow> int \<Rightarrow> string \<Rightarrow> int" where
  "counter_at st t k = (case live st t k of Some (RInt n, d) \<Rightarrow> n | _ \<Rightarrow> 0)"

definition zset_at :: "store \<Rightarrow> int \<Rightarrow> string \<Rightarrow> (string \<times> int) list" where
  "zset_at st t k = (case live st t k of Some (RZset z, d) \<Rightarrow> z | _ \<Rightarrow> [])"

definition hash_at :: "store \<Rightarrow> int \<Rightarrow> string \<Rightarrow> (string \<times> rat) list" where
  "hash_at st t k = (case live st t k of Some (RHash h, d) \<Rightarrow> h | _ \<Rightarrow> [])"

text \<open>A command on a key of another type is an error; the laws are stated for a key that is absent
  or of the command's type.\<close>

definition is_counter :: "store \<Rightarrow> int \<Rightarrow> string \<Rightarrow> bool" where
  "is_counter st t k \<longleftrightarrow> (case live st t k of None \<Rightarrow> True | Some (RInt n, d) \<Rightarrow> True | _ \<Rightarrow> False)"

definition is_zset :: "store \<Rightarrow> int \<Rightarrow> string \<Rightarrow> bool" where
  "is_zset st t k \<longleftrightarrow> (case live st t k of None \<Rightarrow> True | Some (RZset z, d) \<Rightarrow> True | _ \<Rightarrow> False)"

definition is_hash :: "store \<Rightarrow> int \<Rightarrow> string \<Rightarrow> bool" where
  "is_hash st t k \<longleftrightarrow> (case live st t k of None \<Rightarrow> True | Some (RHash h, d) \<Rightarrow> True | _ \<Rightarrow> False)"

lemmas live_defs =
  deadline_at_def counter_at_def zset_at_def hash_at_def is_counter_def is_zset_def is_hash_def

definition zput :: "string \<Rightarrow> int \<Rightarrow> (string \<times> int) list \<Rightarrow> (string \<times> int) list" where
  "zput m sc z = filter (\<lambda>e. fst e \<noteq> m) z @ [(m, sc)]"

definition put_expiry :: "store \<Rightarrow> int \<Rightarrow> string \<Rightarrow> int \<Rightarrow> store" where
  "put_expiry st t k dl = (case live st t k of None \<Rightarrow> st | Some (v, d) \<Rightarrow> st(k \<mapsto> (v, Some dl)))"

definition put_zset :: "store \<Rightarrow> int \<Rightarrow> string \<Rightarrow> (string \<times> int) list \<Rightarrow> store" where
  "put_zset st t k z = (if z = [] then st(k := None) else st(k \<mapsto> (RZset z, deadline_at st t k)))"

record 'r redis_api =
  r_incr :: "int \<Rightarrow> string \<Rightarrow> 'r \<Rightarrow> int \<times> 'r"
  r_decr :: "int \<Rightarrow> string \<Rightarrow> 'r \<Rightarrow> int \<times> 'r"
  r_pexpire :: "int \<Rightarrow> string \<Rightarrow> int \<Rightarrow> 'r \<Rightarrow> 'r"
  r_expire :: "int \<Rightarrow> string \<Rightarrow> int \<Rightarrow> 'r \<Rightarrow> 'r"
  r_pttl :: "int \<Rightarrow> string \<Rightarrow> 'r \<Rightarrow> int"
  r_ttl :: "int \<Rightarrow> string \<Rightarrow> 'r \<Rightarrow> int"
  r_zremrangebyscore :: "int \<Rightarrow> string \<Rightarrow> int \<Rightarrow> int \<Rightarrow> 'r \<Rightarrow> 'r"
  r_zcard :: "int \<Rightarrow> string \<Rightarrow> 'r \<Rightarrow> int"
  r_zadd :: "int \<Rightarrow> string \<Rightarrow> int \<Rightarrow> string \<Rightarrow> 'r \<Rightarrow> 'r"
  r_zfirst :: "int \<Rightarrow> string \<Rightarrow> 'r \<Rightarrow> (string \<times> int) option"
  r_hget :: "int \<Rightarrow> string \<Rightarrow> string \<Rightarrow> 'r \<Rightarrow> rat option"
  r_hset :: "int \<Rightarrow> string \<Rightarrow> (string \<times> rat) list \<Rightarrow> 'r \<Rightarrow> 'r"

definition pttl_of :: "store \<Rightarrow> int \<Rightarrow> string \<Rightarrow> int" where
  "pttl_of st t k = (case live st t k of None \<Rightarrow> -2 | Some (v, None) \<Rightarrow> -1 | Some (v, Some d) \<Rightarrow> d - t)"

definition ttl_of :: "store \<Rightarrow> int \<Rightarrow> string \<Rightarrow> int" where
  "ttl_of st t k = (let p = pttl_of st t k in if p < 0 then p else (p + 500) div 1000)"

definition hmerge :: "(string \<times> rat) list \<Rightarrow> (string \<times> rat) list \<Rightarrow> (string \<times> rat) list" where
  "hmerge fvs h = fvs @ filter (\<lambda>e. fst e \<notin> fst ` set fvs) h"

text \<open>The entry \<open>ZRANGE key 0 0 WITHSCORES\<close> returns: one with the least score.\<close>

fun zmin :: "(string \<times> int) list \<Rightarrow> (string \<times> int) option" where
  "zmin [] = None"
| "zmin (e # es) = (case zmin es of None \<Rightarrow> Some e
     | Some f \<Rightarrow> if snd e \<le> snd f then Some e else Some f)"

lemma zmin_None [simp]: "zmin z = None \<longleftrightarrow> z = []"
  by (cases z) (auto split: option.splits)

lemma zmin_least: "zmin z = Some e \<Longrightarrow> e \<in> set z \<and> (\<forall>f \<in> set z. snd e \<le> snd f)"
  by (induction z arbitrary: e) (fastforce split: option.splits if_splits)+

locale redis_server =
  fixes R :: "'r redis_api"
    and view :: "'r \<Rightarrow> store"
  assumes incr_val: "is_counter (view s) t k \<Longrightarrow> fst (r_incr R t k s) = counter_at (view s) t k + 1"
    and incr_view: "is_counter (view s) t k \<Longrightarrow> view (snd (r_incr R t k s)) =
      (view s)(k \<mapsto> (RInt (counter_at (view s) t k + 1), deadline_at (view s) t k))"
    and decr_val: "is_counter (view s) t k \<Longrightarrow> fst (r_decr R t k s) = counter_at (view s) t k - 1"
    and decr_view: "is_counter (view s) t k \<Longrightarrow> view (snd (r_decr R t k s)) =
      (view s)(k \<mapsto> (RInt (counter_at (view s) t k - 1), deadline_at (view s) t k))"
    and pexpire_view: "0 < ms \<Longrightarrow> view (r_pexpire R t k ms s) = put_expiry (view s) t k (t + ms)"
    and expire_view: "0 < sec \<Longrightarrow> view (r_expire R t k sec s) = put_expiry (view s) t k (t + 1000 * sec)"
    and pttl_val: "r_pttl R t k s = pttl_of (view s) t k"
    and ttl_val: "r_ttl R t k s = ttl_of (view s) t k"
    and zrem_view: "is_zset (view s) t k \<Longrightarrow> view (r_zremrangebyscore R t k lo hi s) =
      put_zset (view s) t k (filter (\<lambda>e. \<not> (lo \<le> snd e \<and> snd e \<le> hi)) (zset_at (view s) t k))"
    and zcard_val: "is_zset (view s) t k \<Longrightarrow> r_zcard R t k s = int (length (zset_at (view s) t k))"
    and zadd_view: "is_zset (view s) t k \<Longrightarrow> view (r_zadd R t k sc m s) =
      put_zset (view s) t k (zput m sc (zset_at (view s) t k))"
    and zfirst_none: "is_zset (view s) t k \<Longrightarrow> r_zfirst R t k s = None \<longleftrightarrow> zset_at (view s) t k = []"
    and zfirst_some: "is_zset (view s) t k \<Longrightarrow> r_zfirst R t k s = Some e \<Longrightarrow>
      e \<in> set (zset_at (view s) t k) \<and> (\<forall>f \<in> set (zset_at (view s) t k). snd e \<le> snd f)"
    and hget_val: "is_hash (view s) t k \<Longrightarrow> r_hget R t k f s = map_of (hash_at (view s) t k) f"
    and hset_view: "is_hash (view s) t k \<Longrightarrow> view (r_hset R t k fvs s) =
      (view s)(k \<mapsto> (RHash (hmerge fvs (hash_at (view s) t k)), deadline_at (view s) t k))"

text \<open>An in-memory server.\<close>

definition mem_redis :: "store redis_api" where
  "mem_redis = \<lparr>
     r_incr = (\<lambda>t k s. (counter_at s t k + 1,
        s(k \<mapsto> (RInt (counter_at s t k + 1), deadline_at s t k)))),
     r_decr = (\<lambda>t k s. (counter_at s t k - 1,
        s(k \<mapsto> (RInt (counter_at s t k - 1), deadline_at s t k)))),
     r_pexpire = (\<lambda>t k ms s. if 0 < ms then put_expiry s t k (t + ms) else s(k := None)),
     r_expire = (\<lambda>t k sec s. if 0 < sec then put_expiry s t k (t + 1000 * sec) else s(k := None)),
     r_pttl = (\<lambda>t k s. pttl_of s t k),
     r_ttl = (\<lambda>t k s. ttl_of s t k),
     r_zremrangebyscore = (\<lambda>t k lo hi s.
        put_zset s t k (filter (\<lambda>e. \<not> (lo \<le> snd e \<and> snd e \<le> hi)) (zset_at s t k))),
     r_zcard = (\<lambda>t k s. int (length (zset_at s t k))),
     r_zadd = (\<lambda>t k sc m s. put_zset s t k (zput m sc (zset_at s t k))),
     r_zfirst = (\<lambda>t k s. zmin (zset_at s t k)),
     r_hget = (\<lambda>t k f s. map_of (hash_at s t k) f),
     r_hset = (\<lambda>t k fvs s. s(k \<mapsto> (RHash (hmerge fvs (hash_at s t k)), deadline_at s t k))) \<rparr>"

interpretation mem: redis_server mem_redis "\<lambda>s. s"
  by unfold_locales (auto simp: mem_redis_def dest: zmin_least)

section \<open>Looking at a store after a command\<close>

lemma live_upd_same [simp]:
  "live (st(k \<mapsto> (v, None))) t k = Some (v, None)"
  "live (st(k \<mapsto> (v, Some d))) t k = (if d \<le> t then None else Some (v, Some d))"
  "live (st(k := None)) t k = None"
  by (simp_all add: live_def)

lemma live_upd_other [simp]: "k' \<noteq> k \<Longrightarrow> live (st(k := x)) t k' = live st t k'"
  by (simp add: live_def)

lemma live_put_expiry_other [simp]: "k' \<noteq> k \<Longrightarrow> live (put_expiry st t k dl) u k' = live st u k'"
  by (simp add: put_expiry_def live_def split: option.splits prod.splits)

lemma live_put_zset_other [simp]: "k' \<noteq> k \<Longrightarrow> live (put_zset st t k z) u k' = live st u k'"
  by (simp add: put_zset_def live_def)

lemma live_deadline: "live st t k = Some (v, Some d) \<Longrightarrow> t < d"
  by (auto simp: live_def split: option.splits prod.splits if_splits)

lemma live_later: "live st t k = Some (v, d) \<Longrightarrow> t \<le> u \<Longrightarrow>
   live st u k = (case d of None \<Rightarrow> Some (v, None) | Some e \<Rightarrow> if e \<le> u then None else Some (v, d))"
  by (auto simp: live_def split: option.splits prod.splits if_splits)

lemma live_dead_later: "live st t k = None \<Longrightarrow> t \<le> u \<Longrightarrow> live st u k = None"
  by (auto simp: live_def split: option.splits prod.splits if_splits)

end
