(* ===== verification/Clock.thy ===== *)
theory Clock
  imports Models
begin

text \<open>
  \<open>datetime\<close> of Python's standard library as the code uses it: the civil fields of a UTC time, the
  proleptic Gregorian calendar that places them on the time line, \<open>replace\<close> and the difference of
  two times. A clock is the sequence of values successive calls of \<open>datetime.now(UTC)\<close> return.
\<close>

record datetime =
  dt_year :: int
  dt_month :: int
  dt_day :: int
  dt_hour :: int
  dt_minute :: int
  dt_second :: int
  dt_microsecond :: int

type_synonym clock = "nat \<Rightarrow> datetime"

definition is_leap :: "int \<Rightarrow> bool" where
  "is_leap y \<longleftrightarrow> y mod 4 = 0 \<and> (y mod 100 \<noteq> 0 \<or> y mod 400 = 0)"

definition days_in_month :: "int \<Rightarrow> int \<Rightarrow> int" where
  "days_in_month y m =
     (if m = 2 then (if is_leap y then 29 else 28)
      else if m = 4 \<or> m = 6 \<or> m = 9 \<or> m = 11 then 30 else 31)"

definition days_before_year :: "int \<Rightarrow> int" where
  "days_before_year y = (y - 1) * 365 + (y - 1) div 4 - (y - 1) div 100 + (y - 1) div 400"

definition days_before_month :: "int \<Rightarrow> int \<Rightarrow> int" where
  "days_before_month y m = sum_list (map (\<lambda>k. days_in_month y (int k)) [1..<nat m])"

definition ymd_to_ordinal :: "int \<Rightarrow> int \<Rightarrow> int \<Rightarrow> int" where
  "ymd_to_ordinal y m d = days_before_year y + days_before_month y m + d"

definition EPOCH_ORDINAL :: int where "EPOCH_ORDINAL = 719163"

definition second_of_day :: "datetime \<Rightarrow> int" where
  "second_of_day t = dt_hour t * 3600 + dt_minute t * 60 + dt_second t"

definition day_number :: "datetime \<Rightarrow> date" where
  "day_number t = ymd_to_ordinal (dt_year t) (dt_month t) (dt_day t) - EPOCH_ORDINAL"

definition instant_of :: "datetime \<Rightarrow> instant" where
  "instant_of t = day_number t * us_per_day + second_of_day t * us_per_second + dt_microsecond t"

definition valid_datetime :: "datetime \<Rightarrow> bool" where
  "valid_datetime t \<longleftrightarrow> 1 \<le> dt_year t \<and> 1 \<le> dt_month t \<and> dt_month t \<le> 12 \<and> 1 \<le> dt_day t \<and>
     dt_day t \<le> days_in_month (dt_year t) (dt_month t) \<and> 0 \<le> dt_hour t \<and> dt_hour t < 24 \<and>
     0 \<le> dt_minute t \<and> dt_minute t < 60 \<and> 0 \<le> dt_second t \<and> dt_second t < 60 \<and>
     0 \<le> dt_microsecond t \<and> dt_microsecond t < 1000000"

text \<open>The day a time falls on, as \<open>.date()\<close> gives it, agrees with dividing its instant by the
  length of a day.\<close>

lemma second_of_day_bounds:
  assumes "valid_datetime t"
  shows "0 \<le> second_of_day t" "second_of_day t < 86400"
  using assms by (auto simp: valid_datetime_def second_of_day_def)

lemma date_of_instant: 
  assumes "valid_datetime t"
  shows "date_of (instant_of t) = day_number t"
proof -
  let ?r = "second_of_day t * us_per_second + dt_microsecond t"
  have "0 \<le> ?r" "?r < us_per_day"
    using second_of_day_bounds [OF assms] assms
    by (auto simp: valid_datetime_def us_per_second_def us_per_day_def)
  then have "?r div us_per_day = 0" by simp
  then show ?thesis
    by (simp add: date_of_def instant_of_def us_per_day_def add.assoc)
qed

lemma days_in_month_pos: "28 \<le> days_in_month y m" "days_in_month y m \<le> 31"
  by (auto simp: days_in_month_def)

lemma days_before_next_month:
  "1 \<le> m \<Longrightarrow> days_before_month y (m + 1) = days_before_month y m + days_in_month y m"
proof -
  assume m: "1 \<le> m"
  then have "[1..<nat (m + 1)] = [1..<nat m] @ [nat m]"
    by (simp add: nat_add_distrib upt_Suc_append)
  with m show ?thesis by (simp add: days_before_month_def)
qed

lemma div_pred:
  assumes "0 < (k::int)"
  shows "y div k = (y - 1) div k + (if y mod k = 0 then 1 else 0)"
proof (cases "y mod k = 0")
  case True
  have "y - 1 = k * (y div k - 1) + (k - 1)"
    using mult_div_mod_eq [of k y] True by (simp add: right_diff_distrib)
  then have "(y - 1) div k = y div k - 1"
    by (rule int_div_pos_eq) (use assms in simp_all)
  with True show ?thesis by simp
next
  case False
  have "y - 1 = k * (y div k) + (y mod k - 1)"
    using mult_div_mod_eq [of k y] by simp
  moreover have "0 \<le> y mod k - 1" "y mod k - 1 < k"
    using pos_mod_bound [OF assms, of y] pos_mod_sign [OF assms, of y] False by linarith+
  ultimately have "(y - 1) div k = y div k"
    by (rule int_div_pos_eq)
  with False show ?thesis by simp
qed

lemma diff_quot:
  "y * 365 + a - b + c - ((y - 1) * 365 + a' - b' + c') =
   365 + (a - a') - (b - b') + (c - c')"
  for y a b c a' b' c' :: int
  by (simp add: algebra_simps)

lemma leap_count:
  "(B \<Longrightarrow> A) \<Longrightarrow> (C \<Longrightarrow> B) \<Longrightarrow>
   365 + (if A then 1 else 0) - (if B then 1 else 0) + (if C then 1 else 0) =
   ((if A \<and> (\<not> B \<or> C) then 366 else 365) :: int)"
  by (cases A; cases B; cases C; simp)

lemma days_before_next_year:
  "days_before_year (y + 1) = days_before_year y + (if is_leap y then 366 else 365)"
proof -
  have m1: "y mod 100 = 0 \<Longrightarrow> y mod 4 = 0" and m2: "y mod 400 = 0 \<Longrightarrow> y mod 100 = 0"
    using dvd_trans [of 4 100 y] dvd_trans [of 100 400 y] by (simp_all add: mod_eq_0_iff_dvd)
  have diff: "days_before_year (y + 1) - days_before_year y =
      365 + (q4 - p4) - (q100 - p100) + (q400 - p400)"
    if "q4 = y div 4" "p4 = (y - 1) div 4" "q100 = y div 100" "p100 = (y - 1) div 100"
      "q400 = y div 400" "p400 = (y - 1) div 400" for q4 p4 q100 p100 q400 p400
    unfolding days_before_year_def that by (simp only: add_diff_cancel_right') (rule diff_quot)
  show ?thesis
    using diff [OF refl refl refl refl refl refl] leap_count [OF m1 m2]
      div_pred [of 4 y] div_pred [of 100 y] div_pred [of 400 y]
    by (simp only: is_leap_def zero_less_numeral simp_thms add_diff_cancel_left' simp_thms
        if_True if_False diff_eq_eq add.commute)
qed

lemma days_before_january: "days_before_month y 1 = 0"
  by (simp add: days_before_month_def)

lemma days_in_year: "days_before_month y 12 + days_in_month y 12 = (if is_leap y then 366 else 365)"
  by (simp add: days_before_month_def upt_rec numeral_nat days_in_month_def)

text \<open>The first day of the next month comes right after the last day of this one.\<close>

definition next_month :: "int \<Rightarrow> int \<Rightarrow> int \<times> int" where
  "next_month y m = (if m = 12 then (y + 1, 1) else (y, m + 1))"

lemma ordinal_next_month:
  assumes "1 \<le> m" "m \<le> 12"
  shows "ymd_to_ordinal (fst (next_month y m)) (snd (next_month y m)) 1 =
         ymd_to_ordinal y m 1 + days_in_month y m"
proof (cases "m = 12")
  case True
  then show ?thesis
    using days_in_year [of y]
    by (simp add: next_month_def ymd_to_ordinal_def days_before_next_year days_before_january)
next
  case False
  with assms show ?thesis
    by (simp add: next_month_def ymd_to_ordinal_def days_before_next_month)
qed

end
