(* ===== verification/Quota.thy ===== *)
theory Quota
  imports Clock Redis
begin

text \<open>
  \<open>services/quota.py\<close>: usage counters in Redis, one per API key, period and calendar bucket. The
  counter's key names the bucket, its expiry is computed from the time of the first request, and
  \<open>consume\<close> and \<open>rollback\<close> are one INCR and one DECR. Here: what the bucket names, how the expiry
  lies to the end of the period, what a run of consumptions counts, and when a rollback undoes a
  consumption.
\<close>

record quota_check =
  qc_period :: quota_period
  qc_limit :: int
  qc_used :: int

definition exceeded :: "quota_check \<Rightarrow> bool" where
  "exceeded c \<longleftrightarrow> qc_limit c < qc_used c"

definition pad2 :: "int \<Rightarrow> string" where
  "pad2 n = (if n < 10 then CHR ''0'' # int_str n else int_str n)"

text \<open>\<open>int(x.total_seconds())\<close> truncates towards zero.\<close>

definition trunc_seconds :: "int \<Rightarrow> int" where
  "trunc_seconds us = (if 0 \<le> us then us div us_per_second else - ((- us) div us_per_second))"

definition period_end :: "quota_period \<Rightarrow> datetime \<Rightarrow> datetime" where
  "period_end p now = (case p of
     DAILY \<Rightarrow> now\<lparr>dt_hour := 23, dt_minute := 59, dt_second := 59, dt_microsecond := 0\<rparr>
   | MONTHLY \<Rightarrow>
       (let (year, month) = (if dt_month now = 12 then (dt_year now + 1, 1)
                             else (dt_year now, dt_month now + 1))
        in now\<lparr>dt_year := year, dt_month := month, dt_day := 1, dt_hour := 0, dt_minute := 0,
               dt_second := 0, dt_microsecond := 0\<rparr>))"

definition bucket_and_ttl :: "quota_period \<Rightarrow> datetime \<Rightarrow> string \<times> int" where
  "bucket_and_ttl p now =
     (let bucket = (case p of
            DAILY \<Rightarrow> int_str (dt_year now) @ ''-'' @ pad2 (dt_month now) @ ''-'' @ pad2 (dt_day now)
          | MONTHLY \<Rightarrow> int_str (dt_year now) @ ''-'' @ pad2 (dt_month now))
      in (bucket, max 1 (trunc_seconds (instant_of (period_end p now) - instant_of now))))"

definition quota_key :: "uuid \<Rightarrow> quota_period \<Rightarrow> string \<Rightarrow> string" where
  "quota_key kid p bucket = ''quota:'' @ uuid_str kid @ '':'' @ period_str p @ '':'' @ bucket"

text \<open>\<open>t\<close> is Redis's own clock in milliseconds when the commands run.\<close>

definition consume ::
  "'r redis_api \<Rightarrow> int \<Rightarrow> uuid \<Rightarrow> quota_period \<Rightarrow> int \<Rightarrow> datetime \<Rightarrow> 'r \<Rightarrow> quota_check \<times> 'r" where
  "consume R t kid p lmt now s =
     (let (bucket, ttl) = bucket_and_ttl p now;
          key = quota_key kid p bucket;
          (used, s1) = r_incr R t key s;
          s2 = (if used = 1 then r_expire R t key ttl s1 else s1)
      in (\<lparr> qc_period = p, qc_limit = lmt, qc_used = used \<rparr>, s2))"

definition rollback ::
  "'r redis_api \<Rightarrow> int \<Rightarrow> uuid \<Rightarrow> quota_period \<Rightarrow> datetime \<Rightarrow> 'r \<Rightarrow> 'r" where
  "rollback R t kid p now s =
     (let (bucket, ttl) = bucket_and_ttl p now; key = quota_key kid p bucket
      in snd (r_decr R t key s))"

section \<open>Buckets\<close>

definition same_bucket :: "quota_period \<Rightarrow> datetime \<Rightarrow> datetime \<Rightarrow> bool" where
  "same_bucket p a b \<longleftrightarrow> dt_year a = dt_year b \<and> dt_month a = dt_month b \<and>
     (p = DAILY \<longrightarrow> dt_day a = dt_day b)"

lemma int_str_inj: "0 \<le> a \<Longrightarrow> 0 \<le> b \<Longrightarrow> int_str a = int_str b \<Longrightarrow> a = b"
  by (auto simp: int_str_def dest: nat_str_inj)

lemma length_nat_str_small: "n < 10 \<Longrightarrow> length (nat_str n) = 1"
  by (simp add: nat_str.simps)

lemma length_nat_str_two: "10 \<le> n \<Longrightarrow> n < 100 \<Longrightarrow> length (nat_str n) = 2"
  by (subst nat_str.simps) (simp add: length_nat_str_small)

lemma length_pad2: "0 \<le> n \<Longrightarrow> n < 100 \<Longrightarrow> length (pad2 n) = 2"
  by (auto simp: pad2_def int_str_def length_nat_str_small length_nat_str_two)

lemma str_val_pad2: "0 \<le> n \<Longrightarrow> n < 100 \<Longrightarrow> str_val (pad2 n) = nat n"
  using str_val_nat_str [of "nat n"] by (auto simp: pad2_def int_str_def str_val_def)

lemma pad2_inj: "0 \<le> a \<Longrightarrow> a < 100 \<Longrightarrow> 0 \<le> b \<Longrightarrow> b < 100 \<Longrightarrow> pad2 a = pad2 b \<Longrightarrow> a = b"
  by (metis nat_eq_iff2 str_val_pad2 nat_0_le)

lemma bucket_iff:
  assumes "valid_datetime a" "valid_datetime b"
  shows "fst (bucket_and_ttl p a) = fst (bucket_and_ttl p b) \<longleftrightarrow> same_bucket p a b"
proof -
  have r: "0 \<le> dt_year a" "0 \<le> dt_year b" "0 \<le> dt_month a" "dt_month a < 100" "0 \<le> dt_month b"
    "dt_month b < 100" "0 \<le> dt_day a" "dt_day a < 100" "0 \<le> dt_day b" "dt_day b < 100"
    using assms days_in_month_pos(2) [of "dt_year a" "dt_month a"]
      days_in_month_pos(2) [of "dt_year b" "dt_month b"]
    by (auto simp: valid_datetime_def)
  have month: "int_str (dt_year a) @ ''-'' @ pad2 (dt_month a) =
      int_str (dt_year b) @ ''-'' @ pad2 (dt_month b) \<longleftrightarrow>
      dt_year a = dt_year b \<and> dt_month a = dt_month b"
  proof
    assume eq: "int_str (dt_year a) @ ''-'' @ pad2 (dt_month a) =
        int_str (dt_year b) @ ''-'' @ pad2 (dt_month b)"
    have "length (''-'' @ pad2 (dt_month a)) = length (''-'' @ pad2 (dt_month b))"
      using r by (simp add: length_pad2)
    then have "int_str (dt_year a) = int_str (dt_year b)" "pad2 (dt_month a) = pad2 (dt_month b)"
      using append_eq_append_conv eq by auto
    then show "dt_year a = dt_year b \<and> dt_month a = dt_month b"
      using r int_str_inj pad2_inj by blast
  qed simp
  show ?thesis
  proof (cases p)
    case MONTHLY
    then show ?thesis using month by (simp add: bucket_and_ttl_def same_bucket_def)
  next
    case DAILY
    have len: "length (''-'' @ pad2 (dt_day a)) = length (''-'' @ pad2 (dt_day b))"
      using r by (simp add: length_pad2)
    have split: "(x @ ''-'' @ pad2 (dt_day a) = y @ ''-'' @ pad2 (dt_day b)) \<longleftrightarrow>
        x = y \<and> dt_day a = dt_day b" for x y
      using append_eq_append_conv [OF disjI2 [OF len], of x y] pad2_inj r(7-10) by auto
    have "(int_str (dt_year a) @ ''-'' @ pad2 (dt_month a)) @ ''-'' @ pad2 (dt_day a) =
        (int_str (dt_year b) @ ''-'' @ pad2 (dt_month b)) @ ''-'' @ pad2 (dt_day b) \<longleftrightarrow>
        (dt_year a = dt_year b \<and> dt_month a = dt_month b) \<and> dt_day a = dt_day b"
      unfolding split month by simp
    then show ?thesis
      using DAILY by (simp add: bucket_and_ttl_def same_bucket_def)
  qed
qed

lemma length_uuid_str: "length (uuid_str u) = 36"
  by (simp add: uuid_str_def Let_def)

lemma quota_key_iff:
  "quota_key k p b = quota_key k' p' b' \<longleftrightarrow> k = k' \<and> p = p' \<and> b = b'"
proof
  assume "quota_key k p b = quota_key k' p' b'"
  then have "uuid_str k = uuid_str k'" "period_str p @ '':'' @ b = period_str p' @ '':'' @ b'"
    using append_eq_append_conv [of "uuid_str k" "uuid_str k'"]
    by (auto simp: quota_key_def length_uuid_str)
  then show "k = k' \<and> p = p' \<and> b = b'"
    by (cases p; cases p') (auto dest: uuid_str_inj)
qed simp

section \<open>The expiry and the end of the period\<close>

definition server_ms :: "datetime \<Rightarrow> int" where
  "server_ms now = instant_of now div 1000"

text \<open>The instant the bucket's period is over: the next midnight, or midnight of the first of the
  next month.\<close>

definition bucket_over :: "quota_period \<Rightarrow> datetime \<Rightarrow> instant" where
  "bucket_over p now = (case p of
     DAILY \<Rightarrow> (day_number now + 1) * us_per_day
   | MONTHLY \<Rightarrow> (ymd_to_ordinal (dt_year now) (dt_month now) 1 +
       days_in_month (dt_year now) (dt_month now) - EPOCH_ORDINAL) * us_per_day)"

lemma instant_before_over:
  assumes "valid_datetime now"
  shows "instant_of now < bucket_over p now"
proof -
  have day: "second_of_day now * us_per_second + dt_microsecond now < us_per_day"
    using second_of_day_bounds [OF assms] assms
    by (auto simp: valid_datetime_def us_per_second_def us_per_day_def)
  show ?thesis
  proof (cases p)
    case DAILY
    then show ?thesis using day by (simp add: bucket_over_def instant_of_def distrib_right)
  next
    case MONTHLY
    have "day_number now + 1 \<le> ymd_to_ordinal (dt_year now) (dt_month now) 1 +
        days_in_month (dt_year now) (dt_month now) - EPOCH_ORDINAL"
      using assms by (simp add: valid_datetime_def day_number_def ymd_to_ordinal_def)
    then have "(day_number now + 1) * us_per_day \<le> bucket_over p now"
      using MONTHLY by (simp add: bucket_over_def us_per_day_def)
    with day show ?thesis by (simp add: instant_of_def distrib_right)
  qed
qed

lemma period_end_instant:
  assumes "valid_datetime now"
  shows "instant_of (period_end p now) = (case p of
    DAILY \<Rightarrow> bucket_over p now - us_per_second | MONTHLY \<Rightarrow> bucket_over p now)"
proof (cases p)
  case DAILY
  then show ?thesis
    by (simp add: period_end_def instant_of_def bucket_over_def day_number_def second_of_day_def
        us_per_day_def us_per_second_def)
next
  case MONTHLY
  have m: "1 \<le> dt_month now" "dt_month now \<le> 12" using assms by (auto simp: valid_datetime_def)
  show ?thesis
    using MONTHLY ordinal_next_month [OF m, of "dt_year now"]
    by (auto simp: period_end_def instant_of_def bucket_over_def day_number_def next_month_def
        second_of_day_def split: if_splits)
qed

lemma trunc_seconds_le: "0 \<le> us \<Longrightarrow> trunc_seconds us * us_per_second \<le> us"
  by (simp add: trunc_seconds_def us_per_second_def)

lemma ttl_ms_le:
  assumes "a + us_per_second \<le> e"
  shows "a div 1000 + 1000 * max 1 (trunc_seconds (e - a)) \<le> e div 1000"
proof -
  have d: "us_per_second \<le> e - a" using assms by simp
  then have "0 < (e - a) div us_per_second"
    by (simp add: pos_imp_zdiv_pos_iff us_per_second_def)
  then have "1 \<le> trunc_seconds (e - a)"
    using d by (simp add: trunc_seconds_def us_per_second_def)
  then have q: "max 1 (trunc_seconds (e - a)) = trunc_seconds (e - a)" by simp
  have "trunc_seconds (e - a) * us_per_second \<le> e - a"
    using d by (intro trunc_seconds_le) (simp add: us_per_second_def)
  moreover have "1000 * (a div 1000) \<le> a" by simp
  ultimately have "1000 * (a div 1000 + 1000 * trunc_seconds (e - a)) \<le> e"
    by (simp add: us_per_second_def)
  then show ?thesis using q by simp
qed

lemma ttl_at_least_one: "1 \<le> snd (bucket_and_ttl p now)"
  by (simp add: bucket_and_ttl_def)

lemma opened_deadline_le:
  assumes "valid_datetime now" "instant_of now + us_per_second \<le> instant_of (period_end p now)"
  shows "server_ms now + 1000 * snd (bucket_and_ttl p now) \<le> instant_of (period_end p now) div 1000"
  using ttl_ms_le [OF assms(2)] by (simp add: bucket_and_ttl_def server_ms_def)

text \<open>A counter opened on the day of \<open>a\<close>, with Redis's clock at most \<open>skew\<close> milliseconds behind the
  application's, is still there two seconds (and the skew) before midnight: one second because the daily
  expiry aims at 23:59:59, one because the seconds to it are truncated.\<close>

lemma same_day_over: "valid_datetime now \<Longrightarrow> same_bucket DAILY a now \<Longrightarrow> bucket_over DAILY a = bucket_over DAILY now"
  by (simp add: bucket_over_def same_bucket_def day_number_def)

lemma period_end_late: "valid_datetime now \<Longrightarrow> bucket_over DAILY now - us_per_second \<le> instant_of (period_end p now)"
proof (cases p)
  case MONTHLY
  assume v: "valid_datetime now"
  have "day_number now + 1 \<le> ymd_to_ordinal (dt_year now) (dt_month now) 1 +
      days_in_month (dt_year now) (dt_month now) - EPOCH_ORDINAL"
    using v by (simp add: valid_datetime_def day_number_def ymd_to_ordinal_def)
  then have "bucket_over DAILY now \<le> bucket_over MONTHLY now"
    by (simp add: bucket_over_def us_per_day_def)
  then show ?thesis using MONTHLY v by (simp add: period_end_instant us_per_second_def)
qed (simp add: period_end_instant)

lemma trunc_seconds_gt: "us < (max 1 (trunc_seconds us) + 1) * us_per_second"
proof (cases "0 \<le> us")
  case True
  have "us < (us div us_per_second + 1) * us_per_second"
    using pos_mod_bound [of us_per_second us] div_mult_mod_eq [of us us_per_second]
    by (simp add: us_per_second_def)
  moreover have "us div us_per_second \<le> max 1 (trunc_seconds us)" using True by (simp add: trunc_seconds_def)
  ultimately show ?thesis by (simp add: us_per_second_def)
qed (simp add: us_per_second_def max_def)

lemma opened_outlives:
  assumes "valid_datetime now" "same_bucket DAILY a now" "server_ms now - skew \<le> t"
    and "T + skew + 2000 < bucket_over DAILY a div 1000"
  shows "T < t + 1000 * snd (bucket_and_ttl p now)"
proof -
  let ?due = "instant_of (period_end p now)" and ?ttl = "snd (bucket_and_ttl p now)"
  have over: "bucket_over DAILY now - us_per_second \<le> ?due" by (rule period_end_late [OF assms(1)])
  have ttl: "?due - instant_of now < (?ttl + 1) * us_per_second"
    using trunc_seconds_gt [of "?due - instant_of now"] by (simp add: bucket_and_ttl_def)
  have "instant_of now < 1000 * (server_ms now + 1)" by (simp add: server_ms_def)
  moreover have "1000 * (bucket_over DAILY now div 1000) \<le> bucket_over DAILY now" by simp
  moreover have "bucket_over DAILY a = bucket_over DAILY now" by (rule same_day_over [OF assms(1,2)])
  ultimately show ?thesis using over ttl assms(3,4) by (simp add: us_per_second_def)
qed

section \<open>One consumption, one rollback\<close>

definition opened :: "quota_period \<Rightarrow> datetime \<Rightarrow> int \<Rightarrow> int \<Rightarrow> string \<Rightarrow> store \<Rightarrow> bool" where
  "opened p now n dl key st \<longleftrightarrow> st key = Some (RInt n, Some dl) \<and>
     dl = server_ms now + 1000 * snd (bucket_and_ttl p now)"

fun consume_run :: "'r redis_api \<Rightarrow> uuid \<Rightarrow> quota_period \<Rightarrow> int \<Rightarrow> datetime list \<Rightarrow> 'r \<Rightarrow> quota_check list \<times> 'r" where
  "consume_run R kid p lmt [] s = ([], s)"
| "consume_run R kid p lmt (now # nows) s =
     (let (c, s1) = consume R (server_ms now) kid p lmt now s;
          (cs, s2) = consume_run R kid p lmt nows s1 in (c # cs, s2))"

lemma map_upt_shift: "map (\<lambda>i. n + int i) [1..<Suc (Suc m)] = (n + 1) # map (\<lambda>i. (n + 1) + int i) [1..<Suc m]"
  by (induction m) simp_all

lemma live_opened: "st k = Some (v, Some d) \<Longrightarrow> live st t k = (if d \<le> t then None else Some (v, Some d))"
  by (simp add: live_def)

context redis_server
begin

lemma consume_first:
  assumes "live (view s) t key = None" "key = quota_key kid p (fst (bucket_and_ttl p now))"
  shows "fst (consume R t kid p lmt now s) = \<lparr>qc_period = p, qc_limit = lmt, qc_used = 1\<rparr>"
    and "view (snd (consume R t kid p lmt now s)) =
      (view s)(key \<mapsto> (RInt 1, Some (t + 1000 * snd (bucket_and_ttl p now))))"
proof -
  obtain b ttl where bt: "bucket_and_ttl p now = (b, ttl)" by fastforce
  obtain u s1 where i: "r_incr R t key s = (u, s1)" by fastforce
  have c: "is_counter (view s) t key" "counter_at (view s) t key = 0" "deadline_at (view s) t key = None"
    using assms by (simp_all add: live_defs)
  have ttl: "0 < ttl" using ttl_at_least_one [of p now] bt by simp
  have u: "u = 1" "view s1 = (view s)(key \<mapsto> (RInt 1, None))"
    using incr_val [OF c(1)] incr_view [OF c(1)] c i by simp_all
  have k: "quota_key kid p b = key" using assms bt by simp
  show "fst (consume R t kid p lmt now s) = \<lparr>qc_period = p, qc_limit = lmt, qc_used = 1\<rparr>"
    using u i k by (simp add: consume_def bt)
  show "view (snd (consume R t kid p lmt now s)) =
      (view s)(key \<mapsto> (RInt 1, Some (t + 1000 * snd (bucket_and_ttl p now))))"
    using u i k bt expire_view [OF ttl, of t key s1] by (simp add: consume_def put_expiry_def)
qed

lemma consume_next:
  assumes "view s key = Some (RInt n, Some d)" "t < d" "1 \<le> n"
    "key = quota_key kid p (fst (bucket_and_ttl p now))"
  shows "fst (consume R t kid p lmt now s) = \<lparr>qc_period = p, qc_limit = lmt, qc_used = n + 1\<rparr>"
    and "view (snd (consume R t kid p lmt now s)) = (view s)(key \<mapsto> (RInt (n + 1), Some d))"
proof -
  obtain b ttl where bt: "bucket_and_ttl p now = (b, ttl)" by fastforce
  obtain u s1 where i: "r_incr R t key s = (u, s1)" by fastforce
  have c: "is_counter (view s) t key" "counter_at (view s) t key = n" "deadline_at (view s) t key = Some d"
    using assms(2) live_opened [where st = "view s" and k = key, OF assms(1)] by (simp_all add: live_defs)
  have u: "u = n + 1" "view s1 = (view s)(key \<mapsto> (RInt (n + 1), Some d))"
    using incr_val [OF c(1)] incr_view [OF c(1)] c i by simp_all
  have k: "quota_key kid p b = key" using assms bt by simp
  show "fst (consume R t kid p lmt now s) = \<lparr>qc_period = p, qc_limit = lmt, qc_used = n + 1\<rparr>"
    using u i k by (simp add: consume_def bt)
  show "view (snd (consume R t kid p lmt now s)) = (view s)(key \<mapsto> (RInt (n + 1), Some d))"
    using u i k bt assms(3) by (simp add: consume_def)
qed

lemma consume_run_counts:
  assumes "view s key = Some (RInt n, Some d)" "1 \<le> n"
    "\<forall>now \<in> set nows. server_ms now < d \<and> quota_key kid p (fst (bucket_and_ttl p now)) = key"
  shows "map qc_used (fst (consume_run R kid p lmt nows s)) = map (\<lambda>i. n + int i) [1..<Suc (length nows)]
    \<and> view (snd (consume_run R kid p lmt nows s)) key = Some (RInt (n + int (length nows)), Some d)"
  using assms
proof (induction nows arbitrary: s n)
  case (Cons now nows)
  obtain c s1 where c: "consume R (server_ms now) kid p lmt now s = (c, s1)" by fastforce
  note one = consume_next [OF Cons.prems(1) _ Cons.prems(2), of "server_ms now" kid p now lmt]
  have u: "qc_used c = n + 1" "view s1 key = Some (RInt (n + 1), Some d)"
    using one Cons.prems(3) c by auto
  obtain cs s2 where cs: "consume_run R kid p lmt nows s1 = (cs, s2)" by fastforce
  have ih: "map qc_used cs = map (\<lambda>i. (n + 1) + int i) [1..<Suc (length nows)]"
    "view s2 key = Some (RInt ((n + 1) + int (length nows)), Some d)"
    using Cons.IH [OF u(2)] Cons.prems(2,3) cs by auto
  have shift: "map (\<lambda>i. n + int i) [1..<Suc (Suc (length nows))] =
      (n + 1) # map (\<lambda>i. (n + 1) + int i) [1..<Suc (length nows)]"
    by (rule map_upt_shift)
  have "consume_run R kid p lmt (now # nows) s = (c # cs, s2)" by (simp add: c cs)
  moreover have "map qc_used (c # cs) = map (\<lambda>i. n + int i) [1..<Suc (Suc (length nows))]"
    unfolding shift using u ih by (simp del: upt_Suc)
  ultimately show ?case using ih by (simp del: upt_Suc)
qed simp

lemma rollback_undoes_consume:
  assumes "live (view s) t key = None \<or> (\<exists>n d. view s key = Some (RInt n, Some d) \<and> t < d \<and> 1 \<le> n)"
    and "key = quota_key kid p (fst (bucket_and_ttl p now))" "same_bucket p now now'"
    and "valid_datetime now" "valid_datetime now'"
    and s1: "s1 = snd (consume R t kid p lmt now s)"
    and fresh: "\<exists>e. deadline_at (view s1) t' key = Some e"
  shows "counter_at (view (rollback R t' kid p now' s1)) t' key = counter_at (view s) t key"
    and "k \<noteq> key \<Longrightarrow> view (rollback R t' kid p now' s1) k = view s k"
proof -
  obtain n d0 where v1: "view s1 = (view s)(key \<mapsto> (RInt n, Some d0))" and n: "n = counter_at (view s) t key + 1"
    using assms(1)
  proof
    assume "live (view s) t key = None"
    then show ?thesis
      using that consume_first [of s t key kid p now lmt] assms(2) s1 by (simp add: live_defs)
  next
    assume "\<exists>n d. view s key = Some (RInt n, Some d) \<and> t < d \<and> 1 \<le> n"
    then show ?thesis
      using that consume_next [of s key _ _ t kid p now lmt] assms(2) s1
      by (auto simp: live_defs live_opened)
  qed
  obtain b ttl where bt: "bucket_and_ttl p now' = (b, ttl)" by fastforce
  have k: "quota_key kid p b = key"
    using bucket_iff [OF assms(4,5), of p] assms(2,3) bt by simp
  have l: "live (view s1) t' key = Some (RInt n, Some d0)"
    using fresh v1 by (auto simp: deadline_at_def split: if_splits)
  have c: "is_counter (view s1) t' key" "counter_at (view s1) t' key = n"
      "deadline_at (view s1) t' key = Some d0"
    using l by (simp_all add: live_defs)
  have w: "view (rollback R t' kid p now' s1) = (view s)(key \<mapsto> (RInt (n - 1), Some d0))"
    using decr_view [OF c(1)] c v1 k by (simp add: rollback_def bt)
  then show "counter_at (view (rollback R t' kid p now' s1)) t' key = counter_at (view s) t key"
    using n live_deadline [OF l] by (simp add: counter_at_def)
  show "k \<noteq> key \<Longrightarrow> view (rollback R t' kid p now' s1) k = view s k" using w by simp
qed

end

section \<open>Runs of requests\<close>

lemma consume_limit: "consume R t kid p lmt now s = (c, s1) \<Longrightarrow> qc_limit c = lmt"
  by (auto simp: consume_def Let_def split: prod.splits if_splits)

lemma consume_run_limit: "\<forall>c \<in> set (fst (consume_run R kid p lmt nows s)). qc_limit c = lmt"
proof (induction nows arbitrary: s)
  case (Cons now nows)
  obtain c s1 where c: "consume R (server_ms now) kid p lmt now s = (c, s1)" by fastforce
  then show ?case
    using Cons.IH [of s1] consume_limit [OF c] by (auto split: prod.splits)
qed simp

lemma accepted_count:
  assumes "0 \<le> lmt"
  shows "length (filter (\<lambda>u. u \<le> lmt) (map int [1..<Suc m])) = min (nat lmt) m"
  using assms by (induction m) auto

lemma accepted_of_used:
  assumes "map qc_used cs = map int [1..<Suc m]" "\<forall>c \<in> set cs. qc_limit c = lmt" "0 \<le> lmt"
  shows "length (filter (\<lambda>c. \<not> exceeded c) cs) = min (nat lmt) m"
proof -
  have "filter (\<lambda>c. \<not> exceeded c) cs = filter (\<lambda>c. qc_used c \<le> lmt) cs"
    using assms(2) by (intro filter_cong) (auto simp: exceeded_def)
  then have "length (filter (\<lambda>c. \<not> exceeded c) cs) = length (filter (\<lambda>u. u \<le> lmt) (map qc_used cs))"
    by (simp add: filter_map o_def)
  then show ?thesis using accepted_count [OF assms(3)] assms(1) by simp
qed

lemma same_bucket_key:
  "valid_datetime a \<Longrightarrow> valid_datetime b \<Longrightarrow> same_bucket p a b \<Longrightarrow>
   quota_key kid p (fst (bucket_and_ttl p b)) = quota_key kid p (fst (bucket_and_ttl p a))"
  using bucket_iff [of a b p] by simp

context redis_server
begin

lemma consume_run_from_start:
  assumes "live (view s) (server_ms a) (quota_key kid p (fst (bucket_and_ttl p a))) = None"
    and "valid_datetime a"
    and "\<forall>now \<in> set nows. valid_datetime now \<and> same_bucket p a now \<and>
      server_ms now < server_ms a + 1000 * snd (bucket_and_ttl p a)"
  shows "map qc_used (fst (consume_run R kid p lmt (a # nows) s)) = map int [1..<Suc (Suc (length nows))]"
    and "view (snd (consume_run R kid p lmt (a # nows) s)) (quota_key kid p (fst (bucket_and_ttl p a))) =
      Some (RInt (1 + int (length nows)), Some (server_ms a + 1000 * snd (bucket_and_ttl p a)))"
proof -
  let ?key = "quota_key kid p (fst (bucket_and_ttl p a))"
  obtain c s1 where c: "consume R (server_ms a) kid p lmt a s = (c, s1)" by fastforce
  have u: "qc_used c = 1" "view s1 ?key = Some (RInt 1, Some (server_ms a + 1000 * snd (bucket_and_ttl p a)))"
    using consume_first [OF assms(1) refl, of lmt] c by simp_all
  obtain cs s2 where cs: "consume_run R kid p lmt nows s1 = (cs, s2)" by fastforce
  have rest: "\<forall>now \<in> set nows. server_ms now < server_ms a + 1000 * snd (bucket_and_ttl p a) \<and>
      quota_key kid p (fst (bucket_and_ttl p now)) = ?key"
    using assms(2,3) same_bucket_key by blast
  note ih = consume_run_counts [OF u(2) _ rest, of lmt, unfolded cs fst_conv snd_conv]
  have run: "consume_run R kid p lmt (a # nows) s = (c # cs, s2)" by (simp add: c cs)
  have "map int [1..<Suc (Suc (length nows))] = 1 # map (\<lambda>i. 1 + int i) [1..<Suc (length nows)]"
    using map_upt_shift [of 0 "length nows"] by (simp del: upt_Suc)
  then show "map qc_used (fst (consume_run R kid p lmt (a # nows) s)) = map int [1..<Suc (Suc (length nows))]"
    using ih u run by (simp del: upt_Suc consume_run.simps)
  show "view (snd (consume_run R kid p lmt (a # nows) s)) ?key =
      Some (RInt (1 + int (length nows)), Some (server_ms a + 1000 * snd (bucket_and_ttl p a)))"
    using ih run by (simp del: upt_Suc consume_run.simps)
qed

end

definition noon :: datetime where
  "noon = \<lparr>dt_year = 2026, dt_month = 3, dt_day = 31, dt_hour = 12, dt_minute = 0, dt_second = 0, dt_microsecond = 0\<rparr>"

definition last_second :: datetime where
  "last_second = noon\<lparr>dt_hour := 23, dt_minute := 59, dt_second := 59, dt_microsecond := 500000\<rparr>"

lemma noon_facts: "valid_datetime noon" "valid_datetime last_second" "same_bucket p noon last_second"
  "same_bucket p noon noon"
  by (simp_all add: noon_def last_second_def valid_datetime_def days_in_month_def is_leap_def same_bucket_def)

text \<open>C20: with Redis behaving as documented, the requests a key makes in one day or month are counted
  \<open>1, 2, 3, ...\<close> while the counter lives, and exactly the first \<open>limit\<close> of them are within the quota.\<close>

theorem quota_accepts_exactly_limit:
  assumes "redis_server R view" "0 \<le> lmt" "valid_datetime a"
    and "live (view s) (server_ms a) (quota_key kid p (fst (bucket_and_ttl p a))) = None"
    and "\<forall>now \<in> set nows. valid_datetime now \<and> same_bucket p a now \<and>
      server_ms now < server_ms a + 1000 * snd (bucket_and_ttl p a)"
  shows "map qc_used (fst (consume_run R kid p lmt (a # nows) s)) = map int [1..<Suc (Suc (length nows))] \<and>
    length (filter (\<lambda>c. \<not> exceeded c) (fst (consume_run R kid p lmt (a # nows) s))) =
      min (nat lmt) (Suc (length nows))"
proof -
  note used = redis_server.consume_run_from_start(1) [OF assms(1,4,3,5), of lmt]
  show ?thesis using used accepted_of_used [OF used consume_run_limit assms(2)] by (rule conjI)
qed

theorem quota_accepts_exactly_limit_witness:
  "length (filter (\<lambda>c. \<not> exceeded c)
     (fst (consume_run mem_redis 7 DAILY 2 [noon, noon, noon] (\<lambda>_. None)))) = 2"
proof -
  have "length (filter (\<lambda>c. \<not> exceeded c)
      (fst (consume_run mem_redis 7 DAILY 2 (noon # [noon, noon]) (\<lambda>_. None)))) =
    min (nat 2) (Suc (length [noon, noon]))"
    using ttl_at_least_one [of DAILY noon]
    by (intro conjunct2 [OF quota_accepts_exactly_limit [where view = "\<lambda>s. s"]])
       (auto simp: mem.redis_server_axioms noon_facts live_def)
  then show ?thesis by simp
qed

text \<open>The counter a day's or month's first request opens is gone when the period is over (so it
  never counts against the next one), unless that request came in the period's last second.\<close>

theorem quota_counter_expires_in_period:
  assumes "redis_server R view" "valid_datetime a"
    and "instant_of a + us_per_second \<le> instant_of (period_end p a)"
    and "live (view s) (server_ms a) (quota_key kid p (fst (bucket_and_ttl p a))) = None"
    and "bucket_over p a div 1000 \<le> t"
  shows "live (view (snd (consume R (server_ms a) kid p lmt a s))) t
      (quota_key kid p (fst (bucket_and_ttl p a))) = None"
proof -
  have "instant_of (period_end p a) \<le> bucket_over p a"
    using period_end_instant [OF assms(2), of p] by (cases p) (simp_all add: us_per_second_def)
  then have "instant_of (period_end p a) div 1000 \<le> t"
    using assms(5) zdiv_mono1 [of "instant_of (period_end p a)" "bucket_over p a" 1000] by linarith
  then show ?thesis
    using redis_server.consume_first(2) [OF assms(1,4) refl, of lmt] opened_deadline_le [OF assms(2,3)] by simp
qed

theorem quota_counter_expires_in_period_witness:
  "live (snd (consume mem_redis (server_ms noon) 7 MONTHLY 2 noon (\<lambda>_. None))) 1775001600000
      (quota_key 7 MONTHLY (fst (bucket_and_ttl MONTHLY noon))) = None"
proof -
  have "instant_of noon + us_per_second \<le> instant_of (period_end MONTHLY noon)"
    "bucket_over MONTHLY noon div 1000 \<le> 1775001600000"
    by code_simp+
  then show ?thesis
    using quota_counter_expires_in_period [OF mem.redis_server_axioms noon_facts(1),
        where p = MONTHLY and s = "\<lambda>_. None" and t = 1775001600000] by (simp add: live_def)
qed

text \<open>A consumed unit is given back: rolling back in the same day or month, before the counter
  expires, leaves the key's count as it was before the request and touches no other key.\<close>

theorem quota_rollback_undoes_consume:
  assumes "redis_server R view" "valid_datetime a" "valid_datetime b" "same_bucket p a b"
    and "key = quota_key kid p (fst (bucket_and_ttl p a))"
    and "live (view s) t key = None \<or> (\<exists>n d. view s key = Some (RInt n, Some d) \<and> t < d \<and> 1 \<le> n)"
    and "s1 = snd (consume R t kid p lmt a s)" "\<exists>e. deadline_at (view s1) t' key = Some e"
  shows "counter_at (view (rollback R t' kid p b s1)) t' key = counter_at (view s) t key \<and>
    (\<forall>k. k = key \<or> view (rollback R t' kid p b s1) k = view s k)"
  using redis_server.rollback_undoes_consume [OF assms(1,6,5,4,2,3,7,8)] by blast

theorem quota_rollback_undoes_consume_witness:
  "counter_at (rollback mem_redis 10 7 DAILY noon
      (snd (consume mem_redis 5 7 DAILY 2 noon (\<lambda>_. None)))) 10
      (quota_key 7 DAILY (fst (bucket_and_ttl DAILY noon))) = 0"
proof -
  let ?k = "quota_key 7 DAILY (fst (bucket_and_ttl DAILY noon))"
  let ?s1 = "snd (consume mem_redis 5 7 DAILY 2 noon (\<lambda>_. None))"
  have none: "live (\<lambda>_. None) 5 ?k = None" by (simp add: live_def)
  then have "\<exists>e. deadline_at ?s1 10 ?k = Some e"
    using mem.consume_first(2) [of "\<lambda>_. None" 5 ?k 7 DAILY noon 2] ttl_at_least_one [of DAILY noon]
    by (simp add: live_defs)
  then show ?thesis
    using quota_rollback_undoes_consume [OF mem.redis_server_axioms noon_facts(1,1) noon_facts(4) refl _ refl,
        where p = DAILY and s = "\<lambda>_. None" and t = 5 and t' = 10 and kid = 7 and lmt = 2] none
    by (simp add: live_defs)
qed

text \<open>C36: a daily quota restarts one second early. The counter is set to expire at 23:59:59, so a
  request in the last second of the day finds it gone and is counted as the first of the same day,
  whatever the day's usage was.\<close>

theorem daily_counter_restarts_in_last_second:
  assumes "redis_server R view" "valid_datetime a" "valid_datetime b" "same_bucket DAILY a b"
    and "instant_of a + us_per_second \<le> instant_of (period_end DAILY a)"
    and "instant_of (period_end DAILY b) \<le> instant_of b"
    and "live (view s) (server_ms a) (quota_key kid DAILY (fst (bucket_and_ttl DAILY a))) = None"
    and "\<forall>now \<in> set nows. valid_datetime now \<and> same_bucket DAILY a now \<and>
      server_ms now < server_ms a + 1000 * snd (bucket_and_ttl DAILY a)"
  shows "qc_used (fst (consume R (server_ms b) kid DAILY lmt b
      (snd (consume_run R kid DAILY lmt (a # nows) s)))) = 1"
proof -
  let ?key = "quota_key kid DAILY (fst (bucket_and_ttl DAILY a))"
  let ?s = "snd (consume_run R kid DAILY lmt (a # nows) s)"
  have "bucket_over DAILY a = bucket_over DAILY b"
    using assms(4) by (simp add: bucket_over_def day_number_def same_bucket_def)
  then have "instant_of (period_end DAILY a) \<le> instant_of b"
    using period_end_instant [OF assms(2), of DAILY] period_end_instant [OF assms(3), of DAILY] assms(6) by simp
  then have "instant_of (period_end DAILY a) div 1000 \<le> server_ms b"
    by (simp add: server_ms_def zdiv_mono1)
  then have "server_ms a + 1000 * snd (bucket_and_ttl DAILY a) \<le> server_ms b"
    using opened_deadline_le [OF assms(2,5)] by simp
  then have "live (view ?s) (server_ms b) ?key = None"
    using redis_server.consume_run_from_start(2) [OF assms(1,7,2,8), of lmt] by (simp add: live_opened)
  then show ?thesis
    using redis_server.consume_first(1) [OF assms(1) _ same_bucket_key [OF assms(2,3,4), symmetric]] by simp
qed

theorem daily_counter_restarts_in_last_second_witness:
  "qc_used (fst (consume mem_redis (server_ms last_second) 7 DAILY 2 last_second
      (snd (consume_run mem_redis 7 DAILY 2 [noon, noon, noon] (\<lambda>_. None))))) = 1"
proof -
  have "instant_of noon + us_per_second \<le> instant_of (period_end DAILY noon)"
    "instant_of (period_end DAILY last_second) \<le> instant_of last_second"
    by code_simp+
  then show ?thesis
    using ttl_at_least_one [of DAILY noon]
    by (intro daily_counter_restarts_in_last_second [OF mem.redis_server_axioms])
       (auto simp: noon_facts live_def)
qed

end
