(* ===== verification/RateSpec.thy ===== *)
theory RateSpec
  imports Prelude
begin

text \<open>
  What the three rate-limiting algorithms promise, without Redis: each as a machine that takes the
  time of a request and a small state (the counter of the current window, the log of accepted
  requests, the bucket's level) and says whether the request is accepted. The bounds proved here are
  carried over to the Lua scripts by the refinements of the theory RateLimit.
\<close>

fun run :: "('t \<Rightarrow> 's \<Rightarrow> bool \<times> 's) \<Rightarrow> 't list \<Rightarrow> 's \<Rightarrow> bool list \<times> 's" where
  "run step [] st = ([], st)"
| "run step (t # ts) st =
     (let (a, st1) = step t st; (as, st2) = run step ts st1 in (a # as, st2))"

text \<open>The accepted requests of a run.\<close>

definition accepted :: "'t list \<Rightarrow> bool list \<Rightarrow> 't list" where
  "accepted ts as = map fst (filter snd (zip ts as))"

lemma accepted_simps [simp]:
  "accepted [] as = []" "accepted (t # ts) (a # as) = (if a then t # accepted ts as else accepted ts as)"
  by (simp_all add: accepted_def)

lemma accepted_map: "accepted (map f ts) as = map f (accepted ts as)"
proof (induction ts arbitrary: as)
  case (Cons t ts)
  then show ?case by (cases as) (simp_all add: accepted_def)
qed simp

lemma length_run: "length (fst (run step ts st)) = length ts"
  by (induction ts arbitrary: st) (auto split: prod.splits simp: Let_def, metis fst_conv)

lemma set_accepted: "set (accepted ts as) \<subseteq> set ts"
  by (auto simp: accepted_def dest: set_zip_leftD)

lemma run_Cons [simp]:
  "run step (t # ts) st = (fst (step t st) # fst (run step ts (snd (step t st))),
     snd (run step ts (snd (step t st))))"
  by (simp add: Let_def split: prod.splits)

declare run.simps(2) [simp del]

lemma run_append:
  "run step (ts @ us) st =
     (fst (run step ts st) @ fst (run step us (snd (run step ts st))),
      snd (run step us (snd (run step ts st))))"
  by (induction ts arbitrary: st) (auto split: prod.splits simp: Let_def)

text \<open>A simulation between two step functions carries over to their runs.\<close>

lemma run_simulation:
  assumes "\<And>t s r. t \<in> T \<Longrightarrow> rel s r \<Longrightarrow> fst (f t s) = fst (g (h t) r) \<and> rel (snd (f t s)) (snd (g (h t) r))"
    and "set ts \<subseteq> T" "rel s r"
  shows "fst (run f ts s) = fst (run g (map h ts) r) \<and> rel (snd (run f ts s)) (snd (run g (map h ts) r))"
  using assms(2,3)
proof (induction ts arbitrary: s r)
  case (Cons t ts)
  then show ?case using assms(1) [of t s r] by simp
qed simp

section \<open>Fixed window\<close>

text \<open>The state is the counter of the current window and the time the window ends.\<close>

definition fw_step :: "int \<Rightarrow> int \<Rightarrow> int \<Rightarrow> (int \<times> int) option \<Rightarrow> bool \<times> (int \<times> int) option" where
  "fw_step lmt W t st = (case st of
     Some (n, d) \<Rightarrow> if d \<le> t then (1 \<le> lmt, Some (1, t + W)) else (n + 1 \<le> lmt, Some (n + 1, d))
   | None \<Rightarrow> (1 \<le> lmt, Some (1, t + W)))"

lemma fw_step_simps [simp]:
  "fw_step lmt W t None = (1 \<le> lmt, Some (1, t + W))"
  "d \<le> t \<Longrightarrow> fw_step lmt W t (Some (n, d)) = (1 \<le> lmt, Some (1, t + W))"
  "\<not> d \<le> t \<Longrightarrow> fw_step lmt W t (Some (n, d)) = (n + 1 \<le> lmt, Some (n + 1, d))"
  by (simp_all add: fw_step_def)

definition in_span :: "int \<Rightarrow> int \<Rightarrow> int list \<Rightarrow> nat" where
  "in_span lo hi ts = length (filter (\<lambda>t. lo \<le> t \<and> t < hi) ts)"

lemma in_span_simps [simp]:
  "in_span lo hi [] = 0"
  "in_span lo hi (t # ts) = (if lo \<le> t \<and> t < hi then Suc (in_span lo hi ts) else in_span lo hi ts)"
  by (simp_all add: in_span_def)

definition room :: "int \<Rightarrow> int \<Rightarrow> int" where
  "room lmt n = max 0 (lmt - n)"

lemma in_span_late:
  "\<forall>t \<in> set ts. hi \<le> t \<Longrightarrow> in_span lo hi (accepted ts as) = 0"
  using set_accepted [of ts as] by (fastforce simp: in_span_def filter_empty_conv)

text \<open>A window that ends at or after \<open>hi\<close> accepts no more than the room it has left before
  \<open>hi\<close>.\<close>

lemma fw_same_window:
  assumes "sorted ts" "hi \<le> d" "0 \<le> n"
  shows "int (in_span lo hi (accepted ts (fst (run (fw_step lmt W) ts (Some (n, d)))))) \<le> room lmt n"
  using assms
proof (induction ts arbitrary: n)
  case Nil
  then show ?case by (simp add: room_def)
next
  case (Cons t ts)
  show ?case
  proof (cases "d \<le> t")
    case True
    then have "in_span lo hi (accepted (t # ts) (fst (run (fw_step lmt W) (t # ts) (Some (n, d))))) = 0"
      using Cons.prems by (intro in_span_late) auto
    then show ?thesis by (simp add: room_def)
  next
    case False
    then show ?thesis using Cons.IH [of "n + 1"] Cons.prems by (auto simp: room_def)
  qed
qed

text \<open>A window opened at or after \<open>lo\<close> is the only one to open before \<open>lo + W\<close>.\<close>

lemma fw_opening:
  assumes "sorted (t # ts)" "lo \<le> t" "0 \<le> lmt" "0 < W" "fw_step lmt W t st = (1 \<le> lmt, Some (1, t + W))"
  shows "int (in_span lo (lo + W) (accepted (t # ts) (fst (run (fw_step lmt W) (t # ts) st)))) \<le> lmt"
  using fw_same_window [of ts "lo + W" "t + W" 1 lo lmt W] assms
  by (auto simp: room_def)

lemma fw_within_span:
  assumes "sorted ts" "\<forall>t \<in> set ts. lo \<le> t" "0 \<le> lmt" "0 < W" "0 \<le> n"
  shows "int (in_span lo (lo + W) (accepted ts (fst (run (fw_step lmt W) ts (Some (n, d)))))) \<le>
    room lmt n + lmt"
  using assms
proof (induction ts arbitrary: n)
  case Nil
  then show ?case by (simp add: room_def)
next
  case (Cons t ts)
  show ?case
  proof (cases "d \<le> t")
    case True
    then show ?thesis
      using fw_opening [of t ts lo lmt W "Some (n, d)"] Cons.prems by (simp add: room_def)
  next
    case False
    then show ?thesis using Cons.IH [of "n + 1"] Cons.prems by (auto simp: room_def)
  qed
qed

definition fw_state_ok :: "(int \<times> int) option \<Rightarrow> bool" where
  "fw_state_ok st \<longleftrightarrow> (case st of None \<Rightarrow> True | Some (n, d) \<Rightarrow> 0 \<le> n)"

lemma fw_step_ok: "fw_state_ok st \<Longrightarrow> fw_state_ok (snd (fw_step lmt W t st))"
  by (auto simp: fw_state_ok_def fw_step_def split: option.splits)

theorem fw_twice_limit:
  assumes "sorted ts" "fw_state_ok st" "0 \<le> lmt" "0 < W"
  shows "int (in_span lo (lo + W) (accepted ts (fst (run (fw_step lmt W) ts st)))) \<le> 2 * lmt"
  using assms(1,2)
proof (induction ts arbitrary: st)
  case Nil
  then show ?case using assms by simp
next
  case (Cons t ts)
  show ?case
  proof (cases "lo \<le> t")
    case True
    show ?thesis
    proof (cases st)
      case None
      then show ?thesis
        using fw_opening [of t ts lo lmt W None] Cons.prems True assms(3,4) by simp
    next
      case (Some nd)
      obtain n d where nd: "nd = (n, d)" by fastforce
      have all: "\<forall>u \<in> set (t # ts). lo \<le> u" using True Cons.prems(1) by auto
      have "0 \<le> n" using Cons.prems(2) Some nd by (simp add: fw_state_ok_def)
      from fw_within_span [OF Cons.prems(1) all assms(3,4) this, of d] this
      show ?thesis using assms(3) Some nd by (simp add: room_def)
    qed
  next
    case False
    then show ?thesis using Cons fw_step_ok [OF Cons.prems(2), of lmt W t] by simp
  qed
qed

theorem fw_window_limit:
  assumes "sorted (t # ts)" "0 \<le> lmt" "0 < W" "\<forall>u \<in> set ts. u < t + W"
  shows "int (length (accepted (t # ts) (fst (run (fw_step lmt W) (t # ts) None)))) \<le> lmt"
proof -
  let ?acc = "accepted (t # ts) (fst (run (fw_step lmt W) (t # ts) None))"
  have "filter (\<lambda>u. t \<le> u \<and> u < t + W) ?acc = ?acc"
    using set_accepted [of "t # ts"] assms(1,3,4) by (intro filter_True) fastforce
  then show ?thesis
    using fw_opening [of t ts t lmt W None] assms by (simp add: in_span_def)
qed

lemma sorted_accepted: "sorted ts \<Longrightarrow> sorted (accepted ts as)"
proof (induction ts arbitrary: as)
  case (Cons t ts)
  show ?case
  proof (cases as)
    case Nil
    then show ?thesis by (simp add: accepted_def)
  next
    case (Cons a as')
    then show ?thesis
      using Cons.IH [of as'] Cons.prems set_accepted [of ts as'] by auto
  qed
qed simp

section \<open>Sliding window\<close>

text \<open>The reference machine never forgets an accepted request and counts the recent ones.\<close>

definition sw_reference :: "int \<Rightarrow> int \<Rightarrow> int \<Rightarrow> int list \<Rightarrow> bool \<times> int list" where
  "sw_reference lmt W t acc =
     (if int (length (filter (\<lambda>u. t - W < u) acc)) < lmt then (True, acc @ [t]) else (False, acc))"

definition span_ok :: "int \<Rightarrow> int \<Rightarrow> int list \<Rightarrow> bool" where
  "span_ok lmt W acc \<longleftrightarrow>
     (\<forall>xs a ys. acc = xs @ a # ys \<longrightarrow> int (length (filter (\<lambda>u. a - W < u) (xs @ [a]))) \<le> lmt)"

lemma span_ok_snoc:
  assumes "span_ok lmt W acc" "int (length (filter (\<lambda>u. b - W < u) (acc @ [b]))) \<le> lmt"
  shows "span_ok lmt W (acc @ [b])"
  unfolding span_ok_def
proof (intro allI impI)
  fix xs a ys
  assume eq: "acc @ [b] = xs @ a # ys"
  show "int (length (filter (\<lambda>u. a - W < u) (xs @ [a]))) \<le> lmt"
  proof (cases ys rule: rev_cases)
    case Nil
    then show ?thesis using eq assms(2) by simp
  next
    case (snoc ys' c)
    then have "acc = xs @ a # ys'" using eq by simp
    then show ?thesis using assms(1) by (auto simp: span_ok_def)
  qed
qed

lemma length_filter_imp: "(\<And>x. P x \<Longrightarrow> Q x) \<Longrightarrow> length (filter P xs) \<le> length (filter Q xs)"
  by (induction xs) auto

lemma span_ok_all:
  assumes "span_ok lmt W acc" "sorted acc" "0 \<le> lmt"
  shows "int (length (filter (\<lambda>u. x - W < u \<and> u \<le> x) acc)) \<le> lmt"
  using assms(1,2)
proof (induction acc rule: rev_induct)
  case Nil
  then show ?case using assms(3) by simp
next
  case (snoc a acc)
  show ?case
  proof (cases "a \<le> x")
    case True
    have "int (length (filter (\<lambda>u. a - W < u) (acc @ [a]))) \<le> lmt"
      using snoc.prems(1) by (auto simp: span_ok_def)
    moreover have "length (filter (\<lambda>u. x - W < u \<and> u \<le> x) (acc @ [a])) \<le>
        length (filter (\<lambda>u. a - W < u) (acc @ [a]))"
      using True by (intro length_filter_imp) auto
    ultimately show ?thesis by linarith
  next
    case False
    have "span_ok lmt W acc" using snoc.prems(1) by (auto simp: span_ok_def)
    then show ?thesis using snoc.IH snoc.prems(2) False by (simp add: sorted_append)
  qed
qed

section \<open>Token bucket\<close>

text \<open>The state is the level of the bucket and the time it was computed.\<close>

definition tb_level :: "rat \<Rightarrow> rat \<Rightarrow> rat \<Rightarrow> (rat \<times> rat) option \<Rightarrow> rat" where
  "tb_level cap rate now st = (case st of None \<Rightarrow> cap
     | Some (tok, ts) \<Rightarrow> min cap (tok + max 0 (now - ts) * rate))"

definition tb_step :: "rat \<Rightarrow> rat \<Rightarrow> rat \<Rightarrow> (rat \<times> rat) option \<Rightarrow> bool \<times> (rat \<times> rat) option" where
  "tb_step cap rate now st =
     (let tok = tb_level cap rate now st
      in if 1 \<le> tok then (True, Some (tok - 1, now)) else (False, Some (tok, now)))"

lemma tb_step_simps [simp]:
  "1 \<le> tb_level cap rate now st \<Longrightarrow> tb_step cap rate now st = (True, Some (tb_level cap rate now st - 1, now))"
  "\<not> 1 \<le> tb_level cap rate now st \<Longrightarrow> tb_step cap rate now st = (False, Some (tb_level cap rate now st, now))"
  by (simp_all add: tb_step_def Let_def)

lemma tb_level_le: "tb_level cap rate now st \<le> cap"
  by (auto simp: tb_level_def split: option.splits)

text \<open>The time that passes along a list of readings, counting steps forward only: readings of
  concurrent requests may come out of order, and refilling never takes tokens back.\<close>

fun time_forward :: "rat \<Rightarrow> rat list \<Rightarrow> rat" where
  "time_forward t [] = 0"
| "time_forward t (u # us) = max 0 (u - t) + time_forward u us"

lemma time_forward_sorted: "sorted (t # ts) \<Longrightarrow> time_forward t ts = last (t # ts) - t"
  by (induction ts arbitrary: t) auto

lemma tb_run_bound:
  assumes "0 \<le> rate" "0 \<le> tok" "0 \<le> cap"
  shows "of_nat (length (accepted ts (fst (run (tb_step cap rate) ts (Some (tok, ts0)))))) \<le>
    tok + time_forward ts0 ts * rate"
  using assms(2)
proof (induction ts arbitrary: tok ts0)
  case (Cons t ts)
  let ?lev = "tb_level cap rate t (Some (tok, ts0))"
  have lev: "?lev \<le> tok + max 0 (t - ts0) * rate" by (simp add: tb_level_def)
  have nonneg: "0 \<le> ?lev"
    using Cons.prems assms(1,3) by (simp add: tb_level_def)
  have split: "time_forward ts0 (t # ts) * rate = max 0 (t - ts0) * rate + time_forward t ts * rate"
    by (simp add: distrib_right)
  show ?case
  proof (cases "1 \<le> ?lev")
    case True
    then have "of_nat (length (accepted ts (fst (run (tb_step cap rate) ts (Some (?lev - 1, t)))))) \<le>
        ?lev - 1 + time_forward t ts * rate"
      using Cons.IH [of "?lev - 1" t] by simp
    then show ?thesis using True lev unfolding split by auto
  next
    case False
    then have "of_nat (length (accepted ts (fst (run (tb_step cap rate) ts (Some (?lev, t)))))) \<le>
        ?lev + time_forward t ts * rate"
      using Cons.IH [OF nonneg] by simp
    then show ?thesis using False lev unfolding split by auto
  qed
qed simp

lemma tb_run_nonneg:
  assumes "0 \<le> cap" "0 \<le> rate" "case st of None \<Rightarrow> True | Some (tok, _) \<Rightarrow> 0 \<le> tok"
  shows "case snd (run (tb_step cap rate) ts st) of None \<Rightarrow> True | Some (tok, _) \<Rightarrow> 0 \<le> tok"
  using assms(3)
proof (induction ts arbitrary: st)
  case (Cons t ts)
  have "0 \<le> tb_level cap rate t st"
    using assms(1,2) Cons.prems by (auto simp: tb_level_def split: option.splits)
  then have "case snd (tb_step cap rate t st) of None \<Rightarrow> True | Some (tok, _) \<Rightarrow> 0 \<le> tok"
    by (cases "1 \<le> tb_level cap rate t st") simp_all
  then show ?case using Cons.IH by simp
qed simp

text \<open>Any stretch of requests from one at \<open>t\<close> on: at most a full bucket and what flows in since.\<close>

theorem tb_stretch_bound:
  assumes "0 \<le> rate" "0 \<le> cap" "case st of None \<Rightarrow> True | Some (tok, _) \<Rightarrow> 0 \<le> tok"
  shows "of_nat (length (accepted (t # ts) (fst (run (tb_step cap rate) (t # ts) st)))) \<le>
    cap + time_forward t ts * rate"
proof -
  let ?lev = "tb_level cap rate t st"
  have lev: "?lev \<le> cap" by (rule tb_level_le)
  have nonneg: "0 \<le> ?lev" using assms by (auto simp: tb_level_def split: option.splits)
  show ?thesis
  proof (cases "1 \<le> ?lev")
    case True
    then show ?thesis
      using tb_run_bound [OF assms(1) _ assms(2), of "?lev - 1" ts t] lev
      by simp
  next
    case False
    then show ?thesis
      using tb_run_bound [OF assms(1) nonneg assms(2), of ts t] lev by simp
  qed
qed

end
