(* ===== verification/RateLimit.thy ===== *)
theory RateLimit
  imports RateSpec Redis Models
begin

text \<open>
  \<open>services/rate_limit\<close> and \<open>services/auth_throttle.py\<close>: the three Lua scripts run atomically by
  Redis, the limiter classes that call them, and the throttle of the authentication endpoints. The
  numbers Lua and Python compute as doubles are rationals rounded by an argument \<open>fl\<close>, applied after
  each arithmetic operation; the laws of rounding the code relies on are the locale \<open>rounding\<close>. A
  \<open>tick\<close> is what the clocks show when a check runs: Redis's clock, \<open>time.time()\<close> and
  \<open>time.perf_counter_ns()\<close>.
\<close>

record rate_limit_result =
  rl_allowed :: bool
  rl_limit :: int
  rl_remaining :: int
  rl_retry_after :: int

record rate_limit_spec =
  sp_requests :: int
  sp_window_seconds :: int
  sp_burst :: "int option"

record tick =
  tk_server :: int
  tk_time :: rat
  tk_perf :: int

type_synonym 'r limiter = "tick \<Rightarrow> string \<Rightarrow> rate_limit_spec \<Rightarrow> ('r, exn, rate_limit_result) prog"

text \<open>\<open>int(x)\<close> of a float.\<close>

definition py_int :: "rat \<Rightarrow> int" where
  "py_int x = (if 0 \<le> x then \<lfloor>x\<rfloor> else \<lceil>x\<rceil>)"

definition ms_to_seconds_ceil :: "int \<Rightarrow> int" where
  "ms_to_seconds_ceil ms = max 0 (- ((- ms) div 1000))"

section \<open>Fixed window\<close>

definition fixed_window_lua ::
  "'r redis_api \<Rightarrow> int \<Rightarrow> string \<Rightarrow> int \<Rightarrow> int \<Rightarrow> 'r \<Rightarrow> (bool \<times> int \<times> int) \<times> 'r" where
  "fixed_window_lua R t key lmt window s =
     (let (current, s1) = r_incr R t key s;
          s2 = (if current = 1 then r_pexpire R t key (window * 1000) s1 else s1);
          ttl = r_pttl R t key s2
      in if lmt < current then ((False, 0, ttl), s2) else ((True, lmt - current, 0), s2))"

definition fixed_window_check :: "'r redis_api \<Rightarrow> 'r limiter" where
  "fixed_window_check R tk key sp s =
     (let ((allowed, remaining, retry_ms), s1) = fixed_window_lua R (tk_server tk) (''rl:fw:'' @ key)
            (sp_requests sp) (sp_window_seconds sp) s
      in (Inr \<lparr> rl_allowed = allowed, rl_limit = sp_requests sp, rl_remaining = remaining,
                rl_retry_after = ms_to_seconds_ceil retry_ms \<rparr>, s1))"

section \<open>Sliding window\<close>

definition sliding_window_lua ::
  "'r redis_api \<Rightarrow> int \<Rightarrow> string \<Rightarrow> int \<Rightarrow> int \<Rightarrow> int \<Rightarrow> string \<Rightarrow> 'r \<Rightarrow> (bool \<times> int \<times> int) \<times> 'r" where
  "sliding_window_lua R t key lmt window_ms now_ms member s =
     (let s1 = r_zremrangebyscore R t key 0 (now_ms - window_ms) s;
          count = r_zcard R t key s1
      in if count < lmt
         then ((True, lmt - count - 1, 0),
               r_pexpire R t key window_ms (r_zadd R t key now_ms member s1))
         else ((False, 0, (case r_zfirst R t key s1 of
                  Some oldest \<Rightarrow> (snd oldest + window_ms) - now_ms | None \<Rightarrow> window_ms)), s1))"

definition now_ms_of :: "(rat \<Rightarrow> rat) \<Rightarrow> tick \<Rightarrow> int" where
  "now_ms_of fl tk = py_int (fl (tk_time tk * 1000))"

definition member_of :: "(rat \<Rightarrow> rat) \<Rightarrow> tick \<Rightarrow> string" where
  "member_of fl tk = int_str (now_ms_of fl tk) @ ''-'' @ int_str (tk_perf tk)"

definition sliding_window_check :: "(rat \<Rightarrow> rat) \<Rightarrow> 'r redis_api \<Rightarrow> 'r limiter" where
  "sliding_window_check fl R tk key sp s =
     (let ((allowed, remaining, retry_ms), s1) = sliding_window_lua R (tk_server tk) (''rl:sw:'' @ key)
            (sp_requests sp) (sp_window_seconds sp * 1000) (now_ms_of fl tk) (member_of fl tk) s
      in (Inr \<lparr> rl_allowed = allowed, rl_limit = sp_requests sp, rl_remaining = max 0 remaining,
                rl_retry_after = ms_to_seconds_ceil retry_ms \<rparr>, s1))"

section \<open>Token bucket\<close>

text \<open>A stored level without its time would be arithmetic on \<open>nil\<close>: the script fails.\<close>

definition token_bucket_lua ::
  "(rat \<Rightarrow> rat) \<Rightarrow> 'r redis_api \<Rightarrow> int \<Rightarrow> string \<Rightarrow> int \<Rightarrow> rat \<Rightarrow> rat \<Rightarrow> int \<Rightarrow>
   ('r, exn, bool \<times> int \<times> int) prog" where
  "token_bucket_lua fl R t key capacity refill_rate now ttl_ms s =
     (let stored = (case r_hget R t key ''tokens'' s of
            None \<Rightarrow> Some (of_int capacity, now)
          | Some tokens \<Rightarrow> map_option (\<lambda>ts. (tokens, ts)) (r_hget R t key ''ts'' s))
      in case stored of
           None \<Rightarrow> (Inl (PyExc ''ResponseError''), s)
         | Some (tokens0, ts) \<Rightarrow>
             (let delta = max 0 (fl (now - ts));
                  tokens1 = min (of_int capacity) (fl (tokens0 + fl (delta * refill_rate)));
                  allowed = (1 \<le> tokens1);
                  tokens = (if allowed then fl (tokens1 - 1) else tokens1);
                  retry = (if allowed then 0 else \<lceil>fl (fl (fl (1 - tokens1) / refill_rate) * 1000)\<rceil>);
                  s1 = r_hset R t key [(''tokens'', tokens), (''ts'', now)] s;
                  s2 = r_pexpire R t key ttl_ms s1
              in (Inr (allowed, \<lfloor>tokens\<rfloor>, retry), s2)))"

definition spec_capacity :: "rate_limit_spec \<Rightarrow> int" where
  "spec_capacity sp = (case sp_burst sp of Some b \<Rightarrow> if b = 0 then sp_requests sp else b | None \<Rightarrow> sp_requests sp)"

definition refill_rate_of :: "(rat \<Rightarrow> rat) \<Rightarrow> rate_limit_spec \<Rightarrow> rat" where
  "refill_rate_of fl sp = fl (of_int (sp_requests sp) / of_int (sp_window_seconds sp))"

definition token_bucket_check :: "(rat \<Rightarrow> rat) \<Rightarrow> 'r redis_api \<Rightarrow> 'r limiter" where
  "token_bucket_check fl R tk key sp s =
     (let capacity = spec_capacity sp; rate = refill_rate_of fl sp
      in if sp_window_seconds sp = 0 \<or> rate = 0 then (Inl (PyExc ''ZeroDivisionError''), s)
         else case token_bucket_lua fl R (tk_server tk) (''rl:tb:'' @ key) capacity rate (tk_time tk)
                (py_int (fl (fl (of_int capacity / rate) * 1000)) + 1000) s of
             (Inl e, s1) \<Rightarrow> (Inl e, s1)
           | (Inr (allowed, remaining, retry_ms), s1) \<Rightarrow>
               (Inr \<lparr> rl_allowed = allowed, rl_limit = capacity, rl_remaining = remaining,
                      rl_retry_after = ms_to_seconds_ceil retry_ms \<rparr>, s1))"

definition get_limiter :: "(rat \<Rightarrow> rat) \<Rightarrow> 'r redis_api \<Rightarrow> rate_limit_algorithm \<Rightarrow> 'r limiter" where
  "get_limiter fl R a = (case a of
     FIXED_WINDOW \<Rightarrow> fixed_window_check R
   | SLIDING_WINDOW \<Rightarrow> sliding_window_check fl R
   | TOKEN_BUCKET \<Rightarrow> token_bucket_check fl R)"

section \<open>The throttle of the authentication endpoints\<close>

definition WINDOW_SECONDS :: int where "WINDOW_SECONDS = 60"

definition auth_throttle_check :: "'r redis_api \<Rightarrow> int \<Rightarrow> int \<Rightarrow> string \<Rightarrow> ('r, exn, unit) prog" where
  "auth_throttle_check R lmt t identity s =
     (let key = ''auth_throttle:'' @ identity;
          (count, s1) = r_incr R t key s;
          s2 = (if count = 1 then r_expire R t key WINDOW_SECONDS s1 else s1)
      in if lmt < count
         then (let ttl = r_ttl R t key s2
               in (Inl (err_detailed RateLimitedError ''Too many authentication attempts. Try again later.''
                     [(''retry_after'', JInt (max ttl 1))]), s2))
         else (Inr (), s2))"

section \<open>What every limiter promises\<close>

text \<open>The bounds the schema puts on a rule, and the widths of its columns.\<close>

definition spec_ok :: "rate_limit_spec \<Rightarrow> bool" where
  "spec_ok sp \<longleftrightarrow> 1 \<le> sp_requests sp \<and> sp_requests sp < 2 ^ 31 \<and> 1 \<le> sp_window_seconds sp \<and>
     sp_window_seconds sp \<le> 86400 \<and>
     (case sp_burst sp of None \<Rightarrow> True | Some b \<Rightarrow> 1 \<le> b \<and> b < 2 ^ 31)"

definition result_ok :: "rate_limit_result \<Rightarrow> bool" where
  "result_ok r \<longleftrightarrow> 1 \<le> rl_limit r \<and> 0 \<le> rl_remaining r \<and> 0 \<le> rl_retry_after r \<and>
     (if rl_allowed r then rl_remaining r < rl_limit r \<and> rl_retry_after r = 0 else rl_remaining r = 0)"

locale rate_limiter =
  fixes chk :: "tick \<Rightarrow> string \<Rightarrow> rate_limit_spec \<Rightarrow> ('r, exn, rate_limit_result) prog"
    and ready :: "string \<Rightarrow> 'r \<Rightarrow> bool"
  assumes returns: "spec_ok sp \<Longrightarrow> ready key s \<Longrightarrow> \<exists>r s'. chk tk key sp s = (Inr r, s') \<and> result_ok r"
    and stays_ready: "spec_ok sp \<Longrightarrow> ready key s \<Longrightarrow> ready key (snd (chk tk key sp s))"
begin

text \<open>A client that keeps asking about one key always gets a well-formed answer.\<close>

lemma run_answers:
  assumes "spec_ok sp" "ready key s"
  shows "\<exists>rs s'. mapP (\<lambda>tk. chk tk key sp) tks s = (Inr rs, s') \<and> (\<forall>r \<in> set rs. result_ok r)"
  using assms(2)
proof (induction tks arbitrary: s)
  case Nil
  then show ?case by (simp add: prog_simps)
next
  case (Cons tk tks)
  obtain r s1 where one: "chk tk key sp s = (Inr r, s1)" "result_ok r"
    using returns [OF assms(1) Cons.prems] by blast
  have "ready key s1" using stays_ready [OF assms(1) Cons.prems, of tk] one by simp
  then show ?case using Cons.IH one by (fastforce simp: prog_simps)
qed

end

text \<open>Rounding to a double: monotone, and exact on integers up to \<open>2^53\<close> and on the powers of two
  it represents.\<close>

locale rounding =
  fixes fl :: "rat \<Rightarrow> rat"
  assumes fl_mono: "x \<le> y \<Longrightarrow> fl x \<le> fl y"
    and fl_int: "\<bar>n\<bar> \<le> 2 ^ 53 \<Longrightarrow> fl (of_int n) = of_int n"
    and fl_pow: "k \<le> 1000 \<Longrightarrow> fl (1 / 2 ^ k) = 1 / 2 ^ k"
begin

lemma fl_nonneg: "0 \<le> x \<Longrightarrow> 0 \<le> fl x"
  using fl_mono [of 0 x] fl_int [of 0] by simp

lemma fl_le_int: "x \<le> of_int n \<Longrightarrow> \<bar>n\<bar> \<le> 2 ^ 53 \<Longrightarrow> fl x \<le> of_int n"
  using fl_mono [of x "of_int n"] fl_int by simp

lemma refill_rate_pos:
  assumes "spec_ok sp"
  shows "0 < refill_rate_of fl sp"
proof -
  have "(1 :: rat) / 2 ^ 17 \<le> 1 / 86400" by simp
  also have "\<dots> \<le> of_int (sp_requests sp) / of_int (sp_window_seconds sp)"
    using assms by (intro frac_le) (simp_all add: spec_ok_def)
  finally have "fl (1 / 2 ^ 17) \<le> refill_rate_of fl sp"
    unfolding refill_rate_of_def by (rule fl_mono)
  then show ?thesis using fl_pow [of 17] by simp
qed

end

interpretation exact: rounding "\<lambda>x. x"
  by unfold_locales simp_all

section \<open>The scripts refine the abstract machines\<close>

definition fw_rel :: "('r \<Rightarrow> store) \<Rightarrow> string \<Rightarrow> 'r \<Rightarrow> (int \<times> int) option \<Rightarrow> bool" where
  "fw_rel view k s st \<longleftrightarrow> view s k = map_option (\<lambda>(n, d). (RInt n, Some d)) st \<and>
     (case st of None \<Rightarrow> True | Some (n, d) \<Rightarrow> 1 \<le> n)"

text \<open>The sorted set against all requests accepted so far, when Redis's clock shows \<open>now\<close>: it holds only
  entries of theirs, every one accepted less than \<open>width\<close> ago, and expires no sooner than a window
  after the last of them.\<close>

definition sw_entry :: "(rat \<Rightarrow> rat) \<Rightarrow> tick \<Rightarrow> string \<times> int" where
  "sw_entry fl tk = (member_of fl tk, now_ms_of fl tk)"

definition sw_log :: "('r \<Rightarrow> store) \<Rightarrow> string \<Rightarrow> (rat \<Rightarrow> rat) \<Rightarrow> int \<Rightarrow> int \<Rightarrow> int \<Rightarrow> 'r \<Rightarrow> tick list \<Rightarrow> bool" where
  "sw_log view k fl W width now s acc \<longleftrightarrow> (\<forall>a \<in> set acc. tk_server a \<le> now) \<and>
     (\<exists>z. (view s k = None \<and> z = [] \<or>
           (\<exists>d. view s k = Some (RZset z, Some d) \<and> (\<forall>a \<in> set acc. tk_server a + W \<le> d))) \<and>
        distinct (map fst z) \<and> set z \<subseteq> sw_entry fl ` set acc \<and>
        (\<forall>a \<in> set acc. now < tk_server a + width \<longrightarrow> sw_entry fl a \<in> set z))"

text \<open>The clocks of the requests \<open>tks\<close>: the application's reading runs ahead of Redis's by an amount that
  varies by at most \<open>jitter\<close> (the time between reading the clock and running the script, and the drift of
  one clock against the other; a constant offset does not matter).\<close>

definition clocks_within :: "(rat \<Rightarrow> rat) \<Rightarrow> int \<Rightarrow> tick set \<Rightarrow> bool" where
  "clocks_within fl jitter tks \<longleftrightarrow> (\<forall>x \<in> tks. \<forall>y \<in> tks.
     (now_ms_of fl x - tk_server x) - (now_ms_of fl y - tk_server y) \<le> jitter)"

definition tb_hash :: "rat \<Rightarrow> rat \<Rightarrow> (string \<times> rat) list \<Rightarrow> bool" where
  "tb_hash tokens ts h \<longleftrightarrow> map_of h ''tokens'' = Some tokens \<and> map_of h ''ts'' = Some ts"

definition tb_ready :: "('r \<Rightarrow> store) \<Rightarrow> string \<Rightarrow> 'r \<Rightarrow> bool" where
  "tb_ready view k s \<longleftrightarrow> view s k = None \<or>
     (\<exists>h d tokens ts. view s k = Some (RHash h, d) \<and> tb_hash tokens ts h \<and> 0 \<le> tokens)"

lemma tb_hash_merge: "tb_hash tokens ts (hmerge [(''tokens'', tokens), (''ts'', ts)] h)"
  by (simp add: tb_hash_def hmerge_def)

lemma live_stays: "\<exists>d. live (st(k \<mapsto> (v, deadline_at st t k))) t k = Some (v, d)"
proof (cases "deadline_at st t k")
  case (Some d)
  then obtain v' where "live st t k = Some (v', Some d)"
    by (cases "live st t k") (auto simp: deadline_at_def)
  then show ?thesis using Some live_deadline [of st t k v' d] by simp
qed simp

lemma ms_to_seconds_pos: "0 < ms \<Longrightarrow> 1 \<le> ms_to_seconds_ceil ms"
proof -
  assume "0 < ms"
  then have "(- ms) div 1000 < 0" by (simp add: neg_imp_zdiv_neg_iff)
  then show ?thesis by (simp add: ms_to_seconds_ceil_def)
qed

lemma ms_to_seconds_simps [simp]: "0 \<le> ms_to_seconds_ceil ms" "ms_to_seconds_ceil 0 = 0"
  by (simp_all add: ms_to_seconds_ceil_def)

context redis_server
begin

lemma fixed_window_lua_refines:
  assumes "fw_rel view k s st" "0 < W"
  shows "\<exists>allowed rest s1. fixed_window_lua R t k lmt W s = ((allowed, rest), s1) \<and>
    allowed = fst (fw_step lmt (W * 1000) t st) \<and> fw_rel view k s1 (snd (fw_step lmt (W * 1000) t st)) \<and>
    (if allowed then 0 \<le> fst rest \<and> fst rest < max 1 lmt \<and> snd rest = 0 else fst rest = 0 \<and> 0 < snd rest) \<and>
    (\<forall>k'. k' = k \<or> view s1 k' = view s k')"
proof (cases "live (view s) t k")
  case None
  have fresh: "fw_step lmt (W * 1000) t st = (1 \<le> lmt, Some (1, t + W * 1000))"
    using None assms(1) by (cases st) (auto simp: fw_rel_def live_def split: if_splits)
  obtain c s0 where i: "r_incr R t k s = (c, s0)" by fastforce
  have c: "c = 1" "view s0 = (view s)(k \<mapsto> (RInt 1, None))"
    using incr_val [of s t k] incr_view [of s t k] None i by (simp_all add: live_defs)
  have v: "view (r_pexpire R t k (W * 1000) s0) = (view s)(k \<mapsto> (RInt 1, Some (t + W * 1000)))"
    using pexpire_view [of "W * 1000" t k s0] assms(2) c by (simp add: put_expiry_def)
  show ?thesis
    using assms(2) c i v by (simp add: fixed_window_lua_def fresh fw_rel_def pttl_val pttl_of_def) (cases "1 \<le> lmt"; simp)
next
  case (Some vd)
  then obtain n d where st: "st = Some (n, d)" "vd = (RInt n, Some d)" "t < d" "1 \<le> n"
    using assms(1) by (auto simp: fw_rel_def live_def split: if_splits option.splits)
  have same: "fw_step lmt (W * 1000) t st = (n + 1 \<le> lmt, Some (n + 1, d))"
    using st by simp
  obtain c s0 where i: "r_incr R t k s = (c, s0)" by fastforce
  have c: "c = n + 1" "view s0 = (view s)(k \<mapsto> (RInt (n + 1), Some d))"
    using incr_val [of s t k] incr_view [of s t k] Some st i by (simp_all add: live_defs)
  show ?thesis
    using st c i by (simp add: fixed_window_lua_def same fw_rel_def pttl_val pttl_of_def)
qed

text \<open>What the script does to the sorted set, whatever the two clocks show: \<open>z'\<close> is what pruning
  leaves.\<close>

lemma sliding_window_lua_run:
  assumes zs: "is_zset (view s) t k" and W: "0 < W"
    and z': "z' = filter (\<lambda>e. \<not> (0 \<le> snd e \<and> snd e \<le> n - W)) (zset_at (view s) t k)"
    and new: "m \<notin> fst ` set z'"
  shows "\<exists>rest s1. sliding_window_lua R t k lmt W n m s = ((int (length z') < lmt, rest), s1) \<and>
    view s1 k = (if int (length z') < lmt then Some (RZset (z' @ [(m, n)]), Some (t + W))
      else if z' = [] then None else Some (RZset z', deadline_at (view s) t k))"
proof -
  define s1 where "s1 = r_zremrangebyscore R t k 0 (n - W) s"
  have v1: "view s1 = put_zset (view s) t k z'" using zrem_view [OF zs] by (simp add: s1_def z')
  have "live (view s1) t k = (if z' = [] then None else Some (RZset z', deadline_at (view s) t k))"
    using live_deadline [of "view s" t k]
    by (auto simp: v1 put_zset_def deadline_at_def split: option.splits prod.splits)
       (metis not_le live_deadline option.exhaust live_upd_same(1,2))+
  then have at1: "is_zset (view s1) t k" "zset_at (view s1) t k = z'"
    by (simp_all add: live_defs split: option.splits)
  show ?thesis
  proof (cases "int (length z') < lmt")
    case True
    define s2 where "s2 = r_zadd R t k n m s1"
    have put: "zput m n z' = z' @ [(m, n)]"
      using new by (auto simp: zput_def image_iff intro!: filter_True)
    have v2: "view s2 = put_zset (view s1) t k (z' @ [(m, n)])"
      using zadd_view [OF at1(1), of n m] at1(2) put by (simp add: s2_def)
    have "\<exists>d. live (view s2) t k = Some (RZset (z' @ [(m, n)]), d)"
      unfolding v2 put_zset_def using live_deadline [of "view s1" t k]
      by (auto simp: deadline_at_def split: option.splits prod.splits) (metis not_le option.exhaust live_upd_same(1,2))+
    then have "view (r_pexpire R t k W s2) k = Some (RZset (z' @ [(m, n)]), Some (t + W))"
      using pexpire_view [OF W, of t k s2] by (auto simp: put_expiry_def)
    then show ?thesis
      using True zcard_val [OF at1(1)] at1(2)
      by (simp add: sliding_window_lua_def s1_def [symmetric] s2_def [symmetric])
  next
    case False
    then show ?thesis
      using zcard_val [OF at1(1)] at1(2)
      by (simp add: sliding_window_lua_def s1_def [symmetric]) (simp add: v1 put_zset_def)
  qed
qed

lemma sliding_window_lua_step:
  assumes log: "sw_log view k fl W (W - jitter) now s acc" and W: "0 < W" "0 \<le> jitter"
    and t: "now \<le> tk_server tk"
    and new: "member_of fl tk \<notin> member_of fl ` set acc"
    and clocks: "\<forall>a \<in> set acc. 0 \<le> now_ms_of fl a" "clocks_within fl jitter (insert tk (set acc))"
  shows "\<exists>z' rest s1.
    sliding_window_lua R (tk_server tk) k lmt W (now_ms_of fl tk) (member_of fl tk) s =
      ((int (length z') < lmt, rest), s1) \<and>
    distinct z' \<and> set z' \<subseteq> sw_entry fl ` {a \<in> set acc. now_ms_of fl tk - W < now_ms_of fl a} \<and>
    sw_entry fl ` {a \<in> set acc. tk_server tk < tk_server a + (W - jitter)} \<subseteq> set z' \<and>
    sw_log view k fl W (W - jitter) (tk_server tk) s1 (if int (length z') < lmt then acc @ [tk] else acc)"
proof -
  let ?t = "tk_server tk" and ?n = "now_ms_of fl tk" and ?m = "member_of fl tk"
  obtain z where z: "view s k = None \<and> z = [] \<or>
      (\<exists>d. view s k = Some (RZset z, Some d) \<and> (\<forall>a \<in> set acc. tk_server a + W \<le> d))"
    "distinct (map fst z)" "set z \<subseteq> sw_entry fl ` set acc"
    "\<forall>a \<in> set acc. now < tk_server a + (W - jitter) \<longrightarrow> sw_entry fl a \<in> set z"
    and past: "\<forall>a \<in> set acc. tk_server a \<le> now"
    using log unfolding sw_log_def by blast
  have zs: "is_zset (view s) ?t k" using z(1) by (auto simp: live_defs live_def)
  define z' where "z' = filter (\<lambda>e. \<not> (0 \<le> snd e \<and> snd e \<le> ?n - W)) (zset_at (view s) ?t k)"
  have at: "zset_at (view s) ?t k = (if live (view s) ?t k = None then [] else z)"
    using z(1) by (auto simp: live_defs live_def split: if_splits)
  then have sub: "set z' \<subseteq> set z" "distinct (map fst z')"
    using z(2) by (auto simp: z'_def distinct_map_filter)
  have "0 \<le> snd e" if "e \<in> set z" for e
    using that z(3) clocks(1) by (auto simp: sw_entry_def)
  then have upper: "set z' \<subseteq> sw_entry fl ` {a \<in> set acc. ?n - W < now_ms_of fl a}"
    using sub(1) z(3) by (fastforce simp: z'_def sw_entry_def at split: if_splits)
  have lower: "sw_entry fl a \<in> set z'" if a: "a \<in> set acc" "?t < tk_server a + (W - jitter)" for a
  proof -
    have "(?n - ?t) - (now_ms_of fl a - tk_server a) \<le> jitter"
      using clocks(2) a(1) by (simp add: clocks_within_def)
    then have "\<not> now_ms_of fl a \<le> ?n - W" using a(2) by linarith
    moreover have "sw_entry fl a \<in> set z" using z(4) a t by auto
    moreover have "live (view s) ?t k \<noteq> None"
      using z(1) a W(2) \<open>sw_entry fl a \<in> set z\<close> by (fastforce simp: live_def)
    ultimately show ?thesis by (simp add: z'_def at sw_entry_def)
  qed
  have "?m \<notin> fst ` set z'" using sub(1) z(3) new by (fastforce simp: sw_entry_def)
  then obtain rest s1 where lua: "sliding_window_lua R ?t k lmt W ?n ?m s = ((int (length z') < lmt, rest), s1)"
    "view s1 k = (if int (length z') < lmt then Some (RZset (z' @ [(?m, ?n)]), Some (?t + W))
      else if z' = [] then None else Some (RZset z', deadline_at (view s) ?t k))"
    using sliding_window_lua_run [OF zs W(1) z'_def] by blast
  have dl: "\<exists>d. deadline_at (view s) ?t k = Some d \<and> (\<forall>a \<in> set acc. tk_server a + W \<le> d)" if "z' \<noteq> []"
  proof -
    have "live (view s) ?t k \<noteq> None" using that at by (auto simp: z'_def split: if_splits)
    then show ?thesis using z(1) by (auto simp: deadline_at_def live_def split: if_splits)
  qed
  have "sw_log view k fl W (W - jitter) ?t s1 (if int (length z') < lmt then acc @ [tk] else acc)"
  proof (cases "int (length z') < lmt")
    case True
    have "view s1 k = Some (RZset (z' @ [sw_entry fl tk]), Some (?t + W))"
      using lua(2) True by (simp add: sw_entry_def)
    moreover have "distinct (map fst (z' @ [sw_entry fl tk]))"
      using sub(2) \<open>?m \<notin> fst ` set z'\<close> by (simp add: sw_entry_def)
    moreover have "set (z' @ [sw_entry fl tk]) \<subseteq> sw_entry fl ` set (acc @ [tk])" using sub(1) z(3) by auto
    moreover have "\<forall>a \<in> set (acc @ [tk]). tk_server a + W \<le> ?t + W \<and> tk_server a \<le> ?t" using past t by auto
    ultimately show ?thesis
      using True lower unfolding sw_log_def by (intro conjI exI [of _ "z' @ [sw_entry fl tk]"]) auto
  next
    case False
    then have "view s1 k = None \<and> z' = [] \<or>
        (\<exists>d. view s1 k = Some (RZset z', Some d) \<and> (\<forall>a \<in> set acc. tk_server a + W \<le> d))"
      using lua(2) dl by auto
    then show ?thesis
      using False sub z(3) past t lower unfolding sw_log_def by (intro conjI exI [of _ z']) auto
  qed
  then show ?thesis
    using lua(1) upper lower sub(2) by (intro exI [of _ z'] exI [of _ rest] exI [of _ s1]) (auto simp: distinct_map)
qed

end

section \<open>The limiters keep their promise\<close>

definition fw_ready :: "('r \<Rightarrow> store) \<Rightarrow> string \<Rightarrow> 'r \<Rightarrow> bool" where
  "fw_ready view key s \<longleftrightarrow> (\<exists>st. fw_rel view (''rl:fw:'' @ key) s st)"

definition tb_stored :: "store \<Rightarrow> int \<Rightarrow> string \<Rightarrow> rat \<times> rat \<Rightarrow> rat \<times> rat" where
  "tb_stored st t k dflt = (case live st t k of
     Some (RHash h, d) \<Rightarrow> (the (map_of h ''tokens''), the (map_of h ''ts'')) | _ \<Rightarrow> dflt)"

context redis_server
begin

lemma fixed_window_check_ok:
  assumes "spec_ok sp" "fw_ready view key s"
  shows "\<exists>r s'. fixed_window_check R tk key sp s = (Inr r, s') \<and> result_ok r \<and> fw_ready view key s' \<and>
    (\<not> rl_allowed r \<longrightarrow> 1 \<le> rl_retry_after r)"
proof -
  obtain st where st: "fw_rel view (''rl:fw:'' @ key) s st" using assms(2) by (auto simp: fw_ready_def)
  have W: "0 < sp_window_seconds sp" using assms(1) by (simp add: spec_ok_def)
  note step = fixed_window_lua_refines [OF st W, of "tk_server tk" "sp_requests sp"]
  obtain a rest s1 where lua: "fixed_window_lua R (tk_server tk) (''rl:fw:'' @ key) (sp_requests sp)
      (sp_window_seconds sp) s = ((a, rest), s1)"
    "fw_rel view (''rl:fw:'' @ key) s1 (snd (fw_step (sp_requests sp) (sp_window_seconds sp * 1000) (tk_server tk) st))"
    "if a then 0 \<le> fst rest \<and> fst rest < max 1 (sp_requests sp) \<and> snd rest = 0
     else fst rest = 0 \<and> 0 < snd rest"
    using step by blast
  have "fw_ready view key s1" using lua(2) unfolding fw_ready_def by blast
  moreover have "1 \<le> sp_requests sp" using assms(1) by (simp add: spec_ok_def)
  ultimately show ?thesis
    using lua(1,3) ms_to_seconds_pos [of "snd rest"]
    by (cases rest; cases a) (simp_all add: fixed_window_check_def result_ok_def)
qed

lemma token_bucket_lua_run:
  assumes "tb_ready view k s" "0 < ttl_ms" "tb_stored (view s) t k (of_int cap, now) = (tokens0, ts)"
    and "level = min (of_int cap) (fl (tokens0 + fl (max 0 (fl (now - ts)) * rate)))"
    and "left = (if 1 \<le> level then fl (level - 1) else level)"
    and "retry = (if 1 \<le> level then 0 else \<lceil>fl (fl (fl (1 - level) / rate) * 1000)\<rceil>)"
  shows "\<exists>s1 h. token_bucket_lua fl R t k cap rate now ttl_ms s = (Inr (1 \<le> level, \<lfloor>left\<rfloor>, retry), s1) \<and>
    view s1 k = Some (RHash h, Some (t + ttl_ms)) \<and> tb_hash left now h"
proof -
  have at: "live (view s) t k = None \<or>
      (\<exists>h d x y. live (view s) t k = Some (RHash h, d) \<and> tb_hash x y h)"
    using assms(1) by (fastforce simp: tb_ready_def live_def split: option.splits)
  then have h: "is_hash (view s) t k" by (auto simp: is_hash_def)
  have stored: "(case r_hget R t k ''tokens'' s of None \<Rightarrow> Some (of_int cap, now)
      | Some tokens \<Rightarrow> map_option (\<lambda>ts. (tokens, ts)) (r_hget R t k ''ts'' s)) = Some (tokens0, ts)"
    using at assms(3)
    by (auto simp: hget_val [OF h] tb_stored_def hash_at_def tb_hash_def)
  define s1 where "s1 = r_hset R t k [(''tokens'', left), (''ts'', now)] s"
  define h' where "h' = hmerge [(''tokens'', left), (''ts'', now)] (hash_at (view s) t k)"
  have v1: "view s1 = (view s)(k \<mapsto> (RHash h', deadline_at (view s) t k))"
    using hset_view [OF h] by (simp add: s1_def h'_def)
  have "\<exists>d. live (view s1) t k = Some (RHash h', d)"
    using live_stays [where st = "view s" and t = t and k = k] by (simp add: v1)
  then have v2: "view (r_pexpire R t k ttl_ms s1) k = Some (RHash h', Some (t + ttl_ms))"
    using pexpire_view [OF assms(2), of t k s1] by (auto simp: put_expiry_def)
  have "token_bucket_lua fl R t k cap rate now ttl_ms s =
      (Inr (1 \<le> level, \<lfloor>left\<rfloor>, retry), r_pexpire R t k ttl_ms s1)"
    using assms(4-6) by (simp add: token_bucket_lua_def stored s1_def Let_def)
  then show ?thesis using v2 tb_hash_merge by (auto simp: h'_def)
qed

end

definition sw_ready :: "('r \<Rightarrow> store) \<Rightarrow> string \<Rightarrow> 'r \<Rightarrow> bool" where
  "sw_ready view key s \<longleftrightarrow> (let k = ''rl:sw:'' @ key in
     view s k = None \<or> (\<exists>z d. view s k = Some (RZset z, d)))"

locale redis_rounding = redis_server R view + rounding fl
  for R :: "'r redis_api" and view :: "'r \<Rightarrow> store" and fl :: "rat \<Rightarrow> rat"
begin

lemma token_bucket_check_ok:
  assumes "spec_ok sp" "tb_ready view (''rl:tb:'' @ key) s"
  shows "\<exists>r s'. token_bucket_check fl R tk key sp s = (Inr r, s') \<and> result_ok r \<and>
    tb_ready view (''rl:tb:'' @ key) s'"
proof -
  let ?k = "''rl:tb:'' @ key" and ?cap = "spec_capacity sp" and ?rate = "refill_rate_of fl sp"
  let ?now = "tk_time tk" and ?t = "tk_server tk"
  let ?ttl = "py_int (fl (fl (of_int ?cap / ?rate) * 1000)) + 1000"
  have cap: "1 \<le> ?cap" "?cap < 2 ^ 31" using assms(1) by (auto simp: spec_ok_def spec_capacity_def split: option.splits)
  have rate: "0 < ?rate" by (rule refill_rate_pos [OF assms(1)])
  have "0 \<le> fl (fl (of_int ?cap / ?rate) * 1000)" using rate cap by (intro fl_nonneg mult_nonneg_nonneg) simp_all
  then have ttl: "0 < ?ttl"
    by (simp add: py_int_def add_nonneg_pos)
  obtain tokens0 ts where st: "tb_stored (view s) ?t ?k (of_int ?cap, ?now) = (tokens0, ts)" by fastforce
  have tok0: "0 \<le> tokens0"
    using st assms(2) cap
    by (auto simp: tb_stored_def tb_ready_def tb_hash_def live_def split: option.splits if_splits)
  define level where "level = min (of_int ?cap) (fl (tokens0 + fl (max 0 (fl (?now - ts)) * ?rate)))"
  have level: "0 \<le> level" "level \<le> of_int ?cap"
    using tok0 cap rate by (auto simp: level_def intro!: fl_nonneg add_nonneg_nonneg mult_nonneg_nonneg)
  define left where "left = (if 1 \<le> level then fl (level - 1) else level)"
  have left: "0 \<le> left" using level by (simp add: left_def fl_nonneg)
  have le: "1 \<le> level \<Longrightarrow> left \<le> of_int (?cap - 1)"
    using level cap fl_le_int [of "level - 1" "?cap - 1"] by (simp add: left_def)
  define retry where "retry = (if 1 \<le> level then 0 else \<lceil>fl (fl (fl (1 - level) / ?rate) * 1000)\<rceil>)"
  obtain s1 h where lua: "token_bucket_lua fl R ?t ?k ?cap ?rate ?now ?ttl s = (Inr (1 \<le> level, \<lfloor>left\<rfloor>, retry), s1)"
    "view s1 ?k = Some (RHash h, Some (?t + ?ttl))" "tb_hash left ?now h"
    using token_bucket_lua_run [OF assms(2) ttl st level_def left_def retry_def] by blast
  have "tb_ready view ?k s1" using lua left by (auto simp: tb_ready_def)
  moreover have "1 \<le> level \<Longrightarrow> \<lfloor>left\<rfloor> < ?cap \<and> retry = 0" "\<not> 1 \<le> level \<Longrightarrow> \<lfloor>left\<rfloor> = 0"
    using le left by (auto simp: retry_def left_def floor_less_iff floor_eq_iff)
  ultimately show ?thesis
    using lua assms(1) rate cap left by (auto simp: token_bucket_check_def Let_def result_ok_def spec_ok_def)
qed

end

definition zset_key :: "store \<Rightarrow> string \<Rightarrow> bool" where
  "zset_key st k \<longleftrightarrow> (case st k of None \<Rightarrow> True | Some (RZset z, d) \<Rightarrow> True | _ \<Rightarrow> False)"

lemma zset_key_facts:
  "zset_key st k \<Longrightarrow> is_zset st t k"
  "zset_key st k \<Longrightarrow> zset_key (put_zset st t k z) k"
  "zset_key st k \<Longrightarrow> zset_key (put_expiry st t k d) k"
  by (auto simp: zset_key_def is_zset_def live_def put_zset_def put_expiry_def
      split: option.splits rval.splits prod.splits if_splits)

lemma sw_ready_iff: "sw_ready view key s \<longleftrightarrow> zset_key (view s) (''rl:sw:'' @ key)"
  by (auto simp: sw_ready_def zset_key_def split: option.splits rval.splits)

context redis_server
begin

lemma sliding_window_lua_ok:
  assumes k0: "zset_key (view s) k" and W: "0 < W"
  shows "\<exists>a rm rt s'. sliding_window_lua R t k lmt W now member s = ((a, rm, rt), s') \<and> zset_key (view s') k \<and>
    (if a then 0 \<le> rm \<and> rm < lmt \<and> rt = 0 else rm = 0)"
proof -
  define s1 where "s1 = r_zremrangebyscore R t k 0 (now - W) s"
  define s2 where "s2 = r_pexpire R t k W (r_zadd R t k now member s1)"
  have k1: "zset_key (view s1) k"
    unfolding s1_def zrem_view [OF zset_key_facts(1) [OF k0]] by (rule zset_key_facts(2) [OF k0])
  have k2: "zset_key (view s2) k"
    unfolding s2_def pexpire_view [OF W] zadd_view [OF zset_key_facts(1) [OF k1]]
    by (intro zset_key_facts(2,3) k1)
  have "0 \<le> r_zcard R t k s1" unfolding zcard_val [OF zset_key_facts(1) [OF k1]] by simp
  then show ?thesis
    using k1 k2 by (auto simp: sliding_window_lua_def s1_def [symmetric] s2_def [symmetric] Let_def)
qed

lemma sliding_window_check_ok:
  assumes "spec_ok sp" "sw_ready view key s"
  shows "\<exists>r s'. sliding_window_check fl R tk key sp s = (Inr r, s') \<and> result_ok r \<and> sw_ready view key s'"
proof -
  have W: "0 < sp_window_seconds sp * 1000" "1 \<le> sp_requests sp" using assms(1) by (simp_all add: spec_ok_def)
  have k0: "zset_key (view s) (''rl:sw:'' @ key)" using assms(2) by (simp add: sw_ready_iff)
  obtain a rm rt s' where lua: "sliding_window_lua R (tk_server tk) (''rl:sw:'' @ key) (sp_requests sp)
      (sp_window_seconds sp * 1000) (now_ms_of fl tk) (member_of fl tk) s = ((a, rm, rt), s')"
    "zset_key (view s') (''rl:sw:'' @ key)"
    "if a then 0 \<le> rm \<and> rm < sp_requests sp \<and> rt = 0 else rm = 0"
    using sliding_window_lua_ok [OF k0 W(1)] by blast
  then show ?thesis
    using W(2) by (cases a) (simp_all add: sliding_window_check_def result_ok_def sw_ready_iff)
qed

end

sublocale redis_server \<subseteq> fw: rate_limiter "fixed_window_check R" "fw_ready view"
proof unfold_locales
  fix sp key s tk
  assume "spec_ok sp" "fw_ready view key s"
  from fixed_window_check_ok [OF this]
  show "\<exists>r s'. fixed_window_check R tk key sp s = (Inr r, s') \<and> result_ok r"
    and "fw_ready view key (snd (fixed_window_check R tk key sp s))"
    by (metis snd_conv)+
qed

sublocale redis_rounding \<subseteq> sw: rate_limiter "sliding_window_check fl R" "sw_ready view"
proof unfold_locales
  fix sp key s tk
  assume "spec_ok sp" "sw_ready view key s"
  from sliding_window_check_ok [OF this]
  show "\<exists>r s'. sliding_window_check fl R tk key sp s = (Inr r, s') \<and> result_ok r"
    and "sw_ready view key (snd (sliding_window_check fl R tk key sp s))"
    by (metis snd_conv)+
qed

sublocale redis_rounding \<subseteq> tb: rate_limiter "token_bucket_check fl R"
  "\<lambda>key. tb_ready view (''rl:tb:'' @ key)"
proof unfold_locales
  fix sp key s tk
  assume "spec_ok sp" "tb_ready view (''rl:tb:'' @ key) s"
  from token_bucket_check_ok [OF this]
  show "\<exists>r s'. token_bucket_check fl R tk key sp s = (Inr r, s') \<and> result_ok r"
    and "tb_ready view (''rl:tb:'' @ key) (snd (token_bucket_check fl R tk key sp s))"
    by (metis snd_conv)+
qed

interpretation mem_exact: redis_rounding mem_redis "\<lambda>s. s" "\<lambda>x. x"
  by (intro redis_rounding.intro mem.redis_server_axioms exact.rounding_axioms)

interpretation mem_fw: rate_limiter "fixed_window_check mem_redis" "fw_ready (\<lambda>s. s)"
  by (rule mem.fw.rate_limiter_axioms)

section \<open>Runs of checks on one key\<close>

definition decide :: "(tick \<Rightarrow> ('r, exn, rate_limit_result) prog) \<Rightarrow> tick \<Rightarrow> 'r \<Rightarrow> bool \<times> 'r" where
  "decide chk tk s = (case chk tk s of (Inl _, s1) \<Rightarrow> (False, s1) | (Inr r, s1) \<Rightarrow> (rl_allowed r, s1))"

context redis_server
begin

lemma fixed_window_run:
  assumes "0 < sp_window_seconds sp" "view s (''rl:fw:'' @ key) = None"
  shows "fst (run (decide (\<lambda>tk. fixed_window_check R tk key sp)) tks s) =
    fst (run (fw_step (sp_requests sp) (sp_window_seconds sp * 1000)) (map tk_server tks) None)"
proof -
  have "fst (decide (\<lambda>tk. fixed_window_check R tk key sp) tk s) =
      fst (fw_step (sp_requests sp) (sp_window_seconds sp * 1000) (tk_server tk) st) \<and>
    fw_rel view (''rl:fw:'' @ key) (snd (decide (\<lambda>tk. fixed_window_check R tk key sp) tk s))
      (snd (fw_step (sp_requests sp) (sp_window_seconds sp * 1000) (tk_server tk) st))"
    if "tk \<in> UNIV" and rel: "fw_rel view (''rl:fw:'' @ key) s st" for tk s st
  proof -
    note step = fixed_window_lua_refines [OF rel assms(1), of "tk_server tk" "sp_requests sp"]
    obtain rest s1 where lua: "fixed_window_lua R (tk_server tk) (''rl:fw:'' @ key) (sp_requests sp)
        (sp_window_seconds sp) s =
          ((fst (fw_step (sp_requests sp) (sp_window_seconds sp * 1000) (tk_server tk) st), rest), s1)"
      "fw_rel view (''rl:fw:'' @ key) s1 (snd (fw_step (sp_requests sp) (sp_window_seconds sp * 1000) (tk_server tk) st))"
      using step by blast
    then show ?thesis by (cases rest) (simp add: decide_def fixed_window_check_def)
  qed
  moreover have "fw_rel view (''rl:fw:'' @ key) s None" using assms(2) by (simp add: fw_rel_def)
  ultimately show ?thesis
    using run_simulation [where rel = "fw_rel view (''rl:fw:'' @ key)", OF _ subset_UNIV] by blast
qed

lemma sliding_window_run_from:
  assumes "0 < sp_window_seconds sp" "0 \<le> jitter" "W = sp_window_seconds sp * 1000"
    and "sw_log view (''rl:sw:'' @ key) fl W (W - jitter) now s acc"
    and "sorted (now # map tk_server tks)" "distinct (map (member_of fl) (acc @ tks))"
    and "\<forall>tk \<in> set (acc @ tks). 0 \<le> now_ms_of fl tk" "clocks_within fl jitter (set (acc @ tks))"
    and "span_ok (sp_requests sp) (W - jitter) (map tk_server acc)"
    and "ds = fst (run (decide (\<lambda>tk. sliding_window_check fl R tk key sp)) tks s)"
  shows "span_ok (sp_requests sp) (W - jitter) (map tk_server (acc @ accepted tks ds)) \<and>
    (jitter = 0 \<longrightarrow> ds = fst (run (sw_reference (sp_requests sp) W) (map (now_ms_of fl) tks) (map (now_ms_of fl) acc)))"
  using assms(4-)
proof (induction tks arbitrary: now s acc ds)
  case (Cons tk tks)
  let ?k = "''rl:sw:'' @ key" and ?t = "tk_server tk" and ?n = "now_ms_of fl tk" and ?lmt = "sp_requests sp"
  have W: "0 < W" using assms(1,3) by simp
  have new: "member_of fl tk \<notin> member_of fl ` set acc" and t: "now \<le> ?t"
    and pos: "\<forall>a \<in> set acc. 0 \<le> now_ms_of fl a" and cl: "clocks_within fl jitter (insert tk (set acc))"
    using Cons.prems by (auto simp: clocks_within_def)
  obtain z' rest s1 where lua: "sliding_window_lua R ?t ?k ?lmt W ?n (member_of fl tk) s =
      ((int (length z') < ?lmt, rest), s1)"
    and z': "distinct z'" "set z' \<subseteq> sw_entry fl ` {a \<in> set acc. ?n - W < now_ms_of fl a}"
      "sw_entry fl ` {a \<in> set acc. ?t < tk_server a + (W - jitter)} \<subseteq> set z'"
    and log: "sw_log view ?k fl W (W - jitter) ?t s1 (if int (length z') < ?lmt then acc @ [tk] else acc)"
    using sliding_window_lua_step [OF Cons.prems(1) W assms(2) t new pos cl, of ?lmt] by blast
  let ?acc = "if int (length z') < ?lmt then acc @ [tk] else acc"
  have one: "decide (\<lambda>tk. sliding_window_check fl R tk key sp) tk s = (int (length z') < ?lmt, s1)"
    using lua assms(3) by (cases rest) (simp add: decide_def sliding_window_check_def)
  have inj: "inj_on (sw_entry fl) (set acc)" "distinct acc"
    using Cons.prems(3) by (auto simp: distinct_map inj_on_def sw_entry_def)
  have card: "length (filter P acc) = card (sw_entry fl ` {a \<in> set acc. P a})" for P
    using inj by (subst card_image) (auto simp: inj_on_def distinct_card [symmetric] set_filter)
  have few: "length (filter (\<lambda>u. ?t - (W - jitter) < u) (map tk_server acc)) \<le> length z'"
  proof -
    have "length (filter (\<lambda>u. ?t - (W - jitter) < u) (map tk_server acc)) =
        card (sw_entry fl ` {a \<in> set acc. ?t < tk_server a + (W - jitter)})"
      unfolding filter_map length_map card o_def by (simp add: algebra_simps)
    also have "\<dots> \<le> card (set z')" by (rule card_mono [OF finite_set z'(3)])
    finally show ?thesis using distinct_card [OF z'(1)] by simp
  qed
  have "span_ok ?lmt (W - jitter) (map tk_server ?acc)"
    using Cons.prems(6) few by (auto intro!: span_ok_snoc)
  moreover have "set (?acc @ tks) \<subseteq> set (acc @ tk # tks)" "distinct (map (member_of fl) (?acc @ tks))"
    using Cons.prems(3) by auto
  moreover have "clocks_within fl jitter (set (?acc @ tks))"
    using Cons.prems(5) by (auto simp: clocks_within_def)
  ultimately have IH: "span_ok ?lmt (W - jitter) (map tk_server (?acc @ accepted tks (tl ds))) \<and>
      (jitter = 0 \<longrightarrow> tl ds = fst (run (sw_reference ?lmt W) (map (now_ms_of fl) tks) (map (now_ms_of fl) ?acc)))"
    using Cons.prems(2,4,7) one by (intro Cons.IH [OF log]) (auto split: if_splits)
  have ds: "ds = (int (length z') < ?lmt) # tl ds" using Cons.prems(7) one by simp
  have exact: "length (filter (\<lambda>u. ?n - W < u) (map (now_ms_of fl) acc)) = length z'" if "jitter = 0"
  proof -
    have "?t < tk_server a + W \<longleftrightarrow> ?n - W < now_ms_of fl a" if "a \<in> set acc" for a
      using cl \<open>jitter = 0\<close> that unfolding clocks_within_def by force
    then have "set z' = sw_entry fl ` {a \<in> set acc. ?n - W < now_ms_of fl a}"
      using z'(2,3) \<open>jitter = 0\<close> by auto
    then show ?thesis
      unfolding filter_map length_map o_def card using distinct_card [OF z'(1)] by simp
  qed
  show ?case
  proof (intro conjI impI)
    show "span_ok ?lmt (W - jitter) (map tk_server (acc @ accepted (tk # tks) ds))"
      using IH by (subst ds) (auto split: if_splits)
  next
    assume j: "jitter = 0"
    have "sw_reference ?lmt W ?n (map (now_ms_of fl) acc) = (int (length z') < ?lmt, map (now_ms_of fl) ?acc)"
      using exact [OF j] by (simp add: sw_reference_def)
    then show "ds = fst (run (sw_reference ?lmt W) (map (now_ms_of fl) (tk # tks)) (map (now_ms_of fl) acc))"
      using IH j by (subst ds) simp
  qed
qed simp

end

text \<open>The two clocks over the requests \<open>tks\<close>: their difference varies by less than a second, whatever it
  is. The code keeps a bucket alive a second longer than it needs to refill.\<close>

definition clocks_in_step :: "tick set \<Rightarrow> bool" where
  "clocks_in_step tks \<longleftrightarrow> (\<forall>x \<in> tks. \<forall>y \<in> tks.
     of_int (tk_server y - tk_server x) \<le> (tk_time y - tk_time x) * 1000 + 999)"

definition tb_rel ::
  "('r \<Rightarrow> store) \<Rightarrow> string \<Rightarrow> int \<Rightarrow> tick set \<Rightarrow> 'r \<Rightarrow> (rat \<times> rat) option \<Rightarrow> bool" where
  "tb_rel view k ttl tks s st \<longleftrightarrow> (case st of None \<Rightarrow> view s k = None | Some (tok, ts) \<Rightarrow>
     0 \<le> tok \<and> (\<exists>h x. x \<in> tks \<and> ts = tk_time x \<and>
       view s k = Some (RHash h, Some (tk_server x + ttl)) \<and> tb_hash tok ts h))"

text \<open>A bucket that expired had time to fill up: nobody can tell it from one that never
  expires.\<close>

lemma expired_bucket_is_full:
  fixes cap :: int and rate :: rat
  assumes "0 < rate" "0 \<le> cap" "0 \<le> tok" "t0 + (\<lfloor>of_int cap / rate * 1000\<rfloor> + 1000) \<le> t"
    and "of_int (t - t0) \<le> (now - ts) * 1000 + 999"
  shows "tb_level (of_int cap) rate now (Some (tok, ts)) = of_int cap"
proof -
  have "of_int cap / rate * 1000 - 1 < of_int \<lfloor>of_int cap / rate * 1000\<rfloor>" by linarith
  moreover have "(of_int \<lfloor>of_int cap / rate * 1000\<rfloor> + 1000 :: rat) \<le> of_int (t - t0)"
    using assms(4) by linarith
  moreover have "q \<le> n - u" if "q * 1000 - 1 < b" "b + 1000 \<le> c" "c \<le> (n - u) * 1000 + 999"
    for b c q n u :: rat using that by (simp add: algebra_simps)
  ultimately have gap: "of_int cap / rate \<le> now - ts" using assms(5) by blast
  then have "of_int cap / rate * rate \<le> (now - ts) * rate" using assms(1) by (intro mult_right_mono) simp_all
  moreover have "0 \<le> of_int cap / rate" using assms(1,2) by simp
  ultimately show ?thesis using assms(1,3) gap by (simp add: tb_level_def)
qed

context redis_server
begin

lemma token_bucket_run:
  assumes "spec_ok sp" "view s (''rl:tb:'' @ key) = None"
    and "clocks_in_step (set tks)"
  shows "fst (run (decide (\<lambda>tk. token_bucket_check (\<lambda>x. x) R tk key sp)) tks s) =
    fst (run (tb_step (of_int (spec_capacity sp)) (refill_rate_of (\<lambda>x. x) sp)) (map tk_time tks) None)"
proof -
  let ?k = "''rl:tb:'' @ key" and ?cap = "spec_capacity sp" and ?rate = "refill_rate_of (\<lambda>x. x) sp"
  define ttl where "ttl = \<lfloor>of_int ?cap / ?rate * 1000\<rfloor> + 1000"
  have cap: "1 \<le> ?cap" and win: "sp_window_seconds sp \<noteq> 0"
    using assms(1) by (auto simp: spec_ok_def spec_capacity_def split: option.splits)
  have rate: "0 < ?rate" by (rule exact.refill_rate_pos [OF assms(1)])
  have pyttl: "py_int (of_int ?cap / ?rate * 1000) + 1000 = ttl" and ttl: "0 < ttl"
    using cap rate by (auto simp: py_int_def ttl_def add_nonneg_pos)
  have sim: "fst (decide (\<lambda>tk. token_bucket_check (\<lambda>x. x) R tk key sp) tk s) =
      fst (tb_step (of_int ?cap) ?rate (tk_time tk) st) \<and>
    tb_rel view ?k ttl (set tks) (snd (decide (\<lambda>tk. token_bucket_check (\<lambda>x. x) R tk key sp) tk s))
      (snd (tb_step (of_int ?cap) ?rate (tk_time tk) st))"
    if sync: "tk \<in> set tks" and rel: "tb_rel view ?k ttl (set tks) s st" for tk s st
  proof -
    let ?now = "tk_time tk" and ?t = "tk_server tk"
    obtain tokens0 ts where stored: "tb_stored (view s) ?t ?k (of_int ?cap, ?now) = (tokens0, ts)" by fastforce
    define level where "level = min (of_int ?cap) (tokens0 + max 0 (?now - ts) * ?rate)"
    define left where "left = (if 1 \<le> level then level - 1 else level)"
    define retry where "retry = (if 1 \<le> level then 0 else \<lceil>(1 - level) / ?rate * 1000\<rceil>)"
    have ready: "tb_ready view ?k s"
      using rel by (auto simp: tb_rel_def tb_ready_def split: option.splits)
    have level: "level = tb_level (of_int ?cap) ?rate ?now st" "0 \<le> level"
    proof -
      show "level = tb_level (of_int ?cap) ?rate ?now st"
      proof (cases st)
        case None
        then show ?thesis
          using rel stored cap by (simp add: tb_rel_def tb_stored_def live_def level_def tb_level_def)
      next
        case (Some x)
        obtain tok h y where x: "x = (tok, tk_time y)" "0 \<le> tok" "tb_hash tok (tk_time y) h"
          "view s ?k = Some (RHash h, Some (tk_server y + ttl))" "y \<in> set tks"
          using rel Some by (cases x) (auto simp: tb_rel_def)
        have live: "live (view s) ?t ?k =
            (if tk_server y + ttl \<le> ?t then None else Some (RHash h, Some (tk_server y + ttl)))"
          unfolding live_def x(4) by simp
        show ?thesis
        proof (cases "tk_server y + ttl \<le> ?t")
          case True
          then have "tb_level (of_int ?cap) ?rate ?now st = of_int ?cap"
            using expired_bucket_is_full [OF rate _ x(2), of ?cap "tk_server y" ?t ?now "tk_time y"] cap sync x(5)
              assms(3) by (simp add: Some x(1) ttl_def clocks_in_step_def)
          then show ?thesis
            using stored cap by (simp only: tb_stored_def live True level_def) auto
        next
          case False
          then have "tokens0 = tok" "ts = tk_time y"
            using stored x(3) False unfolding tb_stored_def live by (simp_all add: tb_hash_def)
          then show ?thesis by (simp add: level_def tb_level_def Some x(1))
        qed
      qed
      then show "0 \<le> level"
        using rel rate cap by (auto simp: tb_level_def tb_rel_def split: option.splits)
    qed
    obtain s1 h where lua: "token_bucket_lua (\<lambda>x. x) R ?t ?k ?cap ?rate ?now ttl s = (Inr (1 \<le> level, \<lfloor>left\<rfloor>, retry), s1)"
      "view s1 ?k = Some (RHash h, Some (?t + ttl))" "tb_hash left ?now h"
      using token_bucket_lua_run [OF ready ttl stored, of level "\<lambda>x. x" ?rate left retry]
      unfolding level_def left_def retry_def by blast
    have one: "fst (decide (\<lambda>tk. token_bucket_check (\<lambda>x. x) R tk key sp) tk s) = (1 \<le> level)"
      "snd (decide (\<lambda>tk. token_bucket_check (\<lambda>x. x) R tk key sp) tk s) = s1"
      using lua(1) rate win unfolding decide_def token_bucket_check_def Let_def pyttl by simp_all
    have "tb_step (of_int ?cap) ?rate ?now st = (1 \<le> level, Some (left, ?now))"
      by (simp add: tb_step_def level(1) [symmetric] left_def Let_def)
    then show ?thesis
      using one lua(2,3) level(2) sync by (auto simp: tb_rel_def left_def)
  qed
  have rel0: "tb_rel view ?k ttl (set tks) s None" using assms(2) by (simp add: tb_rel_def)
  show ?thesis
    by (rule conjunct1 [OF run_simulation [where rel = "tb_rel view ?k ttl (set tks)" and h = tk_time
          and g = "tb_step (of_int ?cap) ?rate"
          and f = "decide (\<lambda>tk. token_bucket_check (\<lambda>x. x) R tk key sp)", OF sim subset_refl rel0]])
qed

end

section \<open>Runs of authentication attempts\<close>

definition attempt :: "'r redis_api \<Rightarrow> int \<Rightarrow> string \<Rightarrow> int \<Rightarrow> 'r \<Rightarrow> bool \<times> 'r" where
  "attempt R lmt identity t s = (case auth_throttle_check R lmt t identity s of
     (Inl _, s1) \<Rightarrow> (False, s1) | (Inr _, s1) \<Rightarrow> (True, s1))"

context redis_server
begin

lemma auth_throttle_refines:
  assumes "fw_rel view (''auth_throttle:'' @ identity) s st"
  shows "\<exists>r s1. auth_throttle_check R lmt t identity s = (r, s1) \<and>
    fw_rel view (''auth_throttle:'' @ identity) s1 (snd (fw_step lmt 60000 t st)) \<and>
    (if fst (fw_step lmt 60000 t st) then r = Inr ()
     else \<exists>n \<ge> 1. r = Inl (err_detailed RateLimitedError ''Too many authentication attempts. Try again later.''
       [(''retry_after'', JInt n)]))"
proof -
  obtain k where k: "k = ''auth_throttle:'' @ identity" by simp
  obtain c s0 where i: "r_incr R t k s = (c, s0)" by fastforce
  show ?thesis
  proof (cases "live (view s) t k")
    case None
    have fresh: "fw_step lmt 60000 t st = (1 \<le> lmt, Some (1, t + 60000))"
      using None assms unfolding k [symmetric] by (cases st) (auto simp: fw_rel_def live_def split: if_splits)
    have c: "c = 1" "view s0 = (view s)(k \<mapsto> (RInt 1, None))"
      using incr_val [of s t k] incr_view [of s t k] None i by (simp_all add: live_defs)
    have v: "view (r_expire R t k 60 s0) = (view s)(k \<mapsto> (RInt 1, Some (t + 60000)))"
      using expire_view [of 60 t k s0] c by (simp add: put_expiry_def)
    show ?thesis
      using c i v unfolding auth_throttle_check_def k [symmetric] Let_def
      by (auto simp: fresh fw_rel_def WINDOW_SECONDS_def intro: max.cobounded2)
  next
    case (Some vd)
    then obtain n d where st: "st = Some (n, d)" "vd = (RInt n, Some d)" "t < d" "1 \<le> n"
      using assms unfolding k [symmetric] by (auto simp: fw_rel_def live_def split: if_splits option.splits)
    have same: "fw_step lmt 60000 t st = (n + 1 \<le> lmt, Some (n + 1, d))" using st by simp
    have c: "c = n + 1" "view s0 = (view s)(k \<mapsto> (RInt (n + 1), Some d))"
      using incr_val [of s t k] incr_view [of s t k] Some st i by (simp_all add: live_defs)
    show ?thesis
      using st c i unfolding auth_throttle_check_def k [symmetric] Let_def
      by (auto simp: same fw_rel_def intro: max.cobounded2)
  qed
qed

lemma attempts_run:
  assumes "view s (''auth_throttle:'' @ identity) = None"
  shows "fst (run (attempt R lmt identity) ts s) = fst (run (fw_step lmt 60000) ts None)"
proof -
  let ?rel = "fw_rel view (''auth_throttle:'' @ identity)"
  have sim: "fst (attempt R lmt identity t s) = fst (fw_step lmt 60000 (id t) st) \<and>
      ?rel (snd (attempt R lmt identity t s)) (snd (fw_step lmt 60000 (id t) st))"
    if "t \<in> UNIV" "?rel s st" for t s st
    using auth_throttle_refines [OF that(2), of lmt t] by (auto simp: attempt_def split: if_splits)
  have "?rel s None" using assms by (simp add: fw_rel_def)
  from conjunct1 [OF run_simulation [where rel = ?rel and h = id and g = "fw_step lmt 60000"
        and f = "attempt R lmt identity", OF sim subset_UNIV this]]
  show ?thesis by simp
qed

end

context redis_server
begin

lemma attempts_keep:
  "fw_rel view (''auth_throttle:'' @ identity) s st \<Longrightarrow>
   \<exists>st'. fw_rel view (''auth_throttle:'' @ identity) (snd (run (attempt R lmt identity) ts s)) st'"
proof (induction ts arbitrary: s st)
  case (Cons t ts)
  obtain r s1 where one: "auth_throttle_check R lmt t identity s = (r, s1)"
    "fw_rel view (''auth_throttle:'' @ identity) s1 (snd (fw_step lmt 60000 t st))"
    using auth_throttle_refines [OF Cons.prems, of lmt t] by blast
  have "snd (attempt R lmt identity t s) = s1" using one(1) by (cases r) (simp_all add: attempt_def)
  then show ?case using Cons.IH [OF one(2)] by simp
qed auto

lemma auth_throttle_refusal:
  assumes "view s (''auth_throttle:'' @ identity) = None"
    and "auth_throttle_check R lmt t identity (snd (run (attempt R lmt identity) ts s)) = (Inl e, s1)"
  shows "\<exists>n \<ge> 1. e = err_detailed RateLimitedError ''Too many authentication attempts. Try again later.''
    [(''retry_after'', JInt n)]"
proof -
  have "fw_rel view (''auth_throttle:'' @ identity) s None" using assms(1) by (simp add: fw_rel_def)
  then obtain st where "fw_rel view (''auth_throttle:'' @ identity) (snd (run (attempt R lmt identity) ts s)) st"
    using attempts_keep by blast
  from auth_throttle_refines [OF this, of lmt t] show ?thesis
    using assms(2) by (auto split: if_splits)
qed

end

section \<open>Properties\<close>

definition limiter_ready :: "('r \<Rightarrow> store) \<Rightarrow> rate_limit_algorithm \<Rightarrow> string \<Rightarrow> 'r \<Rightarrow> bool" where
  "limiter_ready view a key s = (case a of
     FIXED_WINDOW \<Rightarrow> fw_ready view key s
   | SLIDING_WINDOW \<Rightarrow> sw_ready view key s
   | TOKEN_BUCKET \<Rightarrow> tb_ready view (''rl:tb:'' @ key) s)"

context redis_rounding
begin

lemma every_limiter_answers:
  assumes "spec_ok sp" "limiter_ready view a key s"
  shows "\<exists>rs s'. mapP (\<lambda>tk. get_limiter fl R a tk key sp) tks s = (Inr rs, s') \<and> (\<forall>r \<in> set rs. result_ok r)"
  using fw.run_answers [OF assms(1)] sw.run_answers [OF assms(1)] tb.run_answers [OF assms(1)] assms(2)
  by (cases a) (simp_all add: get_limiter_def limiter_ready_def)

end

definition sample_spec :: rate_limit_spec where
  "sample_spec = \<lparr>sp_requests = 2, sp_window_seconds = 1, sp_burst = None\<rparr>"

definition at_ms :: "int \<Rightarrow> tick" where
  "at_ms n = \<lparr>tk_server = n, tk_time = of_int n / 1000, tk_perf = n\<rparr>"

lemma sample_spec_ok: "spec_ok sample_spec"
  by (simp add: spec_ok_def sample_spec_def)

text \<open>Whichever algorithm a rule names, with rounded arithmetic and any clocks, a run of checks
  raises nothing and every answer is well formed: an accepted request has fewer than \<open>limit\<close> left
  and no wait, a refused one has none left.\<close>

theorem limiter_answers_well_formed:
  assumes "redis_rounding R view fl" "spec_ok sp" "limiter_ready view a key s"
  shows "\<exists>rs s'. mapP (\<lambda>tk. get_limiter fl R a tk key sp) tks s = (Inr rs, s') \<and> (\<forall>r \<in> set rs. result_ok r)"
  by (rule redis_rounding.every_limiter_answers [OF assms])

theorem limiter_answers_well_formed_witness:
  "\<exists>rs s'. mapP (\<lambda>tk. get_limiter (\<lambda>x. x) mem_redis TOKEN_BUCKET tk ''k'' sample_spec)
      [at_ms 5, at_ms 6, at_ms 7] (\<lambda>_. None) = (Inr rs, s') \<and> (\<forall>r \<in> set rs. result_ok r)"
  by (rule limiter_answers_well_formed [where view = "\<lambda>s. s", OF mem_exact.redis_rounding_axioms sample_spec_ok])
     (simp add: limiter_ready_def tb_ready_def)

text \<open>C16: the fixed window never accepts more than the limit in one window, and never more than twice
  the limit in any interval as long as a window (a burst on each side of a window edge).\<close>

theorem fixed_window_bounds:
  assumes "redis_server R view" "spec_ok sp" "view s (''rl:fw:'' @ key) = None"
    and "sorted (map tk_server tks)" "W = sp_window_seconds sp * 1000"
    and "acc = accepted (map tk_server tks)
      (fst (run (decide (\<lambda>tk. get_limiter fl R FIXED_WINDOW tk key sp)) tks s))"
  shows "int (in_span lo (lo + W) acc) \<le> 2 * sp_requests sp \<and>
    ((\<forall>tk \<in> set tks. tk_server tk < tk_server (hd tks) + W) \<longrightarrow> int (length acc) \<le> sp_requests sp)"
proof -
  have pos: "0 < sp_window_seconds sp" "0 \<le> sp_requests sp" "0 < W"
    using assms(2,5) by (simp_all add: spec_ok_def)
  have acc: "acc = accepted (map tk_server tks) (fst (run (fw_step (sp_requests sp) W) (map tk_server tks) None))"
    by (simp only: assms(5,6) get_limiter_def rate_limit_algorithm.case
        redis_server.fixed_window_run [where view = view and s = s and key = key, OF assms(1) pos(1) assms(3)])
  have "int (in_span lo (lo + W) acc) \<le> 2 * sp_requests sp"
    unfolding acc using fw_twice_limit [OF assms(4) _ pos(2,3)] by (simp add: fw_state_ok_def)
  moreover have "int (length acc) \<le> sp_requests sp"
    if "\<forall>tk \<in> set tks. tk_server tk < tk_server (hd tks) + W"
  proof (cases tks)
    case Nil
    then show ?thesis using acc pos(2) by simp
  next
    case (Cons tk tks')
    show ?thesis
      using fw_window_limit [OF _ pos(2,3), of "tk_server tk" "map tk_server tks'"] that assms(4)
      unfolding acc Cons by simp
  qed
  ultimately show ?thesis by blast
qed

theorem fixed_window_bounds_witness:
  "int (length (accepted [5, 6, 7 :: int] (fst (run (decide (\<lambda>tk. get_limiter (\<lambda>x. x) mem_redis FIXED_WINDOW tk ''k'' sample_spec))
     [at_ms 5, at_ms 6, at_ms 7] (\<lambda>_. None))))) \<le> 2"
  using fixed_window_bounds [OF mem.redis_server_axioms sample_spec_ok, where s = "\<lambda>_. None"
      and tks = "[at_ms 5, at_ms 6, at_ms 7]" and key = "''k''" and fl = "\<lambda>x. x", OF _ _ refl refl]
  by (simp add: at_ms_def sample_spec_def del: run_Cons)

text \<open>C14: from an empty log on, the sliding window accepts at most the limit in every interval shorter than the window by the
  clocks' jitter: the script prunes by the application's clock, Redis expires by its own, and the
  application may run ahead of Redis by an amount that varies by up to \<open>jitter\<close> milliseconds from request to
  request. Where the difference of the two clocks is constant (any constant), the interval is the full
  window and a request is accepted exactly when a full log of the accepted requests shows fewer than the
  limit in the last window: neither pruning the log nor its expiry changes a decision. Assumed of the
  clocks: Redis's does not run backwards, the application's is past 1970, and no two requests carry
  the same member (the same millisecond and the same \<open>perf_counter_ns\<close>).\<close>

theorem sliding_window_exact:
  assumes "redis_server R view" "spec_ok sp" "view s (''rl:sw:'' @ key) = None"
    and "sorted (map tk_server tks)" "distinct (map (member_of fl) tks)" "\<forall>tk \<in> set tks. 0 \<le> now_ms_of fl tk"
    and "0 \<le> jitter" "clocks_within fl jitter (set tks)"
    and "W = sp_window_seconds sp * 1000"
    and "ds = fst (run (decide (\<lambda>tk. get_limiter fl R SLIDING_WINDOW tk key sp)) tks s)"
  shows "int (length (filter (\<lambda>u. x - (W - jitter) < u \<and> u \<le> x) (accepted (map tk_server tks) ds))) \<le> sp_requests sp \<and>
    (jitter = 0 \<longrightarrow> ds = fst (run (sw_reference (sp_requests sp) W) (map (now_ms_of fl) tks) []))"
proof -
  have pos: "0 < sp_window_seconds sp" "0 \<le> sp_requests sp"
    using assms(2) by (simp_all add: spec_ok_def)
  obtain now where now: "sorted (now # map tk_server tks)"
    using assms(4) by (cases tks) auto
  have log: "sw_log view (''rl:sw:'' @ key) fl W (W - jitter) now s []"
    using assms(3) by (simp add: sw_log_def)
  have "span_ok (sp_requests sp) (W - jitter) (map tk_server [])" by (simp add: span_ok_def)
  note from_start = redis_server.sliding_window_run_from [where acc = "[]", OF assms(1) pos(1) assms(7,9) log now _ _ _ this]
  have "span_ok (sp_requests sp) (W - jitter) (map tk_server (accepted tks ds)) \<and>
      (jitter = 0 \<longrightarrow> ds = fst (run (sw_reference (sp_requests sp) W) (map (now_ms_of fl) tks) []))"
    using from_start [OF _ _ _ refl] assms(5,6,8,10) by (simp add: get_limiter_def)
  then show ?thesis
    using span_ok_all [OF _ sorted_accepted [OF assms(4)] pos(2)] by (simp add: accepted_map)
qed

lemma member_of_at_ms: "0 \<le> n \<Longrightarrow> 0 \<le> m \<Longrightarrow> member_of (\<lambda>x. x) (at_ms n) = member_of (\<lambda>x. x) (at_ms m) \<Longrightarrow> n = m"
proof -
  have w: "takeWhile (\<lambda>c. c \<noteq> CHR ''-'') (int_str k @ ''-'' @ r) = int_str k" if "0 \<le> k" for k r
  proof -
    have "CHR ''-'' \<notin> set (int_str k)"
      using nat_str_digits [of "CHR ''-''" "nat k"] that by (auto simp: int_str_def is_digit_ascii_def)
    then have "\<And>c. c \<in> set (int_str k) \<Longrightarrow> c \<noteq> CHR ''-''" by blast
    then show ?thesis by (subst takeWhile_append2) auto
  qed
  assume "0 \<le> n" "0 \<le> m" "member_of (\<lambda>x. x) (at_ms n) = member_of (\<lambda>x. x) (at_ms m)"
  then have "int_str n = int_str m"
    using w [of n "int_str n"] w [of m "int_str m"]
    by (simp add: member_of_def now_ms_of_def at_ms_def py_int_def)
  then show "n = m" using \<open>0 \<le> n\<close> \<open>0 \<le> m\<close> by (auto simp: int_str_def dest: nat_str_inj)
qed

theorem sliding_window_exact_witness:
  "fst (run (decide (\<lambda>tk. get_limiter (\<lambda>x. x) mem_redis SLIDING_WINDOW tk ''k'' sample_spec))
     [at_ms 5, at_ms 6, at_ms 7] (\<lambda>_. None)) = [True, True, False]"
proof -
  have "distinct (map (member_of (\<lambda>x. x)) [at_ms 5, at_ms 6, at_ms 7])"
    using member_of_at_ms [of 5 6] member_of_at_ms [of 5 7] member_of_at_ms [of 6 7] by auto
  then have "0 = (0 :: int) \<longrightarrow> fst (run (decide (\<lambda>tk. get_limiter (\<lambda>x. x) mem_redis SLIDING_WINDOW tk ''k'' sample_spec))
      [at_ms 5, at_ms 6, at_ms 7] (\<lambda>_. None)) =
    fst (run (sw_reference (sp_requests sample_spec) (sp_window_seconds sample_spec * 1000))
      (map (now_ms_of (\<lambda>x. x)) [at_ms 5, at_ms 6, at_ms 7]) [])"
    by (intro conjunct2 [OF sliding_window_exact [OF mem.redis_server_axioms sample_spec_ok]] refl)
       (simp_all add: at_ms_def now_ms_of_def py_int_def clocks_within_def)
  then show ?thesis by (simp add: at_ms_def now_ms_of_def py_int_def sample_spec_def sw_reference_def)
qed

text \<open>C19: with exact arithmetic and from a bucket not stored yet, the token bucket decides every request as
  a bucket that never expires does, so whether the bucket expired in between makes no difference; and in any stretch of requests it
  accepts at most a full bucket plus what the refill rate yields over the stretch. The application's clock
  may stand apart from Redis's by any amount that varies by less than a second, and its readings
  may come out of order: then the stretch is the sum of the forward steps, and with readings in order it is
  the time from the first request to the last.\<close>

theorem token_bucket_bound:
  assumes "redis_server R view" "spec_ok sp" "view s (''rl:tb:'' @ key) = None"
    and "clocks_in_step (set (tks @ tk # tks'))"
    and "ds = fst (run (decide (\<lambda>tk. get_limiter (\<lambda>x. x) R TOKEN_BUCKET tk key sp)) (tks @ tk # tks') s)"
    and "cap = of_int (spec_capacity sp)" "rate = of_int (sp_requests sp) / of_int (sp_window_seconds sp)"
    and "n = of_nat (length (accepted (tk # tks') (drop (length tks) ds)))"
  shows "ds = fst (run (tb_step cap rate) (map tk_time (tks @ tk # tks')) None) \<and>
    n \<le> cap + time_forward (tk_time tk) (map tk_time tks') * rate \<and>
    (sorted (map tk_time (tk # tks')) \<longrightarrow> n \<le> cap + (tk_time (last (tk # tks')) - tk_time tk) * rate)"
proof -
  let ?f = "tb_step cap rate"
  define st where "st = snd (run ?f (map tk_time tks) None)"
  have cap: "0 \<le> cap"
    using assms(2) by (auto simp: assms(6) spec_ok_def spec_capacity_def split: option.splits)
  have rate: "0 \<le> rate" "refill_rate_of (\<lambda>x. x) sp = rate"
    using exact.refill_rate_pos [OF assms(2)] by (simp_all add: assms(7) refill_rate_of_def)
  have all: "ds = fst (run ?f (map tk_time (tks @ tk # tks')) None)"
    by (simp only: assms(5,6) get_limiter_def rate_limit_algorithm.case rate(2) [symmetric]
        redis_server.token_bucket_run [where view = view and s = s and key = key, OF assms(1-4)])
  then have ds: "drop (length tks) ds = fst (run ?f (map tk_time (tk # tks')) st)"
    using length_run [of ?f "map tk_time tks" None] by (simp add: run_append st_def del: run_Cons)
  have ok: "case st of None \<Rightarrow> True | Some (tok, _) \<Rightarrow> 0 \<le> tok"
    unfolding st_def by (rule tb_run_nonneg [OF cap rate(1)]) simp
  have len: "length (accepted (tk # tks') as) = length (accepted (map tk_time (tk # tks')) as)" for as
    by (simp only: accepted_map length_map)
  have bound: "n \<le> cap + time_forward (tk_time tk) (map tk_time tks') * rate"
    using tb_stretch_bound [OF rate(1) cap ok] unfolding assms(8) len ds by simp
  moreover have "time_forward (tk_time tk) (map tk_time tks') = tk_time (last (tk # tks')) - tk_time tk"
    if "sorted (map tk_time (tk # tks'))"
    using time_forward_sorted [of "tk_time tk" "map tk_time tks'"] that by (cases "tks' = []") (simp_all add: last_map)
  ultimately show ?thesis using all by metis
qed

theorem token_bucket_bound_witness:
  "length (accepted [at_ms 5, at_ms 6, at_ms 7]
     (fst (run (decide (\<lambda>tk. get_limiter (\<lambda>x. x) mem_redis TOKEN_BUCKET tk ''k'' sample_spec))
       [at_ms 5, at_ms 6, at_ms 7] (\<lambda>_. None)))) \<le> 2"
proof -
  have step: "clocks_in_step (set ([] @ at_ms 5 # [at_ms 6, at_ms 7]))"
    by (simp add: clocks_in_step_def at_ms_def)
  have "rat_of_nat (length (accepted (at_ms 5 # [at_ms 6, at_ms 7]) (drop (length ([] :: tick list))
      (fst (run (decide (\<lambda>tk. get_limiter (\<lambda>x. x) mem_redis TOKEN_BUCKET tk ''k'' sample_spec))
        ([] @ at_ms 5 # [at_ms 6, at_ms 7]) (\<lambda>_. None)))))) \<le>
    of_int (spec_capacity sample_spec) + time_forward (tk_time (at_ms 5)) (map tk_time [at_ms 6, at_ms 7]) *
      (of_int (sp_requests sample_spec) / of_int (sp_window_seconds sample_spec))"
    by (rule conjunct1 [OF conjunct2 [OF token_bucket_bound [where s = "\<lambda>_. None" and key = "''k''",
        OF mem.redis_server_axioms sample_spec_ok refl step refl refl refl refl]]])
  also have "\<dots> < 3" by (simp add: at_ms_def sample_spec_def spec_capacity_def)
  finally show ?thesis by (simp del: run_Cons accepted_simps)
qed

text \<open>The throttle of the authentication endpoints lets at most the configured number of attempts
  of one identity through in the minute its counter lives, at most twice that in any minute, and
  what it refuses it refuses with a 429 whose \<open>retry_after\<close> is at least a second.\<close>

theorem auth_throttle_bounds:
  assumes "redis_server R view" "0 \<le> lmt" "view s (''auth_throttle:'' @ identity) = None" "sorted ts"
    and "acc = accepted ts (fst (run (attempt R lmt identity) ts s))"
  shows "int (in_span lo (lo + 60000) acc) \<le> 2 * lmt \<and>
    ((\<forall>t \<in> set ts. t < hd ts + 60000) \<longrightarrow> int (length acc) \<le> lmt) \<and>
    (\<forall>t e s1. auth_throttle_check R lmt t identity (snd (run (attempt R lmt identity) ts s)) = (Inl e, s1) \<longrightarrow>
      (\<exists>n \<ge> 1. e = err_detailed RateLimitedError ''Too many authentication attempts. Try again later.''
        [(''retry_after'', JInt n)]))"
proof (intro conjI impI allI)
  have acc: "acc = accepted ts (fst (run (fw_step lmt 60000) ts None))"
    unfolding assms(5) using redis_server.attempts_run [where view = view, OF assms(1,3)] by simp
  show "int (in_span lo (lo + 60000) acc) \<le> 2 * lmt"
    unfolding acc using fw_twice_limit [OF assms(4) _ assms(2)] by (simp add: fw_state_ok_def)
  show "int (length acc) \<le> lmt" if "\<forall>t \<in> set ts. t < hd ts + 60000"
    using fw_window_limit [OF _ assms(2), of "hd ts" "tl ts" 60000] that assms(2,4)
    unfolding acc by (cases ts) simp_all
  fix t e s1
  assume "auth_throttle_check R lmt t identity (snd (run (attempt R lmt identity) ts s)) = (Inl e, s1)"
  then show "\<exists>n \<ge> 1. e = err_detailed RateLimitedError ''Too many authentication attempts. Try again later.''
      [(''retry_after'', JInt n)]"
    using redis_server.auth_throttle_refusal [where view = view, OF assms(1,3)] by blast
qed

theorem auth_throttle_bounds_witness:
  "int (length (accepted [5, 6, 7 :: int] (fst (run (attempt mem_redis 2 ''ip'') [5, 6, 7] (\<lambda>_. None))))) \<le> 2"
  using auth_throttle_bounds [OF mem.redis_server_axioms, where s = "\<lambda>_. None" and lmt = 2
      and ts = "[5, 6, 7]" and identity = "''ip''", OF _ _ _ refl]
  by (simp del: run_Cons accepted_simps)

end
