(* ===== verification/Session.thy ===== *)
theory Session
  imports Models
begin

text \<open>
  \<open>db/session.py\<close> and \<open>repositories/base.py\<close>: the transaction around a request or a worker's unit of
  work (commit when the body returns, rollback when it raises), and the generic repository. The
  contract of a repository is the locale \<open>repository\<close>: its clients' facts are proved there once and
  interpreted for each table.
\<close>

text \<open>\<open>session_scope\<close> and \<open>get_session\<close>, around a program on the database alone.\<close>

definition session_scope :: "'a dbprog \<Rightarrow> 'a dbprog" where
  "session_scope m = (\<lambda>d. case m d of (Inl e, _) \<Rightarrow> (Inl e, d) | (Inr x, d') \<Rightarrow> (Inr x, d'))"

text \<open>A request also sends mail and writes to Redis, and neither is rolled back.\<close>

record email_message =
  em_to :: string
  em_subject :: string
  em_body :: string

record 'r world =
  w_db :: db
  w_sent :: "email_message list"
  w_redis :: 'r

type_synonym ('r, 'a) wprog = "('r world, exn, 'a) prog"

definition on_db :: "'a dbprog \<Rightarrow> ('r, 'a) wprog" where
  "on_db m = (\<lambda>w. let (r, d) = m (w_db w) in (r, w\<lparr>w_db := d\<rparr>))"

definition on_redis :: "('r, exn, 'a) prog \<Rightarrow> ('r, 'a) wprog" where
  "on_redis m = (\<lambda>w. let (r, s) = m (w_redis w) in (r, w\<lparr>w_redis := s\<rparr>))"

definition get_session :: "('r, 'a) wprog \<Rightarrow> ('r, 'a) wprog" where
  "get_session m = (\<lambda>w. case m w of
     (Inl e, w') \<Rightarrow> (Inl e, w'\<lparr>w_db := w_db w\<rparr>) | (Inr x, w') \<Rightarrow> (Inr x, w'))"

text \<open>\<open>ConsoleEmailSender.send\<close>.\<close>

definition send_email :: "email_message \<Rightarrow> ('r, unit) wprog" where
  "send_email m = modifyP (\<lambda>w. w\<lparr>w_sent := w_sent w @ [m]\<rparr>)"

lemma session_scope_run [prog_simps]:
  "session_scope m d = (case m d of (Inl e, _) \<Rightarrow> (Inl e, d) | (Inr x, d') \<Rightarrow> (Inr x, d'))"
  by (simp add: session_scope_def)

lemma on_db_run [prog_simps]: "on_db m w = (fst (m (w_db w)), w\<lparr>w_db := snd (m (w_db w))\<rparr>)"
  by (simp add: on_db_def Let_def split: prod.splits)

lemma on_redis_run [prog_simps]: "on_redis m w = (fst (m (w_redis w)), w\<lparr>w_redis := snd (m (w_redis w))\<rparr>)"
  by (simp add: on_redis_def Let_def split: prod.splits)

lemma get_session_run [prog_simps]:
  "get_session m w = (case m w of (Inl e, w') \<Rightarrow> (Inl e, w'\<lparr>w_db := w_db w\<rparr>) | (Inr x, w') \<Rightarrow> (Inr x, w'))"
  by (simp add: get_session_def)

lemma send_email_run [prog_simps]: "send_email m w = (Inr (), w\<lparr>w_sent := w_sent w @ [m]\<rparr>)"
  by (simp add: send_email_def prog_simps)

lemma preserves_session_scope [prog_keeps]: "preserves P m \<Longrightarrow> preserves P (session_scope m)"
  by (fastforce simp: preserves_def prog_simps split: prod.splits sum.splits)

definition keeps_db :: "(db \<Rightarrow> bool) \<Rightarrow> ('r, 'a) wprog \<Rightarrow> bool" where
  "keeps_db P m \<longleftrightarrow> preserves (\<lambda>w. P (w_db w)) m"

lemma keeps_db_on_db [prog_keeps]: "preserves P m \<Longrightarrow> keeps_db P (on_db m)"
  by (simp add: keeps_db_def preserves_def prog_simps)

lemma keeps_db_on_redis [prog_keeps]: "keeps_db P (on_redis m)"
  by (simp add: keeps_db_def preserves_def prog_simps)

lemma keeps_db_send [prog_keeps]: "keeps_db P (send_email m)"
  by (simp add: keeps_db_def preserves_def prog_simps)

lemma keeps_db_basic [prog_keeps]:
  "keeps_db P (ret x)" "keeps_db P (raise e)" "keeps_db P (raise_if b e)" "keeps_db P (ofSum r)"
  by (simp_all add: keeps_db_def prog_keeps)

lemma keeps_db_bindP [prog_keeps]:
  "keeps_db P m \<Longrightarrow> (\<And>x. keeps_db P (f x)) \<Longrightarrow> keeps_db P (bindP m f)"
  by (simp add: keeps_db_def preserves_bindP)

lemma keeps_db_thenP [prog_keeps]: "keeps_db P m \<Longrightarrow> keeps_db P k \<Longrightarrow> keeps_db P (thenP m k)"
  by (simp add: keeps_db_def preserves_thenP)

lemma keeps_db_if [prog_keeps]: "keeps_db P m \<Longrightarrow> keeps_db P k \<Longrightarrow> keeps_db P (if b then m else k)"
  by simp

lemma keeps_db_case_option [prog_keeps]:
  "keeps_db P m \<Longrightarrow> (\<And>y. keeps_db P (k y)) \<Longrightarrow> keeps_db P (case x of None \<Rightarrow> m | Some y \<Rightarrow> k y)"
  by (cases x) simp_all

lemma keeps_db_get_session [prog_keeps]: "keeps_db P m \<Longrightarrow> keeps_db P (get_session m)"
  by (fastforce simp: keeps_db_def preserves_def prog_simps split: prod.splits sum.splits)

lemma keeps_db_run: "keeps_db P m \<Longrightarrow> P (w_db w) \<Longrightarrow> m w = (r, w') \<Longrightarrow> P (w_db w')"
  unfolding keeps_db_def preserves_def by (metis snd_conv)

lemma get_session_invariant:
  "P (w_db w) \<Longrightarrow> (\<And>x w'. m w = (Inr x, w') \<Longrightarrow> P (w_db w')) \<Longrightarrow> P (w_db (snd (get_session m w)))"
  by (auto simp: prog_simps split: prod.splits sum.splits)

lemma session_scope_invariant:
  "P d \<Longrightarrow> (\<And>x d'. m d = (Inr x, d') \<Longrightarrow> P d') \<Longrightarrow> P (snd (session_scope m d))"
  by (auto simp: prog_simps split: prod.splits sum.splits)

section \<open>Repositories\<close>

text \<open>\<open>BaseRepository\<close>: \<open>get\<close> by primary key and \<open>count\<close>; \<open>add\<close> is the table's INSERT.\<close>

definition repo_get :: "(db \<Rightarrow> 'a list) \<Rightarrow> ('a \<Rightarrow> uuid) \<Rightarrow> uuid \<Rightarrow> 'a option dbprog" where
  "repo_get tab key i = gets (\<lambda>d. find (\<lambda>x. key x = i) (tab d))"

definition repo_count :: "(db \<Rightarrow> 'a list) \<Rightarrow> nat dbprog" where
  "repo_count tab = gets (\<lambda>d. length (tab d))"

lemma repo_get_run [prog_simps]: "repo_get tab key i d = (Inr (find (\<lambda>x. key x = i) (tab d)), d)"
  by (simp add: repo_get_def prog_simps)

lemma repo_count_run [prog_simps]: "repo_count tab d = (Inr (length (tab d)), d)"
  by (simp add: repo_count_def prog_simps)

lemma reads_repo [prog_keeps]: "reads (repo_get tab key i)" "reads (repo_count tab)"
  by (simp_all add: repo_get_def repo_count_def prog_keeps)

locale repository =
  fixes tab :: "db \<Rightarrow> 'a list"
    and key :: "'a \<Rightarrow> uuid"
    and add :: "'a \<Rightarrow> unit dbprog"
  assumes add_appends: "add x d = (Inr (), d') \<Longrightarrow> tab d' = tab d @ [x] \<and> key x \<notin> key ` set (tab d)"
    and add_refuses: "add x d = (Inl e, d') \<Longrightarrow> d' = d"
begin

lemma get_added: "add x d = (Inr (), d') \<Longrightarrow> repo_get tab key (key x) d' = (Inr (Some x), d')"
proof -
  assume "add x d = (Inr (), d')"
  then have t: "tab d' = tab d @ [x]" and new: "key x \<notin> key ` set (tab d)"
    using add_appends by blast+
  have "find (\<lambda>y. key y = key x) (xs @ [x]) = Some x" if "key x \<notin> key ` set xs" for xs
    using that by (induction xs) auto
  then show ?thesis using t new by (simp add: prog_simps)
qed

lemma get_kept:
  "add x d = (Inr (), d') \<Longrightarrow> i \<noteq> key x \<Longrightarrow>
   repo_get tab key i d' = (fst (repo_get tab key i d), d')"
proof -
  assume "add x d = (Inr (), d')" "i \<noteq> key x"
  moreover have "find (\<lambda>y. key y = i) (xs @ [x]) = find (\<lambda>y. key y = i) xs" if "i \<noteq> key x" for xs
    using that by (induction xs) auto
  ultimately show ?thesis using add_appends [of x d d'] by (simp add: prog_simps)
qed

lemma count_added: "add x d = (Inr (), d') \<Longrightarrow> fst (repo_count tab d') = Inr (Suc (length (tab d)))"
  using add_appends [of x d d'] by (simp add: prog_simps)

end

interpretation users: repository db_users u_id add_user
  by unfold_locales (auto simp: add_defs prog_simps split: if_splits)

interpretation tokens: repository db_tokens rt_id add_token
  by unfold_locales (auto simp: add_defs prog_simps split: if_splits)

interpretation orgs: repository db_orgs o_id add_org
  by unfold_locales (auto simp: add_defs prog_simps split: if_splits)

interpretation members: repository db_members m_id add_member
  by unfold_locales (auto simp: add_defs prog_simps split: if_splits)

interpretation apis: repository db_apis a_id add_api
  by unfold_locales (auto simp: add_defs prog_simps split: if_splits)

interpretation versions: repository db_versions v_id add_version_row
  by unfold_locales (auto simp: add_defs prog_simps split: if_splits)

interpretation keys: repository db_keys k_id add_key
  by unfold_locales (auto simp: add_defs prog_simps split: if_splits)

interpretation logs: repository db_logs g_id add_log
  by unfold_locales (auto simp: add_defs prog_simps split: if_splits)

interpretation notifications: repository db_notes n_id add_note
  by unfold_locales (auto simp: add_defs prog_simps split: if_splits)

text \<open>A request is atomic in the database: when its body raises, the database is what it was
  before the request, whatever was written on the way; mail that was sent and Redis keep their
  effects.\<close>

theorem request_atomic:
  "(case m w of (Inl e, w') \<Rightarrow> get_session m w = (Inl e, w'\<lparr>w_db := w_db w\<rparr>) | (Inr x, w') \<Rightarrow> get_session m w = (Inr x, w')) \<and>
   (case get_session m w of (Inl e, w') \<Rightarrow> w_db w' = w_db w \<and> w_sent w' = w_sent (snd (m w)) \<and>
      w_redis w' = w_redis (snd (m w)) | (Inr _, _) \<Rightarrow> get_session m w = m w)"
  by (auto simp: prog_simps split: prod.splits sum.splits)

end
