(* ===== verification/AuthService.thy ===== *)
theory AuthService
  imports Session Security RateLimit
begin

text \<open>
  \<open>services/auth.py\<close>, \<open>repositories/user.py\<close>, \<open>services/email.py\<close>, \<open>api/auth.py\<close> and
  \<open>get_current_user\<close> of \<open>api/deps.py\<close>: accounts, login, rotation of refresh tokens with reuse
  detection, email verification and password reset. Service methods are programs on the database (on
  the world where they send mail); the endpoints run them inside \<open>get_session\<close>. Identifiers, secrets
  and clock readings are arguments; where one service call reads the clock several times (a rotation, the
  revocations of a password reset) one reading \<open>now\<close> stands for all of them.
\<close>

section \<open>Repositories\<close>

definition get_by_email :: "string \<Rightarrow> user option dbprog" where
  "get_by_email email = select_one db_users (\<lambda>u. u_email u = str_lower email)"

definition get_by_hash :: "string \<Rightarrow> refresh_token option dbprog" where
  "get_by_hash h = select_one db_tokens (\<lambda>t. rt_token_hash t = h)"

definition revoke_family :: "instant \<Rightarrow> uuid \<Rightarrow> unit dbprog" where
  "revoke_family now fam = modifyP (\<lambda>d. d\<lparr>db_tokens :=
     update_where (\<lambda>t. rt_family_id t = fam \<and> rt_revoked_at t = None)
       (\<lambda>t. t\<lparr>rt_revoked_at := Some now\<rparr>) (db_tokens d)\<rparr>)"

definition set_token :: "uuid \<Rightarrow> (refresh_token \<Rightarrow> refresh_token) \<Rightarrow> unit dbprog" where
  "set_token i f = modifyP (\<lambda>d. d\<lparr>db_tokens := update_where (\<lambda>t. rt_id t = i) f (db_tokens d)\<rparr>)"

definition set_user :: "uuid \<Rightarrow> (user \<Rightarrow> user) \<Rightarrow> unit dbprog" where
  "set_user i f = modifyP (\<lambda>d. d\<lparr>db_users := update_where (\<lambda>u. u_id u = i) f (db_users d)\<rparr>)"

definition revoke_token :: "instant \<Rightarrow> refresh_token \<Rightarrow> unit dbprog" where
  "revoke_token now t = set_token (rt_id t) (\<lambda>t. t\<lparr>rt_revoked_at := Some now\<rparr>)"

text \<open>\<open>MembershipRepository.list_org_roles_for_user\<close>; the role of a member always exists (foreign
  key).\<close>

definition role_name_of :: "db \<Rightarrow> uuid \<Rightarrow> string" where
  "role_name_of d rid = (case find (\<lambda>r. r_id r = rid) (db_roles d) of Some r \<Rightarrow> r_name r | None \<Rightarrow> [])"

definition list_org_roles_for_user :: "uuid \<Rightarrow> (uuid \<times> string) list dbprog" where
  "list_org_roles_for_user uid = gets (\<lambda>d. map (\<lambda>m. (m_organization_id m, role_name_of d (m_role_id m)))
     (filter (\<lambda>m. m_user_id m = uid) (db_members d)))"

section \<open>Registration and login\<close>

definition VERIFY_PURPOSE :: string where "VERIFY_PURPOSE = ''email_verify''"
definition RESET_PURPOSE :: string where "RESET_PURPOSE = ''password_reset''"
definition VERIFY_TTL :: int where "VERIFY_TTL = 60 * 60 * 24"
definition RESET_TTL :: int where "RESET_TTL = 60 * 60"

definition send_verification_email :: "env \<Rightarrow> settings \<Rightarrow> instant \<Rightarrow> user \<Rightarrow> ('r, unit) wprog" where
  "send_verification_email E st now u =
     (let token = create_action_token E st now (uuid_str (u_id u)) VERIFY_PURPOSE VERIFY_TTL []
      in send_email \<lparr> em_to = u_email u, em_subject = ''Verify your email'',
           em_body = ''Use this token to verify your email: '' @ token \<rparr>)"

definition register ::
  "env \<Rightarrow> settings \<Rightarrow> instant \<Rightarrow> uuid \<Rightarrow> string \<Rightarrow> string \<Rightarrow> string \<Rightarrow> string option \<Rightarrow> ('r, user) wprog" where
  "register E st now uid salt email0 password full_name =
     (let email = str_lower email0
      in bindP (on_db (get_by_email email)) (\<lambda>existing.
         thenP (raise_if (existing \<noteq> None) (err ConflictError ''An account with this email already exists.''))
         (let u = \<lparr> u_id = uid, u_email = email, u_full_name = full_name,
                u_password_hash = hash_password E salt password, u_is_active = True,
                u_is_email_verified = False, u_is_superuser = False, u_created_at = now \<rparr>
          in thenP (on_db (add_user u)) (thenP (send_verification_email E st now u) (ret u)))))"

definition authenticate :: "env \<Rightarrow> string \<Rightarrow> string \<Rightarrow> string \<Rightarrow> user dbprog" where
  "authenticate E salt email password =
     bindP (get_by_email (str_lower email)) (\<lambda>found. case found of
       None \<Rightarrow> raise (err AuthenticationError ''Invalid email or password.'')
     | Some u \<Rightarrow> bindP (ofSum (verify_password E password (u_password_hash u))) (\<lambda>valid.
         thenP (raise_if (\<not> valid) (err AuthenticationError ''Invalid email or password.''))
         (thenP (raise_if (\<not> u_is_active u) (err AuthenticationError ''Account is disabled.''))
         (if password_needs_rehash E (u_password_hash u)
          then thenP (set_user (u_id u) (\<lambda>u. u\<lparr>u_password_hash := hash_password E salt password\<rparr>))
                 (ret (u\<lparr>u_password_hash := hash_password E salt password\<rparr>))
          else ret u))))"

section \<open>Tokens\<close>

record issued_tokens =
  it_access_token :: string
  it_refresh_token :: string
  it_expires_in :: int

text \<open>\<open>raw\<close> is the drawn secret, \<open>tid\<close> the new row's id, \<open>jti\<close> the access token's; the service is
  built with the membership repository, so the \<open>orgs\<close> claim is always there.\<close>

definition issue_tokens ::
  "env \<Rightarrow> settings \<Rightarrow> instant \<Rightarrow> string \<Rightarrow> uuid \<Rightarrow> uuid \<Rightarrow> user \<Rightarrow> uuid \<Rightarrow> issued_tokens dbprog" where
  "issue_tokens E st now raw tid jti u family =
     thenP (add_token \<lparr> rt_id = tid, rt_user_id = u_id u, rt_family_id = family,
         rt_token_hash = hash_token E raw,
         rt_expires_at = now + s_refresh_token_ttl_seconds st * us_per_second,
         rt_revoked_at = None, rt_rotated_to = None \<rparr>)
     (bindP (list_org_roles_for_user (u_id u)) (\<lambda>org_roles.
        let extra = [(''email'', JStr (u_email u)),
              (''orgs'', JList (map (\<lambda>(org_id, role).
                 JObj [(''org_id'', JStr (uuid_str org_id)), (''role'', JStr role)]) org_roles))]
        in ret \<lparr> it_access_token = create_access_token E st now jti (uuid_str (u_id u)) extra None,
                 it_refresh_token = raw,
                 it_expires_in = s_access_token_ttl_seconds st \<rparr>))"

definition rotate_refresh ::
  "env \<Rightarrow> settings \<Rightarrow> instant \<Rightarrow> string \<Rightarrow> uuid \<Rightarrow> uuid \<Rightarrow> string \<Rightarrow> issued_tokens dbprog" where
  "rotate_refresh E st now raw2 tid jti raw_refresh =
     bindP (get_by_hash (hash_token E raw_refresh)) (\<lambda>stored. case stored of
       None \<Rightarrow> raise (err AuthenticationError ''Invalid refresh token.'')
     | Some t \<Rightarrow>
         if rt_revoked_at t \<noteq> None
         then thenP (revoke_family now (rt_family_id t))
                (raise (err AuthenticationError ''Refresh token has been revoked.''))
         else if rt_expires_at t \<le> now
         then thenP (revoke_token now t) (raise (err AuthenticationError ''Refresh token has expired.''))
         else bindP (repo_get db_users u_id (rt_user_id t)) (\<lambda>u. case u of
                None \<Rightarrow> raise (err AuthenticationError ''Account is unavailable.'')
              | Some u \<Rightarrow>
                  thenP (raise_if (\<not> u_is_active u) (err AuthenticationError ''Account is unavailable.''))
                  (bindP (issue_tokens E st now raw2 tid jti u (rt_family_id t)) (\<lambda>tokens.
                   thenP (set_token (rt_id t) (\<lambda>t. t\<lparr>rt_revoked_at := Some now\<rparr>))
                   (bindP (get_by_hash (hash_token E (it_refresh_token tokens))) (\<lambda>successor.
                    thenP (set_token (rt_id t) (\<lambda>t. t\<lparr>rt_rotated_to := map_option rt_id successor\<rparr>))
                    (ret tokens)))))))"

definition logout :: "env \<Rightarrow> instant \<Rightarrow> string \<Rightarrow> unit dbprog" where
  "logout E now raw_refresh =
     bindP (get_by_hash (hash_token E raw_refresh)) (\<lambda>stored. case stored of
       None \<Rightarrow> ret ()
     | Some t \<Rightarrow> if rt_revoked_at t = None then revoke_token now t else ret ())"

section \<open>Email verification and password reset\<close>

text \<open>\<open>except jwt.PyJWTError\<close>.\<close>

definition jwt_claims :: "string + claims \<Rightarrow> exn \<Rightarrow> exn + claims" where
  "jwt_claims r e = (case r of Inl _ \<Rightarrow> Inl e | Inr c \<Rightarrow> Inr c)"

definition verify_email :: "env \<Rightarrow> settings \<Rightarrow> instant \<Rightarrow> string \<Rightarrow> user dbprog" where
  "verify_email E st now token =
     bindP (ofSum (jwt_claims (decode_action_token E st now token VERIFY_PURPOSE)
              (err ValidationAppError ''Invalid or expired verification token.''))) (\<lambda>c.
     bindP (ofSum (claim_subject c)) (\<lambda>uid.
     bindP (repo_get db_users u_id uid) (\<lambda>u. case u of
       None \<Rightarrow> raise (err ValidationAppError ''Invalid verification token.'')
     | Some u \<Rightarrow> thenP (set_user (u_id u) (\<lambda>u. u\<lparr>u_is_email_verified := True\<rparr>))
                  (ret (u\<lparr>u_is_email_verified := True\<rparr>)))))"

definition password_fingerprint :: "env \<Rightarrow> user \<Rightarrow> string" where
  "password_fingerprint E u = take 16 (hash_token E (u_password_hash u))"

definition request_password_reset :: "env \<Rightarrow> settings \<Rightarrow> instant \<Rightarrow> string \<Rightarrow> ('r, unit) wprog" where
  "request_password_reset E st now email =
     bindP (on_db (get_by_email (str_lower email))) (\<lambda>u. case u of
       None \<Rightarrow> ret ()
     | Some u \<Rightarrow>
         let token = create_action_token E st now (uuid_str (u_id u)) RESET_PURPOSE RESET_TTL
               [(''pfp'', JStr (password_fingerprint E u))]
         in send_email \<lparr> em_to = u_email u, em_subject = ''Reset your password'',
              em_body = ''Use this token to reset your password: '' @ token \<rparr>)"

definition active_tokens_for :: "uuid \<Rightarrow> refresh_token list dbprog" where
  "active_tokens_for uid = gets (\<lambda>d. filter (\<lambda>t. rt_user_id t = uid \<and> rt_revoked_at t = None) (db_tokens d))"

definition reset_password :: "env \<Rightarrow> settings \<Rightarrow> instant \<Rightarrow> string \<Rightarrow> string \<Rightarrow> string \<Rightarrow> user dbprog" where
  "reset_password E st now salt token new_password =
     bindP (ofSum (jwt_claims (decode_action_token E st now token RESET_PURPOSE)
              (err ValidationAppError ''Invalid or expired reset token.''))) (\<lambda>c.
     bindP (ofSum (claim_subject c)) (\<lambda>uid.
     bindP (repo_get db_users u_id uid) (\<lambda>u. case u of
       None \<Rightarrow> raise (err ValidationAppError ''Invalid reset token.'')
     | Some u \<Rightarrow>
         thenP (raise_if (map_of c ''pfp'' \<noteq> Some (JStr (password_fingerprint E u)))
                  (err ValidationAppError ''This reset token has already been used.''))
         (thenP (set_user (u_id u) (\<lambda>u. u\<lparr>u_password_hash := hash_password E salt new_password\<rparr>))
         (bindP (active_tokens_for (u_id u)) (\<lambda>ts.
          thenP (mapP (\<lambda>t. set_token (rt_id t) (\<lambda>t. t\<lparr>rt_revoked_at := Some now\<rparr>)) ts)
          (ret (u\<lparr>u_password_hash := hash_password E salt new_password\<rparr>))))))))"

section \<open>The caller of a request\<close>

definition get_current_user :: "env \<Rightarrow> settings \<Rightarrow> instant \<Rightarrow> string option \<Rightarrow> user dbprog" where
  "get_current_user E st now credentials = (case credentials of
     None \<Rightarrow> raise (err AuthenticationError ''Missing bearer token.'')
   | Some tok \<Rightarrow>
       thenP (raise_if (tok = []) (err AuthenticationError ''Missing bearer token.''))
       (bindP (ofSum (jwt_claims (decode_access_token E st now tok)
                 (err AuthenticationError ''Invalid or expired access token.''))) (\<lambda>c.
        thenP (raise_if (map_of c ''type'' \<noteq> Some (JStr ''access''))
                 (err AuthenticationError ''Wrong token type.''))
        (bindP (ofSum (claim_subject c)) (\<lambda>uid.
         bindP (repo_get db_users u_id uid) (\<lambda>u. case u of
           None \<Rightarrow> raise (err AuthenticationError ''User not found or inactive.'')
         | Some u \<Rightarrow> thenP (raise_if (\<not> u_is_active u)
                        (err AuthenticationError ''User not found or inactive.'')) (ret u)))))))"

definition get_current_superuser :: "user \<Rightarrow> exn + user" where
  "get_current_superuser u = (if \<not> u_is_superuser u
     then Inl (err PermissionDeniedError ''Superuser privileges are required.'') else Inr u)"

section \<open>Endpoints\<close>

record cookie =
  ck_key :: string
  ck_value :: string
  ck_httponly :: bool
  ck_secure :: bool
  ck_max_age :: int
  ck_path :: string

definition REFRESH_COOKIE :: string where "REFRESH_COOKIE = ''refresh_token''"

definition set_refresh_cookie :: "settings \<Rightarrow> string \<Rightarrow> cookie" where
  "set_refresh_cookie st raw = \<lparr> ck_key = REFRESH_COOKIE, ck_value = raw, ck_httponly = True,
     ck_secure = s_refresh_cookie_secure st, ck_max_age = s_refresh_token_ttl_seconds st,
     ck_path = ''/auth'' \<rparr>"

definition token_response :: "settings \<Rightarrow> issued_tokens \<Rightarrow> issued_tokens \<times> cookie" where
  "token_response st tokens = (tokens, set_refresh_cookie st (it_refresh_token tokens))"

definition login_endpoint ::
  "'r redis_api \<Rightarrow> int \<Rightarrow> env \<Rightarrow> settings \<Rightarrow> instant \<Rightarrow> string \<Rightarrow> string \<Rightarrow> uuid \<Rightarrow> uuid \<Rightarrow> uuid \<Rightarrow>
   string \<Rightarrow> string \<Rightarrow> string \<Rightarrow> ('r, issued_tokens \<times> cookie) wprog" where
  "login_endpoint R ms E st now salt raw tid jti family ip email password =
     get_session
       (thenP (on_redis (auth_throttle_check R (s_auth_rate_limit_per_minute st) ms
                 (ip @ '':'' @ str_lower email)))
       (bindP (on_db (authenticate E salt email password)) (\<lambda>u.
        bindP (on_db (issue_tokens E st now raw tid jti u family)) (\<lambda>tokens.
        ret (token_response st tokens)))))"

text \<open>The token of a refresh or logout request: from the body, else from the cookie.\<close>

definition presented_token :: "string option \<Rightarrow> string option \<Rightarrow> string option" where
  "presented_token body ck = (case body of
     Some r \<Rightarrow> if r \<noteq> [] then Some r else (case ck of Some c \<Rightarrow> if c \<noteq> [] then Some c else None | None \<Rightarrow> None)
   | None \<Rightarrow> (case ck of Some c \<Rightarrow> if c \<noteq> [] then Some c else None | None \<Rightarrow> None))"

definition refresh_endpoint ::
  "env \<Rightarrow> settings \<Rightarrow> instant \<Rightarrow> string \<Rightarrow> uuid \<Rightarrow> uuid \<Rightarrow> string option \<Rightarrow> string option \<Rightarrow>
   (issued_tokens \<times> cookie) dbprog" where
  "refresh_endpoint E st now raw2 tid jti body ck = session_scope
     (case presented_token body ck of
        None \<Rightarrow> raise (err AuthenticationError ''No refresh token provided.'')
      | Some raw \<Rightarrow> bindP (rotate_refresh E st now raw2 tid jti raw) (\<lambda>tokens. ret (token_response st tokens)))"

definition logout_endpoint :: "env \<Rightarrow> instant \<Rightarrow> string option \<Rightarrow> string option \<Rightarrow> string dbprog" where
  "logout_endpoint E now body ck = session_scope
     (thenP (case presented_token body ck of None \<Rightarrow> ret () | Some raw \<Rightarrow> logout E now raw)
       (ret ''Logged out.''))"

definition password_reset_endpoint ::
  "'r redis_api \<Rightarrow> int \<Rightarrow> env \<Rightarrow> settings \<Rightarrow> instant \<Rightarrow> string \<Rightarrow> string \<Rightarrow> ('r, string) wprog" where
  "password_reset_endpoint R ms E st now ip email = get_session
     (thenP (on_redis (auth_throttle_check R (s_auth_rate_limit_per_minute st) ms (ip @ '':reset'')))
       (thenP (request_password_reset E st now email)
         (ret ''If the email exists, a reset link has been sent.'')))"

definition confirm_reset_endpoint ::
  "env \<Rightarrow> settings \<Rightarrow> instant \<Rightarrow> string \<Rightarrow> string \<Rightarrow> string \<Rightarrow> string dbprog" where
  "confirm_reset_endpoint E st now salt token new_password = session_scope
     (thenP (reset_password E st now salt token new_password) (ret ''Password has been reset.''))"

definition verify_email_endpoint :: "env \<Rightarrow> settings \<Rightarrow> instant \<Rightarrow> string \<Rightarrow> string dbprog" where
  "verify_email_endpoint E st now token = session_scope
     (thenP (verify_email E st now token) (ret ''Email verified.''))"

definition register_endpoint ::
  "env \<Rightarrow> settings \<Rightarrow> instant \<Rightarrow> uuid \<Rightarrow> string \<Rightarrow> string \<Rightarrow> string \<Rightarrow> string option \<Rightarrow> ('r, user) wprog" where
  "register_endpoint E st now uid salt email password full_name =
     get_session (register E st now uid salt email password full_name)"

lemmas auth_defs =
  register_def authenticate_def issue_tokens_def rotate_refresh_def logout_def verify_email_def
  request_password_reset_def reset_password_def send_verification_email_def

section \<open>The operations one row at a time\<close>

lemma get_by_hash_run:
  "tokens_ok us (db_tokens d) \<Longrightarrow>
   get_by_hash h d = (Inr (find (\<lambda>t. rt_token_hash t = h) (db_tokens d)), d)"
  by (simp add: get_by_hash_def select_one_def tokens_ok_def scalar_unique1)

lemma get_by_email_run:
  "users_ok (db_users d) \<Longrightarrow>
   get_by_email e d = (Inr (find (\<lambda>u. u_email u = str_lower e) (db_users d)), d)"
  by (simp add: get_by_email_def select_one_def users_ok_def scalar_unique1)

lemma set_token_run [prog_simps]:
  "set_token i f d = (Inr (), d\<lparr>db_tokens := update_where (\<lambda>t. rt_id t = i) f (db_tokens d)\<rparr>)"
  by (simp add: set_token_def prog_simps)

lemma revoke_token_run [prog_simps]:
  "revoke_token now t d = (Inr (), d\<lparr>db_tokens :=
     update_where (\<lambda>x. rt_id x = rt_id t) (\<lambda>x. x\<lparr>rt_revoked_at := Some now\<rparr>) (db_tokens d)\<rparr>)"
  by (simp add: revoke_token_def prog_simps)

lemma set_user_run [prog_simps]:
  "set_user i f d = (Inr (), d\<lparr>db_users := update_where (\<lambda>u. u_id u = i) f (db_users d)\<rparr>)"
  by (simp add: set_user_def prog_simps)

lemma revoke_family_run [prog_simps]:
  "revoke_family now fam d = (Inr (), d\<lparr>db_tokens :=
     update_where (\<lambda>t. rt_family_id t = fam \<and> rt_revoked_at t = None)
       (\<lambda>t. t\<lparr>rt_revoked_at := Some now\<rparr>) (db_tokens d)\<rparr>)"
  by (simp add: revoke_family_def prog_simps)

lemma list_org_roles_run [prog_simps]:
  "list_org_roles_for_user uid d = (Inr (map (\<lambda>m. (m_organization_id m, role_name_of d (m_role_id m)))
     (filter (\<lambda>m. m_user_id m = uid) (db_members d))), d)"
  by (simp add: list_org_roles_for_user_def prog_simps)

lemma issue_tokens_success:
  assumes "issue_tokens E st now raw tid jti u fam d = (Inr toks, d')"
  shows "\<exists>new. d' = d\<lparr>db_tokens := db_tokens d @ [new]\<rparr> \<and> rt_id new = tid \<and> rt_user_id new = u_id u \<and>
    rt_family_id new = fam \<and> rt_token_hash new = hash_token E raw \<and> rt_revoked_at new = None \<and>
    rt_rotated_to new = None \<and> rt_expires_at new = now + s_refresh_token_ttl_seconds st * us_per_second \<and>
    tid \<notin> rt_id ` set (db_tokens d) \<and> hash_token E raw \<notin> rt_token_hash ` set (db_tokens d) \<and>
    it_refresh_token toks = raw"
  using assms by (auto simp: issue_tokens_def add_token_def prog_simps Let_def split: if_splits)

section \<open>The constraints survive\<close>

lemma db_ok_set_token:
  "(\<And>t. rt_id (f t) = rt_id t) \<Longrightarrow> (\<And>t. rt_token_hash (f t) = rt_token_hash t) \<Longrightarrow>
   (\<And>t. rt_user_id (f t) = rt_user_id t) \<Longrightarrow> preserves db_ok (set_token i f)"
  by (simp add: preserves_def prog_simps db_ok_update_tokens)

lemma db_ok_set_user:
  "(\<And>u. u_id (f u) = u_id u) \<Longrightarrow> (\<And>u. u_email (f u) = u_email u) \<Longrightarrow> preserves db_ok (set_user i f)"
  by (simp add: preserves_def prog_simps db_ok_update_users)

lemma db_ok_revoke_family [prog_keeps]: "preserves db_ok (revoke_family now fam)"
  by (simp add: preserves_def prog_simps db_ok_update_tokens)

lemma db_ok_revoke_token [prog_keeps]: "preserves db_ok (revoke_token now t)"
  unfolding revoke_token_def by (rule db_ok_set_token) simp_all

lemma reads_lookups [prog_keeps]:
  "reads (get_by_email e)" "reads (get_by_hash h)" "reads (list_org_roles_for_user i)"
  "reads (active_tokens_for i)"
  by (simp_all add: get_by_email_def get_by_hash_def list_org_roles_for_user_def active_tokens_for_def
      reads_select_one prog_keeps)

lemma db_ok_authenticate [prog_keeps]: "preserves db_ok (authenticate E salt e p)"
  unfolding authenticate_def by (intro prog_keeps db_ok_set_user) simp_all

lemma db_ok_issue_tokens [prog_keeps]: "preserves db_ok (issue_tokens E st now raw tid jti u fam)"
  unfolding issue_tokens_def Let_def by (intro prog_keeps)

lemma db_ok_rotate [prog_keeps]: "preserves db_ok (rotate_refresh E st now raw2 tid jti raw)"
  unfolding rotate_refresh_def by (intro prog_keeps db_ok_set_token) simp_all

lemma db_ok_logout [prog_keeps]: "preserves db_ok (logout E now raw)"
  unfolding logout_def by (intro prog_keeps)

lemma db_ok_verify_email [prog_keeps]: "preserves db_ok (verify_email E st now tok)"
  unfolding verify_email_def by (intro prog_keeps db_ok_set_user) simp_all

lemma db_ok_reset_password [prog_keeps]: "preserves db_ok (reset_password E st now salt tok pw)"
  unfolding reset_password_def by (intro prog_keeps db_ok_set_user db_ok_set_token) simp_all

lemma keeps_register [prog_keeps]: "keeps_db db_ok (register E st now uid salt e pw fn)"
  unfolding register_def send_verification_email_def Let_def by (intro prog_keeps)

lemma keeps_request_reset [prog_keeps]: "keeps_db db_ok (request_password_reset E st now e)"
  unfolding request_password_reset_def Let_def by (intro prog_keeps)

section \<open>Rotation\<close>

lemma find_None_iff_key: "find (\<lambda>x. k x = v) xs = None \<longleftrightarrow> v \<notin> k ` set xs"
  by (induction xs) auto

lemma rotate_success:
  assumes ok: "db_ok d" and run: "rotate_refresh E st now raw2 tid jti raw d = (Inr toks, d')"
  shows "\<exists>t u new. find (\<lambda>t. rt_token_hash t = hash_token E raw) (db_tokens d) = Some t \<and>
    rt_revoked_at t = None \<and> now < rt_expires_at t \<and>
    find (\<lambda>u. u_id u = rt_user_id t) (db_users d) = Some u \<and> u_is_active u \<and>
    d' = d\<lparr>db_tokens := update_where (\<lambda>x. rt_id x = rt_id t)
            (\<lambda>x. x\<lparr>rt_revoked_at := Some now, rt_rotated_to := Some tid\<rparr>) (db_tokens d) @ [new]\<rparr> \<and>
    rt_id new = tid \<and> rt_user_id new = u_id u \<and> rt_family_id new = rt_family_id t \<and>
    rt_token_hash new = hash_token E raw2 \<and> rt_revoked_at new = None \<and>
    tid \<notin> rt_id ` set (db_tokens d) \<and> hash_token E raw2 \<notin> rt_token_hash ` set (db_tokens d) \<and>
    it_refresh_token toks = raw2"
proof -
  note tok = get_by_hash_run [OF db_okD(2) [OF ok]]
  obtain t where t: "find (\<lambda>t. rt_token_hash t = hash_token E raw) (db_tokens d) = Some t"
    using run by (auto simp: rotate_refresh_def tok prog_simps split: option.splits)
  have live: "rt_revoked_at t = None" "now < rt_expires_at t"
    using run by (auto simp: rotate_refresh_def tok prog_simps t split: if_splits)
  obtain u where u: "find (\<lambda>u. u_id u = rt_user_id t) (db_users d) = Some u" "u_is_active u"
    using run live by (auto simp: rotate_refresh_def tok prog_simps t split: option.splits if_splits)
  obtain toks0 d1 where issue: "issue_tokens E st now raw2 tid jti u (rt_family_id t) d = (Inr toks0, d1)"
    using run live u
    by (auto simp: rotate_refresh_def tok prog_simps t split: prod.splits sum.splits)
  obtain new where new: "d1 = d\<lparr>db_tokens := db_tokens d @ [new]\<rparr>" "rt_id new = tid" "rt_user_id new = u_id u"
    "rt_family_id new = rt_family_id t" "rt_token_hash new = hash_token E raw2" "rt_revoked_at new = None"
    "tid \<notin> rt_id ` set (db_tokens d)" "hash_token E raw2 \<notin> rt_token_hash ` set (db_tokens d)"
    "it_refresh_token toks0 = raw2"
    using issue_tokens_success [OF issue] by blast
  define d2 where "d2 = d1\<lparr>db_tokens := update_where (\<lambda>x. rt_id x = rt_id t)
      (\<lambda>x. x\<lparr>rt_revoked_at := Some now\<rparr>) (db_tokens d1)\<rparr>"
  have ne: "tid \<noteq> rt_id t" using new(7) find_SomeD [OF t] by auto
  have d2: "db_tokens d2 = update_where (\<lambda>x. rt_id x = rt_id t) (\<lambda>x. x\<lparr>rt_revoked_at := Some now\<rparr>) (db_tokens d) @ [new]"
    using new ne by (simp add: d2_def update_where_def)
  have "db_ok d1" using preservesD [OF db_ok_issue_tokens ok] issue by (metis snd_conv)
  then have ok2: "db_ok d2" unfolding d2_def by (rule db_ok_update_tokens) simp_all
  have "hash_token E raw2 \<notin> rt_token_hash ` set (update_where (\<lambda>x. rt_id x = rt_id t)
      (\<lambda>x. x\<lparr>rt_revoked_at := Some now\<rparr>) (db_tokens d))"
    using new(8) by (simp add: image_update_where)
  then have "find (\<lambda>x. rt_token_hash x = hash_token E raw2) (update_where (\<lambda>x. rt_id x = rt_id t)
      (\<lambda>x. x\<lparr>rt_revoked_at := Some now\<rparr>) (db_tokens d)) = None"
    by (subst find_None_iff_key)
  then have "find (\<lambda>x. rt_token_hash x = hash_token E raw2) (db_tokens d2) = Some new"
    using new(5) unfolding d2 find_append by simp
  then have succ: "get_by_hash (hash_token E raw2) d2 = (Inr (Some new), d2)"
    by (simp add: get_by_hash_run [OF db_okD(2) [OF ok2]])
  have "d' = d2\<lparr>db_tokens := update_where (\<lambda>x. rt_id x = rt_id t) (\<lambda>x. x\<lparr>rt_rotated_to := Some tid\<rparr>) (db_tokens d2)\<rparr>"
    and toks: "toks = toks0"
    using run live u succ issue new(2,9)
    by (simp_all add: rotate_refresh_def tok prog_simps t d2_def [symmetric])
  then have "d' = d\<lparr>db_tokens := update_where (\<lambda>x. rt_id x = rt_id t)
      (\<lambda>x. x\<lparr>rt_revoked_at := Some now, rt_rotated_to := Some tid\<rparr>) (db_tokens d) @ [new]\<rparr>"
    using ne new(2) unfolding d2 by (simp add: d2_def new(1) update_where_def)
  then show ?thesis using t live u new toks by blast
qed

section \<open>At most one live token per family\<close>

definition live_in_family :: "uuid \<Rightarrow> refresh_token list \<Rightarrow> refresh_token list" where
  "live_in_family fam ts = filter (\<lambda>t. rt_family_id t = fam \<and> rt_revoked_at t = None) ts"

definition families_ok :: "db \<Rightarrow> bool" where
  "families_ok d \<longleftrightarrow> (\<forall>fam. length (live_in_family fam (db_tokens d)) \<le> 1)"

lemma live_append [simp]: "live_in_family fam (xs @ ys) = live_in_family fam xs @ live_in_family fam ys"
  by (simp add: live_in_family_def)

text \<open>An update that only ever revokes can only shrink the live part of a family.\<close>

lemma live_update_le:
  assumes "\<And>t. rt_family_id (f t) = rt_family_id t" "\<And>t. rt_revoked_at (f t) = Some now"
  shows "length (live_in_family fam (update_where P f ts)) \<le> length (live_in_family fam ts)"
  using assms by (induction ts) (auto simp: live_in_family_def table_simps)

lemma families_ok_update:
  assumes "families_ok d" "\<And>t. rt_family_id (f t) = rt_family_id t" "\<And>t. rt_revoked_at (f t) = Some now"
  shows "families_ok (d\<lparr>db_tokens := update_where P f (db_tokens d)\<rparr>)"
  unfolding families_ok_def
proof
  fix fam
  have "length (live_in_family fam (db_tokens d)) \<le> 1" using assms(1) by (simp add: families_ok_def)
  then show "length (live_in_family fam (db_tokens (d\<lparr>db_tokens := update_where P f (db_tokens d)\<rparr>))) \<le> 1"
    using live_update_le [of f now fam P "db_tokens d"] assms(2,3) by simp
qed

lemma live_revoked_one:
  assumes "length (live_in_family fam ts) \<le> 1" "t \<in> set ts" "rt_family_id t = fam" "rt_revoked_at t = None"
    and "\<And>x. rt_revoked_at (f x) = Some now"
  shows "live_in_family fam (update_where (\<lambda>x. rt_id x = rt_id t) f ts) = []"
proof -
  have "t \<in> set (live_in_family fam ts)" using assms(2-4) by (simp add: live_in_family_def)
  then have one: "live_in_family fam ts = [t]"
    using assms(1) by (cases "live_in_family fam ts") auto
  have "x = t" if "x \<in> set ts" "rt_family_id x = fam" "rt_revoked_at x = None" for x
  proof -
    have "x \<in> set (live_in_family fam ts)" using that by (simp add: live_in_family_def)
    then show ?thesis using one by simp
  qed
  note only = this
  show ?thesis
    unfolding live_in_family_def filter_empty_conv
  proof (intro ballI notI)
    fix y
    assume "y \<in> set (update_where (\<lambda>x. rt_id x = rt_id t) f ts)" "rt_family_id y = fam \<and> rt_revoked_at y = None"
    then obtain x where "x \<in> set ts" "y = (if rt_id x = rt_id t then f x else x)"
        "rt_family_id y = fam" "rt_revoked_at y = None"
      by (auto simp: in_update_where)
    then show False using assms(5) [of x] only [of x] by (cases "rt_id x = rt_id t") auto
  qed
qed

lemma families_ok_rotate:
  assumes "db_ok d" "families_ok d" "rotate_refresh E st now raw2 tid jti raw d = (Inr toks, d')"
  shows "families_ok d'"
proof -
  obtain t new where t: "find (\<lambda>t. rt_token_hash t = hash_token E raw) (db_tokens d) = Some t" "rt_revoked_at t = None"
    and d': "d' = d\<lparr>db_tokens := update_where (\<lambda>x. rt_id x = rt_id t)
            (\<lambda>x. x\<lparr>rt_revoked_at := Some now, rt_rotated_to := Some tid\<rparr>) (db_tokens d) @ [new]\<rparr>"
    and new: "rt_family_id new = rt_family_id t" "rt_revoked_at new = None"
    using rotate_success [OF assms(1,3)] by blast
  let ?f = "\<lambda>x. x\<lparr>rt_revoked_at := Some now, rt_rotated_to := Some tid\<rparr>"
  let ?ts = "update_where (\<lambda>x. rt_id x = rt_id t) ?f (db_tokens d)"
  show ?thesis
    unfolding families_ok_def
  proof
    fix fam
    have le: "length (live_in_family fam (db_tokens d)) \<le> 1" using assms(2) by (simp add: families_ok_def)
    show "length (live_in_family fam (db_tokens d')) \<le> 1"
    proof (cases "fam = rt_family_id t")
      case True
      then have "live_in_family fam ?ts = []"
        using live_revoked_one [OF le, of t ?f now] find_SomeD [OF t(1)] t(2) by simp
      then show ?thesis by (simp add: d' live_in_family_def)
    next
      case False
      then have "live_in_family fam [new] = []" using new by (simp add: live_in_family_def)
      then show ?thesis
        using le live_update_le [of ?f now fam "\<lambda>x. rt_id x = rt_id t" "db_tokens d"] by (simp add: d')
    qed
  qed
qed

lemma families_ok_set_token [prog_keeps]:
  "preserves families_ok (set_token i (\<lambda>t. t\<lparr>rt_revoked_at := Some now\<rparr>))"
  by (simp add: preserves_def prog_simps families_ok_update)

lemma families_ok_users: "families_ok (d\<lparr>db_users := us\<rparr>) = families_ok d"
  by (simp add: families_ok_def)

lemma families_ok_set_user [prog_keeps]: "preserves families_ok (set_user i f)"
  by (simp add: preserves_def prog_simps families_ok_users)

lemma families_ok_reset [prog_keeps]: "preserves families_ok (reset_password E st now salt tok pw)"
  unfolding reset_password_def
  by (intro prog_keeps)

lemma families_ok_logout [prog_keeps]: "preserves families_ok (logout E now raw)"
  unfolding logout_def revoke_token_def by (intro prog_keeps)

lemma families_ok_authenticate [prog_keeps]: "preserves families_ok (authenticate E salt e p)"
  unfolding authenticate_def by (intro prog_keeps)

lemma tokens_set_user [prog_keeps]: "preserves (\<lambda>d. db_tokens d = ts) (set_user i f)"
  by (simp add: preserves_def prog_simps)

lemma tokens_authenticate: "db_tokens (snd (authenticate E salt e p d)) = db_tokens d"
proof -
  have "preserves (\<lambda>d'. db_tokens d' = db_tokens d) (authenticate E salt e p)"
    unfolding authenticate_def by (intro prog_keeps)
  then show ?thesis by (rule preservesD) simp
qed

lemma families_ok_new_family:
  assumes "families_ok d" "fam \<notin> rt_family_id ` set (db_tokens d)"
    and "issue_tokens E st now raw tid jti u fam d = (r, d')"
  shows "families_ok d'"
proof (cases r)
  case (Inl e)
  then have "d' = d" using assms(3) by (auto simp: issue_tokens_def add_token_def prog_simps Let_def split: if_splits)
  then show ?thesis using assms(1) by simp
next
  case (Inr toks)
  obtain new where d': "d' = d\<lparr>db_tokens := db_tokens d @ [new]\<rparr>" "rt_family_id new = fam"
    using issue_tokens_success assms(3) unfolding Inr by blast
  have none: "live_in_family fam (db_tokens d) = []"
    using assms(2) by (auto simp: live_in_family_def filter_empty_conv)
  show ?thesis
    unfolding families_ok_def
  proof
    fix f
    show "length (live_in_family f (db_tokens d')) \<le> 1"
      using assms(1) none d' by (cases "f = fam") (auto simp: families_ok_def live_in_family_def)
  qed
qed

lemma revoke_each:
  "\<exists>d'. mapP (\<lambda>x. set_token (rt_id x) (\<lambda>x. x\<lparr>rt_revoked_at := Some t\<rparr>)) ts d = (Inr (map (\<lambda>_. ()) ts), d') \<and>
    db_users d' = db_users d \<and>
    db_tokens d' = update_where (\<lambda>x. rt_id x \<in> rt_id ` set ts) (\<lambda>x. x\<lparr>rt_revoked_at := Some t\<rparr>) (db_tokens d)"
proof (induction ts arbitrary: d)
  case Nil
  then show ?case by (simp add: prog_simps update_where_def)
next
  case (Cons x ts)
  let ?d = "d\<lparr>db_tokens := update_where (\<lambda>y. rt_id y = rt_id x) (\<lambda>y. y\<lparr>rt_revoked_at := Some t\<rparr>) (db_tokens d)\<rparr>"
  obtain d' where "mapP (\<lambda>x. set_token (rt_id x) (\<lambda>x. x\<lparr>rt_revoked_at := Some t\<rparr>)) ts ?d = (Inr (map (\<lambda>_. ()) ts), d')"
    "db_users d' = db_users d"
    "db_tokens d' = update_where (\<lambda>x. rt_id x \<in> rt_id ` set ts) (\<lambda>x. x\<lparr>rt_revoked_at := Some t\<rparr>) (db_tokens ?d)"
    using Cons.IH [of ?d] by auto
  moreover have "set_token (rt_id x) (\<lambda>x. x\<lparr>rt_revoked_at := Some t\<rparr>) d = (Inr (), ?d)"
    by (simp add: prog_simps)
  ultimately show ?case
    by (auto simp: bindP_run ret_run update_where_def simp del: set_token_run intro!: map_cong)
qed

section \<open>Properties\<close>

definition alice :: user where
  "alice = \<lparr> u_id = 1, u_email = ''a@x'', u_full_name = None, u_password_hash = ''h:pw'', u_is_active = True,
     u_is_email_verified = False, u_is_superuser = False, u_created_at = 0 \<rparr>"

definition alice_token :: refresh_token where
  "alice_token = \<lparr> rt_id = 10, rt_user_id = 1, rt_family_id = 5, rt_token_hash = ''r1'', rt_expires_at = 1000,
     rt_revoked_at = None, rt_rotated_to = None \<rparr>"

definition auth_db :: db where
  "auth_db = empty_db\<lparr>db_users := [alice], db_tokens := [alice_token]\<rparr>"

lemma auth_db_ok: "db_ok auth_db" "families_ok auth_db"
  by (simp_all add: auth_db_def db_ok_def table_ok_defs empty_db_def alice_def alice_token_def families_ok_def
      live_in_family_def)

lemma families_ok_refresh:
  assumes "db_ok d" "families_ok d"
  shows "families_ok (snd (refresh_endpoint E st now raw2 tid jti body ck d))"
  unfolding refresh_endpoint_def
proof (rule session_scope_invariant [where P = families_ok, OF assms(2)])
  fix x d'
  assume run: "(case presented_token body ck of
      None \<Rightarrow> raise (err AuthenticationError ''No refresh token provided.'')
    | Some raw \<Rightarrow> bindP (rotate_refresh E st now raw2 tid jti raw) (\<lambda>tokens. ret (token_response st tokens))) d = (Inr x, d')"
  then obtain raw where "presented_token body ck = Some raw"
    by (cases "presented_token body ck") (auto simp: raise_run)
  then have "bindP (rotate_refresh E st now raw2 tid jti raw) (\<lambda>tokens. ret (token_response st tokens)) d = (Inr x, d')"
    using run by simp
  then show "families_ok d'"
    using families_ok_rotate [OF assms(1,2)] by (elim bindP_Inr) (auto simp: ret_run)
qed

lemma families_ok_login:
  assumes "families_ok (w_db w)" "family \<notin> rt_family_id ` set (db_tokens (w_db w))"
  shows "families_ok (w_db (snd (login_endpoint R ms E st now salt raw tid jti family ip email password w)))"
  unfolding login_endpoint_def thenP_def
proof (rule get_session_invariant [where P = families_ok and w = w, OF assms(1)], elim bindP_Inr)
  fix x w' u1 w1 u w2 toks w3
  assume "on_redis (auth_throttle_check R (s_auth_rate_limit_per_minute st) ms
      (ip @ '':'' @ str_lower email)) w = (Inr u1, w1)"
    and "on_db (authenticate E salt email password) w1 = (Inr u, w2)"
    and "on_db (issue_tokens E st now raw tid jti u family) w2 = (Inr toks, w3)"
    and "ret (token_response st toks) w3 = (Inr x, w')"
  then have w: "w_db w1 = w_db w" "w_db w2 = snd (authenticate E salt email password (w_db w))"
    "issue_tokens E st now raw tid jti u family (w_db w2) = (Inr toks, w_db w')"
    by (auto simp: prog_simps prod_eq_iff)
  have "families_ok (w_db w2)"
    unfolding w(2) by (rule preservesD [OF families_ok_authenticate assms(1)])
  then show "families_ok (w_db w')"
    using families_ok_new_family [OF _ _ w(3)] assms(2) by (simp add: w(2) tokens_authenticate)
qed

text \<open>C27: requests that do not overlap keep every refresh-token family at one token in force at most:
  where it holds before a refresh, a logout, a password reset or a login (which starts a family of its
  own), each run whole, it holds after it, whatever the request answers, and so do the keys and
  references of the tables. Overlapping requests are outside this statement: two refreshes that read the
  token before either revokes it leave its family with two tokens in force (theory Concurrency).\<close>

theorem one_live_token_per_family:
  assumes "db_ok d" "families_ok d" "db_ok (w_db w)" "families_ok (w_db w)"
    and "family \<notin> rt_family_id ` set (db_tokens (w_db w))"
    and "refreshed = snd (refresh_endpoint E st now raw2 tid jti body ck d)"
    and "logged_out = snd (logout_endpoint E now body ck d)"
    and "reset_done = snd (confirm_reset_endpoint E st now salt tok pw d)"
    and "logged_in = w_db (snd (login_endpoint R ms E st now salt raw tid jti family ip email password w))"
  shows "(db_ok refreshed \<and> families_ok refreshed) \<and> (db_ok logged_out \<and> families_ok logged_out) \<and>
    (db_ok reset_done \<and> families_ok reset_done) \<and> (db_ok logged_in \<and> families_ok logged_in)"
proof (unfold assms(6-9), intro conjI)
  have "preserves db_ok (refresh_endpoint E st now raw2 tid jti body ck)"
    unfolding refresh_endpoint_def by (intro prog_keeps)
  then show "db_ok (snd (refresh_endpoint E st now raw2 tid jti body ck d))" using assms(1) by (rule preservesD)
  show "families_ok (snd (refresh_endpoint E st now raw2 tid jti body ck d))"
    by (rule families_ok_refresh [OF assms(1,2)])
  have "preserves db_ok (logout_endpoint E now body ck)"
    unfolding logout_endpoint_def by (intro prog_keeps)
  then show "db_ok (snd (logout_endpoint E now body ck d))" using assms(1) by (rule preservesD)
  have "preserves families_ok (logout_endpoint E now body ck)"
    unfolding logout_endpoint_def by (intro prog_keeps)
  then show "families_ok (snd (logout_endpoint E now body ck d))" using assms(2) by (rule preservesD)
  have "preserves db_ok (confirm_reset_endpoint E st now salt tok pw)"
    unfolding confirm_reset_endpoint_def by (intro prog_keeps)
  then show "db_ok (snd (confirm_reset_endpoint E st now salt tok pw d))" using assms(1) by (rule preservesD)
  have "preserves families_ok (confirm_reset_endpoint E st now salt tok pw)"
    unfolding confirm_reset_endpoint_def by (intro prog_keeps)
  then show "families_ok (snd (confirm_reset_endpoint E st now salt tok pw d))" using assms(2) by (rule preservesD)
  have "keeps_db db_ok (login_endpoint R ms E st now salt raw tid jti family ip email password)"
    unfolding login_endpoint_def by (intro prog_keeps)
  then show "db_ok (w_db (snd (login_endpoint R ms E st now salt raw tid jti family ip email password w)))"
    using assms(3) by (simp add: keeps_db_def preserves_def)
  show "families_ok (w_db (snd (login_endpoint R ms E st now salt raw tid jti family ip email password w)))"
    by (rule families_ok_login [OF assms(4,5)])
qed

theorem one_live_token_per_family_witness:
  "families_ok (snd (refresh_endpoint plain_env default_settings 0 ''r2'' 11 12 (Some ''r1'') None auth_db))"
  using one_live_token_per_family [OF auth_db_ok, where w = "\<lparr>w_db = auth_db, w_sent = [], w_redis = ()\<rparr>"
      and family = 6 and E = plain_env and st = default_settings and now = 0 and body = "Some ''r1''" and ck = None
      and ?raw2.0 = "''r2''" and tid = 11 and jti = 12, OF _ _ _ refl refl refl refl]
  by (simp add: auth_db_ok) (simp add: auth_db_def alice_token_def)

text \<open>C28: a refresh token is good for one refresh. After a successful refresh the presented token is
  revoked and points to its successor, the only other change is the successor's row (same family and
  user, in force), and presenting the old token again is refused.\<close>

theorem refresh_rotates_once:
  assumes "db_ok d" "presented_token body ck = Some raw"
    and "refresh_endpoint E st now raw2 tid jti body ck d = (Inr (toks, cookie), d')"
  shows "(\<exists>t u new. find (\<lambda>t. rt_token_hash t = hash_token E raw) (db_tokens d) = Some t \<and>
      rt_revoked_at t = None \<and> now < rt_expires_at t \<and>
      find (\<lambda>u. u_id u = rt_user_id t) (db_users d) = Some u \<and> u_is_active u \<and>
      d' = d\<lparr>db_tokens := update_where (\<lambda>x. rt_id x = rt_id t)
              (\<lambda>x. x\<lparr>rt_revoked_at := Some now, rt_rotated_to := Some tid\<rparr>) (db_tokens d) @ [new]\<rparr> \<and>
      rt_id new = tid \<and> rt_user_id new = u_id u \<and> rt_family_id new = rt_family_id t \<and>
      rt_token_hash new = hash_token E raw2 \<and> rt_revoked_at new = None) \<and>
    ck_value cookie = it_refresh_token toks \<and> it_refresh_token toks = raw2 \<and>
    fst (refresh_endpoint E st now' raw3 tid' jti' body ck d') =
      Inl (err AuthenticationError ''Refresh token has been revoked.'')"
proof -
  have run: "rotate_refresh E st now raw2 tid jti raw d = (Inr toks, d')" and
    cookie: "cookie = set_refresh_cookie st (it_refresh_token toks)"
    using assms(2,3) by (auto simp: refresh_endpoint_def prog_simps token_response_def split: prod.splits sum.splits)
  obtain t u new where t: "find (\<lambda>t. rt_token_hash t = hash_token E raw) (db_tokens d) = Some t"
      "rt_revoked_at t = None" "now < rt_expires_at t"
      "find (\<lambda>u. u_id u = rt_user_id t) (db_users d) = Some u" "u_is_active u"
    and d': "d' = d\<lparr>db_tokens := update_where (\<lambda>x. rt_id x = rt_id t)
            (\<lambda>x. x\<lparr>rt_revoked_at := Some now, rt_rotated_to := Some tid\<rparr>) (db_tokens d) @ [new]\<rparr>"
    and new: "rt_id new = tid" "rt_user_id new = u_id u" "rt_family_id new = rt_family_id t"
      "rt_token_hash new = hash_token E raw2" "rt_revoked_at new = None" "it_refresh_token toks = raw2"
    using rotate_success [OF assms(1) run] by blast
  have ok': "db_ok d'" using preservesD [OF db_ok_rotate assms(1)] run by (metis snd_conv)
  have "find (\<lambda>t. rt_token_hash t = hash_token E raw) (update_where (\<lambda>x. rt_id x = rt_id t)
      (\<lambda>x. x\<lparr>rt_revoked_at := Some now, rt_rotated_to := Some tid\<rparr>) (db_tokens d)) =
      Some (t\<lparr>rt_revoked_at := Some now, rt_rotated_to := Some tid\<rparr>)"
    by (subst find_update_where) (simp_all add: t(1))
  then have "find (\<lambda>t. rt_token_hash t = hash_token E raw) (db_tokens d') =
      Some (t\<lparr>rt_revoked_at := Some now, rt_rotated_to := Some tid\<rparr>)"
    by (simp add: d' find_append)
  then have "get_by_hash (hash_token E raw) d' =
      (Inr (Some (t\<lparr>rt_revoked_at := Some now, rt_rotated_to := Some tid\<rparr>)), d')"
    by (simp add: get_by_hash_run [OF db_okD(2) [OF ok']])
  then have "fst (refresh_endpoint E st now' raw3 tid' jti' body ck d') =
      Inl (err AuthenticationError ''Refresh token has been revoked.'')"
    using assms(2) by (simp add: refresh_endpoint_def rotate_refresh_def prog_simps)
  then show ?thesis using t d' new cookie by (auto simp: set_refresh_cookie_def)
qed

theorem refresh_rotates_once_witness:
  "fst (refresh_endpoint plain_env default_settings 1 ''r3'' 13 14 (Some ''r1'') None
      (snd (refresh_endpoint plain_env default_settings 0 ''r2'' 11 12 (Some ''r1'') None auth_db))) =
    Inl (err AuthenticationError ''Refresh token has been revoked.'')"
proof -
  obtain toks ck d' where one: "refresh_endpoint plain_env default_settings 0 ''r2'' 11 12 (Some ''r1'') None auth_db =
      (Inr (toks, ck), d')"
    by (auto simp: refresh_endpoint_def presented_token_def rotate_refresh_def issue_tokens_def add_token_def
        get_by_hash_def select_one_def prog_simps token_response_def auth_db_def alice_def alice_token_def
        empty_db_def plain_env_def hash_token_def Let_def update_where_def)
  then show ?thesis
    using refresh_rotates_once [OF auth_db_ok(1) _ one] by (simp add: presented_token_def)
qed

text \<open>C30: replaying a refresh token that was rotated or revoked is refused, and the service does
  revoke the whole family; but it raises, so the session rolls the revocation back: after the
  request the database is unchanged and the family's successor is still in force.\<close>

theorem reuse_detection_rolled_back:
  assumes "db_ok d" "presented_token body ck = Some raw" "t \<in> set (db_tokens d)"
    and "rt_token_hash t = hash_token E raw" "rt_revoked_at t \<noteq> None"
  shows "live_in_family (rt_family_id t) (db_tokens (snd (rotate_refresh E st now raw2 tid jti raw d))) = [] \<and>
    refresh_endpoint E st now raw2 tid jti body ck d =
      (Inl (err AuthenticationError ''Refresh token has been revoked.''), d)"
proof -
  have "get_by_hash (hash_token E raw) d = (Inr (Some t), d)"
    using get_by_hash_run [OF db_okD(2) [OF assms(1)]] assms(3,4) db_okD(2) [OF assms(1)]
    by (simp add: find_Some_iff_unique tokens_ok_def)
  then have run: "rotate_refresh E st now raw2 tid jti raw d =
      (Inl (err AuthenticationError ''Refresh token has been revoked.''), snd (revoke_family now (rt_family_id t) d))"
    using assms(5) by (simp add: rotate_refresh_def prog_simps)
  have "live_in_family fam (update_where (\<lambda>t. rt_family_id t = fam \<and> rt_revoked_at t = None)
      (\<lambda>t. t\<lparr>rt_revoked_at := Some now\<rparr>) ts) = []" for fam ts
    by (induction ts) (auto simp: live_in_family_def table_simps)
  then show ?thesis
    using assms(2) by (simp add: run refresh_endpoint_def prog_simps)
qed

definition stolen_db :: db where
  "stolen_db = auth_db\<lparr>db_tokens := [alice_token\<lparr>rt_revoked_at := Some 1, rt_rotated_to := Some 11\<rparr>,
     alice_token\<lparr>rt_id := 11, rt_token_hash := ''r2''\<rparr>]\<rparr>"

theorem reuse_detection_rolled_back_witness:
  "live_in_family 5 (db_tokens (snd (refresh_endpoint plain_env default_settings 2 ''r3'' 13 14 (Some ''r1'') None
      stolen_db))) = [alice_token\<lparr>rt_id := 11, rt_token_hash := ''r2''\<rparr>]"
proof -
  have "db_ok stolen_db"
    by (simp add: stolen_db_def auth_db_def db_ok_def table_ok_defs empty_db_def alice_def alice_token_def)
  then have "refresh_endpoint plain_env default_settings 2 ''r3'' 13 14 (Some ''r1'') None stolen_db =
      (Inl (err AuthenticationError ''Refresh token has been revoked.''), stolen_db)"
    by (intro conjunct2 [OF reuse_detection_rolled_back [where raw = "''r1''"
          and t = "alice_token\<lparr>rt_revoked_at := Some 1, rt_rotated_to := Some 11\<rparr>"]])
       (simp_all add: presented_token_def stolen_db_def alice_token_def hash_token_def plain_env_def)
  then show ?thesis by (simp add: stolen_db_def live_in_family_def alice_token_def)
qed

text \<open>An account that was just registered can be used: the same password logs in under any
  capitalisation of the address, exactly one mail went out, to the stored address, and for a day its
  token marks the address verified.\<close>

theorem registration_usable:
  assumes "crypto E" "db_ok (w_db w)"
    and "register E st now uid salt email0 password full_name w = (Inr u, w')"
    and "str_lower email = str_lower email0" "now \<le> t" "timestamp t < timestamp (now + VERIFY_TTL * us_per_second)"
  shows "(\<exists>u' d'. authenticate E salt2 email password (w_db w') = (Inr u', d') \<and> u_id u' = uid) \<and>
    (\<exists>token. w_sent w' = w_sent w @ [\<lparr>em_to = str_lower email0, em_subject = ''Verify your email'',
        em_body = ''Use this token to verify your email: '' @ token\<rparr>] \<and>
      (\<exists>d'. verify_email E st t token (w_db w') = (Inr (u\<lparr>u_is_email_verified := True\<rparr>), d') \<and>
        find (\<lambda>x. u_id x = uid) (db_users d') = Some (u\<lparr>u_is_email_verified := True\<rparr>)))"
proof -
  let ?tok = "create_action_token E st now (uuid_str uid) VERIFY_PURPOSE VERIFY_TTL []"
  have u: "u_id u = uid" "u_email u = str_lower email0" "u_is_active u"
      "u_password_hash u = hash_password E salt password"
    and w': "w' = w\<lparr>w_db := (w_db w)\<lparr>db_users := db_users (w_db w) @ [u]\<rparr>,
      w_sent := w_sent w @ [\<lparr>em_to = str_lower email0, em_subject = ''Verify your email'',
        em_body = ''Use this token to verify your email: '' @ ?tok\<rparr>]\<rparr>"
    using assms(3)
    by (auto simp: register_def send_verification_email_def add_user_def prog_simps Let_def
        get_by_email_run [OF db_okD(1) [OF assms(2)]]
        split: prod.splits sum.splits if_splits)
  have ok': "db_ok (w_db w')" using keeps_db_run [OF keeps_register assms(2,3)] .
  have "u \<in> set (db_users (w_db w'))" using w' by simp
  then have "find (\<lambda>x. u_email x = str_lower email) (db_users (w_db w')) = Some u"
    and uid: "find (\<lambda>x. u_id x = uid) (db_users (w_db w')) = Some u"
    using db_okD(1) [OF ok'] u assms(4) by (auto simp: users_ok_def intro: find_Some_iff_unique)
  then have mail: "get_by_email (str_lower email) (w_db w') = (Inr (Some u), w_db w')"
    by (simp add: get_by_email_run [OF db_okD(1) [OF ok']])
  have login: "\<exists>u' d'. authenticate E salt2 email password (w_db w') = (Inr u', d') \<and> u_id u' = uid"
    using u crypto.password_roundtrip [OF assms(1), of password salt]
    by (simp add: authenticate_def mail prog_simps)
  obtain c where c: "decode_action_token E st t ?tok VERIFY_PURPOSE = Inr c" "map_of c ''sub'' = Some (JStr (uuid_str uid))"
    using crypto.action_token_roundtrip [OF assms(1), of "[]" now t VERIFY_TTL st "uuid_str uid" VERIFY_PURPOSE VERIFY_PURPOSE]
      assms(5,6) by auto
  then have "verify_email E st t ?tok (w_db w') = (Inr (u\<lparr>u_is_email_verified := True\<rparr>),
      (w_db w')\<lparr>db_users := update_where (\<lambda>x. u_id x = uid) (\<lambda>x. x\<lparr>u_is_email_verified := True\<rparr>) (db_users (w_db w'))\<rparr>)"
    using uid u(1) by (simp add: verify_email_def prog_simps jwt_claims_def claim_subject_def uuid_roundtrip)
  moreover have "find (\<lambda>x. u_id x = uid) (update_where (\<lambda>x. u_id x = uid) (\<lambda>x. x\<lparr>u_is_email_verified := True\<rparr>)
      (db_users (w_db w'))) = Some (u\<lparr>u_is_email_verified := True\<rparr>)"
    using uid u(1) by (subst find_update_where) simp_all
  ultimately show ?thesis using login w' by auto
qed

theorem registration_usable_witness:
  "\<exists>u w'. register plain_env default_settings 0 1 ''s'' ''Bob@X'' ''secret'' None
      \<lparr>w_db = empty_db, w_sent = [], w_redis = ()\<rparr> = (Inr u, w') \<and>
    (\<exists>u' d'. authenticate plain_env ''s2'' ''bob@x'' ''secret'' (w_db w') = (Inr u', d') \<and> u_id u' = 1)"
proof -
  obtain u w' where reg: "register plain_env default_settings 0 1 ''s'' ''Bob@X'' ''secret'' None
      \<lparr>w_db = empty_db, w_sent = [], w_redis = ()\<rparr> = (Inr u, w')"
    by (auto simp: register_def get_by_email_def select_one_def empty_db_def prog_simps add_user_def
        send_verification_email_def Let_def)
  have "str_lower ''bob@x'' = str_lower ''Bob@X''" by code_simp
  then show ?thesis
    using registration_usable [OF plain.crypto_axioms _ reg, of "''bob@x''" 0] reg db_ok_empty
    by (simp add: timestamp_def VERIFY_TTL_def us_per_second_def)
qed

text \<open>The token of any account with the id it was issued for authenticates, wherever that account is looked up.\<close>

lemma issued_token_accepted:
  assumes "crypto E" "find (\<lambda>x. u_id x = u_id u) (db_users d) = Some u" "u_is_active u" "now \<le> t"
    and "timestamp t < timestamp (now + s_access_token_ttl_seconds st * us_per_second)"
    and "issue_tokens E st now raw tid jti u0 family d0 = (Inr toks, d1)" "u_id u0 = u_id u"
  shows "get_current_user E st t (Some (it_access_token toks)) d = (Inr u, d)"
proof -
  obtain extra where tok: "it_access_token toks = create_access_token E st now jti (uuid_str (u_id u)) extra None"
    "fst ` set extra = {''email'', ''orgs''}"
    using assms(6,7) by (auto simp: issue_tokens_def add_token_def prog_simps Let_def split: if_splits)
  have "fst ` set extra \<inter> {''sub'', ''type'', ''iat'', ''exp'', ''jti''} = {}" unfolding tok(2) by simp
  from crypto.access_token_roundtrip [OF assms(1) this assms(4,5) tok(1)]
  obtain c where "decode_access_token E st t (it_access_token toks) = Inr c"
    "map_of c ''sub'' = Some (JStr (uuid_str (u_id u)))" "map_of c ''type'' = Some (JStr ''access'')"
    "it_access_token toks \<noteq> []" by blast
  then show ?thesis
    using assms(2,3) by (simp add: get_current_user_def prog_simps jwt_claims_def claim_subject_def uuid_roundtrip)
qed

text \<open>The access token a login or refresh hands out authenticates its user's requests until it
  expires, as long as the account is active.\<close>

theorem issued_token_authenticates:
  assumes "crypto E" "find (\<lambda>x. u_id x = u_id u) (db_users d) = Some u" "u_is_active u" "now \<le> t"
    and "timestamp t < timestamp (now + s_access_token_ttl_seconds st * us_per_second)"
    and "issue_tokens E st now raw tid jti u family d = (Inr toks, d')"
  shows "get_current_user E st t (Some (it_access_token toks)) d' = (Inr u, d') \<and> it_refresh_token toks = raw \<and>
    it_expires_in toks = s_access_token_ttl_seconds st"
proof -
  have "db_users d' = db_users d" "it_refresh_token toks = raw" "it_expires_in toks = s_access_token_ttl_seconds st"
    using assms(6) by (auto simp: issue_tokens_def add_token_def prog_simps Let_def split: if_splits)
  then show ?thesis using issued_token_accepted [OF assms(1) _ assms(3-6) refl] assms(2) by simp
qed

theorem issued_token_authenticates_witness:
  "\<exists>toks d'. issue_tokens plain_env default_settings 0 ''r2'' 11 12 alice 6 auth_db = (Inr toks, d') \<and>
    get_current_user plain_env default_settings 5 (Some (it_access_token toks)) d' = (Inr alice, d')"
proof -
  obtain toks d' where run: "issue_tokens plain_env default_settings 0 ''r2'' 11 12 alice 6 auth_db = (Inr toks, d')"
    by (auto simp: issue_tokens_def add_token_def prog_simps auth_db_def alice_def alice_token_def
        empty_db_def plain_env_def hash_token_def Let_def)
  have "get_current_user plain_env default_settings 5 (Some (it_access_token toks)) d' = (Inr alice, d')"
    by (intro conjunct1 [OF issued_token_authenticates [OF plain.crypto_axioms _ _ _ _ run]])
       (simp_all add: auth_db_def alice_def timestamp_def us_per_second_def default_settings_def)
  then show ?thesis using run by blast
qed

text \<open>A login does not tell whether an address has an account: with the throttle in the same
  state, an unknown address and a known one with a wrong password get the same answer.\<close>

theorem login_hides_accounts:
  assumes "users_ok (db_users (w_db w1))" "users_ok (db_users (w_db w2))" "w_redis w1 = w_redis w2"
    and "find (\<lambda>x. u_email x = str_lower email) (db_users (w_db w1)) = None"
    and "find (\<lambda>x. u_email x = str_lower email) (db_users (w_db w2)) = Some u"
    and "verify_password E password (u_password_hash u) = Inr False"
  shows "fst (login_endpoint R ms E st now salt raw tid jti family ip email password w1) =
    fst (login_endpoint R ms E st now salt raw tid jti family ip email password w2)"
proof -
  have "authenticate E salt email password (w_db w1) =
      (Inl (err AuthenticationError ''Invalid email or password.''), w_db w1)"
    using assms(1,4) by (simp add: authenticate_def get_by_email_run prog_simps)
  moreover have "authenticate E salt email password (w_db w2) =
      (Inl (err AuthenticationError ''Invalid email or password.''), w_db w2)"
    using assms(2,5,6) by (simp add: authenticate_def get_by_email_run prog_simps)
  ultimately show ?thesis
    using assms(3) by (simp add: login_endpoint_def prog_simps split: prod.splits sum.splits)
qed

theorem login_hides_accounts_witness:
  "fst (login_endpoint mem_redis 0 plain_env default_settings 0 ''s'' ''r'' 1 2 3 ''ip'' ''a@x'' ''bad''
      \<lparr>w_db = empty_db, w_sent = [], w_redis = (\<lambda>_. None)\<rparr>) =
   fst (login_endpoint mem_redis 0 plain_env default_settings 0 ''s'' ''r'' 1 2 3 ''ip'' ''a@x'' ''bad''
      \<lparr>w_db = auth_db, w_sent = [], w_redis = (\<lambda>_. None)\<rparr>)"
proof -
  have "str_lower ''a@x'' = ''a@x''" by code_simp
  then show ?thesis
    by (intro login_hides_accounts [where u = alice])
       (simp_all add: users_ok_def empty_db_def auth_db_def alice_def verify_password_def plain_env_def)
qed

text \<open>C33: a mailed reset token changes the password once. Within the hour it sets the new password and
  revokes every refresh token of the account (and no other); used again it is refused, as long as
  the fingerprints of the two password hashes differ.\<close>

theorem password_reset_once:
  assumes "crypto E" "db_ok d" "find (\<lambda>x. u_id x = u_id u) (db_users d) = Some u" "t0 \<le> t" "t \<le> t'"
    and "timestamp t' < timestamp (t0 + RESET_TTL * us_per_second)"
    and "token = create_action_token E st t0 (uuid_str (u_id u)) RESET_PURPOSE RESET_TTL
      [(''pfp'', JStr (password_fingerprint E u))]"
    and "u' = u\<lparr>u_password_hash := hash_password E salt new_password\<rparr>"
    and "password_fingerprint E u' \<noteq> password_fingerprint E u"
  shows "\<exists>d'. reset_password E st t salt token new_password d = (Inr u', d') \<and>
    find (\<lambda>x. u_id x = u_id u) (db_users d') = Some u' \<and>
    db_tokens d' = update_where (\<lambda>x. rt_user_id x = u_id u \<and> rt_revoked_at x = None)
      (\<lambda>x. x\<lparr>rt_revoked_at := Some t\<rparr>) (db_tokens d) \<and>
    reset_password E st t' salt2 token pw2 d' =
      (Inl (err ValidationAppError ''This reset token has already been used.''), d')"
proof -
  have t: "timestamp t \<le> timestamp t'" using assms(5) by (simp add: timestamp_def us_per_second_def zdiv_mono1)
  have dec: "\<exists>c. decode_action_token E st s token RESET_PURPOSE = Inr c \<and>
      map_of c ''sub'' = Some (JStr (uuid_str (u_id u))) \<and>
      map_of c ''pfp'' = Some (JStr (password_fingerprint E u))"
    if "t0 \<le> s" "timestamp s < timestamp (t0 + RESET_TTL * us_per_second)" for s
    using crypto.action_token_roundtrip [OF assms(1), of "[(''pfp'', JStr (password_fingerprint E u))]"
        t0 s RESET_TTL st "uuid_str (u_id u)" RESET_PURPOSE RESET_PURPOSE] that assms(7)
    by (auto simp: dict_update_def)
  obtain c where c: "decode_action_token E st t token RESET_PURPOSE = Inr c"
      "map_of c ''sub'' = Some (JStr (uuid_str (u_id u)))" "map_of c ''pfp'' = Some (JStr (password_fingerprint E u))"
    using dec [of t] assms(4,6) t by auto
  obtain c' where c': "decode_action_token E st t' token RESET_PURPOSE = Inr c'"
      "map_of c' ''sub'' = Some (JStr (uuid_str (u_id u)))" "map_of c' ''pfp'' = Some (JStr (password_fingerprint E u))"
    using dec [of t'] assms(4,5,6) by auto
  define us where "us = update_where (\<lambda>x. u_id x = u_id u) (\<lambda>x. x\<lparr>u_password_hash := hash_password E salt new_password\<rparr>) (db_users d)"
  define ts where "ts = filter (\<lambda>t. rt_user_id t = u_id u \<and> rt_revoked_at t = None) (db_tokens d)"
  obtain d' where d': "mapP (\<lambda>x. set_token (rt_id x) (\<lambda>x. x\<lparr>rt_revoked_at := Some t\<rparr>)) ts (d\<lparr>db_users := us\<rparr>) =
      (Inr (map (\<lambda>_. ()) ts), d')" "db_users d' = us"
    "db_tokens d' = update_where (\<lambda>x. rt_id x \<in> rt_id ` set ts) (\<lambda>x. x\<lparr>rt_revoked_at := Some t\<rparr>) (db_tokens d)"
    using revoke_each [of t ts "d\<lparr>db_users := us\<rparr>"] by auto
  have ids: "rt_id x \<in> rt_id ` set ts \<longleftrightarrow> rt_user_id x = u_id u \<and> rt_revoked_at x = None"
    if "x \<in> set (db_tokens d)" for x
    using that db_okD(2) [OF assms(2)] by (auto simp: ts_def tokens_ok_def dest: unique_row)
  have toks: "db_tokens d' = update_where (\<lambda>x. rt_user_id x = u_id u \<and> rt_revoked_at x = None)
      (\<lambda>x. x\<lparr>rt_revoked_at := Some t\<rparr>) (db_tokens d)"
    unfolding d'(3) update_where_def using ids by (auto intro!: map_cong)
  have first: "reset_password E st t salt token new_password d = (Inr u', d')"
    using c d'(1) assms(3,8)
    by (simp add: reset_password_def prog_simps jwt_claims_def claim_subject_def uuid_roundtrip
        active_tokens_for_def us_def [symmetric] ts_def [symmetric])
  have user: "find (\<lambda>x. u_id x = u_id u) (db_users d') = Some u'"
    unfolding d'(2) us_def assms(8) using assms(3) by (subst find_update_where) simp_all
  have "reset_password E st t' salt2 token pw2 d' =
      (Inl (err ValidationAppError ''This reset token has already been used.''), d')"
    using c' user assms(9)
    by (simp add: reset_password_def prog_simps jwt_claims_def claim_subject_def uuid_roundtrip)
  then show ?thesis using first user toks by blast
qed

theorem password_reset_once_witness:
  "\<exists>d'. reset_password plain_env default_settings 1 ''s''
      (create_action_token plain_env default_settings 0 (uuid_str 1) RESET_PURPOSE RESET_TTL
        [(''pfp'', JStr (password_fingerprint plain_env alice))]) ''new'' auth_db =
      (Inr (alice\<lparr>u_password_hash := hash_password plain_env ''s'' ''new''\<rparr>), d')"
  using password_reset_once [OF plain.crypto_axioms auth_db_ok(1), of alice 0 1 1 _ default_settings _ "''s''" "''new''",
      OF _ _ _ _ refl refl]
  by (simp add: auth_db_def alice_def timestamp_def us_per_second_def RESET_TTL_def password_fingerprint_def
      hash_password_def hash_token_def plain_env_def) blast

text \<open>Tokens of one kind never pass for another, fresh or expired: a mailed token does not
  authenticate a request, a reset token does not verify an address, a verification token does not
  reset a password.\<close>

theorem token_kinds_separate:
  assumes "crypto E" "t0 \<le> t" "fst ` set extra \<inter> {''sub'', ''type'', ''iat'', ''exp''} = {}"
    and "purpose = VERIFY_PURPOSE \<or> purpose = RESET_PURPOSE"
    and "token = create_action_token E st t0 subject purpose ttl extra"
  shows "(\<exists>msg. get_current_user E st t (Some token) d = (Inl (err AuthenticationError msg), d)) \<and>
    (purpose = RESET_PURPOSE \<longrightarrow> verify_email E st t token d =
      (Inl (err ValidationAppError ''Invalid or expired verification token.''), d)) \<and>
    (purpose = VERIFY_PURPOSE \<longrightarrow> reset_password E st t salt token pw d =
      (Inl (err ValidationAppError ''Invalid or expired reset token.''), d))"
proof -
  have ne: "VERIFY_PURPOSE \<noteq> RESET_PURPOSE" "VERIFY_PURPOSE \<noteq> ''access''" "RESET_PURPOSE \<noteq> ''access''"
    by (simp_all add: VERIFY_PURPOSE_def RESET_PURPOSE_def)
  note kind = crypto.wrong_purpose [OF assms(1,3,2), of _ purpose st subject ttl, folded assms(5)]
  have "case decode_access_token E st t token of Inl e \<Rightarrow> True | Inr c \<Rightarrow> map_of c ''type'' = Some (JStr purpose)"
    unfolding assms(5) by (rule crypto.action_token_decodes [OF assms(1,3,2)])
  then have "\<exists>msg. get_current_user E st t (Some token) d = (Inl (err AuthenticationError msg), d)"
    using assms(4) ne by (auto simp: get_current_user_def prog_simps jwt_claims_def split: sum.splits)
  moreover have "verify_email E st t token d = (Inl (err ValidationAppError ''Invalid or expired verification token.''), d)"
    if "purpose = RESET_PURPOSE"
    using kind [of VERIFY_PURPOSE] that ne by (auto simp: verify_email_def prog_simps jwt_claims_def)
  moreover have "reset_password E st t salt token pw d = (Inl (err ValidationAppError ''Invalid or expired reset token.''), d)"
    if "purpose = VERIFY_PURPOSE"
    using kind [of RESET_PURPOSE] that ne by (auto simp: reset_password_def prog_simps jwt_claims_def)
  ultimately show ?thesis by blast
qed

theorem token_kinds_separate_witness:
  "\<exists>msg. get_current_user plain_env default_settings 1
      (Some (create_action_token plain_env default_settings 0 (uuid_str 1) RESET_PURPOSE RESET_TTL [])) auth_db =
    (Inl (err AuthenticationError msg), auth_db)"
  using token_kinds_separate [OF plain.crypto_axioms, of 0 1 "[]" RESET_PURPOSE _ default_settings "uuid_str 1" RESET_TTL auth_db,
      OF _ _ _ refl] by simp

end
