(* ===== verification/Notifications.thy ===== *)
theory Notifications
  imports AuthService
begin

text \<open>
  \<open>services/notification.py\<close>, \<open>repositories/notification.py\<close> and \<open>api/notifications.py\<close>: messages
  to a user, listed newest first and marked read one by one or all at once.
\<close>

definition create_notification ::
  "instant \<Rightarrow> uuid \<Rightarrow> uuid \<Rightarrow> string \<Rightarrow> string \<Rightarrow> string \<Rightarrow> uuid option \<Rightarrow> notification dbprog" where
  "create_notification now nid user_id type title body organization_id =
     (let n = \<lparr> n_id = nid, n_user_id = user_id, n_organization_id = organization_id, n_type = type,
                n_title = title, n_body = body, n_read_at = None, n_created_at = now \<rparr>
      in thenP (add_note n) (ret n))"

definition list_notifications :: "uuid \<Rightarrow> bool \<Rightarrow> nat \<Rightarrow> nat \<Rightarrow> notification list dbprog" where
  "list_notifications user_id unread_only lmt off = gets (\<lambda>d. page lmt off (order_desc n_created_at
     (filter (\<lambda>n. n_user_id n = user_id \<and> (unread_only \<longrightarrow> n_read_at n = None)) (db_notes d))))"

definition get_note_for_user :: "uuid \<Rightarrow> uuid \<Rightarrow> notification option dbprog" where
  "get_note_for_user nid user_id = select_one db_notes (\<lambda>n. n_id n = nid \<and> n_user_id n = user_id)"

definition set_note :: "uuid \<Rightarrow> (notification \<Rightarrow> notification) \<Rightarrow> unit dbprog" where
  "set_note i f = modifyP (\<lambda>d. d\<lparr>db_notes := update_where (\<lambda>n. n_id n = i) f (db_notes d)\<rparr>)"

definition mark_read :: "instant \<Rightarrow> uuid \<Rightarrow> uuid \<Rightarrow> notification dbprog" where
  "mark_read now user_id nid = bindP (get_note_for_user nid user_id) (\<lambda>n. case n of
     None \<Rightarrow> raise (err NotFoundError ''Notification not found.'')
   | Some n \<Rightarrow> if n_read_at n = None
       then thenP (set_note (n_id n) (\<lambda>n. n\<lparr>n_read_at := Some now\<rparr>)) (ret (n\<lparr>n_read_at := Some now\<rparr>))
       else ret n)"

text \<open>The UPDATE's row count is the number of rows its condition selected.\<close>

definition mark_all_read :: "instant \<Rightarrow> uuid \<Rightarrow> nat dbprog" where
  "mark_all_read now user_id = (\<lambda>d.
     (Inr (length (filter (\<lambda>n. n_user_id n = user_id \<and> n_read_at n = None) (db_notes d))),
      d\<lparr>db_notes := update_where (\<lambda>n. n_user_id n = user_id \<and> n_read_at n = None)
          (\<lambda>n. n\<lparr>n_read_at := Some now\<rparr>) (db_notes d)\<rparr>))"

section \<open>Endpoints\<close>

definition list_notifications_endpoint ::
  "env \<Rightarrow> settings \<Rightarrow> instant \<Rightarrow> string option \<Rightarrow> bool \<Rightarrow> nat \<Rightarrow> nat \<Rightarrow> notification list dbprog" where
  "list_notifications_endpoint E st now cred unread_only lmt off = session_scope
     (bindP (get_current_user E st now cred) (\<lambda>u. list_notifications (u_id u) unread_only lmt off))"

definition mark_read_endpoint ::
  "env \<Rightarrow> settings \<Rightarrow> instant \<Rightarrow> string option \<Rightarrow> uuid \<Rightarrow> notification dbprog" where
  "mark_read_endpoint E st now cred nid = session_scope
     (bindP (get_current_user E st now cred) (\<lambda>u. mark_read now (u_id u) nid))"

definition mark_all_read_endpoint :: "env \<Rightarrow> settings \<Rightarrow> instant \<Rightarrow> string option \<Rightarrow> string dbprog" where
  "mark_all_read_endpoint E st now cred = session_scope
     (bindP (get_current_user E st now cred) (\<lambda>u.
      bindP (mark_all_read now (u_id u)) (\<lambda>n.
      ret (''Marked '' @ nat_str n @ '' notification(s) as read.''))))"

section \<open>Facts\<close>

lemma reads_get_note [prog_keeps]:
  "reads (get_note_for_user i u)" "reads (list_notifications u b l off)"
  by (simp_all add: get_note_for_user_def list_notifications_def prog_keeps)

lemma reads_get_current_user [prog_keeps]: "reads (get_current_user E st now cred)"
  unfolding get_current_user_def thenP_def by (intro prog_keeps reads_repo(1))

lemma set_note_run [prog_simps]:
  "set_note i f d = (Inr (), d\<lparr>db_notes := update_where (\<lambda>n. n_id n = i) f (db_notes d)\<rparr>)"
  by (simp add: set_note_def prog_simps)

lemma db_ok_mark_all [prog_keeps]: "preserves db_ok (mark_all_read now u)"
  by (simp add: preserves_def mark_all_read_def db_ok_update_notes)

lemma db_ok_set_note: "(\<And>n. n_id (f n) = n_id n) \<Longrightarrow> (\<And>n. n_user_id (f n) = n_user_id n) \<Longrightarrow>
  preserves db_ok (set_note i f)"
  by (simp add: preserves_def prog_simps db_ok_update_notes)

lemma db_ok_mark_read [prog_keeps]: "preserves db_ok (mark_read now u i)"
  unfolding mark_read_def by (intro prog_keeps db_ok_set_note) simp_all

lemma db_ok_create_notification [prog_keeps]: "preserves db_ok (create_notification now i u t ti b oid)"
  unfolding create_notification_def Let_def by (intro prog_keeps)

lemma get_note_run:
  "notes_ok us (db_notes d) \<Longrightarrow> get_note_for_user i u d =
   (Inr (find (\<lambda>n. n_id n = i \<and> n_user_id n = u) (db_notes d)), d)"
  by (simp add: get_note_for_user_def select_one_def notes_ok_def scalar_unique)

definition unread :: "uuid \<Rightarrow> db \<Rightarrow> notification list" where
  "unread u d = filter (\<lambda>n. n_user_id n = u \<and> n_read_at n = None) (db_notes d)"

lemma filter_update_none: "(\<And>x. \<not> P (f x)) \<Longrightarrow> filter P (update_where P f xs) = []"
  by (induction xs) (auto simp: table_simps)

lemma unread_update_other:
  "(\<And>n. P n \<Longrightarrow> n_user_id n \<noteq> v) \<Longrightarrow> (\<And>n. n_user_id (f n) = n_user_id n) \<Longrightarrow>
   filter (\<lambda>n. n_user_id n = v \<and> n_read_at n = None) (update_where P f ns) =
   filter (\<lambda>n. n_user_id n = v \<and> n_read_at n = None) ns"
  by (induction ns) (auto simp: table_simps)

text \<open>Marking everything read reports how many messages were unread and leaves the user none;
  doing it again reports zero and changes nothing; no other user's messages are touched, and a
  message of another user cannot be marked read at all.\<close>

theorem mark_all_read_complete:
  assumes "db_ok d" "mark_all_read now u d = (Inr n, d')" "v \<noteq> u"
  shows "n = length (unread u d) \<and> unread u d' = [] \<and> mark_all_read now' u d' = (Inr 0, d') \<and>
    unread v d' = unread v d \<and>
    (\<forall>x \<in> set (db_notes d). n_user_id x = v \<longrightarrow>
      mark_read now u (n_id x) d = (Inl (err NotFoundError ''Notification not found.''), d))"
proof -
  have n: "n = length (unread u d)" and d': "d' = d\<lparr>db_notes := update_where
      (\<lambda>n. n_user_id n = u \<and> n_read_at n = None) (\<lambda>n. n\<lparr>n_read_at := Some now\<rparr>) (db_notes d)\<rparr>"
    using assms(2) by (simp_all add: mark_all_read_def unread_def)
  have none: "filter (\<lambda>n. n_user_id n = u \<and> n_read_at n = None) (db_notes d') = []"
    by (simp add: d' filter_update_none)
  moreover have "mark_all_read now' u d' = (Inr 0, d')"
    using none by (simp add: mark_all_read_def filter_empty_conv update_where_none)
  moreover have "unread v d' = unread v d"
    unfolding unread_def d' using assms(3) by (simp, intro unread_update_other) auto
  moreover have "mark_read now u (n_id x) d = (Inl (err NotFoundError ''Notification not found.''), d)"
    if "x \<in> set (db_notes d)" "n_user_id x = v" for x
  proof -
    have "find (\<lambda>n. n_id n = n_id x \<and> n_user_id n = u) (db_notes d) = None"
      using that assms(3) db_okD(13) [OF assms(1)]
      by (auto simp: find_None_iff notes_ok_def dest: unique_row)
    then show ?thesis
      by (simp add: mark_read_def get_note_run [OF db_okD(13) [OF assms(1)]] prog_simps)
  qed
  ultimately show ?thesis using n by (auto simp: unread_def)
qed

definition note_of :: "uuid \<Rightarrow> uuid \<Rightarrow> notification" where
  "note_of i u = \<lparr> n_id = i, n_user_id = u, n_organization_id = None, n_type = ''t'', n_title = ''x'', n_body = [],
     n_read_at = None, n_created_at = 0 \<rparr>"

theorem mark_all_read_complete_witness:
  "unread 1 (snd (mark_all_read 5 1 (auth_db\<lparr>db_notes := [note_of 3 1, note_of 4 1]\<rparr>))) = []"
proof -
  let ?d = "auth_db\<lparr>db_notes := [note_of 3 1, note_of 4 1]\<rparr>"
  have "db_ok ?d"
    using auth_db_ok(1) by (simp add: db_ok_def notes_ok_def note_of_def auth_db_def alice_def)
  moreover have "mark_all_read 5 1 ?d = (Inr 2, snd (mark_all_read 5 1 ?d))"
    by (simp add: mark_all_read_def note_of_def)
  ultimately show ?thesis using mark_all_read_complete [of ?d 5 1 2 _ 2 5] by simp
qed

end
