(* ===== verification/Slug.thy ===== *)
theory Slug
  imports Prelude
begin

text \<open>
  \<open>slugify\<close> and the \<open>_unique_slug\<close> loop, which \<open>services/organization.py\<close> and
  \<open>services/api_catalog.py\<close> share: a name becomes words of lower-case letters and digits joined by
  single hyphens, and the first of \<open>base\<close>, \<open>base-2\<close>, \<open>base-3\<close>, ... that no row has is taken. The
  search is total: a finite table cannot hold them all.
\<close>

definition is_slug_char :: "char \<Rightarrow> bool" where
  "is_slug_char c \<longleftrightarrow> is_lower_ascii c \<or> is_digit_ascii c"

text \<open>\<open>re.sub(r"[^a-z0-9]+", "-", s)\<close>: each maximal run of other characters becomes one hyphen.\<close>

function slug_strip_sub :: "string \<Rightarrow> string" where
  "slug_strip_sub [] = []"
| "slug_strip_sub (c # cs) =
     (if is_slug_char c then c # slug_strip_sub cs
      else CHR ''-'' # slug_strip_sub (dropWhile (\<lambda>c. \<not> is_slug_char c) cs))"
  by pat_completeness auto
termination
  by (relation "measure length") (auto simp: le_imp_less_Suc length_dropWhile_le)

definition slugify :: "string \<Rightarrow> string" where
  "slugify value =
     (let slug = strip_by (\<lambda>c. c = CHR ''-'') (slug_strip_sub (str_lower value)) in or_str slug ''org'')"

text \<open>The pattern of the schemas: \<open>^[a-z0-9]+(?:-[a-z0-9]+)*$\<close>.\<close>

definition slug_format :: "string \<Rightarrow> bool" where
  "slug_format s \<longleftrightarrow> (\<forall>w \<in> set (split_on CHR ''-'' s). w \<noteq> [] \<and> list_all is_slug_char w)"

definition with_suffix :: "string \<Rightarrow> nat \<Rightarrow> string" where
  "with_suffix base n = base @ ''-'' @ nat_str n"

definition suffixes_taken :: "string list \<Rightarrow> string \<Rightarrow> nat \<Rightarrow> nat set" where
  "suffixes_taken slugs base n = {k. n \<le> k \<and> with_suffix base k \<in> set slugs}"

lemma finite_suffixes_taken: "finite (suffixes_taken slugs base n)"
proof (rule finite_subset)
  show "suffixes_taken slugs base n \<subseteq> with_suffix base -` set slugs"
    by (auto simp: suffixes_taken_def)
  have "inj (with_suffix base)" by (auto simp: inj_def with_suffix_def dest: nat_str_inj)
  then show "finite (with_suffix base -` set slugs)" by (rule finite_vimageI [OF finite_set])
qed

lemma card_suffixes_taken:
  "card (suffixes_taken slugs base n) =
   (if with_suffix base n \<in> set slugs then 1 else 0) + card (suffixes_taken slugs base (Suc n))"
proof -
  have "suffixes_taken slugs base n =
      (if with_suffix base n \<in> set slugs then {n} else {}) \<union> suffixes_taken slugs base (Suc n)"
    by (auto simp: suffixes_taken_def Suc_le_eq le_less)
  moreover have "n \<notin> suffixes_taken slugs base (Suc n)" by (simp add: suffixes_taken_def)
  ultimately show ?thesis using finite_suffixes_taken [of slugs base "Suc n"] by simp
qed

text \<open>\<open>slugs\<close> are those in the table, \<open>slug\<close> the candidate, \<open>suffix\<close> the next number.\<close>

function slug_search :: "string list \<Rightarrow> string \<Rightarrow> nat \<Rightarrow> string \<Rightarrow> string" where
  "slug_search slugs base suffix slug =
     (if slug \<in> set slugs then slug_search slugs base (Suc suffix) (with_suffix base suffix) else slug)"
  by pat_completeness auto
termination
proof (relation "measure (\<lambda>(slugs, base, suffix, slug).
    2 * card (suffixes_taken slugs base suffix) + (if slug \<in> set slugs then 1 else 0))", goal_cases)
  case (2 slugs base suffix slug)
  then show ?case using card_suffixes_taken [of slugs base suffix] by simp
qed simp

declare slug_search.simps [simp del]

definition unique_slug_of :: "string list \<Rightarrow> string \<Rightarrow> string" where
  "unique_slug_of slugs desired = (let base = slugify desired in slug_search slugs base 2 base)"

section \<open>What they return\<close>

lemma slug_search_free: "slug_search slugs base n slug \<notin> set slugs"
  by (induction slugs base n slug rule: slug_search.induct) (subst slug_search.simps, simp)

text \<open>It is the candidate itself, or the first free numbered one.\<close>

lemma slug_search_first:
  "slug_search slugs base n slug = slug \<and> slug \<notin> set slugs \<or>
   slug \<in> set slugs \<and> (\<exists>k \<ge> n. slug_search slugs base n slug = with_suffix base k \<and>
     (\<forall>j. n \<le> j \<and> j < k \<longrightarrow> with_suffix base j \<in> set slugs))"
proof (induction slugs base n slug rule: slug_search.induct)
  case (1 slugs base n slug)
  show ?case
  proof (cases "slug \<in> set slugs")
    case False
    then show ?thesis by (subst slug_search.simps) simp
  next
    case True
    have step: "slug_search slugs base n slug = slug_search slugs base (Suc n) (with_suffix base n)"
      using True by (subst slug_search.simps) simp
    from "1.IH" [OF True] have "\<exists>k \<ge> n. slug_search slugs base (Suc n) (with_suffix base n) = with_suffix base k \<and>
        (\<forall>j. n \<le> j \<and> j < k \<longrightarrow> with_suffix base j \<in> set slugs)"
    proof
      assume "slug_search slugs base (Suc n) (with_suffix base n) = with_suffix base n \<and> with_suffix base n \<notin> set slugs"
      then show ?thesis by (intro exI [of _ n]) auto
    next
      assume "with_suffix base n \<in> set slugs \<and> (\<exists>k \<ge> Suc n.
          slug_search slugs base (Suc n) (with_suffix base n) = with_suffix base k \<and>
          (\<forall>j. Suc n \<le> j \<and> j < k \<longrightarrow> with_suffix base j \<in> set slugs))"
      then obtain k where "Suc n \<le> k" "slug_search slugs base (Suc n) (with_suffix base n) = with_suffix base k"
        "\<forall>j. Suc n \<le> j \<and> j < k \<longrightarrow> with_suffix base j \<in> set slugs" "with_suffix base n \<in> set slugs"
        by blast
      moreover have "with_suffix base j \<in> set slugs" if "n \<le> j" "j < k" for j
        using that calculation by (cases "j = n") auto
      ultimately show ?thesis by (intro exI [of _ k]) auto
    qed
    then show ?thesis using True step by simp
  qed
qed

section \<open>The slug's shape\<close>

lemma split_on_append:
  "split_on d (xs @ d # ys) = split_on d xs @ split_on d ys"
proof (induction xs)
  case (Cons x xs)
  moreover have "split_on d xs \<noteq> []" by (induction xs) (auto split: list.splits)
  ultimately show ?case by (cases "split_on d xs") auto
qed simp

lemma split_on_none: "d \<notin> set w \<Longrightarrow> split_on d w = [w]"
  by (induction w) auto

lemma slug_format_word: "w \<noteq> [] \<Longrightarrow> list_all is_slug_char w \<Longrightarrow> slug_format w"
proof -
  assume w: "w \<noteq> []" "list_all is_slug_char w"
  have "\<not> is_slug_char CHR ''-''" by (simp add: is_slug_char_def is_lower_ascii_def is_digit_ascii_def)
  then have "CHR ''-'' \<notin> set w" using w(2) by (auto simp: list_all_iff)
  then show ?thesis using w by (simp add: slug_format_def split_on_none)
qed

lemma slug_format_join:
  "slug_format a \<Longrightarrow> slug_format b \<Longrightarrow> slug_format (a @ CHR ''-'' # b)"
  by (auto simp: slug_format_def split_on_append)

lemma slug_format_suffix: "slug_format base \<Longrightarrow> slug_format (with_suffix base n)"
  unfolding with_suffix_def
  using slug_format_join [of base "nat_str n"] slug_format_word [of "nat_str n"] nat_str_nonempty [of n]
  by (auto simp: list_all_iff is_slug_char_def dest: nat_str_digits)

text \<open>Between its hyphens at the ends, the substituted string is slug words joined by single
  hyphens.\<close>

fun hyphens_single :: "string \<Rightarrow> bool" where
  "hyphens_single (c # c' # cs) \<longleftrightarrow> \<not> (c = CHR ''-'' \<and> c' = CHR ''-'') \<and> hyphens_single (c' # cs)"
| "hyphens_single _ \<longleftrightarrow> True"

definition slug_alphabet :: "string \<Rightarrow> bool" where
  "slug_alphabet s \<longleftrightarrow> (\<forall>c \<in> set s. is_slug_char c \<or> c = CHR ''-'')"

lemma hyphens_single_Cons: "hyphens_single (c # s) \<longleftrightarrow>
   hyphens_single s \<and> \<not> (c = CHR ''-'' \<and> (\<exists>s'. s = CHR ''-'' # s'))"
  by (cases s) auto

lemma sub_head: "slug_strip_sub (dropWhile (\<lambda>c. \<not> is_slug_char c) cs) \<noteq> CHR ''-'' # s"
proof (cases "dropWhile (\<lambda>c. \<not> is_slug_char c) cs")
  case Nil
  show ?thesis unfolding Nil by simp
next
  case (Cons a l)
  have "is_slug_char a" using Cons hd_dropWhile [of "\<lambda>c. \<not> is_slug_char c" cs] by simp
  moreover have "\<not> is_slug_char CHR ''-''"
    by (simp add: is_slug_char_def is_lower_ascii_def is_digit_ascii_def)
  ultimately show ?thesis unfolding Cons by auto
qed

lemma sub_shape: "slug_alphabet (slug_strip_sub s) \<and> hyphens_single (slug_strip_sub s)"
proof (induction s rule: slug_strip_sub.induct)
  case (2 c cs)
  have h: "\<not> is_slug_char CHR ''-''" by (simp add: is_slug_char_def is_lower_ascii_def is_digit_ascii_def)
  show ?case
    using 2 h sub_head [of cs] by (auto simp: slug_alphabet_def hyphens_single_Cons)
qed (simp add: slug_alphabet_def)

lemma hyphens_single_append: "hyphens_single (xs @ ys) \<Longrightarrow> hyphens_single xs \<and> hyphens_single ys"
  by (induction xs rule: hyphens_single.induct) (auto simp: hyphens_single_Cons)

lemma slug_format_of_shape:
  "slug_alphabet s \<Longrightarrow> hyphens_single s \<Longrightarrow> s \<noteq> [] \<Longrightarrow> hd s \<noteq> CHR ''-'' \<Longrightarrow> last s \<noteq> CHR ''-'' \<Longrightarrow> slug_format s"
proof (induction "length s" arbitrary: s rule: less_induct)
  case less
  let ?w = "takeWhile (\<lambda>c. c \<noteq> CHR ''-'') s" and ?r = "dropWhile (\<lambda>c. c \<noteq> CHR ''-'') s"
  have w: "?w \<noteq> []" using less.prems(3,4) by (cases s) auto
  have all: "list_all is_slug_char ?w"
    using less.prems(1) set_takeWhileD by (fastforce simp: list_all_iff slug_alphabet_def)
  show ?case
  proof (cases ?r)
    case Nil
    then have "s = ?w" by (metis append_Nil2 takeWhile_dropWhile_id)
    then show ?thesis using slug_format_word [OF w all] by simp
  next
    case (Cons c r)
    have c: "c = CHR ''-''" using Cons hd_dropWhile [of "\<lambda>c. c \<noteq> CHR ''-''" s] by simp
    have s: "s = ?w @ CHR ''-'' # r" using Cons c by (metis takeWhile_dropWhile_id)
    have r: "r \<noteq> []" using less.prems(5) s by (metis append_is_Nil_conv last_snoc)
    have "hyphens_single (CHR ''-'' # r)" using less.prems(2) s hyphens_single_append by metis
    then have "hd r \<noteq> CHR ''-''" "hyphens_single r" using r by (cases r; simp)+
    moreover have "slug_alphabet r" using less.prems(1) s unfolding slug_alphabet_def
      by (metis Un_iff list.set_intros(2) set_append)
    moreover have "last r \<noteq> CHR ''-''" using less.prems(5) s r by (metis last_ConsR last_appendR list.distinct(1))
    moreover have "length r < length s" using s by (metis add.commute length_append length_Cons less_add_Suc1 add_Suc_right)
    ultimately have "slug_format r" using less.hyps r by blast
    then show ?thesis using slug_format_join [OF slug_format_word [OF w all]] s by metis
  qed
qed

lemma slugify_format: "slug_format (slugify value)"
proof -
  let ?h = "\<lambda>c. c = CHR ''-''" and ?s = "slug_strip_sub (str_lower value)"
  let ?t = "strip_by ?h ?s"
  show ?thesis
  proof (cases "?t = []")
    case True
    have "slug_format ''org''"
      by (rule slug_format_word) (simp_all add: is_slug_char_def is_lower_ascii_def)
    then show ?thesis using True by (simp add: slugify_def or_str_def)
  next
    case False
    define u where "u = lstrip_by ?h ?s"
    have t: "?t = rstrip_by ?h u" by (simp add: strip_by_def u_def)
    have "?s = takeWhile ?h ?s @ u" by (simp add: u_def lstrip_by_def)
    moreover have "u = rev (dropWhile ?h (rev u)) @ rev (takeWhile ?h (rev u))"
      by (metis rev_append rev_rev_ident takeWhile_dropWhile_id)
    ultimately obtain a b where s: "?s = a @ ?t @ b" unfolding t rstrip_by_def by metis
    have shape: "slug_alphabet ?t" "hyphens_single ?t"
      using sub_shape [of "str_lower value"] s hyphens_single_append
      by (metis Un_iff set_append slug_alphabet_def, metis)
    have "last ?t \<noteq> CHR ''-''" using rstrip_by_last [of ?h u] False t by simp
    moreover have "hd ?t \<noteq> CHR ''-''"
    proof -
      have "\<exists>b. u = ?t @ b" unfolding t rstrip_by_def by (metis rev_append rev_rev_ident takeWhile_dropWhile_id)
      then have "hd ?t = hd u" "u \<noteq> []" using False by auto
      then show ?thesis using hd_dropWhile [of ?h ?s] by (simp add: u_def lstrip_by_def)
    qed
    ultimately have "slug_format ?t" using slug_format_of_shape [OF shape False] by blast
    then show ?thesis using False by (simp add: slugify_def or_str_def)
  qed
qed

text \<open>C35: the slug an organization or API gets is always of the documented form (lower-case words
  and digits joined by single hyphens), is free in the table, and is the name's own slug or that
  slug with the smallest free number from 2 on; the search always ends.\<close>

theorem unique_slug_correct:
  "slug_format (unique_slug_of slugs desired) \<and> unique_slug_of slugs desired \<notin> set slugs \<and>
   (unique_slug_of slugs desired = slugify desired \<or>
    (\<exists>k \<ge> 2. unique_slug_of slugs desired = with_suffix (slugify desired) k \<and> slugify desired \<in> set slugs \<and>
      {with_suffix (slugify desired) j | j. 2 \<le> j \<and> j < k} \<subseteq> set slugs))"
  using slug_search_first [of slugs "slugify desired" 2 "slugify desired"]
    slug_search_free [of slugs "slugify desired" 2 "slugify desired"] slugify_format [of desired] slug_format_suffix
  unfolding unique_slug_of_def Let_def by (fastforce simp del: One_nat_def)

end
