(* ===== verification/Organization.thy ===== *)
theory Organization
  imports Notifications Slug
begin

text \<open>
  \<open>services/organization.py\<close>, \<open>repositories/organization.py\<close>, \<open>require_permission\<close> of
  \<open>api/deps.py\<close> and \<open>api/organizations.py\<close>: organizations, memberships with one role each, and the
  check every endpoint below an organization starts with. A membership's role row always exists
  (foreign key), so the name read through it is \<open>role_name_of\<close>.
\<close>

section \<open>Repositories\<close>

definition get_by_slug :: "string \<Rightarrow> organization option dbprog" where
  "get_by_slug slug = select_one db_orgs (\<lambda>r. o_slug r = slug)"

text \<open>The join yields an organization once per matching membership.\<close>

definition orgs_of_user :: "uuid \<Rightarrow> db \<Rightarrow> organization list" where
  "orgs_of_user uid d = concat (map (\<lambda>r. map (\<lambda>_. r)
     (filter (\<lambda>m. m_organization_id m = o_id r \<and> m_user_id m = uid) (db_members d))) (db_orgs d))"

definition list_orgs_for_user :: "uuid \<Rightarrow> nat \<Rightarrow> nat \<Rightarrow> (organization list \<times> nat) dbprog" where
  "list_orgs_for_user uid lmt off = gets (\<lambda>d.
     (page lmt off (order_desc o_created_at (orgs_of_user uid d)), length (orgs_of_user uid d)))"

definition get_by_name :: "string \<Rightarrow> role option dbprog" where
  "get_by_name nm = select_one db_roles (\<lambda>r. r_name r = nm)"

definition get_for_user_and_org :: "uuid \<Rightarrow> uuid \<Rightarrow> organization_member option dbprog" where
  "get_for_user_and_org uid oid =
     select_one db_members (\<lambda>m. m_user_id m = uid \<and> m_organization_id m = oid)"

definition list_members :: "uuid \<Rightarrow> organization_member list dbprog" where
  "list_members oid = gets (\<lambda>d. sort_key m_created_at (filter (\<lambda>m. m_organization_id m = oid) (db_members d)))"

definition count_with_role :: "uuid \<Rightarrow> uuid \<Rightarrow> nat dbprog" where
  "count_with_role oid rid = gets (\<lambda>d.
     length (filter (\<lambda>m. m_organization_id m = oid \<and> m_role_id m = rid) (db_members d)))"

section \<open>The service\<close>

definition role_id_of :: "role_name \<Rightarrow> uuid dbprog" where
  "role_id_of r = bindP (get_by_name (role_code r)) (\<lambda>row. case row of
     None \<Rightarrow> raise (err NotFoundError (''Role '' @ [CHR 39] @ role_code r @ [CHR 39] @ '' is not configured.''))
   | Some row \<Rightarrow> ret (r_id row))"

definition unique_org_slug :: "string \<Rightarrow> string dbprog" where
  "unique_org_slug desired = gets (\<lambda>d. unique_slug_of (map o_slug (db_orgs d)) desired)"

definition slug_or_name :: "string option \<Rightarrow> string \<Rightarrow> string" where
  "slug_or_name slug name = (case slug of Some s \<Rightarrow> or_str s name | None \<Rightarrow> name)"

definition slug_conflict :: "string option \<Rightarrow> unit dbprog" where
  "slug_conflict slug = (case slug of
     None \<Rightarrow> ret ()
   | Some s \<Rightarrow> bindP (get_by_slug s) (\<lambda>r. raise_if (r \<noteq> None)
       (err ConflictError ''An organization with this slug already exists.'')))"

definition create_organization ::
  "instant \<Rightarrow> uuid \<Rightarrow> uuid \<Rightarrow> user \<Rightarrow> string \<Rightarrow> string option \<Rightarrow> organization dbprog" where
  "create_organization now oid mid owner name slug =
     thenP (slug_conflict slug)
     (bindP (unique_org_slug (slug_or_name slug name)) (\<lambda>s.
      let org = \<lparr> o_id = oid, o_name = name, o_slug = s, o_created_at = now \<rparr>
      in thenP (add_org org)
         (bindP (role_id_of OWNER) (\<lambda>rid.
          thenP (add_member \<lparr> m_id = mid, m_organization_id = oid, m_user_id = u_id owner,
                   m_role_id = rid, m_created_at = now \<rparr>)
          (ret org)))))"

definition get_organization :: "uuid \<Rightarrow> organization dbprog" where
  "get_organization oid = bindP (repo_get db_orgs o_id oid) (\<lambda>r. case r of
     None \<Rightarrow> raise (err NotFoundError ''Organization not found.'') | Some r \<Rightarrow> ret r)"

definition update_organization :: "uuid \<Rightarrow> string \<Rightarrow> organization dbprog" where
  "update_organization oid name = bindP (get_organization oid) (\<lambda>r.
     thenP (modifyP (\<lambda>d. d\<lparr>db_orgs := update_where (\<lambda>x. o_id x = o_id r) (\<lambda>x. x\<lparr>o_name := name\<rparr>) (db_orgs d)\<rparr>))
     (ret (r\<lparr>o_name := name\<rparr>)))"

definition delete_organization :: "uuid \<Rightarrow> unit dbprog" where
  "delete_organization oid = bindP (get_organization oid) (\<lambda>r. modifyP (delete_org_row (o_id r)))"

definition add_member_to_org ::
  "instant \<Rightarrow> uuid \<Rightarrow> uuid \<Rightarrow> string \<Rightarrow> role_name \<Rightarrow> organization_member dbprog" where
  "add_member_to_org now mid oid email role =
     bindP (get_by_email (str_lower email)) (\<lambda>u. case u of
       None \<Rightarrow> raise (err NotFoundError ''No registered user with that email.'')
     | Some u \<Rightarrow> bindP (get_for_user_and_org (u_id u) oid) (\<lambda>existing.
         thenP (raise_if (existing \<noteq> None) (err ConflictError ''User is already a member of this organization.''))
         (bindP (role_id_of role) (\<lambda>rid.
          let m = \<lparr> m_id = mid, m_organization_id = oid, m_user_id = u_id u, m_role_id = rid,
                    m_created_at = now \<rparr>
          in thenP (add_member m) (ret m)))))"

definition get_member :: "uuid \<Rightarrow> uuid \<Rightarrow> organization_member dbprog" where
  "get_member oid mid = bindP (repo_get db_members m_id mid) (\<lambda>m. case m of
     None \<Rightarrow> raise (err NotFoundError ''Member not found in this organization.'')
   | Some m \<Rightarrow> if m_organization_id m \<noteq> oid
       then raise (err NotFoundError ''Member not found in this organization.'') else ret m)"

definition set_member_role :: "uuid \<Rightarrow> uuid \<Rightarrow> unit dbprog" where
  "set_member_role mid rid = modifyP (\<lambda>d. d\<lparr>db_members :=
     update_where (\<lambda>m. m_id m = mid) (\<lambda>m. m\<lparr>m_role_id := rid\<rparr>) (db_members d)\<rparr>)"

definition update_member_role :: "uuid \<Rightarrow> uuid \<Rightarrow> role_name \<Rightarrow> organization_member dbprog" where
  "update_member_role oid mid role =
     bindP (get_member oid mid) (\<lambda>m.
     bindP (role_id_of OWNER) (\<lambda>owner_rid.
     thenP (if m_role_id m = owner_rid \<and> role \<noteq> OWNER
            then bindP (count_with_role oid owner_rid) (\<lambda>owners. raise_if (owners \<le> 1)
              (err ValidationAppError ''Cannot demote the last owner of the organization.''))
            else ret ())
     (bindP (role_id_of role) (\<lambda>rid.
      thenP (set_member_role (m_id m) rid) (ret (m\<lparr>m_role_id := rid\<rparr>))))))"

definition delete_member_row :: "uuid \<Rightarrow> unit dbprog" where
  "delete_member_row mid = modifyP (\<lambda>d. d\<lparr>db_members := delete_where (\<lambda>m. m_id m = mid) (db_members d)\<rparr>)"

definition remove_member :: "uuid \<Rightarrow> uuid \<Rightarrow> unit dbprog" where
  "remove_member oid mid =
     bindP (get_member oid mid) (\<lambda>m.
     bindP (role_id_of OWNER) (\<lambda>owner_rid.
     thenP (if m_role_id m = owner_rid
            then bindP (count_with_role oid owner_rid) (\<lambda>owners. raise_if (owners \<le> 1)
              (err ValidationAppError ''Cannot remove the last owner of the organization.''))
            else ret ())
     (delete_member_row (m_id m))))"

section \<open>Authorization\<close>

text \<open>\<open>RoleName(member.role.name)\<close> raises \<open>ValueError\<close> on a name that is no built-in role.\<close>

definition require_permission :: "permission \<Rightarrow> uuid \<Rightarrow> user \<Rightarrow> organization_member dbprog" where
  "require_permission perm oid u =
     bindP (get_for_user_and_org (u_id u) oid) (\<lambda>m. case m of
       None \<Rightarrow> if u_is_superuser u
         then raise (err PermissionDeniedError ''Superuser access to organizations requires membership.'')
         else raise (err PermissionDeniedError ''You are not a member of this organization.'')
     | Some m \<Rightarrow> bindP (gets (\<lambda>d. role_name_of d (m_role_id m))) (\<lambda>nm. case role_of_code nm of
         None \<Rightarrow> raise (PyExc ''ValueError'')
       | Some r \<Rightarrow> if role_has_permission r perm then ret m
           else raise (err PermissionDeniedError (''Your role '' @ [CHR 39] @ nm @ [CHR 39] @ '' lacks the '' @
             [CHR 39] @ perm_code perm @ [CHR 39] @ '' permission.''))))"

text \<open>An endpoint below \<open>/organizations/{org_id}\<close>: the session, the caller, the permission, then its
  body.\<close>

definition authorized ::
  "env \<Rightarrow> settings \<Rightarrow> instant \<Rightarrow> string option \<Rightarrow> permission \<Rightarrow> uuid \<Rightarrow> (user \<Rightarrow> 'a dbprog) \<Rightarrow> 'a dbprog" where
  "authorized E st now cred perm oid body = session_scope
     (bindP (get_current_user E st now cred) (\<lambda>u.
      bindP (require_permission perm oid u) (\<lambda>_. body u)))"

section \<open>Endpoints\<close>

definition create_organization_endpoint where
  "create_organization_endpoint E st now cred oid mid name slug = session_scope
     (bindP (get_current_user E st now cred) (\<lambda>u. create_organization now oid mid u name slug))"

definition list_organizations_endpoint where
  "list_organizations_endpoint E st now cred lmt off = session_scope
     (bindP (get_current_user E st now cred) (\<lambda>u. list_orgs_for_user (u_id u) lmt off))"

definition get_organization_endpoint where
  "get_organization_endpoint E st now cred oid =
     authorized E st now cred ORG_READ oid (\<lambda>_. get_organization oid)"

definition update_organization_endpoint where
  "update_organization_endpoint E st now cred oid name =
     authorized E st now cred ORG_UPDATE oid (\<lambda>_. update_organization oid name)"

definition delete_organization_endpoint where
  "delete_organization_endpoint E st now cred oid =
     authorized E st now cred ORG_DELETE oid (\<lambda>_. delete_organization oid)"

definition list_members_endpoint where
  "list_members_endpoint E st now cred oid =
     authorized E st now cred MEMBER_READ oid (\<lambda>_. list_members oid)"

definition add_member_endpoint where
  "add_member_endpoint E st now cred oid mid nid email role =
     authorized E st now cred MEMBER_INVITE oid (\<lambda>_.
       bindP (add_member_to_org now mid oid email role) (\<lambda>m.
       bindP (gets (\<lambda>d. role_name_of d (m_role_id m))) (\<lambda>nm.
       thenP (create_notification now nid (m_user_id m) ''member.added'' ''You were added to an organization''
                (''You now have the '' @ [CHR 39] @ nm @ [CHR 39] @ '' role.'') (Some oid))
       (ret m))))"

definition update_member_role_endpoint where
  "update_member_role_endpoint E st now cred oid mid role =
     authorized E st now cred MEMBER_UPDATE_ROLE oid (\<lambda>_. update_member_role oid mid role)"

definition remove_member_endpoint where
  "remove_member_endpoint E st now cred oid mid =
     authorized E st now cred MEMBER_REMOVE oid (\<lambda>_. remove_member oid mid)"

lemmas org_service_defs =
  create_organization_def get_organization_def update_organization_def delete_organization_def
  add_member_to_org_def get_member_def update_member_role_def remove_member_def

section \<open>The constraints survive\<close>

lemma reads_org [prog_keeps]:
  "reads (get_by_slug s)" "reads (list_orgs_for_user i l off)" "reads (get_by_name n)"
  "reads (get_for_user_and_org i j)" "reads (list_members i)" "reads (count_with_role i j)"
  "reads (unique_org_slug s)"
  by (simp_all add: get_by_slug_def list_orgs_for_user_def get_by_name_def get_for_user_and_org_def
      list_members_def count_with_role_def unique_org_slug_def reads_select_one prog_keeps)

lemma reads_role_id_of [prog_keeps]: "reads (role_id_of r)"
  unfolding role_id_of_def by (intro prog_keeps)

lemma reads_get_member [prog_keeps]: "reads (get_member oid mid)"
  unfolding get_member_def by (intro prog_keeps reads_repo(1))

lemma reads_require_permission [prog_keeps]: "reads (require_permission perm oid u)"
  unfolding require_permission_def by (intro prog_keeps)

lemma reads_get_organization [prog_keeps]: "reads (get_organization oid)"
  unfolding get_organization_def by (intro prog_keeps reads_repo(1))

lemma db_ok_role_id_of [prog_keeps]: "preserves db_ok (role_id_of r)"
  by (intro reads_preserves reads_role_id_of)

lemma preserves_slug_conflict [prog_keeps]: "preserves P (slug_conflict slug)"
  unfolding slug_conflict_def by (intro prog_keeps)

lemma db_ok_create_organization [prog_keeps]: "preserves db_ok (create_organization now oid mid u name slug)"
  unfolding create_organization_def Let_def by (intro prog_keeps)

lemma db_ok_update_organization [prog_keeps]: "preserves db_ok (update_organization oid name)"
  unfolding update_organization_def
  by (intro prog_keeps preserves_modifyP) (auto intro: db_ok_update_orgs)

lemma db_ok_delete_organization [prog_keeps]: "preserves db_ok (delete_organization oid)"
  unfolding delete_organization_def
  by (intro prog_keeps preserves_modifyP) (rule db_ok_delete_org)

lemma db_ok_add_member_to_org [prog_keeps]: "preserves db_ok (add_member_to_org now mid oid e r)"
  unfolding add_member_to_org_def Let_def by (intro prog_keeps)

lemma db_ok_delete_member [prog_keeps]: "preserves db_ok (delete_member_row mid)"
  unfolding delete_member_row_def
  by (rule preserves_modifyP) (simp add: db_ok_def members_ok_def distinct_delete_where fk_delete)

lemma db_ok_remove_member [prog_keeps]: "preserves db_ok (remove_member oid mid)"
  unfolding remove_member_def by (intro prog_keeps)

lemma get_by_name_run: "roles_ok ps (db_roles d) \<Longrightarrow>
  get_by_name nm d = (Inr (find (\<lambda>r. r_name r = nm) (db_roles d)), d)"
  by (simp add: get_by_name_def select_one_def roles_ok_def scalar_unique1)

lemma role_id_of_run:
  assumes "db_ok d" "role_id_of r d = (Inr rid, d')"
  shows "d' = d" "\<exists>row. find (\<lambda>x. r_name x = role_code r) (db_roles d) = Some row \<and> rid = r_id row"
  using assms(2) by (auto simp: role_id_of_def get_by_name_run [OF db_okD(3) [OF assms(1)]] prog_simps
      split: option.splits)

lemma db_ok_set_member_role:
  assumes "db_ok d" "rid \<in> r_id ` set (db_roles d)"
  shows "db_ok (snd (set_member_role mid rid d))"
proof -
  let ?ms = "update_where (\<lambda>m. m_id m = mid) (\<lambda>m. m\<lparr>m_role_id := rid\<rparr>) (db_members d)"
  have "m_organization_id ` set ?ms = m_organization_id ` set (db_members d)"
    "m_user_id ` set ?ms = m_user_id ` set (db_members d)"
    by (simp_all add: image_update_where)
  moreover have "m_role_id ` set ?ms \<subseteq> r_id ` set (db_roles d)"
  proof
    fix x
    assume "x \<in> m_role_id ` set ?ms"
    then obtain m where m: "m \<in> set (db_members d)" "x = (if m_id m = mid then rid else m_role_id m)"
      by (auto simp: in_update_where)
    have "m_role_id m \<in> r_id ` set (db_roles d)"
      using m(1) db_okD(5) [OF assms(1)] by (auto simp: members_ok_def)
    then show "x \<in> r_id ` set (db_roles d)" using m(2) assms(2) by simp
  qed
  ultimately show ?thesis
    using assms(1) by (simp add: set_member_role_def prog_simps db_ok_def members_ok_def map_update_where)
qed

lemma get_member_run:
  "get_member oid mid d = (Inr m, d') \<Longrightarrow>
   d' = d \<and> find (\<lambda>x. m_id x = mid) (db_members d) = Some m \<and> m_organization_id m = oid"
  by (auto simp: get_member_def prog_simps split: option.splits if_splits)

section \<open>Owners\<close>

definition has_owner :: "db \<Rightarrow> uuid \<Rightarrow> bool" where
  "has_owner d oid \<longleftrightarrow> (\<exists>m \<in> set (db_members d). m_organization_id m = oid \<and>
     role_name_of d (m_role_id m) = role_code OWNER)"

definition every_org_owned :: "db \<Rightarrow> bool" where
  "every_org_owned d \<longleftrightarrow> (\<forall>r \<in> set (db_orgs d). has_owner d (o_id r))"

lemma role_name_owner:
  assumes "db_ok d" "find (\<lambda>x. r_name x = role_code OWNER) (db_roles d) = Some row"
  shows "role_name_of d rid = role_code OWNER \<longleftrightarrow> rid = r_id row"
proof -
  have row: "row \<in> set (db_roles d)" "r_name row = role_code OWNER" using find_SomeD [OF assms(2)] by auto
  have d: "distinct (map r_id (db_roles d))" "distinct (map r_name (db_roles d))"
    using db_okD(3) [OF assms(1)] by (simp_all add: roles_ok_def)
  show ?thesis
  proof
    assume "rid = r_id row"
    then have "find (\<lambda>r. r_id r = rid) (db_roles d) = Some row"
      using find_Some_iff_unique [OF d(1) row(1)] by simp
    then show "role_name_of d rid = role_code OWNER" using row(2) by (simp add: role_name_of_def)
  next
    assume "role_name_of d rid = role_code OWNER"
    then obtain r where r: "find (\<lambda>r. r_id r = rid) (db_roles d) = Some r" "r_name r = role_code OWNER"
      by (auto simp: role_name_of_def split: option.splits)
    then have "r = row" using unique_row [OF d(2)] row find_SomeD [OF r(1)] by simp
    then show "rid = r_id row" using find_SomeD [OF r(1)] by simp
  qed
qed

lemma two_in_filter:
  assumes "\<not> length (filter P xs) \<le> 1" "distinct (map k xs)"
  shows "\<exists>y \<in> set xs. P y \<and> k y \<noteq> v"
proof (rule ccontr)
  assume none: "\<not> ?thesis"
  then have "filter P xs = filter (\<lambda>x. k x = v \<and> P x) xs" by (intro filter_cong) auto
  then show False using assms(1) filter_unique_le1 [OF assms(2), of v P] by simp
qed

text \<open>Removing or demoting one member leaves every organization an owner.\<close>

lemma owner_left:
  assumes "db_ok d" "has_owner d oid" "find (\<lambda>x. r_name x = role_code OWNER) (db_roles d) = Some row"
    and "m \<in> set (db_members d)"
    and "m_organization_id m = oid \<Longrightarrow> m_role_id m = r_id row \<Longrightarrow>
      \<not> length (filter (\<lambda>m. m_organization_id m = oid \<and> m_role_id m = r_id row) (db_members d)) \<le> 1"
  shows "\<exists>m' \<in> set (db_members d). m_organization_id m' = oid \<and> m_role_id m' = r_id row \<and> m_id m' \<noteq> m_id m"
proof -
  have ids: "distinct (map m_id (db_members d))" using db_okD(5) [OF assms(1)] by (simp add: members_ok_def)
  obtain o' where o': "o' \<in> set (db_members d)" "m_organization_id o' = oid" "m_role_id o' = r_id row"
    using assms(2) role_name_owner [OF assms(1,3)] by (auto simp: has_owner_def)
  show ?thesis
  proof (cases "m_id o' = m_id m")
    case True
    then have "o' = m" using unique_row [OF ids o'(1) assms(4)] by simp
    then show ?thesis using two_in_filter [OF assms(5) ids, of "m_id m"] o' by auto
  next
    case False
    then show ?thesis using o' by blast
  qed
qed

lemma has_owner_members:
  assumes "db_roles d' = db_roles d"
  shows "has_owner d' oid \<longleftrightarrow> (\<exists>m \<in> set (db_members d'). m_organization_id m = oid \<and>
    role_name_of d (m_role_id m) = role_code OWNER)"
  using assms by (simp add: has_owner_def role_name_of_def)

lemma owned_remove_member:
  assumes "db_ok d" "every_org_owned d" "remove_member oid mid d = (Inr (), d')"
  shows "every_org_owned d'"
proof -
  obtain m where m: "find (\<lambda>x. m_id x = mid) (db_members d) = Some m" "m_organization_id m = oid"
    and get: "get_member oid mid d = (Inr m, d)" and rid0: "fst (role_id_of OWNER d) \<in> range Inr"
  proof -
    obtain g dg where g: "get_member oid mid d = (g, dg)" by fastforce
    then obtain m where "g = Inr m" using assms(3) by (cases g) (simp_all add: remove_member_def prog_simps)
    then have m: "get_member oid mid d = (Inr m, d)"
        "find (\<lambda>x. m_id x = mid) (db_members d) = Some m" "m_organization_id m = oid"
      using g get_member_run [of oid mid d m dg] by auto
    obtain q dq where q: "role_id_of OWNER d = (q, dq)" by fastforce
    then have "q \<in> range Inr" using assms(3) m(1) by (cases q) (simp_all add: remove_member_def prog_simps)
    then show thesis using that m q by simp
  qed
  obtain rid where rid: "role_id_of OWNER d = (Inr rid, d)"
    using rid0 role_id_of_run(1) [OF assms(1), of OWNER] by (cases "role_id_of OWNER d") auto
  obtain row where row: "find (\<lambda>x. r_name x = role_code OWNER) (db_roles d) = Some row" "rid = r_id row"
    using role_id_of_run(2) [OF assms(1) rid] by blast
  have d': "d' = d\<lparr>db_members := delete_where (\<lambda>x. m_id x = m_id m) (db_members d)\<rparr>"
    and count: "m_role_id m = rid \<Longrightarrow>
      \<not> length (filter (\<lambda>m. m_organization_id m = oid \<and> m_role_id m = rid) (db_members d)) \<le> 1"
    using assms(3) get rid
    by (auto simp: remove_member_def prog_simps delete_member_row_def count_with_role_def split: if_splits)
  show ?thesis
    unfolding every_org_owned_def
  proof
    fix r
    assume "r \<in> set (db_orgs d')"
    then have "has_owner d (o_id r)" using assms(2) d' by (simp add: every_org_owned_def)
    note own = this
    have mem: "m \<in> set (db_members d)" using find_SomeD [OF m(1)] by simp
    have "\<exists>m' \<in> set (db_members d). m_organization_id m' = o_id r \<and> m_role_id m' = r_id row \<and> m_id m' \<noteq> m_id m"
      by (rule owner_left [OF assms(1) own row(1) mem]) (use count m(2) row(2) in simp)
    then obtain m' where "m' \<in> set (db_members d)" "m_organization_id m' = o_id r" "m_role_id m' = r_id row" "m_id m' \<noteq> m_id m"
      by blast
    then show "has_owner d' (o_id r)"
      using role_name_owner [OF assms(1) row(1)]
      by (subst has_owner_members [of d' d]) (auto simp: d' table_simps)
  qed
qed

lemma owned_update_role:
  assumes "db_ok d" "every_org_owned d" "update_member_role oid mid role d = (Inr x, d')"
  shows "every_org_owned d' \<and> db_ok d'"
proof -
  obtain m where m: "find (\<lambda>x. m_id x = mid) (db_members d) = Some m" "m_organization_id m = oid"
    and get: "get_member oid mid d = (Inr m, d)" and rid0: "fst (role_id_of OWNER d) \<in> range Inr"
  proof -
    obtain g dg where g: "get_member oid mid d = (g, dg)" by fastforce
    then obtain m where "g = Inr m" using assms(3) by (cases g) (simp_all add: update_member_role_def prog_simps)
    then have m: "get_member oid mid d = (Inr m, d)"
        "find (\<lambda>x. m_id x = mid) (db_members d) = Some m" "m_organization_id m = oid"
      using g get_member_run [of oid mid d m dg] by auto
    obtain q dq where q: "role_id_of OWNER d = (q, dq)" by fastforce
    then have "q \<in> range Inr" using assms(3) m(1) by (cases q) (simp_all add: update_member_role_def prog_simps)
    then show thesis using that m q by simp
  qed
  obtain rid where rid: "role_id_of OWNER d = (Inr rid, d)"
    using rid0 role_id_of_run(1) [OF assms(1), of OWNER] by (cases "role_id_of OWNER d") auto
  obtain row where row: "find (\<lambda>x. r_name x = role_code OWNER) (db_roles d) = Some row" "rid = r_id row"
    using role_id_of_run(2) [OF assms(1) rid] by blast
  obtain new d2 where new: "role_id_of role d = (Inr new, d2)"
    using assms(3) get rid
    by (auto simp: update_member_role_def prog_simps count_with_role_def split: if_splits prod.splits sum.splits)
  then have d2: "d2 = d" using role_id_of_run(1) [OF assms(1)] by blast
  obtain nrow where nrow: "find (\<lambda>x. r_name x = role_code role) (db_roles d) = Some nrow" "new = r_id nrow"
    using role_id_of_run(2) [OF assms(1) new] by blast
  have d': "d' = snd (set_member_role (m_id m) new d)"
    and count: "m_role_id m = rid \<Longrightarrow> role \<noteq> OWNER \<Longrightarrow>
      \<not> length (filter (\<lambda>m. m_organization_id m = oid \<and> m_role_id m = rid) (db_members d)) \<le> 1"
    using assms(3) get rid new d2
    by (auto simp: update_member_role_def prog_simps count_with_role_def set_member_role_def split: if_splits)
  have "db_ok d'" unfolding d' using nrow find_SomeD [OF nrow(1)] by (intro db_ok_set_member_role assms(1)) auto
  moreover have "has_owner d' (o_id r)" if "r \<in> set (db_orgs d')" for r
  proof -
    have own: "has_owner d (o_id r)" using that assms(2) by (simp add: every_org_owned_def d' set_member_role_def prog_simps)
    have "\<exists>m' \<in> set (db_members d). m_organization_id m' = o_id r \<and> m_role_id m' = r_id row \<and>
        (m_id m' \<noteq> m_id m \<or> role = OWNER)"
    proof (cases "role = OWNER")
      case True
      then show ?thesis using own role_name_owner [OF assms(1) row(1)] by (auto simp: has_owner_def)
    next
      case False
      have mem: "m \<in> set (db_members d)" using find_SomeD [OF m(1)] by simp
      have "\<exists>m' \<in> set (db_members d). m_organization_id m' = o_id r \<and> m_role_id m' = r_id row \<and> m_id m' \<noteq> m_id m"
        by (rule owner_left [OF assms(1) own row(1) mem]) (use count [OF _ False] m(2) row(2) in simp)
      then show ?thesis by blast
    qed
    then obtain m' where m': "m' \<in> set (db_members d)" "m_organization_id m' = o_id r" "m_role_id m' = r_id row"
        "m_id m' \<noteq> m_id m \<or> new = r_id row"
      using nrow row by auto
    let ?m = "if m_id m' = m_id m then m'\<lparr>m_role_id := new\<rparr> else m'"
    have "?m \<in> set (db_members d')" using m'(1) by (auto simp: d' set_member_role_def prog_simps in_update_where)
    moreover have "m_organization_id ?m = o_id r" "m_role_id ?m = r_id row" using m' by auto
    ultimately show ?thesis
      using role_name_owner [OF assms(1) row(1)] has_owner_members [of d' d "o_id r"]
      by (auto simp: d' set_member_role_def prog_simps)
  qed
  ultimately show ?thesis by (simp add: every_org_owned_def)
qed

lemma owned_grow:
  assumes "every_org_owned d" "db_orgs d' = db_orgs d" "db_roles d' = db_roles d"
    and "set (db_members d) \<subseteq> set (db_members d')"
  shows "every_org_owned d'"
  using assms has_owner_members [OF assms(3)] unfolding every_org_owned_def has_owner_def by (metis subsetD)

lemma owned_create:
  assumes "db_ok d" "every_org_owned d" "create_organization now oid mid u name slug d = (Inr x, d')"
  shows "every_org_owned d'"
proof -
  have same: "snd (slug_conflict slug d) = d"
    using preservesD [OF preserves_slug_conflict, of "\<lambda>x. x = d" d] by simp
  obtain rid org d1 where d1: "d1 = d\<lparr>db_orgs := db_orgs d @ [org]\<rparr>" "o_id org = oid" "role_id_of OWNER d1 = (Inr rid, d1)"
    and d': "d' = d1\<lparr>db_members := db_members d @ [\<lparr>m_id = mid, m_organization_id = oid, m_user_id = u_id u,
        m_role_id = rid, m_created_at = now\<rparr>]\<rparr>" and ok1: "db_ok d1"
  proof -
    let ?s = "unique_slug_of (map o_slug (db_orgs d)) (slug_or_name slug name)"
    let ?org = "\<lparr>o_id = oid, o_name = name, o_slug = ?s, o_created_at = now\<rparr>"
    obtain q where q: "slug_conflict slug d = (Inr q, d)"
      using assms(3) same by (cases "slug_conflict slug d"; cases "fst (slug_conflict slug d)")
        (auto simp: create_organization_def prog_simps)
    have add: "add_org ?org d = (Inr (), d\<lparr>db_orgs := db_orgs d @ [?org]\<rparr>)"
      using assms(3) q by (auto simp: create_organization_def prog_simps unique_org_slug_def Let_def add_org_def
          split: if_splits)
    then have ok1: "db_ok (d\<lparr>db_orgs := db_orgs d @ [?org]\<rparr>)"
      using preservesD [OF db_ok_add(5) assms(1), of ?org] by simp
    obtain r d2 where r: "role_id_of OWNER (d\<lparr>db_orgs := db_orgs d @ [?org]\<rparr>) = (r, d2)" by fastforce
    then obtain rid where rid: "r = Inr rid"
      using assms(3) q add by (cases r) (auto simp: create_organization_def prog_simps unique_org_slug_def Let_def)
    then have d2: "d2 = d\<lparr>db_orgs := db_orgs d @ [?org]\<rparr>" using role_id_of_run(1) [OF ok1] r by blast
    show thesis
      using assms(3) q add r rid d2 ok1
      by (intro that [of "d\<lparr>db_orgs := db_orgs d @ [?org]\<rparr>" ?org rid])
         (auto simp: create_organization_def prog_simps unique_org_slug_def Let_def add_member_def split: if_splits)
  qed
  obtain row where row: "find (\<lambda>x. r_name x = role_code OWNER) (db_roles d1) = Some row" "rid = r_id row"
    using role_id_of_run(2) [OF ok1 d1(3)] by blast
  have roles: "db_roles d' = db_roles d" using d' d1 by simp
  have "has_owner d' (o_id r)" if "r \<in> set (db_orgs d')" for r
  proof (cases "r = org")
    case True
    then show ?thesis
      using role_name_owner [OF ok1 row(1)] row(2) d1(2) has_owner_members [of d' d1 oid] by (auto simp: d')
  next
    case False
    then have "has_owner d (o_id r)" using that assms(2) d' d1 by (auto simp: every_org_owned_def)
    then show ?thesis using has_owner_members [OF roles] by (auto simp: d' d1 has_owner_def)
  qed
  then show ?thesis by (simp add: every_org_owned_def)
qed

lemma owned_delete:
  assumes "every_org_owned d" "delete_organization oid d = (Inr x, d')"
  shows "every_org_owned d'"
proof -
  have d': "db_members d' = delete_where (\<lambda>m. m_organization_id m = oid) (db_members d)"
    "db_orgs d' = delete_where (\<lambda>r. o_id r = oid) (db_orgs d)" "db_roles d' = db_roles d"
    using assms(2)
    by (auto simp: delete_organization_def get_organization_def prog_simps delete_org_row_def Let_def
        delete_keys_where_def delete_apis_where_def split: option.splits dest!: find_SomeD)
  show ?thesis
    unfolding every_org_owned_def
  proof
    fix r
    assume "r \<in> set (db_orgs d')"
    then have r: "r \<in> set (db_orgs d)" "o_id r \<noteq> oid" by (auto simp: d' table_simps)
    then obtain m where "m \<in> set (db_members d)" "m_organization_id m = o_id r"
      "role_name_of d (m_role_id m) = role_code OWNER"
      using assms(1) by (auto simp: every_org_owned_def has_owner_def)
    then show "has_owner d' (o_id r)"
      unfolding has_owner_members [OF d'(3)] using r by (intro bexI [of _ m]) (auto simp: d' table_simps)
  qed
qed

lemma owned_add_member:
  assumes "every_org_owned d" "add_member_to_org now mid oid email role d = (Inr m, d')"
  shows "every_org_owned d'"
proof -
  have "preserves every_org_owned (add_member_to_org now mid oid email role)"
    unfolding add_member_to_org_def Let_def add_member_def
    by (intro prog_keeps preserves_insert_row) (rule owned_grow, auto)
  then show ?thesis using preservesD assms by (metis snd_conv)
qed

lemma authorized_invariant:
  assumes "P d" "\<And>u x d'. body u d = (Inr x, d') \<Longrightarrow> P d'"
  shows "P (snd (authorized E st now cred perm oid body d))"
  unfolding authorized_def
proof (rule session_scope_invariant [where P = P and d = d, OF assms(1)], elim bindP_Inr)
  fix x d' u d1 m d2
  assume "get_current_user E st now cred d = (Inr u, d1)" "require_permission perm oid u d1 = (Inr m, d2)"
    "body u d2 = (Inr x, d')"
  then show "P d'"
    using reads_run [OF reads_get_current_user] reads_run [OF reads_require_permission] assms(2) by metis
qed

lemma get_current_user_users:
  "db_users d' = db_users d \<Longrightarrow> get_current_user E st now cred d' = (fst (get_current_user E st now cred d), d')"
  by (auto simp: get_current_user_def prog_simps split: option.splits sum.splits prod.splits)

section \<open>Properties\<close>

lemma role_of_role_code [simp]: "role_of_code (role_code r) = Some r"
  by (cases r) (simp_all add: role_of_code_def all_roles_def)

lemma require_permission_run:
  assumes "db_ok d" "find (\<lambda>m. m_user_id m = u_id u \<and> m_organization_id m = oid) (db_members d) = Some m"
    and "role_name_of d (m_role_id m) = role_code r"
  shows "require_permission perm oid u d = (if role_has_permission r perm then Inr m
      else Inl (err PermissionDeniedError (''Your role '' @ [CHR 39] @ role_code r @ [CHR 39] @ '' lacks the '' @
        [CHR 39] @ perm_code perm @ [CHR 39] @ '' permission.'')), d)"
  using assms db_okD(5) [OF assms(1)]
  by (simp add: require_permission_def get_for_user_and_org_def select_one_def members_ok_def scalar_unique2 prog_simps)

text \<open>No request leaves an organization without an owner: creating and deleting organizations and
  adding, promoting, demoting and removing members keep every organization owned.\<close>

theorem organizations_stay_owned:
  assumes "db_ok d" "every_org_owned d"
  shows "every_org_owned (snd (create_organization_endpoint E st now cred oid mid name slug d)) \<and>
    every_org_owned (snd (delete_organization_endpoint E st now cred oid d)) \<and>
    every_org_owned (snd (add_member_endpoint E st now cred oid mid nid email role d)) \<and>
    every_org_owned (snd (update_member_role_endpoint E st now cred oid mid role d)) \<and>
    every_org_owned (snd (remove_member_endpoint E st now cred oid mid d))"
proof (intro conjI)
  show "every_org_owned (snd (create_organization_endpoint E st now cred oid mid name slug d))"
    unfolding create_organization_endpoint_def
  proof (rule session_scope_invariant [where P = every_org_owned, OF assms(2)], elim bindP_Inr)
    fix x d' u d1
    assume "get_current_user E st now cred d = (Inr u, d1)" "create_organization now oid mid u name slug d1 = (Inr x, d')"
    then show "every_org_owned d'" using reads_run [OF reads_get_current_user] owned_create [OF assms] by metis
  qed
  show "every_org_owned (snd (delete_organization_endpoint E st now cred oid d))"
    unfolding delete_organization_endpoint_def
    by (rule authorized_invariant [where P = every_org_owned, OF assms(2)]) (rule owned_delete [OF assms(2)])
  show "every_org_owned (snd (update_member_role_endpoint E st now cred oid mid role d))"
    unfolding update_member_role_endpoint_def
    by (rule authorized_invariant [where P = every_org_owned, OF assms(2)])
       (use owned_update_role [OF assms] in blast)
  show "every_org_owned (snd (remove_member_endpoint E st now cred oid mid d))"
    unfolding remove_member_endpoint_def
    by (rule authorized_invariant [where P = every_org_owned, OF assms(2)])
       (use owned_remove_member [OF assms, of oid mid] in simp)
  show "every_org_owned (snd (add_member_endpoint E st now cred oid mid nid email role d))"
    unfolding add_member_endpoint_def thenP_def
  proof (rule authorized_invariant [where P = every_org_owned, OF assms(2)], elim bindP_Inr)
    fix x d' m d1 nm d2 n d3
    assume a: "add_member_to_org now mid oid email role d = (Inr m, d1)"
      "gets (\<lambda>d. role_name_of d (m_role_id m)) d1 = (Inr nm, d2)"
      "create_notification now nid (m_user_id m) ''member.added'' ''You were added to an organization''
        (''You now have the '' @ [CHR 39] @ nm @ [CHR 39] @ '' role.'') (Some oid) d2 = (Inr n, d3)" "ret m d3 = (Inr x, d')"
    have "every_org_owned d1" by (rule owned_add_member [OF assms(2) a(1)])
    then show "every_org_owned d'"
      using a(2-4) by (auto simp: prog_simps create_notification_def add_note_def Let_def every_org_owned_def
          has_owner_def role_name_of_def split: if_splits)
  qed
qed

definition role_row :: "uuid \<Rightarrow> role_name \<Rightarrow> role" where
  "role_row i r = \<lparr>r_id = i, r_name = role_code r, r_description = [], r_is_system = True, r_permissions = []\<rparr>"

definition member_row :: "uuid \<Rightarrow> uuid \<Rightarrow> uuid \<Rightarrow> uuid \<Rightarrow> organization_member" where
  "member_row i oid uid rid = \<lparr>m_id = i, m_organization_id = oid, m_user_id = uid, m_role_id = rid, m_created_at = 0\<rparr>"

text \<open>Two users and one organization; \<open>alice\<close> has the first role given, the other user the second.\<close>

definition org_db :: "role_name \<Rightarrow> role_name \<Rightarrow> db" where
  "org_db r1 r2 = empty_db\<lparr>
     db_users := [alice, alice\<lparr>u_id := 2, u_email := ''b@x''\<rparr>],
     db_roles := [role_row 1 OWNER, role_row 2 ADMIN, role_row 3 DEVELOPER, role_row 4 VIEWER],
     db_orgs := [\<lparr>o_id = 7, o_name = ''acme'', o_slug = ''acme'', o_created_at = 0\<rparr>],
     db_members := [member_row 21 7 1 (case r1 of OWNER \<Rightarrow> 1 | ADMIN \<Rightarrow> 2 | DEVELOPER \<Rightarrow> 3 | VIEWER \<Rightarrow> 4),
       member_row 22 7 2 (case r2 of OWNER \<Rightarrow> 1 | ADMIN \<Rightarrow> 2 | DEVELOPER \<Rightarrow> 3 | VIEWER \<Rightarrow> 4)]\<rparr>"

lemma org_db_ok: "db_ok (org_db r1 r2)"
  by (cases r1; cases r2) (simp_all add: org_db_def db_ok_def table_ok_defs empty_db_def alice_def role_row_def member_row_def)

lemma org_db_owned: "every_org_owned (org_db r1 OWNER)"
  by (simp add: org_db_def every_org_owned_def has_owner_def role_name_of_def empty_db_def role_row_def member_row_def)

theorem organizations_stay_owned_witness:
  "every_org_owned (snd (remove_member_endpoint plain_env default_settings 0 None 7 22 (org_db ADMIN OWNER)))"
  using organizations_stay_owned [OF org_db_ok org_db_owned] by blast

text \<open>Nothing happens below an organization without the right to it. When an endpoint guarded by a
  permission returns, the caller is the active user of the token and a member of that very
  organization with a role that has the permission; when it raises, the database is unchanged. Being
  a superuser is not enough.\<close>

theorem guarded_endpoint_sound:
  assumes "db_ok d"
  shows "case authorized E st now cred perm oid body d of
    (Inl e, d') \<Rightarrow> d' = d
  | (Inr x, d') \<Rightarrow> \<exists>u m r. get_current_user E st now cred d = (Inr u, d) \<and> u \<in> set (db_users d) \<and> u_is_active u \<and>
      m \<in> set (db_members d) \<and> m_user_id m = u_id u \<and> m_organization_id m = oid \<and>
      role_name_of d (m_role_id m) = role_code r \<and> perm \<in> role_permissions r \<and> body u d = (Inr x, d')"
proof (cases "authorized E st now cred perm oid body d")
  case (Pair res d')
  show ?thesis
  proof (cases res)
    case (Inl e)
    then show ?thesis using Pair by (auto simp: authorized_def prog_simps split: prod.splits sum.splits)
  next
    case (Inr x)
    then have "bindP (get_current_user E st now cred) (\<lambda>u. bindP (require_permission perm oid u) (\<lambda>_. body u)) d = (Inr x, d')"
      using Pair by (auto simp: authorized_def session_scope_run split: prod.splits sum.splits)
    then obtain u m where u: "get_current_user E st now cred d = (Inr u, d)"
      and m: "require_permission perm oid u d = (Inr m, d)" and b: "body u d = (Inr x, d')"
      using reads_run [OF reads_get_current_user] reads_run [OF reads_require_permission] by (elim bindP_Inr) metis
    have user: "u \<in> set (db_users d)" "u_is_active u"
      using u by (auto simp: get_current_user_def prog_simps split: option.splits sum.splits if_splits dest: find_SomeD)
    have sel: "get_for_user_and_org (u_id u) oid d =
        (Inr (find (\<lambda>m. m_user_id m = u_id u \<and> m_organization_id m = oid) (db_members d)), d)"
      using db_okD(5) [OF assms] by (simp add: get_for_user_and_org_def select_one_def members_ok_def scalar_unique2)
    have "m \<in> set (db_members d) \<and> m_user_id m = u_id u \<and> m_organization_id m = oid \<and>
      (\<exists>r. role_of_code (role_name_of d (m_role_id m)) = Some r \<and> role_has_permission r perm)"
      using m by (auto simp: require_permission_def sel prog_simps split: option.splits if_splits dest: find_SomeD)
    moreover have "nm = role_code r" if "role_of_code nm = Some r" for nm r
      using that by (auto simp: role_of_code_def dest: find_SomeD)
    ultimately show ?thesis
      using u user b by (auto simp: Pair Inr role_has_permission_def)
  qed
qed

text \<open>A request of \<open>alice\<close> with an access token issued at time 0.\<close>

definition alice_cred :: "string option" where
  "alice_cred = Some (create_access_token plain_env default_settings 0 9 (uuid_str 1) [] None)"

lemma alice_cred_works:
  "find (\<lambda>x. u_id x = 1) (db_users d) = Some alice \<Longrightarrow>
   get_current_user plain_env default_settings 5 alice_cred d = (Inr alice, d)"
  using plain.access_token_roundtrip [of "[]" 0 5 default_settings _ 9 "uuid_str 1", OF _ _ _ refl]
  by (auto simp: get_current_user_def alice_cred_def prog_simps jwt_claims_def claim_subject_def uuid_roundtrip
      alice_def timestamp_def us_per_second_def default_settings_def)

lemma org_db_alice: "find (\<lambda>x. u_id x = 1) (db_users (org_db r1 r2)) = Some alice"
  by (simp add: org_db_def alice_def)

lemma org_db_role:
  "find (\<lambda>m. m_user_id m = 1 \<and> m_organization_id m = 7) (db_members (org_db r1 r2)) =
     Some (member_row 21 7 1 (case r1 of OWNER \<Rightarrow> 1 | ADMIN \<Rightarrow> 2 | DEVELOPER \<Rightarrow> 3 | VIEWER \<Rightarrow> 4))"
  "role_name_of (org_db r1 r2) (case r1 of OWNER \<Rightarrow> 1 | ADMIN \<Rightarrow> 2 | DEVELOPER \<Rightarrow> 3 | VIEWER \<Rightarrow> 4) = role_code r1"
  by (simp_all add: org_db_def member_row_def role_name_of_def role_row_def split: role_name.splits)

lemma alice_id: "u_id alice = 1"
  by (simp add: alice_def)

lemma alice_may:
  "require_permission perm 7 alice (org_db r1 r2) = (if role_has_permission r1 perm
     then Inr (member_row 21 7 1 (case r1 of OWNER \<Rightarrow> 1 | ADMIN \<Rightarrow> 2 | DEVELOPER \<Rightarrow> 3 | VIEWER \<Rightarrow> 4))
     else Inl (err PermissionDeniedError (''Your role '' @ [CHR 39] @ role_code r1 @ [CHR 39] @ '' lacks the '' @
        [CHR 39] @ perm_code perm @ [CHR 39] @ '' permission.'')), org_db r1 r2)"
  by (rule require_permission_run [OF org_db_ok])
     (simp_all add: alice_id org_db_role, simp add: member_row_def org_db_role)

lemma org_db_get: "get_organization 7 (org_db r1 r2) =
    (Inr \<lparr>o_id = 7, o_name = ''acme'', o_slug = ''acme'', o_created_at = 0\<rparr>, org_db r1 r2)"
  by (simp add: get_organization_def prog_simps org_db_def)

theorem guarded_endpoint_sound_witness:
  "\<exists>x. authorized plain_env default_settings 5 alice_cred ORG_READ 7 (\<lambda>_. get_organization 7) (org_db ADMIN OWNER) =
      (Inr x, org_db ADMIN OWNER) \<and>
    (\<exists>m \<in> set (db_members (org_db ADMIN OWNER)). m_user_id m = 1 \<and> m_organization_id m = 7)"
proof -
  note cred = alice_cred_works [OF org_db_alice, of ADMIN OWNER]
  obtain x where x: "authorized plain_env default_settings 5 alice_cred ORG_READ 7 (\<lambda>_. get_organization 7)
      (org_db ADMIN OWNER) = (Inr x, org_db ADMIN OWNER)"
    by (simp add: authorized_def cred prog_simps alice_may role_has_permission_def all_permissions_def org_db_get)
  have "\<exists>u m r. get_current_user plain_env default_settings 5 alice_cred (org_db ADMIN OWNER) = (Inr u, org_db ADMIN OWNER) \<and>
      m \<in> set (db_members (org_db ADMIN OWNER)) \<and> m_user_id m = u_id u \<and> m_organization_id m = 7"
    using guarded_endpoint_sound [OF org_db_ok [of ADMIN OWNER], where E = plain_env
        and st = default_settings and now = 5 and cred = alice_cred and perm = ORG_READ and oid = 7
        and body = "\<lambda>_. get_organization 7"] x by auto
  then show ?thesis using x cred by (auto simp: alice_def)
qed

text \<open>The admin role is documented as unable to delete the organization, but an admin can make
  itself an owner and then delete it: the role update checks no more than the permission to update
  roles, whatever the role granted.\<close>

theorem admin_can_delete_organization:
  assumes "db_ok d" "get_current_user E st now cred d = (Inr u, d)"
    and "find (\<lambda>m. m_user_id m = u_id u \<and> m_organization_id m = oid) (db_members d) = Some m"
    and "role_name_of d (m_role_id m) = role_code ADMIN"
    and "find (\<lambda>x. r_name x = role_code OWNER) (db_roles d) = Some row"
    and "update_member_role_endpoint E st now cred oid (m_id m) OWNER d = (res, d')"
  shows "fst (delete_organization_endpoint E st now cred oid d) =
      Inl (err PermissionDeniedError (''Your role '' @ [CHR 39] @ ''admin'' @ [CHR 39] @ '' lacks the '' @
        [CHR 39] @ ''org:delete'' @ [CHR 39] @ '' permission.'')) \<and>
    res = Inr (m\<lparr>m_role_id := r_id row\<rparr>) \<and>
    (\<exists>d''. delete_organization_endpoint E st now cred oid d' = (Inr (), d'') \<and> oid \<notin> o_id ` set (db_orgs d''))"
proof -
  have m: "m \<in> set (db_members d)" "m_user_id m = u_id u" "m_organization_id m = oid"
    using find_SomeD [OF assms(3)] by auto
  have mok: "members_ok (db_users d) (db_roles d) (db_orgs d) (db_members d)" by (rule db_okD(5) [OF assms(1)])
  note may = require_permission_run [OF assms(1,3,4)]
  have perms: "role_has_permission ADMIN MEMBER_UPDATE_ROLE" "\<not> role_has_permission ADMIN ORG_DELETE"
      "role_has_permission OWNER ORG_DELETE"
    by (simp_all add: role_has_permission_def all_permissions_def)
  have denied: "fst (delete_organization_endpoint E st now cred oid d) =
      Inl (err PermissionDeniedError (''Your role '' @ [CHR 39] @ ''admin'' @ [CHR 39] @ '' lacks the '' @
        [CHR 39] @ ''org:delete'' @ [CHR 39] @ '' permission.''))"
    using perms(2) by (simp add: delete_organization_endpoint_def authorized_def assms(2) prog_simps may)
  have own: "role_id_of OWNER d = (Inr (r_id row), d)"
    using assms(5) by (simp add: role_id_of_def get_by_name_run [OF db_okD(3) [OF assms(1)]] prog_simps)
  have ids: "find (\<lambda>x. m_id x = m_id m) (db_members d) = Some m"
    using mok m(1) by (simp add: members_ok_def find_Some_iff_unique)
  let ?m = "m\<lparr>m_role_id := r_id row\<rparr>"
  have upd: "update_member_role_endpoint E st now cred oid (m_id m) OWNER d =
      (Inr ?m, snd (set_member_role (m_id m) (r_id row) d))"
    using perms(1) m(3) own ids
    by (simp add: update_member_role_endpoint_def authorized_def assms(2) prog_simps may
        update_member_role_def get_member_def set_member_role_def)
  then have d': "d' = snd (set_member_role (m_id m) (r_id row) d)" and res: "res = Inr ?m" using assms(6) by simp_all
  have ok': "db_ok d'"
    unfolding d' using find_SomeD [OF assms(5)] by (intro db_ok_set_member_role assms(1)) auto
  have same: "db_users d' = db_users d" "db_roles d' = db_roles d" "db_orgs d' = db_orgs d"
    by (simp_all add: d' set_member_role_def prog_simps)
  have cred': "get_current_user E st now cred d' = (Inr u, d')"
    using get_current_user_users [OF same(1), of E st now cred] assms(2) by simp
  have "?m \<in> set (db_members d')"
    using m(1) by (auto simp: d' set_member_role_def prog_simps in_update_where)
  then have found: "find (\<lambda>x. m_user_id x = u_id u \<and> m_organization_id x = oid) (db_members d') = Some ?m"
    using find_Some_iff_unique [of "\<lambda>m. (m_user_id m, m_organization_id m)" "db_members d'" ?m "(u_id u, oid)"]
      db_okD(5) [OF ok'] m by (simp add: members_ok_def)
  have nm': "role_name_of d' (r_id row) = role_code OWNER"
    using role_name_owner [OF assms(1,5)] same(2) by (simp add: role_name_of_def)
  note may' = require_permission_run [OF ok' found, of OWNER]
  obtain r0 where r0: "find (\<lambda>r. o_id r = oid) (db_orgs d') = Some r0" "o_id r0 = oid"
  proof -
    have "oid \<in> o_id ` set (db_orgs d')" using mok m same(3) by (auto simp: members_ok_def)
    then have "find (\<lambda>r. o_id r = oid) (db_orgs d') \<noteq> None" by (simp add: find_None_iff_key)
    then obtain r0 where r0: "find (\<lambda>r. o_id r = oid) (db_orgs d') = Some r0" by auto
    then show thesis using that [of r0] find_SomeD [OF r0] by simp
  qed
  have "delete_organization_endpoint E st now cred oid d' = (Inr (), delete_org_row oid d')"
    using perms(3) r0 nm'
    by (simp add: delete_organization_endpoint_def authorized_def cred' prog_simps may'
        delete_organization_def get_organization_def)
  moreover have "oid \<notin> o_id ` set (db_orgs (delete_org_row oid d'))"
    by (auto simp: delete_org_row_def Let_def table_simps)
  ultimately show ?thesis using denied res by blast
qed

theorem admin_can_delete_organization_witness:
  "\<exists>d''. delete_organization_endpoint plain_env default_settings 5 alice_cred 7
      (snd (update_member_role_endpoint plain_env default_settings 5 alice_cred 7 21 OWNER (org_db ADMIN OWNER))) =
    (Inr (), d'') \<and> 7 \<notin> o_id ` set (db_orgs d'')"
proof -
  let ?run = "update_member_role_endpoint plain_env default_settings 5 alice_cred 7 21 OWNER (org_db ADMIN OWNER)"
  have "find (\<lambda>x. r_name x = role_code OWNER) (db_roles (org_db ADMIN OWNER)) = Some (role_row 1 OWNER)"
    by (simp add: org_db_def role_row_def)
  from admin_can_delete_organization [OF org_db_ok alice_cred_works [OF org_db_alice] _ _ this,
      of 7 "member_row 21 7 1 2" "fst ?run" "snd ?run"]
  show ?thesis
    using org_db_role [where ?r1.0 = ADMIN and ?r2.0 = OWNER] by (simp add: alice_id member_row_def)
qed

text \<open>A name the schema accepts can be too long for its slug: when the slug derived from the name
  is longer than the column (120), creating the organization fails with a database error, which the
  client sees as a 500.\<close>

theorem long_name_is_server_error:
  assumes "get_current_user E st now cred d = (Inr u, d)" "SLUG_LENGTH < length (slugify name)"
  shows "create_organization_endpoint E st now cred oid mid name None d = (Inl DataError, d) \<and>
    hr_status (handle_exn rid DataError) = 500"
proof -
  have "SLUG_LENGTH < length (unique_slug_of (map o_slug (db_orgs d)) name)"
    using slug_search_first [of "map o_slug (db_orgs d)" "slugify name" 2 "slugify name"] assms(2)
    by (auto simp: unique_slug_of_def with_suffix_def)
  then have "create_organization now oid mid u name None d = (Inl DataError, d)"
    by (simp add: create_organization_def slug_conflict_def prog_simps unique_org_slug_def slug_or_name_def
        add_org_def Let_def)
  then show ?thesis
    using assms(1) by (simp add: create_organization_endpoint_def prog_simps handle_exn_def DataError_def)
qed

theorem long_name_is_server_error_witness:
  "create_organization_endpoint plain_env default_settings 5 alice_cred 8 30 (replicate 121 CHR ''a'') None (org_db ADMIN OWNER) =
    (Inl DataError, org_db ADMIN OWNER)"
proof -
  have "SLUG_LENGTH < length (slugify (replicate 121 CHR ''a''))" by code_simp
  from long_name_is_server_error [OF alice_cred_works [OF org_db_alice] this] show ?thesis by blast
qed

section \<open>Two requests at once\<close>

text \<open>\<open>remove_member\<close> up to its DELETE: the checks read the rows committed so far and lock nothing.\<close>

definition remove_member_checks :: "uuid \<Rightarrow> uuid \<Rightarrow> organization_member dbprog" where
  "remove_member_checks oid mid =
     bindP (get_member oid mid) (\<lambda>m.
     bindP (role_id_of OWNER) (\<lambda>owner_rid.
     thenP (if m_role_id m = owner_rid
            then bindP (count_with_role oid owner_rid) (\<lambda>owners. raise_if (owners \<le> 1)
              (err ValidationAppError ''Cannot remove the last owner of the organization.''))
            else ret ())
     (ret m)))"

lemma remove_member_split:
  "remove_member oid mid = bindP (remove_member_checks oid mid) (\<lambda>m. delete_member_row (m_id m))"
  by (auto simp: fun_eq_iff remove_member_def remove_member_checks_def prog_simps split: prod.splits sum.splits)

text \<open>C37: two removals that interleave can leave an organization without an owner: with exactly two
  owners, both requests pass their checks before either deletes, and both delete.\<close>

theorem concurrent_removals_leave_no_owner:
  assumes "db_ok d" "find (\<lambda>x. r_name x = role_code OWNER) (db_roles d) = Some row"
    and "filter (\<lambda>m. m_organization_id m = oid \<and> m_role_id m = r_id row) (db_members d) = [m1, m2]"
  shows "\<exists>d'. bindP (remove_member_checks oid (m_id m1)) (\<lambda>a.
      bindP (remove_member_checks oid (m_id m2)) (\<lambda>b.
      thenP (delete_member_row (m_id a)) (delete_member_row (m_id b)))) d = (Inr (), d') \<and>
    has_owner d oid \<and> \<not> has_owner d' oid"
proof -
  have mem: "m \<in> set (db_members d) \<and> m_organization_id m = oid \<and> m_role_id m = r_id row" if "m \<in> {m1, m2}" for m
  proof -
    have "m \<in> set (filter (\<lambda>m. m_organization_id m = oid \<and> m_role_id m = r_id row) (db_members d))"
      using that unfolding assms(3) by auto
    then show ?thesis by simp
  qed
  have own: "role_id_of OWNER d = (Inr (r_id row), d)"
    using assms(2) by (simp add: role_id_of_def get_by_name_run [OF db_okD(3) [OF assms(1)]] prog_simps)
  have "distinct (map m_id (db_members d))" using db_okD(5) [OF assms(1)] by (simp add: members_ok_def)
  then have check: "remove_member_checks oid (m_id m) d = (Inr m, d)" if "m \<in> {m1, m2}" for m
    using mem [OF that] own assms(3) find_Some_iff_unique [of m_id "db_members d" m]
    by (simp add: remove_member_checks_def get_member_def prog_simps count_with_role_def)
  let ?ms = "delete_where (\<lambda>m. m_id m = m_id m2) (delete_where (\<lambda>m. m_id m = m_id m1) (db_members d))"
  have run: "bindP (remove_member_checks oid (m_id m1)) (\<lambda>a. bindP (remove_member_checks oid (m_id m2)) (\<lambda>b.
      thenP (delete_member_row (m_id a)) (delete_member_row (m_id b)))) d = (Inr (), d\<lparr>db_members := ?ms\<rparr>)"
    using check [of m1] check [of m2] by (simp add: prog_simps delete_member_row_def)
  have "\<not> has_owner (d\<lparr>db_members := ?ms\<rparr>) oid"
  proof
    assume "has_owner (d\<lparr>db_members := ?ms\<rparr>) oid"
    then obtain m where "m \<in> set (db_members d)" "m_id m \<noteq> m_id m1" "m_id m \<noteq> m_id m2"
        "m_organization_id m = oid" "m_role_id m = r_id row"
      using role_name_owner [OF assms(1,2)] has_owner_members [of "d\<lparr>db_members := ?ms\<rparr>" d oid]
      by (auto simp: table_simps)
    then have "m \<in> set (filter (\<lambda>m. m_organization_id m = oid \<and> m_role_id m = r_id row) (db_members d))" by simp
    then show False using \<open>m_id m \<noteq> m_id m1\<close> \<open>m_id m \<noteq> m_id m2\<close> unfolding assms(3) by auto
  qed
  moreover have "has_owner d oid"
    using mem [of m1] role_name_owner [OF assms(1,2)] by (auto simp: has_owner_def)
  ultimately show ?thesis using run by blast
qed

theorem concurrent_removals_leave_no_owner_witness:
  "\<exists>d'. bindP (remove_member_checks 7 21) (\<lambda>a. bindP (remove_member_checks 7 22) (\<lambda>b.
      thenP (delete_member_row (m_id a)) (delete_member_row (m_id b)))) (org_db OWNER OWNER) = (Inr (), d') \<and>
    \<not> has_owner d' 7"
proof -
  have "find (\<lambda>x. r_name x = role_code OWNER) (db_roles (org_db OWNER OWNER)) = Some (role_row 1 OWNER)"
    "filter (\<lambda>m. m_organization_id m = 7 \<and> m_role_id m = r_id (role_row 1 OWNER)) (db_members (org_db OWNER OWNER)) =
      [member_row 21 7 1 1, member_row 22 7 2 1]"
    by (simp_all add: org_db_def role_row_def member_row_def)
  from concurrent_removals_leave_no_owner [OF org_db_ok this] show ?thesis by (auto simp: member_row_def)
qed

end
