(* ===== verification/ApiCatalog.thy ===== *)
theory ApiCatalog
  imports Organization RateLimit
begin

text \<open>
  \<open>services/api_catalog.py\<close>, \<open>repositories/api.py\<close>, \<open>api/apis.py\<close> and the validators of
  \<open>schemas/api.py\<close>: an organization's APIs, their versions, quotas and rate-limit rule. An API's
  relationships (\<open>versions\<close>) are lookups by its id. Every operation starts by finding the API within the
  organization of the path; what that buys is \<open>tenants_isolated\<close>.
\<close>

section \<open>Repositories\<close>

definition get_in_org :: "uuid \<Rightarrow> uuid \<Rightarrow> api option dbprog" where
  "get_in_org aid oid = select_one db_apis (\<lambda>a. a_id a = aid \<and> a_organization_id a = oid)"

definition get_by_slug_in_org :: "string \<Rightarrow> uuid \<Rightarrow> api option dbprog" where
  "get_by_slug_in_org slug oid = select_one db_apis (\<lambda>a. a_slug a = slug \<and> a_organization_id a = oid)"

definition apis_of_org :: "uuid \<Rightarrow> db \<Rightarrow> api list" where
  "apis_of_org oid d = filter (\<lambda>a. a_organization_id a = oid) (db_apis d)"

definition list_in_org :: "uuid \<Rightarrow> nat \<Rightarrow> nat \<Rightarrow> (api list \<times> nat) dbprog" where
  "list_in_org oid lmt off = gets (\<lambda>d.
     (page lmt off (order_desc a_created_at (apis_of_org oid d)), length (apis_of_org oid d)))"

text \<open>\<open>ApiVersionRepository.get_active\<close>, whose query does not look at \<open>is_active\<close>.\<close>

definition get_active :: "uuid \<Rightarrow> string \<Rightarrow> api_version option dbprog" where
  "get_active aid version = select_one db_versions (\<lambda>v. v_api_id v = aid \<and> v_version v = version)"

definition list_quotas_for_api :: "uuid \<Rightarrow> quota list dbprog" where
  "list_quotas_for_api aid = gets (\<lambda>d. filter (\<lambda>q. q_api_id q = aid) (db_quotas d))"

definition get_rule_for_api :: "uuid \<Rightarrow> rate_limit_rule option dbprog" where
  "get_rule_for_api aid = select_one db_rules (\<lambda>l. l_api_id l = aid)"

definition versions_of :: "uuid \<Rightarrow> db \<Rightarrow> api_version list" where
  "versions_of aid d = filter (\<lambda>v. v_api_id v = aid) (db_versions d)"

section \<open>The service\<close>

definition get_api :: "uuid \<Rightarrow> uuid \<Rightarrow> api dbprog" where
  "get_api oid aid = bindP (get_in_org aid oid) (\<lambda>a. case a of
     None \<Rightarrow> raise (err NotFoundError ''API not found in this organization.'') | Some a \<Rightarrow> ret a)"

definition unique_api_slug :: "uuid \<Rightarrow> string \<Rightarrow> string dbprog" where
  "unique_api_slug oid desired = gets (\<lambda>d. unique_slug_of (map a_slug (apis_of_org oid d)) desired)"

definition api_slug_conflict :: "uuid \<Rightarrow> string option \<Rightarrow> unit dbprog" where
  "api_slug_conflict oid slug = (case slug of
     None \<Rightarrow> ret ()
   | Some s \<Rightarrow> bindP (get_by_slug_in_org s oid) (\<lambda>a. raise_if (a \<noteq> None)
       (err ConflictError ''An API with this slug already exists in the organization.'')))"

definition create_api ::
  "instant \<Rightarrow> uuid \<Rightarrow> uuid \<Rightarrow> string \<Rightarrow> string option \<Rightarrow> string \<Rightarrow> api dbprog" where
  "create_api now aid oid name slug description =
     thenP (api_slug_conflict oid slug)
     (bindP (unique_api_slug oid (slug_or_name slug name)) (\<lambda>s.
      thenP (add_api \<lparr> a_id = aid, a_organization_id = oid, a_name = name, a_slug = s,
               a_description = description, a_is_active = True, a_created_at = now \<rparr>)
      (get_api oid aid)))"

definition update_api ::
  "uuid \<Rightarrow> uuid \<Rightarrow> string option \<Rightarrow> string option \<Rightarrow> bool option \<Rightarrow> api dbprog" where
  "update_api oid aid name description is_active = bindP (get_api oid aid) (\<lambda>a.
     let change = (\<lambda>x. x\<lparr>a_name := (case name of None \<Rightarrow> a_name x | Some n \<Rightarrow> n),
           a_description := (case description of None \<Rightarrow> a_description x | Some t \<Rightarrow> t),
           a_is_active := (case is_active of None \<Rightarrow> a_is_active x | Some b \<Rightarrow> b)\<rparr>)
     in thenP (modifyP (\<lambda>d. d\<lparr>db_apis := update_where (\<lambda>x. a_id x = a_id a) change (db_apis d)\<rparr>))
        (ret (change a)))"

definition delete_api :: "uuid \<Rightarrow> uuid \<Rightarrow> unit dbprog" where
  "delete_api oid aid = bindP (get_api oid aid) (\<lambda>a. modifyP (delete_apis_where (\<lambda>x. a_id x = a_id a)))"

definition add_version ::
  "instant \<Rightarrow> uuid \<Rightarrow> uuid \<Rightarrow> uuid \<Rightarrow> string \<Rightarrow> string \<Rightarrow> bool \<Rightarrow> api_version dbprog" where
  "add_version now vid oid aid version upstream_base_url is_active = thenP (get_api oid aid)
     (bindP (get_active aid version) (\<lambda>found.
      thenP (raise_if (found \<noteq> None) (err ConflictError
        (''Version '' @ [CHR 39] @ version @ [CHR 39] @ '' already exists for this API.'')))
      (let v = \<lparr> v_id = vid, v_api_id = aid, v_version = version,
                 v_upstream_base_url = upstream_base_url, v_is_active = is_active, v_created_at = now \<rparr>
       in thenP (add_version_row v) (ret v))))"

definition delete_version :: "uuid \<Rightarrow> uuid \<Rightarrow> uuid \<Rightarrow> unit dbprog" where
  "delete_version oid aid vid = thenP (get_api oid aid)
     (bindP (repo_get db_versions v_id vid) (\<lambda>v. case v of
        None \<Rightarrow> raise (err NotFoundError ''Version not found for this API.'')
      | Some v \<Rightarrow> if v_api_id v \<noteq> aid then raise (err NotFoundError ''Version not found for this API.'')
          else modifyP (\<lambda>d. d\<lparr>db_versions := delete_where (\<lambda>x. v_id x = v_id v) (db_versions d)\<rparr>)))"

definition delete_quota_row :: "uuid \<Rightarrow> unit dbprog" where
  "delete_quota_row qid = modifyP (\<lambda>d. d\<lparr>db_quotas := delete_where (\<lambda>q. q_id q = qid) (db_quotas d)\<rparr>)"

text \<open>Each wanted quota comes with the id of its new row.\<close>

definition set_quotas :: "uuid \<Rightarrow> uuid \<Rightarrow> (uuid \<times> quota_period \<times> int) list \<Rightarrow> quota list dbprog" where
  "set_quotas oid aid wanted = thenP (get_api oid aid)
     (bindP (list_quotas_for_api aid) (\<lambda>existing.
      thenP (mapP (\<lambda>q. delete_quota_row (q_id q)) existing)
      (mapP (\<lambda>(qid, period, max_requests).
         let q = \<lparr> q_id = qid, q_api_id = aid, q_period = period, q_max_requests = max_requests \<rparr>
         in thenP (add_quota q) (ret q)) wanted)))"

definition get_quotas :: "uuid \<Rightarrow> uuid \<Rightarrow> quota list dbprog" where
  "get_quotas oid aid = thenP (get_api oid aid) (list_quotas_for_api aid)"

definition set_rate_limit ::
  "uuid \<Rightarrow> uuid \<Rightarrow> uuid \<Rightarrow> rate_limit_algorithm \<Rightarrow> int \<Rightarrow> int \<Rightarrow> int option \<Rightarrow> rate_limit_rule dbprog" where
  "set_rate_limit lid oid aid algorithm requests window_seconds burst = thenP (get_api oid aid)
     (bindP (get_rule_for_api aid) (\<lambda>rule. case rule of
        None \<Rightarrow>
          (let l = \<lparr> l_id = lid, l_api_id = aid, l_algorithm = algorithm, l_requests = requests,
                     l_window_seconds = window_seconds, l_burst = burst \<rparr>
           in thenP (add_rule l) (ret l))
      | Some l \<Rightarrow>
          (let change = (\<lambda>x. x\<lparr>l_algorithm := algorithm, l_requests := requests,
                 l_window_seconds := window_seconds, l_burst := burst\<rparr>)
           in thenP (raise_if (\<not> rule_fits requests window_seconds burst) DataError)
              (thenP (modifyP (\<lambda>d. d\<lparr>db_rules := update_where (\<lambda>x. l_id x = l_id l) change (db_rules d)\<rparr>))
              (ret (change l))))))"

definition get_rate_limit :: "uuid \<Rightarrow> uuid \<Rightarrow> rate_limit_rule option dbprog" where
  "get_rate_limit oid aid = thenP (get_api oid aid) (get_rule_for_api aid)"

section \<open>The schemas' checks\<close>

text \<open>\<open>QuotaConfig\<close> and \<open>RateLimitConfig\<close>: what a request body must satisfy to reach the service.\<close>

definition quota_config_ok :: "(quota_period \<times> int) list \<Rightarrow> bool" where
  "quota_config_ok qs \<longleftrightarrow> (\<forall>(p, n) \<in> set qs. 0 < n) \<and> length (map fst qs) = card (set (map fst qs))"

definition rate_limit_config_ok :: "rate_limit_algorithm \<Rightarrow> int \<Rightarrow> int \<Rightarrow> int option \<Rightarrow> bool" where
  "rate_limit_config_ok algorithm requests window_seconds burst \<longleftrightarrow>
     0 < requests \<and> 0 < window_seconds \<and> window_seconds \<le> 86400 \<and>
     (case burst of None \<Rightarrow> True | Some b \<Rightarrow> 0 < b \<and> algorithm = TOKEN_BUCKET)"

section \<open>Endpoints\<close>

definition api_response :: "api \<Rightarrow> (api \<times> api_version list) dbprog" where
  "api_response a = gets (\<lambda>d. (a, versions_of (a_id a) d))"

definition create_api_endpoint where
  "create_api_endpoint E st now cred aid oid name slug description =
     authorized E st now cred API_CREATE oid (\<lambda>_.
       bindP (create_api now aid oid name slug description) api_response)"

definition list_apis_endpoint where
  "list_apis_endpoint E st now cred oid lmt off =
     authorized E st now cred API_READ oid (\<lambda>_.
       bindP (list_in_org oid lmt off) (\<lambda>(as, total).
       bindP (mapP api_response as) (\<lambda>items. ret (items, total))))"

definition get_api_endpoint where
  "get_api_endpoint E st now cred oid aid =
     authorized E st now cred API_READ oid (\<lambda>_. bindP (get_api oid aid) api_response)"

definition update_api_endpoint where
  "update_api_endpoint E st now cred oid aid name description is_active =
     authorized E st now cred API_UPDATE oid (\<lambda>_.
       bindP (update_api oid aid name description is_active) api_response)"

definition delete_api_endpoint where
  "delete_api_endpoint E st now cred oid aid =
     authorized E st now cred API_DELETE oid (\<lambda>_. delete_api oid aid)"

definition add_version_endpoint where
  "add_version_endpoint E st now cred vid oid aid version upstream_base_url is_active =
     authorized E st now cred API_UPDATE oid (\<lambda>_.
       add_version now vid oid aid version upstream_base_url is_active)"

definition delete_version_endpoint where
  "delete_version_endpoint E st now cred oid aid vid =
     authorized E st now cred API_UPDATE oid (\<lambda>_. delete_version oid aid vid)"

definition quota_item :: "quota \<Rightarrow> quota_period \<times> int" where
  "quota_item q = (q_period q, q_max_requests q)"

definition set_quota_endpoint where
  "set_quota_endpoint E st now cred oid aid wanted =
     authorized E st now cred API_UPDATE oid (\<lambda>_.
       bindP (set_quotas oid aid wanted) (\<lambda>qs. ret (map quota_item qs)))"

definition get_quota_endpoint where
  "get_quota_endpoint E st now cred oid aid =
     authorized E st now cred API_READ oid (\<lambda>_.
       bindP (get_quotas oid aid) (\<lambda>qs. ret (map quota_item qs)))"

definition set_rate_limit_endpoint where
  "set_rate_limit_endpoint E st now cred lid oid aid algorithm requests window_seconds burst =
     authorized E st now cred API_UPDATE oid (\<lambda>_.
       set_rate_limit lid oid aid algorithm requests window_seconds burst)"

definition get_rate_limit_endpoint where
  "get_rate_limit_endpoint E st now cred oid aid =
     authorized E st now cred API_READ oid (\<lambda>_. get_rate_limit oid aid)"

section \<open>Running the lookups\<close>

lemma reads_catalog [prog_keeps]:
  "reads (get_in_org i j)" "reads (get_by_slug_in_org s i)" "reads (list_in_org i l off)"
  "reads (get_active i s)" "reads (list_quotas_for_api i)" "reads (get_rule_for_api i)"
  "reads (unique_api_slug i s)" "reads (api_response a)"
  by (simp_all add: get_in_org_def get_by_slug_in_org_def list_in_org_def get_active_def
      list_quotas_for_api_def get_rule_for_api_def unique_api_slug_def api_response_def
      reads_select_one prog_keeps)

lemma reads_get_api [prog_keeps]: "reads (get_api oid aid)"
  unfolding get_api_def by (intro prog_keeps)

lemma preserves_api_slug_conflict [prog_keeps]: "preserves P (api_slug_conflict oid slug)"
  unfolding api_slug_conflict_def by (intro prog_keeps)

lemma get_api_run:
  assumes "db_ok d"
  shows "get_api oid aid d = (case find (\<lambda>a. a_id a = aid \<and> a_organization_id a = oid) (db_apis d) of
      None \<Rightarrow> Inl (err NotFoundError ''API not found in this organization.'') | Some a \<Rightarrow> Inr a, d)"
  using db_okD(6) [OF assms] by (simp add: get_api_def get_in_org_def select_one_def apis_ok_def scalar_unique prog_simps
      split: option.splits)

lemma get_api_found:
  "get_api oid aid d = (Inr a, d') \<Longrightarrow> d' = d \<and> a \<in> set (db_apis d) \<and> a_id a = aid \<and> a_organization_id a = oid"
proof -
  assume g: "get_api oid aid d = (Inr a, d')"
  let ?Q = "\<lambda>a. a_id a = aid \<and> a_organization_id a = oid"
  from g have "scalar_one_or_none (filter ?Q (db_apis d)) = Inr (Some a)" "d' = d"
    by (auto simp: get_api_def get_in_org_def select_one_def prog_simps split: option.splits sum.splits)
  then have "a \<in> set (filter ?Q (db_apis d))"
    by (cases "filter ?Q (db_apis d)" rule: scalar_one_or_none.cases) auto
  then show ?thesis using \<open>d' = d\<close> by auto
qed

lemma get_rule_run:
  "db_ok d \<Longrightarrow> get_rule_for_api aid d = (Inr (find (\<lambda>l. l_api_id l = aid) (db_rules d)), d)"
  using db_okD(9) [of d] by (simp add: get_rule_for_api_def select_one_def rules_ok_def scalar_unique1)

lemma get_active_run:
  "db_ok d \<Longrightarrow> get_active aid ver d =
     (Inr (find (\<lambda>v. v_api_id v = aid \<and> v_version v = ver) (db_versions d)), d)"
  using db_okD(7) [of d] by (simp add: get_active_def select_one_def versions_ok_def scalar_unique2)

section \<open>The constraints survive\<close>

lemma db_ok_delete_version_row: "db_ok d \<Longrightarrow> db_ok (d\<lparr>db_versions := delete_where P (db_versions d)\<rparr>)"
  by (simp add: db_ok_def versions_ok_def distinct_delete_where fk_delete)

lemma db_ok_delete_quota [prog_keeps]: "preserves db_ok (delete_quota_row qid)"
  unfolding delete_quota_row_def
  by (rule preserves_modifyP) (simp add: db_ok_def quotas_ok_def distinct_delete_where fk_delete)

lemma db_ok_create_api [prog_keeps]: "preserves db_ok (create_api now aid oid name slug desc)"
  unfolding create_api_def by (intro prog_keeps)

lemma db_ok_update_api [prog_keeps]: "preserves db_ok (update_api oid aid name desc act)"
  unfolding update_api_def Let_def
  by (intro prog_keeps preserves_modifyP) (auto intro: db_ok_update_apis)

lemma db_ok_delete_api [prog_keeps]: "preserves db_ok (delete_api oid aid)"
  unfolding delete_api_def by (intro prog_keeps preserves_modifyP db_ok_delete_apis)

lemma db_ok_add_version [prog_keeps]: "preserves db_ok (add_version now vid oid aid ver url act)"
  unfolding add_version_def Let_def by (intro prog_keeps)

lemma db_ok_delete_version [prog_keeps]: "preserves db_ok (delete_version oid aid vid)"
  unfolding delete_version_def
  by (intro prog_keeps preserves_modifyP reads_repo(1) db_ok_delete_version_row)

lemma db_ok_set_quotas [prog_keeps]: "preserves db_ok (set_quotas oid aid wanted)"
  unfolding set_quotas_def Let_def split_beta by (intro prog_keeps)

lemma db_ok_set_rate_limit [prog_keeps]: "preserves db_ok (set_rate_limit lid oid aid al n w b)"
  unfolding set_rate_limit_def Let_def
  by (intro prog_keeps preserves_modifyP) (auto intro: db_ok_update_rules)

section \<open>What an organization's tenants see\<close>

definition org_api_ids :: "uuid \<Rightarrow> db \<Rightarrow> uuid set" where
  "org_api_ids oid d = a_id ` set (apis_of_org oid d)"

text \<open>The catalogue of one organization: its APIs with everything that hangs off them.\<close>

definition org_view where
  "org_view oid d = (apis_of_org oid d,
     filter (\<lambda>v. v_api_id v \<in> org_api_ids oid d) (db_versions d),
     filter (\<lambda>q. q_api_id q \<in> org_api_ids oid d) (db_quotas d),
     filter (\<lambda>l. l_api_id l \<in> org_api_ids oid d) (db_rules d),
     filter (\<lambda>k. k_api_id k \<in> org_api_ids oid d) (db_keys d))"

lemmas org_view_defs = org_view_def org_api_ids_def apis_of_org_def

lemma foreign_api:
  assumes "db_ok d" "a \<in> set (db_apis d)" "a_organization_id a \<noteq> oid"
  shows "a_id a \<notin> org_api_ids oid d"
proof
  assume "a_id a \<in> org_api_ids oid d"
  then obtain b where "b \<in> set (db_apis d)" "a_id b = a_id a" "a_organization_id b = oid"
    by (auto simp: org_api_ids_def apis_of_org_def)
  moreover have "distinct (map a_id (db_apis d))" using db_okD(6) [OF assms(1)] by (simp add: apis_ok_def)
  ultimately show False using unique_row [of a_id "db_apis d" b a] assms by simp
qed

lemma get_api_foreign:
  "db_ok d \<Longrightarrow> get_api oid aid d = (Inr a, d') \<Longrightarrow> oid' \<noteq> oid \<Longrightarrow> d' = d \<and> aid \<notin> org_api_ids oid' d"
  using get_api_found [of oid aid d a d'] foreign_api [of d a oid'] by auto

lemma view_add_version: "add_version_row v d = (Inr (), d') \<Longrightarrow>
    v_api_id v \<notin> org_api_ids oid d \<Longrightarrow> org_view oid d' = org_view oid d"
  by (auto simp: add_version_row_def prog_simps org_view_defs split: if_splits)

lemma view_delete_version:
  assumes "db_ok d" "v \<in> set (db_versions d)" "v_api_id v \<notin> org_api_ids oid d"
  shows "org_view oid (d\<lparr>db_versions := delete_where (\<lambda>x. v_id x = v_id v) (db_versions d)\<rparr>) = org_view oid d"
proof -
  have "distinct (map v_id (db_versions d))" using db_okD(7) [OF assms(1)] by (simp add: versions_ok_def)
  then have "filter (\<lambda>x. v_api_id x \<in> org_api_ids oid d) (delete_where (\<lambda>x. v_id x = v_id v) (db_versions d)) =
      filter (\<lambda>x. v_api_id x \<in> org_api_ids oid d) (db_versions d)"
    using assms unique_row [of v_id "db_versions d"] by (intro filter_delete_where) metis
  then show ?thesis by (simp add: org_view_defs)
qed

lemma view_apis_only:
  "filter (\<lambda>a. a_organization_id a = oid) as = apis_of_org oid d \<Longrightarrow>
   org_view oid (d\<lparr>db_apis := as\<rparr>) = org_view oid d"
  by (simp add: org_view_defs)

lemma view_rules_only:
  "filter (\<lambda>l. l_api_id l \<in> org_api_ids oid d) ls = filter (\<lambda>l. l_api_id l \<in> org_api_ids oid d) (db_rules d) \<Longrightarrow>
   org_view oid (d\<lparr>db_rules := ls\<rparr>) = org_view oid d"
  by (simp add: org_view_defs)

lemma view_grow_apis:
  "a_organization_id a \<noteq> oid \<Longrightarrow> org_view oid (d\<lparr>db_apis := db_apis d @ [a]\<rparr>) = org_view oid d"
  by (rule view_apis_only) (simp add: apis_of_org_def)

lemma view_delete_api:
  assumes "db_ok d" "a \<in> set (db_apis d)" "a_organization_id a \<noteq> oid"
  shows "org_view oid (delete_apis_where (\<lambda>x. a_id x = a_id a) d) = org_view oid d"
proof -
  have u: "x = a" if "x \<in> set (db_apis d)" "a_id x = a_id a" for x
    using that assms(2) unique_row [of a_id "db_apis d"] db_okD(6) [OF assms(1)] by (simp add: apis_ok_def)
  have "{x \<in> set (db_apis d). a_id x = a_id a} = {a}" using u assms(2) by auto
  then have gone: "a_id ` {x \<in> set (db_apis d). a_id x = a_id a} = {a_id a}" by auto
  have as: "apis_of_org oid (delete_apis_where (\<lambda>x. a_id x = a_id a) d) = apis_of_org oid d"
    unfolding apis_of_org_def delete_apis_frame(1) by (rule filter_delete_where) (use u assms(3) in auto)
  have f: "a_id a \<notin> org_api_ids oid d" by (rule foreign_api [OF assms])
  show ?thesis
    unfolding org_view_def org_api_ids_def as
    unfolding org_api_ids_def [symmetric]
    using f by (simp add: delete_apis_where_def delete_keys_where_def Let_def gone)
      (intro conjI filter_delete_where; auto)
qed

text \<open>Replacing the quotas deletes exactly the API's own rows.\<close>

lemma delete_quota_rows:
  "mapP (\<lambda>q. delete_quota_row (q_id q)) qs d =
   (Inr (map (\<lambda>_. ()) qs), d\<lparr>db_quotas := delete_where (\<lambda>x. q_id x \<in> q_id ` set qs) (db_quotas d)\<rparr>)"
proof (induction qs arbitrary: d)
  case Nil
  have "delete_where (\<lambda>x. False) xs = xs" for xs :: "quota list" by (simp add: delete_where_def)
  then show ?case by (simp add: prog_simps)
next
  case (Cons q qs)
  have "delete_where (\<lambda>x. q_id x \<in> q_id ` set qs) (delete_where (\<lambda>x. q_id x = q_id q) (db_quotas d)) =
      delete_where (\<lambda>x. q_id x \<in> q_id ` set (q # qs)) (db_quotas d)"
    by (auto simp: delete_where_def filter_filter intro: filter_cong)
  then show ?case using Cons.IH by (simp add: prog_simps delete_quota_row_def)
qed

definition add_quotas :: "uuid \<Rightarrow> (uuid \<times> quota_period \<times> int) list \<Rightarrow> quota list dbprog" where
  "add_quotas aid = mapP (\<lambda>(qid, period, max_requests).
     let q = \<lparr> q_id = qid, q_api_id = aid, q_period = period, q_max_requests = max_requests \<rparr>
     in thenP (add_quota q) (ret q))"

lemma set_quotas_run:
  assumes "db_ok d" "get_api oid aid d = (Inr a, d)"
  shows "set_quotas oid aid wanted d =
    add_quotas aid wanted (d\<lparr>db_quotas := delete_where (\<lambda>q. q_api_id q = aid) (db_quotas d)\<rparr>)"
proof -
  let ?own = "filter (\<lambda>q. q_api_id q = aid) (db_quotas d)"
  have u: "distinct (map q_id (db_quotas d))" using db_okD(8) [OF assms(1)] by (simp add: quotas_ok_def)
  have "q_id x \<in> q_id ` set ?own \<longleftrightarrow> q_api_id x = aid" if "x \<in> set (db_quotas d)" for x
    using unique_row [OF u] that by auto
  then have "delete_where (\<lambda>x. q_id x \<in> q_id ` set ?own) (db_quotas d) =
      delete_where (\<lambda>q. q_api_id q = aid) (db_quotas d)"
    unfolding delete_where_def by (intro filter_cong) auto
  then show ?thesis
    using assms(2) by (simp add: set_quotas_def add_quotas_def prog_simps delete_quota_rows list_quotas_for_api_def)
qed

lemma view_add_quotas:
  "aid \<notin> org_api_ids oid d \<Longrightarrow> add_quotas aid wanted d = (Inr qs, d') \<Longrightarrow> org_view oid d' = org_view oid d"
proof (induction wanted arbitrary: d qs)
  case Nil
  then show ?case by (simp add: add_quotas_def prog_simps)
next
  case (Cons w ws)
  obtain i p n where w: "w = (i, p, n)" by (cases w) auto
  let ?q = "\<lparr>q_id = i, q_api_id = aid, q_period = p, q_max_requests = n\<rparr>"
  let ?d = "d\<lparr>db_quotas := db_quotas d @ [?q]\<rparr>"
  obtain qs' where "add_quotas aid ws ?d = (Inr qs', d')"
    using Cons.prems(2) unfolding add_quotas_def w
    by (auto simp: add_quota_def prog_simps Let_def split: if_splits prod.splits sum.splits)
  moreover have "org_view oid ?d = org_view oid d" "aid \<notin> org_api_ids oid ?d"
    using Cons.prems(1) by (simp_all add: org_view_defs)
  ultimately show ?case using Cons.IH by metis
qed

lemma add_quotas_all:
  assumes "db_ok d" "aid \<in> a_id ` set (db_apis d)"
    and "distinct (map fst wanted)" "distinct (map (fst \<circ> snd) wanted)"
    and "set (map fst wanted) \<inter> q_id ` set (db_quotas d) = {}"
    and "\<forall>(i, p, n) \<in> set wanted. (aid, p) \<notin> (\<lambda>q. (q_api_id q, q_period q)) ` set (db_quotas d)"
    and "\<forall>(i, p, n) \<in> set wanted. int32 n"
  shows "add_quotas aid wanted d =
    (let qs = map (\<lambda>(i, p, n). \<lparr>q_id = i, q_api_id = aid, q_period = p, q_max_requests = n\<rparr>) wanted
     in (Inr qs, d\<lparr>db_quotas := db_quotas d @ qs\<rparr>))"
  using assms
proof (induction wanted arbitrary: d)
  case Nil
  then show ?case by (simp add: add_quotas_def prog_simps)
next
  case (Cons w ws)
  obtain i p n where w: "w = (i, p, n)" by (cases w) auto
  let ?q = "\<lparr>q_id = i, q_api_id = aid, q_period = p, q_max_requests = n\<rparr>"
  let ?d = "d\<lparr>db_quotas := db_quotas d @ [?q]\<rparr>"
  have add: "add_quota ?q d = (Inr (), ?d)"
    using Cons.prems w by (auto simp: add_quota_def prog_simps)
  have ok: "db_ok ?d" using preservesD [OF db_ok_add(9) Cons.prems(1), of ?q] add by simp
  have "add_quotas aid ws ?d = (let qs = map (\<lambda>(i, p, n). \<lparr>q_id = i, q_api_id = aid, q_period = p, q_max_requests = n\<rparr>) ws
     in (Inr qs, ?d\<lparr>db_quotas := db_quotas ?d @ qs\<rparr>))"
    by (rule Cons.IH [OF ok]) (use Cons.prems w in \<open>auto simp: rev_image_eqI\<close>)
  then show ?case using add w by (simp add: add_quotas_def prog_simps Let_def)
qed

lemma add_quotas_oversized:
  assumes "\<exists>(i, p, n) \<in> set wanted. \<not> int32 n" "aid \<in> a_id ` set (db_apis d)"
    and "distinct (map fst wanted)" "distinct (map (fst \<circ> snd) wanted)"
    and "set (map fst wanted) \<inter> q_id ` set (db_quotas d) = {}"
    and "\<forall>(i, p, n) \<in> set wanted. (aid, p) \<notin> (\<lambda>q. (q_api_id q, q_period q)) ` set (db_quotas d)"
  shows "fst (add_quotas aid wanted d) = Inl DataError"
  using assms
proof (induction wanted arbitrary: d)
  case (Cons w ws)
  obtain i p n where w: "w = (i, p, n)" by (cases w) auto
  let ?q = "\<lparr>q_id = i, q_api_id = aid, q_period = p, q_max_requests = n\<rparr>"
  let ?d = "d\<lparr>db_quotas := db_quotas d @ [?q]\<rparr>"
  show ?case
  proof (cases "int32 n")
    case False
    then show ?thesis using w by (simp add: add_quotas_def add_quota_def prog_simps Let_def)
  next
    case True
    then have add: "add_quota ?q d = (Inr (), ?d)"
      using Cons.prems w by (auto simp: add_quota_def prog_simps)
    have "fst (add_quotas aid ws ?d) = Inl DataError"
      by (rule Cons.IH) (use Cons.prems w True in \<open>auto simp: rev_image_eqI\<close>)
    then show ?thesis using add w by (auto simp: add_quotas_def prog_simps Let_def split: prod.splits sum.splits)
  qed
qed simp

section \<open>Properties\<close>

definition api_row :: "uuid \<Rightarrow> uuid \<Rightarrow> string \<Rightarrow> api" where
  "api_row i oid slug = \<lparr>a_id = i, a_organization_id = oid, a_name = slug, a_slug = slug,
     a_description = [], a_is_active = True, a_created_at = 0\<rparr>"

text \<open>\<open>org_db\<close> with a second organization, and an API with a daily quota in each.\<close>

definition api_db :: db where
  "api_db = (org_db OWNER OWNER)\<lparr>
     db_orgs := [\<lparr>o_id = 7, o_name = ''acme'', o_slug = ''acme'', o_created_at = 0\<rparr>,
       \<lparr>o_id = 8, o_name = ''other'', o_slug = ''other'', o_created_at = 0\<rparr>],
     db_apis := [api_row 40 7 ''pay'', api_row 41 8 ''pay''],
     db_versions := [\<lparr>v_id = 50, v_api_id = 40, v_version = ''v1'', v_upstream_base_url = ''http://u/'',
       v_is_active = True, v_created_at = 0\<rparr>],
     db_quotas := [\<lparr>q_id = 60, q_api_id = 40, q_period = DAILY, q_max_requests = 5\<rparr>,
       \<lparr>q_id = 61, q_api_id = 41, q_period = DAILY, q_max_requests = 6\<rparr>]\<rparr>"

lemma api_db_ok: "db_ok api_db"
  by (simp add: api_db_def org_db_def api_row_def db_ok_def table_ok_defs empty_db_def alice_def role_row_def
      member_row_def)

lemma api_db_get: "get_api 7 40 api_db = (Inr (api_row 40 7 ''pay''), api_db)"
  unfolding get_api_run [OF api_db_ok] by (simp add: api_db_def api_row_def)

lemma get_api_absent:
  assumes "aid \<notin> org_api_ids oid d"
  shows "get_api oid aid d = (Inl (err NotFoundError ''API not found in this organization.''), d)"
proof -
  have "filter (\<lambda>a. a_id a = aid \<and> a_organization_id a = oid) (db_apis d) = []"
    using assms by (auto simp: filter_empty_conv org_api_ids_def apis_of_org_def)
  then show ?thesis by (simp add: get_api_def get_in_org_def select_one_def prog_simps)
qed

lemma view_set_rate_limit:
  assumes "db_ok d" "oid' \<noteq> oid" "set_rate_limit lid oid aid al n w burst d = (Inr r, d')"
  shows "org_view oid' d' = org_view oid' d"
proof -
  obtain a where "get_api oid aid d = (Inr a, d)"
    using assms(3) reads_run [OF reads_get_api] by (auto simp: set_rate_limit_def thenP_def elim!: bindP_Inr)
  moreover from this have f: "aid \<notin> org_api_ids oid' d" using get_api_foreign [OF assms(1) _ assms(2)] by blast
  ultimately have "d' = d\<lparr>db_rules := db_rules d'\<rparr> \<and>
      filter (\<lambda>l. l_api_id l \<in> org_api_ids oid' d) (db_rules d') = filter (\<lambda>l. l_api_id l \<in> org_api_ids oid' d) (db_rules d)"
  proof (cases "find (\<lambda>l. l_api_id l = aid) (db_rules d)")
    case None
    then show ?thesis
      using assms(3) f \<open>get_api oid aid d = (Inr a, d)\<close>
      by (auto simp: set_rate_limit_def prog_simps get_rule_run [OF assms(1)] add_rule_def Let_def split: if_splits)
  next
    case (Some l)
    have u: "distinct (map l_id (db_rules d))" using db_okD(9) [OF assms(1)] by (simp add: rules_ok_def)
    let ?f = "\<lambda>x. x\<lparr>l_algorithm := al, l_requests := n, l_window_seconds := w, l_burst := burst\<rparr>"
    have d': "d' = d\<lparr>db_rules := update_where (\<lambda>x. l_id x = l_id l) ?f (db_rules d)\<rparr>"
      using assms(3) Some \<open>get_api oid aid d = (Inr a, d)\<close>
      by (auto simp: set_rate_limit_def prog_simps get_rule_run [OF assms(1)] Let_def split: if_splits)
    have "l_api_id x = aid" if "x \<in> set (db_rules d)" "l_id x = l_id l" for x
      using unique_row [OF u that(1) _ that(2)] find_SomeD [OF Some] by simp
    then have "update_where (\<lambda>x. l_id x = l_id l) ?f (db_rules d) = update_where (\<lambda>x. l_id x = l_id l \<and> l_api_id x = aid) ?f (db_rules d)"
      unfolding update_where_def by (intro map_cong) auto
    moreover have "filter (\<lambda>l. l_api_id l \<in> org_api_ids oid' d) (update_where (\<lambda>x. l_id x = l_id l \<and> l_api_id x = aid) ?f (db_rules d)) =
        filter (\<lambda>l. l_api_id l \<in> org_api_ids oid' d) (db_rules d)"
      by (rule filter_update_where) (use f in auto)
    ultimately show ?thesis unfolding d' by simp
  qed
  then show ?thesis using view_rules_only [of oid' d "db_rules d'"] by simp
qed

lemma view_create_api:
  assumes "oid' \<noteq> oid" "create_api now aid oid name slug desc d = (Inr r, d')"
  shows "org_view oid' d' = org_view oid' d"
proof -
  have "preserves (\<lambda>e. org_view oid' e = org_view oid' d) (add_api a)" if "a_organization_id a = oid" for a
    unfolding add_api_def
    by (intro preserves_thenP preserves_raise_if preserves_insert_row)
       (subst view_grow_apis, use that assms(1) in auto)
  then have "preserves (\<lambda>e. org_view oid' e = org_view oid' d) (create_api now aid oid name slug desc)"
    unfolding create_api_def
    by (intro preserves_thenP preserves_bindP preserves_api_slug_conflict
        reads_preserves [OF reads_catalog(7)] reads_preserves [OF reads_get_api]) simp
  from preservesD [OF this, of d] show ?thesis using assms(2) by simp
qed

lemma view_update_api:
  assumes "db_ok d" "oid' \<noteq> oid" "update_api oid aid name desc act d = (Inr r, d')"
  shows "org_view oid' d' = org_view oid' d"
proof -
  obtain a where a: "get_api oid aid d = (Inr a, d)"
    using assms(3) reads_run [OF reads_get_api] by (auto simp: update_api_def elim!: bindP_Inr)
  note got = get_api_found [OF a]
  have u: "x = a" if "x \<in> set (db_apis d)" "a_id x = a_id a" for x
    using that got unique_row [of a_id "db_apis d"] db_okD(6) [OF assms(1)] by (simp add: apis_ok_def)
  define f :: "api \<Rightarrow> api" where "f = (\<lambda>x. x\<lparr>a_name := (case name of None \<Rightarrow> a_name x | Some n \<Rightarrow> n),
           a_description := (case desc of None \<Rightarrow> a_description x | Some t \<Rightarrow> t),
           a_is_active := (case act of None \<Rightarrow> a_is_active x | Some b \<Rightarrow> b)\<rparr>)"
  have org: "a_organization_id (f x) = a_organization_id x" for x by (simp add: f_def)
  have d': "d' = d\<lparr>db_apis := update_where (\<lambda>x. a_id x = a_id a) f (db_apis d)\<rparr>"
    using assms(3) by (simp add: update_api_def a prog_simps Let_def f_def)
  have "update_where (\<lambda>x. a_id x = a_id a) f (db_apis d) = update_where (\<lambda>x. a_id x = a_id a \<and> a_organization_id x = oid) f (db_apis d)"
    unfolding update_where_def using u got by (intro map_cong) auto
  moreover have "filter (\<lambda>x. a_organization_id x = oid')
      (update_where (\<lambda>x. a_id x = a_id a \<and> a_organization_id x = oid) f (db_apis d)) = apis_of_org oid' d"
    unfolding apis_of_org_def by (rule filter_update_where) (use assms(2) in \<open>auto simp: org\<close>)
  ultimately have "filter (\<lambda>x. a_organization_id x = oid') (update_where (\<lambda>x. a_id x = a_id a) f (db_apis d)) = apis_of_org oid' d"
    by simp
  then show ?thesis unfolding d' by (rule view_apis_only)
qed

text \<open>Tenants are isolated. No request to the catalogue of one organization, whoever sends it and
  whatever API or version id it names, changes anything another organization's catalogue holds (its
  APIs, versions, quotas, rate-limit rules or keys), and an operation that names an API the organization
  does not have is a 404 error that changes nothing and returns nothing.\<close>

theorem tenants_isolated:
  assumes "db_ok d" "oid' \<noteq> oid"
  shows "org_view oid' (snd (create_api_endpoint E st now cred aid oid name slug desc d)) = org_view oid' d \<and>
    org_view oid' (snd (update_api_endpoint E st now cred oid aid name' desc' act d)) = org_view oid' d \<and>
    org_view oid' (snd (delete_api_endpoint E st now cred oid aid d)) = org_view oid' d \<and>
    org_view oid' (snd (add_version_endpoint E st now cred vid oid aid ver url b d)) = org_view oid' d \<and>
    org_view oid' (snd (delete_version_endpoint E st now cred oid aid vid d)) = org_view oid' d \<and>
    org_view oid' (snd (set_quota_endpoint E st now cred oid aid wanted d)) = org_view oid' d \<and>
    org_view oid' (snd (set_rate_limit_endpoint E st now cred lid oid aid al n w burst d)) = org_view oid' d \<and>
    (aid \<notin> org_api_ids oid d \<longrightarrow>
      (let nf = err NotFoundError ''API not found in this organization.'' in
       get_api oid aid d = (Inl nf, d) \<and> update_api oid aid name' desc' act d = (Inl nf, d) \<and>
       delete_api oid aid d = (Inl nf, d) \<and> add_version now vid oid aid ver url b d = (Inl nf, d) \<and>
       delete_version oid aid vid d = (Inl nf, d) \<and> set_quotas oid aid wanted d = (Inl nf, d) \<and>
       get_quotas oid aid d = (Inl nf, d) \<and> set_rate_limit lid oid aid al n w burst d = (Inl nf, d) \<and>
       get_rate_limit oid aid d = (Inl nf, d)))"
proof (intro conjI impI)
  let ?P = "\<lambda>e. org_view oid' e = org_view oid' d"
  show "?P (snd (create_api_endpoint E st now cred aid oid name slug desc d))"
    unfolding create_api_endpoint_def
    by (rule authorized_invariant [where P = ?P, OF refl])
       (elim bindP_Inr, auto simp: api_response_def prog_simps dest: view_create_api [OF assms(2)])
  show "?P (snd (update_api_endpoint E st now cred oid aid name' desc' act d))"
    unfolding update_api_endpoint_def
    by (rule authorized_invariant [where P = ?P, OF refl])
       (elim bindP_Inr, auto simp: api_response_def prog_simps dest: view_update_api [OF assms])
  show "?P (snd (delete_api_endpoint E st now cred oid aid d))"
    unfolding delete_api_endpoint_def
    by (rule authorized_invariant [where P = ?P, OF refl])
       (unfold delete_api_def, elim bindP_Inr, use assms(2) in \<open>auto simp: prog_simps dest!: get_api_found
         intro!: view_delete_api [OF assms(1)]\<close>)
  show "?P (snd (add_version_endpoint E st now cred vid oid aid ver url b d))"
    unfolding add_version_endpoint_def
    by (rule authorized_invariant [where P = ?P, OF refl])
       (unfold add_version_def thenP_def Let_def, elim bindP_Inr, auto simp: prog_simps get_active_run [OF assms(1)]
         dest!: get_api_foreign [OF assms(1) _ assms(2)] dest: view_add_version split: if_splits)
  show "?P (snd (delete_version_endpoint E st now cred oid aid vid d))"
    unfolding delete_version_endpoint_def
    by (rule authorized_invariant [where P = ?P, OF refl])
       (unfold delete_version_def thenP_def, elim bindP_Inr, auto simp: prog_simps
         dest!: get_api_foreign [OF assms(1) _ assms(2)] find_SomeD
         intro!: view_delete_version [OF assms(1)] split: option.splits if_splits)
  show "?P (snd (set_quota_endpoint E st now cred oid aid wanted d))"
    unfolding set_quota_endpoint_def
  proof (rule authorized_invariant [where P = ?P, OF refl], elim bindP_Inr)
    fix x d' qs d1
    assume s: "set_quotas oid aid wanted d = (Inr qs, d1)" and "ret (map quota_item qs) d1 = (Inr x, d')"
    obtain a where a: "get_api oid aid d = (Inr a, d)"
      using s reads_run [OF reads_get_api] by (auto simp: set_quotas_def thenP_def elim!: bindP_Inr)
    have f: "aid \<notin> org_api_ids oid' d" using get_api_foreign [OF assms(1) a assms(2)] by simp
    let ?d = "d\<lparr>db_quotas := delete_where (\<lambda>q. q_api_id q = aid) (db_quotas d)\<rparr>"
    have v: "org_view oid' ?d = org_view oid' d" "org_api_ids oid' ?d = org_api_ids oid' d"
      using f by (auto simp: org_view_defs intro!: filter_delete_where)
    have "org_view oid' d1 = org_view oid' ?d"
      using view_add_quotas [of aid oid' ?d wanted qs d1] f s v(2) unfolding set_quotas_run [OF assms(1) a] by simp
    then show "?P d'" using v \<open>ret (map quota_item qs) d1 = (Inr x, d')\<close> by (simp add: prog_simps)
  qed
  show "?P (snd (set_rate_limit_endpoint E st now cred lid oid aid al n w burst d))"
    unfolding set_rate_limit_endpoint_def
    by (rule authorized_invariant [where P = ?P, OF refl]) (rule view_set_rate_limit [OF assms])
next
  assume "aid \<notin> org_api_ids oid d"
  note absent = get_api_absent [OF this]
  show "let nf = err NotFoundError ''API not found in this organization.'' in
       get_api oid aid d = (Inl nf, d) \<and> update_api oid aid name' desc' act d = (Inl nf, d) \<and>
       delete_api oid aid d = (Inl nf, d) \<and> add_version now vid oid aid ver url b d = (Inl nf, d) \<and>
       delete_version oid aid vid d = (Inl nf, d) \<and> set_quotas oid aid wanted d = (Inl nf, d) \<and>
       get_quotas oid aid d = (Inl nf, d) \<and> set_rate_limit lid oid aid al n w burst d = (Inl nf, d) \<and>
       get_rate_limit oid aid d = (Inl nf, d)"
    by (simp add: absent Let_def update_api_def delete_api_def add_version_def delete_version_def set_quotas_def
        get_quotas_def set_rate_limit_def get_rate_limit_def prog_simps)
qed

theorem tenants_isolated_witness:
  "org_view 8 (snd (delete_api_endpoint plain_env default_settings 5 alice_cred 7 40 api_db)) = org_view 8 api_db \<and>
   delete_api 7 41 api_db = (Inl (err NotFoundError ''API not found in this organization.''), api_db)"
proof -
  have "41 \<notin> org_api_ids 7 api_db" by (simp add: org_api_ids_def apis_of_org_def api_db_def api_row_def)
  then show ?thesis
    using tenants_isolated [OF api_db_ok, of 8 7 plain_env default_settings 5 alice_cred 40]
      tenants_isolated [OF api_db_ok, of 8 7 plain_env default_settings 5 alice_cred 41]
    by (simp add: Let_def)
qed

text \<open>Setting an API's quotas replaces the whole set. A request the schema accepts (no period
  twice, positive limits) whose limits fit the column is answered with the new set, reading the quotas
  afterwards returns exactly it, and no other API's quotas change; a limit the schema accepts but the
  32-bit column cannot hold fails with a database error, which the client sees as a 500.\<close>

theorem quotas_replaced:
  assumes "db_ok d" "get_api oid aid d = (Inr a, d)" "quota_config_ok (map snd wanted)"
    and "distinct (map fst wanted)" "set (map fst wanted) \<inter> q_id ` set (db_quotas d) = {}"
  shows "if \<forall>(i, p, n) \<in> set wanted. n < 2 ^ 31
    then \<exists>qs d'. set_quotas oid aid wanted d = (Inr qs, d') \<and> map quota_item qs = map snd wanted \<and>
      get_quotas oid aid d' = (Inr qs, d') \<and>
      (\<forall>b. b \<noteq> aid \<longrightarrow> filter (\<lambda>q. q_api_id q = b) (db_quotas d') = filter (\<lambda>q. q_api_id q = b) (db_quotas d))
    else fst (set_quotas oid aid wanted d) = Inl DataError \<and> hr_status (handle_exn rid DataError) = 500"
proof -
  let ?d = "d\<lparr>db_quotas := delete_where (\<lambda>q. q_api_id q = aid) (db_quotas d)\<rparr>"
  have ok: "db_ok ?d" using db_okD(8) [OF assms(1)] assms(1)
    by (simp add: db_ok_def quotas_ok_def distinct_delete_where fk_delete)
  have aid: "aid \<in> a_id ` set (db_apis ?d)" using get_api_found [OF assms(2)] by auto
  have cfg: "distinct (map (fst \<circ> snd) wanted)" "\<forall>(i, p, n) \<in> set wanted. 0 < n"
    using assms(3) by (auto simp: quota_config_ok_def card_distinct comp_def)
  have fresh: "set (map fst wanted) \<inter> q_id ` set (db_quotas ?d) = {}"
    "\<forall>(i, p, n) \<in> set wanted. (aid, p) \<notin> (\<lambda>q. (q_api_id q, q_period q)) ` set (db_quotas ?d)"
    using assms(5) by (auto simp: table_simps)
  show ?thesis
  proof (cases "\<forall>(i, p, n) \<in> set wanted. n < 2 ^ 31")
    case True
    then have fits: "\<forall>(i, p, n) \<in> set wanted. int32 n" using cfg(2) by (fastforce simp: int32_def)
    define qs where "qs = map (\<lambda>(i, p, n). \<lparr>q_id = i, q_api_id = aid, q_period = p, q_max_requests = n\<rparr>) wanted"
    let ?e = "?d\<lparr>db_quotas := db_quotas ?d @ qs\<rparr>"
    have run: "set_quotas oid aid wanted d = (Inr qs, ?e)"
      unfolding set_quotas_run [OF assms(1,2)] using add_quotas_all [OF ok aid assms(4) cfg(1) fresh fits]
      by (simp add: qs_def Let_def)
    have items: "map quota_item qs = map snd wanted" by (auto simp: qs_def quota_item_def)
    have own: "q_api_id q = aid" if "q \<in> set qs" for q using that by (auto simp: qs_def)
    have "db_ok ?e" using preservesD [OF db_ok_set_quotas assms(1), of oid aid wanted] run by simp
    then have "get_api oid aid ?e = (Inr a, ?e)"
      using assms(2) get_api_run [OF assms(1), of oid aid] by (simp add: get_api_run split: option.splits)
    moreover have "filter (\<lambda>q. q_api_id q = aid) (delete_where (\<lambda>q. q_api_id q = aid) (db_quotas d)) = []"
      by (auto simp: filter_empty_conv table_simps)
    ultimately have "get_quotas oid aid ?e = (Inr qs, ?e)"
      using own by (simp add: get_quotas_def prog_simps list_quotas_for_api_def filter_id_conv)
    moreover have "filter (\<lambda>q. q_api_id q = b) (db_quotas ?e) = filter (\<lambda>q. q_api_id q = b) (db_quotas d)" if "b \<noteq> aid" for b
      using that own filter_delete_where [of "db_quotas d" "\<lambda>q. q_api_id q = aid" "\<lambda>q. q_api_id q = b"]
      by (simp add: filter_empty_conv)
    ultimately show ?thesis using True run items by auto
  next
    case False
    then have "\<exists>(i, p, n) \<in> set wanted. \<not> int32 n" by (auto simp: int32_def)
    from add_quotas_oversized [OF this aid assms(4) cfg(1) fresh] show ?thesis
      using False unfolding set_quotas_run [OF assms(1,2)] by (auto simp: handle_exn_def DataError_def)
  qed
qed

theorem quotas_replaced_witness:
  "(\<exists>d'. get_quotas 7 40 d' = (Inr [\<lparr>q_id = 70, q_api_id = 40, q_period = MONTHLY, q_max_requests = 9\<rparr>], d')) \<and>
   fst (set_quotas 7 40 [(70, DAILY, 2 ^ 31)] api_db) = Inl DataError"
proof -
  have pre: "quota_config_ok (map snd [(70 :: uuid, MONTHLY, 9)])" "quota_config_ok (map snd [(70 :: uuid, DAILY, 2 ^ 31)])"
    "\<And>p n. distinct (map fst [(70 :: uuid, p :: quota_period, n :: int)])"
    "\<And>p n. set (map fst [(70 :: uuid, p :: quota_period, n :: int)]) \<inter> q_id ` set (db_quotas api_db) = {}"
    by (simp_all add: quota_config_ok_def api_db_def)
  obtain qs d' where q: "get_quotas 7 40 d' = (Inr qs, d')"
    "set_quotas 7 40 [(70, MONTHLY, 9)] api_db = (Inr qs, d')"
    using quotas_replaced [OF api_db_ok api_db_get pre(1) pre(3,4)] by auto
  have "qs = [\<lparr>q_id = 70, q_api_id = 40, q_period = MONTHLY, q_max_requests = 9\<rparr>]"
    using q(2) unfolding set_quotas_run [OF api_db_ok api_db_get]
    by (auto simp: add_quotas_def prog_simps Let_def add_quota_def split: if_splits)
  then show ?thesis
    using q quotas_replaced [OF api_db_ok api_db_get pre(2) pre(3,4)] by auto
qed

text \<open>A rate-limit rule the API accepts is the rule in force. Whether the API had a rule or not,
  after the update reading it returns exactly the values of the request, no other API's rule changes,
  and the values are within the bounds every limiter's guarantees assume.\<close>

theorem accepted_rule_in_force:
  assumes "db_ok d" "get_api oid aid d = (Inr a, d)" "rate_limit_config_ok al n w burst"
    and "rule_fits n w burst" "lid \<notin> l_id ` set (db_rules d)"
  shows "\<exists>l d'. set_rate_limit lid oid aid al n w burst d = (Inr l, d') \<and>
    get_rate_limit oid aid d' = (Inr (Some l), d') \<and>
    (l_algorithm l, l_requests l, l_window_seconds l, l_burst l) = (al, n, w, burst) \<and>
    spec_ok \<lparr>sp_requests = l_requests l, sp_window_seconds = l_window_seconds l, sp_burst = l_burst l\<rparr> \<and>
    (\<forall>b. b \<noteq> aid \<longrightarrow> find (\<lambda>l. l_api_id l = b) (db_rules d') = find (\<lambda>l. l_api_id l = b) (db_rules d))"
proof -
  have spec: "spec_ok \<lparr>sp_requests = n, sp_window_seconds = w, sp_burst = burst\<rparr>"
    using assms(3,4) by (auto simp: spec_ok_def rate_limit_config_ok_def rule_fits_def int32_def split: option.splits)
  have u: "distinct (map l_id (db_rules d))" "distinct (map l_api_id (db_rules d))"
    using db_okD(9) [OF assms(1)] by (simp_all add: rules_ok_def)
  have aid: "aid \<in> a_id ` set (db_apis d)" using get_api_found [OF assms(2)] by auto
  have finish: ?thesis
    if run: "set_rate_limit lid oid aid al n w burst d = (Inr l, d\<lparr>db_rules := ls\<rparr>)"
      and l: "(l_algorithm l, l_requests l, l_window_seconds l, l_burst l) = (al, n, w, burst)"
      and now: "find (\<lambda>l. l_api_id l = aid) ls = Some l"
      and others: "\<And>b. b \<noteq> aid \<Longrightarrow> find (\<lambda>l. l_api_id l = b) ls = find (\<lambda>l. l_api_id l = b) (db_rules d)" for l ls
  proof -
    let ?e = "d\<lparr>db_rules := ls\<rparr>"
    have ok: "db_ok ?e" using preservesD [OF db_ok_set_rate_limit assms(1), of lid oid aid al n w burst] run by simp
    have "get_api oid aid ?e = (Inr a, ?e)"
      using assms(2) get_api_run [OF assms(1), of oid aid] by (simp add: get_api_run [OF ok] split: option.splits)
    then have "get_rate_limit oid aid ?e = (Inr (Some l), ?e)"
      using now by (simp add: get_rate_limit_def prog_simps get_rule_run [OF ok])
    then show ?thesis using run l spec others by (intro exI [of _ l] exI [of _ ?e]) auto
  qed
  show ?thesis
  proof (cases "find (\<lambda>l. l_api_id l = aid) (db_rules d)")
    case None
    let ?l = "\<lparr>l_id = lid, l_api_id = aid, l_algorithm = al, l_requests = n, l_window_seconds = w, l_burst = burst\<rparr>"
    have new: "aid \<notin> l_api_id ` set (db_rules d)" using None by (auto simp: find_None_iff)
    then have "set_rate_limit lid oid aid al n w burst d = (Inr ?l, d\<lparr>db_rules := db_rules d @ [?l]\<rparr>)"
      using assms(2,4,5) aid None
      by (simp add: set_rate_limit_def prog_simps get_rule_run [OF assms(1)] add_rule_def Let_def)
    then show ?thesis by (rule finish) (use None in \<open>auto simp: find_append split: option.splits\<close>)
  next
    case (Some r)
    let ?f = "\<lambda>x. x\<lparr>l_algorithm := al, l_requests := n, l_window_seconds := w, l_burst := burst\<rparr>"
    let ?ls = "update_where (\<lambda>x. l_id x = l_id r) ?f (db_rules d)"
    have r: "r \<in> set (db_rules d)" "l_api_id r = aid" using find_SomeD [OF Some] by auto
    have f: "find (\<lambda>l. l_api_id l = b) ?ls =
        map_option (\<lambda>x. if l_id x = l_id r then ?f x else x) (find (\<lambda>l. l_api_id l = b) (db_rules d))" for b
      by (subst find_update_where) auto
    have "set_rate_limit lid oid aid al n w burst d = (Inr (?f r), d\<lparr>db_rules := ?ls\<rparr>)"
      using assms(2,4) Some by (simp add: set_rate_limit_def prog_simps get_rule_run [OF assms(1)])
    then show ?thesis
    proof (rule finish)
      fix b assume b: "b \<noteq> aid"
      have "l_id x \<noteq> l_id r" if "find (\<lambda>l. l_api_id l = b) (db_rules d) = Some x" for x
        using unique_row [OF u(1) _ r(1), of x] find_SomeD [OF that] r(2) b by auto
      then show "find (\<lambda>l. l_api_id l = b) ?ls = find (\<lambda>l. l_api_id l = b) (db_rules d)"
        unfolding f by (cases "find (\<lambda>l. l_api_id l = b) (db_rules d)") auto
    qed (simp_all add: f Some)
  qed
qed

theorem accepted_rule_in_force_witness:
  "\<exists>l d'. set_rate_limit 80 7 40 TOKEN_BUCKET 10 60 (Some 20) api_db = (Inr l, d') \<and>
    get_rate_limit 7 40 d' = (Inr (Some l), d') \<and> l_burst l = Some 20"
proof -
  have "rate_limit_config_ok TOKEN_BUCKET 10 60 (Some 20)" "rule_fits 10 60 (Some 20)" "80 \<notin> l_id ` set (db_rules api_db)"
    by (simp_all add: rate_limit_config_ok_def rule_fits_def int32_def api_db_def org_db_def empty_db_def)
  from accepted_rule_in_force [OF api_db_ok api_db_get this] show ?thesis by auto
qed

end
