(* ===== verification/Telemetry.thy ===== *)
theory Telemetry
  imports ApiCatalog
begin

text \<open>
  \<open>telemetry/events.py\<close>, \<open>services/telemetry\<close>, \<open>services/request_log.py\<close>, \<open>services/audit.py\<close>,
  \<open>repositories/telemetry.py\<close>, \<open>api/request_logs.py\<close>, \<open>api/audit.py\<close> and the \<open>telemetry.publish\<close> task:
  events are rows of an outbox written with the rows they describe, and a worker delivers the pending
  ones to a sink. The sink is an argument (a program on the outside world); how pydantic writes a
  datetime (\<open>isofmt\<close>), \<open>orjson\<close>, HMAC-SHA256 and the HTTP POST are arguments as well.
\<close>

section \<open>What the gateway hands over\<close>

text \<open>\<open>GatewayResponse\<close> and \<open>GatewayOutcome\<close> of \<open>services/gateway.py\<close>; a body is a string of bytes.\<close>

record gateway_response =
  gr_status_code :: int
  gr_headers :: "(string \<times> string) list"
  gr_content :: string

record gateway_outcome =
  go_api_key_id :: uuid
  go_api_id :: uuid
  go_api_version_id :: uuid
  go_organization_id :: uuid
  go_method :: string
  go_path :: string
  go_status_code :: int
  go_latency_ms :: rat
  go_request_bytes :: int
  go_response_bytes :: int
  go_client_ip :: string
  go_upstream_url :: string
  go_timestamp :: instant
  go_response :: gateway_response
  go_rate_limit :: "(string \<times> int) list"

section \<open>Events\<close>

definition SCHEMA_VERSION :: string where "SCHEMA_VERSION = ''1.0''"

text \<open>\<open>TelemetryEnvelope\<close>, with the fields of the subclass as they are dumped.\<close>

record telemetry_event =
  ev_event_type :: string
  ev_event_id :: uuid
  ev_occurred_at :: instant
  ev_fields :: "(string \<times> json) list"

definition to_payload :: "(instant \<Rightarrow> string) \<Rightarrow> telemetry_event \<Rightarrow> json" where
  "to_payload isofmt e = JObj ([(''schema_version'', JStr SCHEMA_VERSION),
     (''event_type'', JStr (ev_event_type e)), (''event_id'', JStr (uuid_str (ev_event_id e))),
     (''occurred_at'', JStr (isofmt (ev_occurred_at e)))] @ ev_fields e)"

definition opt_uuid_json :: "uuid option \<Rightarrow> json" where
  "opt_uuid_json u = (case u of None \<Rightarrow> JNull | Some u \<Rightarrow> JStr (uuid_str u))"

definition request_log_event :: "uuid \<Rightarrow> gateway_outcome \<Rightarrow> telemetry_event" where
  "request_log_event eid g = \<lparr> ev_event_type = ''request_log'', ev_event_id = eid,
     ev_occurred_at = go_timestamp g,
     ev_fields = [
       (''organization_id'', JStr (uuid_str (go_organization_id g))),
       (''api_id'', JStr (uuid_str (go_api_id g))),
       (''api_version_id'', JStr (uuid_str (go_api_version_id g))),
       (''api_key_id'', JStr (uuid_str (go_api_key_id g))),
       (''method'', JStr (go_method g)),
       (''path'', JStr (go_path g)),
       (''status_code'', JInt (go_status_code g)),
       (''latency_ms'', JNum (go_latency_ms g)),
       (''request_bytes'', JInt (go_request_bytes g)),
       (''response_bytes'', JInt (go_response_bytes g)),
       (''client_ip'', JStr (go_client_ip g)),
       (''upstream_url'', JStr (go_upstream_url g))] \<rparr>"

definition audit_log_event ::
  "uuid \<Rightarrow> instant \<Rightarrow> uuid option \<Rightarrow> uuid option \<Rightarrow> string \<Rightarrow> string \<Rightarrow> uuid option \<Rightarrow> string option \<Rightarrow>
   (string \<times> json) list \<Rightarrow> telemetry_event" where
  "audit_log_event eid now org actor action rtype rid ip meta =
     \<lparr> ev_event_type = ''audit_log'', ev_event_id = eid, ev_occurred_at = now,
       ev_fields = [
         (''organization_id'', opt_uuid_json org),
         (''actor_user_id'', opt_uuid_json actor),
         (''action'', JStr action),
         (''resource_type'', JStr rtype),
         (''resource_id'', opt_uuid_json rid),
         (''ip'', opt_str_json ip),
         (''metadata'', JObj meta)] \<rparr>"

text \<open>\<open>OutboxEmitter.emit\<close>; the row's id is drawn, and its \<open>created_at\<close> is the transaction's.\<close>

definition emit :: "(instant \<Rightarrow> string) \<Rightarrow> instant \<Rightarrow> uuid \<Rightarrow> telemetry_event \<Rightarrow> unit dbprog" where
  "emit isofmt now rid e = add_outbox \<lparr> ob_id = rid, ob_event_type = ev_event_type e,
     ob_schema_version = SCHEMA_VERSION, ob_payload = to_payload isofmt e, ob_published_at = None,
     ob_attempts = 0, ob_created_at = now \<rparr>"

section \<open>Usage, request log, audit log\<close>

text \<open>\<open>INSERT ... ON CONFLICT (api_key_id, usage_date) DO UPDATE\<close>.\<close>

definition usage_increment :: "uuid \<Rightarrow> uuid \<Rightarrow> uuid \<Rightarrow> date \<Rightarrow> bool \<Rightarrow> unit dbprog" where
  "usage_increment uid key api day is_error = (\<lambda>d.
     if (key, day) \<in> (\<lambda>u. (ku_api_key_id u, ku_usage_date u)) ` set (db_usage d)
     then (Inr (), d\<lparr>db_usage := update_where (\<lambda>u. ku_api_key_id u = key \<and> ku_usage_date u = day)
            (\<lambda>u. u\<lparr>ku_request_count := ku_request_count u + 1,
                   ku_error_count := ku_error_count u + (if is_error then 1 else 0)\<rparr>) (db_usage d)\<rparr>)
     else insert_row (\<lambda>d. uid \<notin> ku_id ` set (db_usage d) \<and> key \<in> k_id ` set (db_keys d))
       (\<lambda>d. d\<lparr>db_usage := db_usage d @ [\<lparr> ku_id = uid, ku_api_key_id = key, ku_api_id = api,
          ku_usage_date = day, ku_request_count = 1, ku_error_count = (if is_error then 1 else 0) \<rparr>]\<rparr>) d)"

text \<open>The ids one record draws: of the log row, the usage row, the event and the outbox row.\<close>

record record_ids =
  ri_log :: uuid
  ri_usage :: uuid
  ri_event :: uuid
  ri_outbox :: uuid

definition log_row :: "instant \<Rightarrow> uuid \<Rightarrow> gateway_outcome \<Rightarrow> request_log" where
  "log_row now lid g = \<lparr> g_id = lid, g_organization_id = go_organization_id g, g_api_id = go_api_id g,
     g_api_version_id = go_api_version_id g, g_api_key_id = Some (go_api_key_id g),
     g_method = go_method g, g_path = go_path g, g_status_code = go_status_code g,
     g_latency_ms = go_latency_ms g, g_request_bytes = go_request_bytes g,
     g_response_bytes = go_response_bytes g, g_client_ip = go_client_ip g,
     g_upstream_url = go_upstream_url g, g_created_at = now \<rparr>"

definition record_request :: "(instant \<Rightarrow> string) \<Rightarrow> instant \<Rightarrow> record_ids \<Rightarrow> gateway_outcome \<Rightarrow> unit dbprog" where
  "record_request isofmt now ids g =
     thenP (add_log (log_row now (ri_log ids) g))
     (thenP (usage_increment (ri_usage ids) (go_api_key_id g) (go_api_id g)
               (date_of (go_timestamp g)) (500 \<le> go_status_code g))
     (emit isofmt now (ri_outbox ids) (request_log_event (ri_event ids) g)))"

definition record_audit ::
  "(instant \<Rightarrow> string) \<Rightarrow> instant \<Rightarrow> uuid \<Rightarrow> uuid \<Rightarrow> uuid \<Rightarrow> string \<Rightarrow> string \<Rightarrow> uuid option \<Rightarrow> uuid option \<Rightarrow>
   uuid option \<Rightarrow> string option \<Rightarrow> (string \<times> json) list option \<Rightarrow> unit dbprog" where
  "record_audit isofmt now aid eid oid action rtype org actor rid ip metadata =
     (let meta = (case metadata of None \<Rightarrow> [] | Some m \<Rightarrow> m)
      in thenP (add_audit \<lparr> al_id = aid, al_organization_id = org, al_actor_user_id = actor,
             al_action = action, al_resource_type = rtype, al_resource_id = rid, al_ip = ip,
             al_metadata = meta, al_created_at = now \<rparr>)
         (emit isofmt now oid (audit_log_event eid now org actor action rtype rid ip meta)))"

section \<open>Search\<close>

text \<open>SQL \<open>LIKE\<close>: \<open>%\<close> is any string, \<open>_\<close> any character, and a backslash takes the next character
  as it is; \<open>ILIKE\<close> ignores case.\<close>

fun like :: "string \<Rightarrow> string \<Rightarrow> bool" where
  "like [] s \<longleftrightarrow> s = []"
| "like (p # ps) [] \<longleftrightarrow> p = CHR ''%'' \<and> like ps []"
| "like (p # ps) (c # s) \<longleftrightarrow>
     (if p = CHR ''%'' then like ps (c # s) \<or> like (p # ps) s
      else if p = CHR ''_'' then like ps s
      else if p = CHR 92 then (case ps of [] \<Rightarrow> False | q # qs \<Rightarrow> c = q \<and> like qs s)
      else p = c \<and> like ps s)"

definition ilike :: "string \<Rightarrow> string \<Rightarrow> bool" where
  "ilike pattern s = like (str_lower pattern) (str_lower s)"

record log_filter =
  lf_api_id :: "uuid option"
  lf_method :: "string option"
  lf_status_min :: "int option"
  lf_status_max :: "int option"
  lf_path_contains :: "string option"
  lf_since :: "instant option"
  lf_until :: "instant option"

definition given :: "'a option \<Rightarrow> ('a \<Rightarrow> bool) \<Rightarrow> bool" where
  "given x P = (case x of None \<Rightarrow> True | Some v \<Rightarrow> P v)"

definition log_matches :: "uuid \<Rightarrow> log_filter \<Rightarrow> request_log \<Rightarrow> bool" where
  "log_matches oid f g \<longleftrightarrow> g_organization_id g = oid \<and>
     given (lf_api_id f) (\<lambda>i. g_api_id g = i) \<and>
     given (lf_method f) (\<lambda>m. g_method g = str_upper m) \<and>
     given (lf_status_min f) (\<lambda>n. n \<le> g_status_code g) \<and>
     given (lf_status_max f) (\<lambda>n. g_status_code g \<le> n) \<and>
     given (lf_path_contains f) (\<lambda>p. p \<noteq> [] \<longrightarrow> ilike (''%'' @ p @ ''%'') (g_path g)) \<and>
     given (lf_since f) (\<lambda>t. t \<le> g_created_at g) \<and>
     given (lf_until f) (\<lambda>t. g_created_at g \<le> t)"

definition search_logs :: "uuid \<Rightarrow> log_filter \<Rightarrow> nat \<Rightarrow> nat \<Rightarrow> (request_log list \<times> nat) dbprog" where
  "search_logs oid f lmt off = gets (\<lambda>d. let hits = filter (log_matches oid f) (db_logs d)
     in (page lmt off (order_desc g_created_at hits), length hits))"

definition list_audit_for_org :: "uuid \<Rightarrow> nat \<Rightarrow> nat \<Rightarrow> audit_log list dbprog" where
  "list_audit_for_org oid lmt off = gets (\<lambda>d.
     page lmt off (order_desc al_created_at (filter (\<lambda>a. al_organization_id a = Some oid) (db_audit d))))"

definition search_request_logs_endpoint where
  "search_request_logs_endpoint E st now cred oid f lmt off =
     authorized E st now cred ANALYTICS_READ oid (\<lambda>_. search_logs oid f lmt off)"

definition list_audit_logs_endpoint where
  "list_audit_logs_endpoint E st now cred oid lmt off =
     authorized E st now cred AUDIT_READ oid (\<lambda>_. list_audit_for_org oid lmt off)"

section \<open>Sinks\<close>

type_synonym 'k sink = "json list \<Rightarrow> ('k, exn, unit) prog"

text \<open>\<open>LoggingSink\<close>: the world is the log.\<close>

definition logging_sink :: "json list sink" where
  "logging_sink events = modifyP (\<lambda>log. log @ events)"

text \<open>\<open>HttpForwarderSink\<close>. \<open>post url headers body\<close> is the HTTP client; its answer is the status, and
  \<open>raise_for_status\<close> raises unless it is a 2xx.\<close>

definition sign_headers ::
  "(string \<Rightarrow> string \<Rightarrow> string) \<Rightarrow> string \<Rightarrow> int \<Rightarrow> uuid \<Rightarrow> string \<Rightarrow> (string \<times> string) list" where
  "sign_headers hmac secret now nonce body =
     (let timestamp = int_str now; message = timestamp @ ''.'' @ uuid_str nonce @ ''.'' @ body
      in [(''content-type'', ''application/json''), (''x-telemetry-timestamp'', timestamp),
          (''x-telemetry-nonce'', uuid_str nonce), (''x-telemetry-signature'', hmac secret message)])"

definition http_forwarder_sink ::
  "(json \<Rightarrow> string) \<Rightarrow> (string \<Rightarrow> string \<Rightarrow> string) \<Rightarrow>
   (string \<Rightarrow> (string \<times> string) list \<Rightarrow> string \<Rightarrow> ('k, exn, int) prog) \<Rightarrow> string \<Rightarrow> string \<Rightarrow>
   int \<Rightarrow> uuid \<Rightarrow> 'k sink" where
  "http_forwarder_sink dumps hmac post url secret now nonce events =
     (let body = dumps (JObj [(''events'', JList events)])
      in bindP (post url (sign_headers hmac secret now nonce body) body) (\<lambda>status.
         raise_if (\<not> (200 \<le> status \<and> status < 300)) (PyExc ''HTTPStatusError'')))"

definition get_sink :: "settings \<Rightarrow> 'k sink \<Rightarrow> (string \<Rightarrow> string \<Rightarrow> 'k sink) \<Rightarrow> 'k sink" where
  "get_sink st logging forwarder =
     (if s_telemetry_forward_url st \<noteq> [] then forwarder (s_telemetry_forward_url st) (s_telemetry_forward_hmac_secret st)
      else logging)"

section \<open>The publisher\<close>

definition pending :: "db \<Rightarrow> telemetry_outbox list" where
  "pending d = sort_key ob_created_at (filter (\<lambda>r. ob_published_at r = None) (db_outbox d))"

text \<open>The rows another worker holds are skipped: \<open>locked\<close>.\<close>

definition claim_batch :: "uuid set \<Rightarrow> nat \<Rightarrow> db \<Rightarrow> telemetry_outbox list" where
  "claim_batch locked n d = take n (filter (\<lambda>r. ob_id r \<notin> locked) (pending d))"

definition touch_rows :: "uuid set \<Rightarrow> instant option \<Rightarrow> db \<Rightarrow> db" where
  "touch_rows ids published d = d\<lparr>db_outbox := update_where (\<lambda>r. ob_id r \<in> ids)
     (\<lambda>r. r\<lparr>ob_published_at := (case published of None \<Rightarrow> ob_published_at r | Some t \<Rightarrow> Some t),
            ob_attempts := ob_attempts r + 1\<rparr>) (db_outbox d)\<rparr>"

definition drain_outbox ::
  "'k sink \<Rightarrow> nat \<Rightarrow> uuid set \<Rightarrow> instant \<Rightarrow> (db \<times> 'k, exn, nat) prog" where
  "drain_outbox sink batch_size locked now = (\<lambda>(d, k).
     let rows = claim_batch locked batch_size d; ids = ob_id ` set rows
     in if rows = [] then (Inr 0, (d, k))
        else case sink (map ob_payload rows) k of
          (Inl e, k') \<Rightarrow> (Inl e, (touch_rows ids None d, k'))
        | (Inr _, k') \<Rightarrow> (Inr (length rows), (touch_rows ids (Some now) d, k')))"

text \<open>The loop of \<open>_publish_telemetry\<close>: \<open>n\<close> rounds left. In round \<open>i\<close> the clock reads \<open>clk i\<close> and the
  rows \<open>locked i\<close> are held elsewhere.\<close>

fun publish_loop ::
  "'k sink \<Rightarrow> (nat \<Rightarrow> uuid set) \<Rightarrow> (nat \<Rightarrow> instant) \<Rightarrow> nat \<Rightarrow> nat \<Rightarrow> nat \<Rightarrow> (db \<times> 'k, exn, nat) prog" where
  "publish_loop sink locked clk 0 i acc = ret acc"
| "publish_loop sink locked clk (Suc n) i acc =
     bindP (drain_outbox sink 200 (locked i) (clk i)) (\<lambda>count.
       if count = 0 then ret acc
       else publish_loop sink locked clk n (Suc i) (acc + count))"

text \<open>\<open>async with session_scope()\<close> around the loop: what the sink received is not rolled back.\<close>

definition publish_telemetry ::
  "'k sink \<Rightarrow> (nat \<Rightarrow> uuid set) \<Rightarrow> (nat \<Rightarrow> instant) \<Rightarrow> (db \<times> 'k, exn, nat) prog" where
  "publish_telemetry sink locked clk = (\<lambda>(d, k). case publish_loop sink locked clk 50 0 0 (d, k) of
     (Inl e, (d', k')) \<Rightarrow> (Inl e, (d, k')) | (Inr n, s') \<Rightarrow> (Inr n, s'))"

section \<open>The constraints survive\<close>

lemma db_ok_emit [prog_keeps]: "preserves db_ok (emit isofmt now rid e)"
  unfolding emit_def by (intro prog_keeps)

lemma db_ok_usage_increment [prog_keeps]: "preserves db_ok (usage_increment uid key api day er)"
proof (rule preservesI)
  fix d
  assume ok: "db_ok d"
  show "db_ok (snd (usage_increment uid key api day er d))"
  proof (cases "(key, day) \<in> (\<lambda>u. (ku_api_key_id u, ku_usage_date u)) ` set (db_usage d)")
    case True
    then show ?thesis using db_ok_update_usage [OF ok] by (simp add: usage_increment_def)
  next
    case False
    then show ?thesis using ok by (auto simp: usage_increment_def prog_simps db_ok_def usage_ok_def)
  qed
qed

lemma db_ok_record_request [prog_keeps]: "preserves db_ok (record_request isofmt now ids g)"
  unfolding record_request_def by (intro prog_keeps)

lemma db_ok_record_audit [prog_keeps]:
  "preserves db_ok (record_audit isofmt now aid eid oid action rtype org actor rid ip meta)"
  unfolding record_audit_def Let_def by (intro prog_keeps)

lemma reads_search [prog_keeps]: "reads (search_logs oid f l off)" "reads (list_audit_for_org oid l off)"
  by (simp_all add: search_logs_def list_audit_for_org_def prog_keeps)

section \<open>Usage counts\<close>

definition requests_of :: "uuid \<Rightarrow> db \<Rightarrow> int" where
  "requests_of key d = sum_list (map ku_request_count (filter (\<lambda>u. ku_api_key_id u = key) (db_usage d)))"

definition errors_of :: "uuid \<Rightarrow> db \<Rightarrow> int" where
  "errors_of key d = sum_list (map ku_error_count (filter (\<lambda>u. ku_api_key_id u = key) (db_usage d)))"

definition logs_of :: "uuid \<Rightarrow> db \<Rightarrow> request_log list" where
  "logs_of key d = filter (\<lambda>g. g_api_key_id g = Some key) (db_logs d)"

definition usage_matches :: "db \<Rightarrow> bool" where
  "usage_matches d \<longleftrightarrow> (\<forall>k \<in> set (db_keys d). requests_of (k_id k) d = int (length (logs_of (k_id k) d)) \<and>
     errors_of (k_id k) d = int (length (filter (\<lambda>g. 500 \<le> g_status_code g) (logs_of (k_id k) d))))"

text \<open>Bumping the one row a key selects adds to any sum that row is part of.\<close>

lemma sum_bump:
  fixes c :: int
  assumes "distinct (map k xs)" "v \<in> k ` set xs" "\<And>y. k y = v \<Longrightarrow> P y \<and> P (g y) \<and> f (g y) = f y + c"
  shows "sum_list (map f (filter P (update_where (\<lambda>y. k y = v) g xs))) = sum_list (map f (filter P xs)) + c"
  using assms(1,2)
proof (induction xs)
  case (Cons x xs)
  show ?case
  proof (cases "k x = v")
    case True
    then have "update_where (\<lambda>y. k y = v) g xs = xs" using Cons.prems(1) by (intro update_where_none) (force simp: image_iff)
    then show ?thesis using assms(3) [OF True] True by (simp add: table_simps)
  next
    case False
    then show ?thesis using Cons by (auto simp: table_simps)
  qed
qed simp

lemma usage_increment_sums:
  assumes "db_ok d" "usage_increment uid key api day er d = (Inr (), d')"
  shows "requests_of k d' = requests_of k d + (if k = key then 1 else 0) \<and>
    errors_of k d' = errors_of k d + (if k = key \<and> er then 1 else 0) \<and> d' = d\<lparr>db_usage := db_usage d'\<rparr>"
proof (cases "(key, day) \<in> (\<lambda>u. (ku_api_key_id u, ku_usage_date u)) ` set (db_usage d)")
  case True
  let ?k = "\<lambda>u. (ku_api_key_id u, ku_usage_date u)"
  let ?g = "\<lambda>u. u\<lparr>ku_request_count := ku_request_count u + 1, ku_error_count := ku_error_count u + (if er then 1 else 0)\<rparr>"
  have d': "d' = d\<lparr>db_usage := update_where (\<lambda>u. ?k u = (key, day)) ?g (db_usage d)\<rparr>"
    using assms(2) True by (simp add: usage_increment_def)
  have u: "distinct (map ?k (db_usage d))" using db_okD(11) [OF assms(1)] by (simp add: usage_ok_def)
  show ?thesis
  proof (cases "k = key")
    case True
    then show ?thesis
      using sum_bump [OF u \<open>(key, day) \<in> _\<close>, of "\<lambda>u. ku_api_key_id u = key" ?g ku_request_count 1]
        sum_bump [OF u \<open>(key, day) \<in> _\<close>, of "\<lambda>u. ku_api_key_id u = key" ?g ku_error_count "if er then 1 else 0"]
      unfolding requests_of_def errors_of_def d' by simp
  next
    case False
    have "filter (\<lambda>u. ku_api_key_id u = k) (update_where (\<lambda>u. ?k u = (key, day)) ?g (db_usage d)) =
        filter (\<lambda>u. ku_api_key_id u = k) (db_usage d)"
      by (rule filter_update_where) (use False in auto)
    then show ?thesis using False unfolding requests_of_def errors_of_def d' by simp
  qed
next
  case False
  then show ?thesis
    using assms(2) by (auto simp: usage_increment_def prog_simps requests_of_def errors_of_def split: if_splits)
qed

definition logged_outcome :: "string \<Rightarrow> int \<Rightarrow> gateway_outcome" where
  "logged_outcome ip status = \<lparr> go_api_key_id = 90, go_api_id = 40, go_api_version_id = 50, go_organization_id = 7,
     go_method = ''GET'', go_path = ''x'', go_status_code = status, go_latency_ms = 1, go_request_bytes = 0,
     go_response_bytes = 0, go_client_ip = ip, go_upstream_url = ''http://u/'', go_timestamp = 5,
     go_response = \<lparr>gr_status_code = status, gr_headers = [], gr_content = []\<rparr>, go_rate_limit = []\<rparr>"

definition key_row :: "uuid \<Rightarrow> string \<Rightarrow> instant option \<Rightarrow> api_key" where
  "key_row i h ex = \<lparr>k_id = i, k_api_id = 40, k_organization_id = 7, k_name = ''k'', k_prefix = ''p'',
     k_last_four = ''1234'', k_key_hash = h, k_created_by_user_id = Some 1, k_expires_at = ex,
     k_revoked_at = None, k_rotated_to = None, k_created_at = 0\<rparr>"

definition key_db :: "instant option \<Rightarrow> db" where
  "key_db ex = api_db\<lparr>db_keys := [key_row 90 ''hash'' ex]\<rparr>"

lemma key_db_ok: "db_ok (key_db ex)"
  using api_db_ok
  by (simp add: db_ok_def key_db_def keys_ok_def key_row_def usage_ok_def api_db_def api_row_def org_db_def empty_db_def)

text \<open>What a proxied request leaves in the database is all or nothing and counted once. When its
  record is written, exactly one request log and one pending outbox event with the log's own values are
  added, and every key's usage rows still add up to the number of its logged requests, and to the number
  of those that failed with a 5xx; when a value does not fit its column (a forwarded client address
  longer than 64 characters is enough) nothing of the record remains.\<close>

theorem request_counted_once:
  assumes "db_ok d" "usage_matches d"
  shows "case session_scope (record_request isofmt now ids g) d of
    (Inr _, d') \<Rightarrow> db_logs d' = db_logs d @ [log_row now (ri_log ids) g] \<and>
      db_outbox d' = db_outbox d @ [\<lparr>ob_id = ri_outbox ids, ob_event_type = ''request_log'',
        ob_schema_version = SCHEMA_VERSION, ob_payload = to_payload isofmt (request_log_event (ri_event ids) g),
        ob_published_at = None, ob_attempts = 0, ob_created_at = now\<rparr>] \<and> usage_matches d'
  | (Inl e, d') \<Rightarrow> d' = d"
proof (cases "record_request isofmt now ids g d")
  case (Pair r d3)
  show ?thesis
  proof (cases r)
    case (Inl e)
    then show ?thesis using Pair by (simp add: prog_simps)
  next
    case (Inr x)
    let ?d1 = "d\<lparr>db_logs := db_logs d @ [log_row now (ri_log ids) g]\<rparr>"
    have log: "add_log (log_row now (ri_log ids) g) d = (Inr (), ?d1)"
      using Pair Inr by (auto simp: record_request_def prog_simps add_log_def split: if_splits)
    have ok1: "db_ok ?d1" using preservesD [OF db_ok_add(12) assms(1), of "log_row now (ri_log ids) g"] log by simp
    obtain d2 where u: "usage_increment (ri_usage ids) (go_api_key_id g) (go_api_id g) (date_of (go_timestamp g))
        (500 \<le> go_status_code g) ?d1 = (Inr (), d2)"
      and e: "emit isofmt now (ri_outbox ids) (request_log_event (ri_event ids) g) d2 = (Inr (), d3)"
      using Pair Inr log by (auto simp: record_request_def thenP_def elim!: bindP_Inr)
    note sums = usage_increment_sums [OF ok1 u]
    have d3: "d3 = d2\<lparr>db_outbox := db_outbox d2 @ [\<lparr>ob_id = ri_outbox ids, ob_event_type = ''request_log'',
        ob_schema_version = SCHEMA_VERSION, ob_payload = to_payload isofmt (request_log_event (ri_event ids) g),
        ob_published_at = None, ob_attempts = 0, ob_created_at = now\<rparr>]\<rparr>"
      using e by (auto simp: emit_def add_outbox_def prog_simps request_log_event_def split: if_splits)
    have same: "db_keys d2 = db_keys d" "db_logs d2 = db_logs ?d1" "db_outbox d2 = db_outbox d"
      using sums by (metis (no_types, lifting) db.select_convs db.surjective db.update_convs)+
    have "usage_matches d3"
      using assms(2) sums same
      unfolding usage_matches_def requests_of_def errors_of_def logs_of_def d3
      by (auto simp: log_row_def)
    then show ?thesis using Pair Inr d3 same by (simp add: prog_simps)
  qed
qed

theorem request_counted_once_witness:
  "(\<exists>d'. session_scope (record_request (\<lambda>_. []) 9 \<lparr>ri_log = 1, ri_usage = 2, ri_event = 3, ri_outbox = 4\<rparr>
      (logged_outcome ''1.2.3.4'' 502)) (key_db None) = (Inr (), d') \<and> usage_matches d' \<and> requests_of 90 d' = 1 \<and> errors_of 90 d' = 1) \<and>
   session_scope (record_request (\<lambda>_. []) 9 \<lparr>ri_log = 1, ri_usage = 2, ri_event = 3, ri_outbox = 4\<rparr>
      (logged_outcome (replicate 65 CHR ''1'') 200)) (key_db None) = (Inl DataError, key_db None)"
proof -
  let ?ids = "\<lparr>ri_log = 1, ri_usage = 2, ri_event = 3, ri_outbox = 4\<rparr>"
  have empty: "db_logs (key_db None) = []" "db_usage (key_db None) = []" "db_outbox (key_db None) = []"
    "db_keys (key_db None) = [key_row 90 ''hash'' None]"
    by (simp_all add: key_db_def api_db_def org_db_def empty_db_def)
  have start: "usage_matches (key_db None)"
    by (simp add: usage_matches_def requests_of_def errors_of_def logs_of_def empty)
  obtain d' where run: "session_scope (record_request (\<lambda>_. []) 9 ?ids (logged_outcome ''1.2.3.4'' 502)) (key_db None) = (Inr (), d')"
    by (simp add: record_request_def prog_simps add_log_def log_fits_def log_row_def int32_def empty usage_increment_def
        emit_def add_outbox_def logged_outcome_def key_row_def)
  then have "usage_matches d'" "db_logs d' = [log_row 9 1 (logged_outcome ''1.2.3.4'' 502)]"
    using request_counted_once [OF key_db_ok start, where isofmt = "\<lambda>_. []" and now = 9 and ids = ?ids
        and g = "logged_outcome ''1.2.3.4'' 502"] empty by auto
  moreover have "key_row 90 ''hash'' None \<in> set (db_keys d')"
    using run by (auto simp: record_request_def prog_simps add_log_def usage_increment_def emit_def add_outbox_def
        empty split: if_splits)
  ultimately have "requests_of 90 d' = 1 \<and> errors_of 90 d' = 1"
    unfolding usage_matches_def by (auto simp: logs_of_def log_row_def logged_outcome_def key_row_def)
  moreover have "record_request (\<lambda>_. []) 9 ?ids (logged_outcome (replicate 65 CHR ''1'') 200) (key_db None) =
      (Inl DataError, key_db None)"
    by (simp add: record_request_def prog_simps add_log_def log_fits_def log_row_def logged_outcome_def)
  ultimately show ?thesis using run \<open>usage_matches d'\<close> by (auto simp: session_scope_run)
qed

section \<open>Delivery\<close>

lemma filter_drop_taken:
  assumes "distinct (map k xs)"
  shows "filter (\<lambda>x. k x \<notin> k ` set (take n xs)) xs = drop n xs"
proof -
  have "filter (\<lambda>x. k x \<notin> k ` set (take n xs)) (take n xs) = []"
    by (simp add: filter_empty_conv)
  then have "filter (\<lambda>x. k x \<notin> k ` set (take n xs)) xs = filter (\<lambda>x. k x \<notin> k ` set (take n xs)) (drop n xs)"
    by (metis (no_types, lifting) append_Nil append_take_drop_id filter_append)
  moreover have "k x \<notin> k ` set (take n xs)" if "x \<in> set (drop n xs)" for x
  proof -
    have "distinct (map k (take n xs) @ map k (drop n xs))"
      using assms by (metis append_take_drop_id map_append)
    then have "k ` set (take n xs) \<inter> k ` set (drop n xs) = {}" by simp
    then show ?thesis using that by blast
  qed
  ultimately show ?thesis by (simp add: filter_id_conv)
qed

lemma distinct_pending: "db_ok d \<Longrightarrow> distinct (map ob_id (pending d))"
proof -
  assume "db_ok d"
  then have d: "distinct (map ob_id (db_outbox d))" using db_okD(14) [of d] by (simp add: streams_ok_def)
  then have "distinct (map ob_id (filter (\<lambda>r. ob_published_at r = None) (db_outbox d)))"
    by (simp add: distinct_map_filter)
  then show ?thesis by (simp add: pending_def distinct_map)
qed

lemma pending_touch:
  "pending (touch_rows ids (Some now) d) = filter (\<lambda>r. ob_id r \<notin> ids) (pending d)"
proof -
  let ?f = "\<lambda>r. r\<lparr>ob_published_at := Some now, ob_attempts := ob_attempts r + 1\<rparr>"
  have "filter (\<lambda>r. ob_published_at r = None) (update_where (\<lambda>r. ob_id r \<in> ids) ?f xs) =
      filter (\<lambda>r. ob_id r \<notin> ids) (filter (\<lambda>r. ob_published_at r = None) xs)" for xs :: "telemetry_outbox list"
    by (induction xs) (auto simp: table_simps)
  then show ?thesis by (simp add: pending_def touch_rows_def filter_sort)
qed

lemma pending_after:
  "db_ok d \<Longrightarrow> pending (touch_rows (ob_id ` set (take n (pending d))) (Some now) d) = drop n (pending d)"
  unfolding pending_touch by (rule filter_drop_taken [OF distinct_pending])

lemma db_ok_touch: "db_ok d \<Longrightarrow> db_ok (touch_rows ids p d)"
  unfolding touch_rows_def by (rule db_ok_update_outbox) auto

lemma drain_logging:
  assumes "db_ok d" "0 < n"
  shows "\<exists>d'. drain_outbox logging_sink n {} now (d, lg) =
      (Inr (min n (length (pending d))), (d', lg @ map ob_payload (take n (pending d)))) \<and>
    db_ok d' \<and> pending d' = drop n (pending d)"
proof (cases "pending d = []")
  case True
  then show ?thesis using assms by (auto simp: drain_outbox_def claim_batch_def Let_def)
next
  case False
  then have "take n (pending d) \<noteq> []" using assms(2) by simp
  then show ?thesis
    using pending_after [OF assms(1), of n now] db_ok_touch [OF assms(1)]
    by (auto simp: drain_outbox_def claim_batch_def Let_def logging_sink_def prog_simps min_def)
qed

lemma publish_loop_logging:
  "db_ok d \<Longrightarrow> \<exists>d'. publish_loop logging_sink (\<lambda>_. {}) clk n i acc (d, lg) =
      (Inr (acc + min (200 * n) (length (pending d))), (d', lg @ map ob_payload (take (200 * n) (pending d)))) \<and>
    db_ok d' \<and> pending d' = drop (200 * n) (pending d)"
proof (induction n arbitrary: d i acc lg)
  case 0
  then show ?case by (simp add: prog_simps)
next
  case (Suc n)
  obtain d1 where d1: "drain_outbox logging_sink 200 {} (clk i) (d, lg) =
      (Inr (min 200 (length (pending d))), (d1, lg @ map ob_payload (take 200 (pending d))))"
    "db_ok d1" "pending d1 = drop 200 (pending d)"
    using drain_logging [OF Suc.prems, of 200 "clk i" lg] by auto
  show ?case
  proof (cases "pending d = []")
    case True
    then show ?thesis using d1 by (auto simp: prog_simps)
  next
    case False
    obtain d2 where d2: "publish_loop logging_sink (\<lambda>_. {}) clk n (Suc i) (acc + min 200 (length (pending d)))
        (d1, lg @ map ob_payload (take 200 (pending d))) =
      (Inr (acc + min 200 (length (pending d)) + min (200 * n) (length (pending d1))),
       (d2, (lg @ map ob_payload (take 200 (pending d))) @ map ob_payload (take (200 * n) (pending d1))))"
      "db_ok d2" "pending d2 = drop (200 * n) (pending d1)"
      using Suc.IH [OF d1(2)] by blast
    have "take (200 * Suc n) (pending d) = take 200 (pending d) @ take (200 * n) (drop 200 (pending d))"
      by (metis mult_Suc_right take_add)
    moreover have "drop (200 * Suc n) (pending d) = drop (200 * n) (drop 200 (pending d))" by (simp add: add.commute)
    moreover have "min 200 (length (pending d)) + min (200 * n) (length (pending d) - 200) =
        min (200 * Suc n) (length (pending d))" by simp
    ultimately show ?thesis using False d1 d2 by (simp add: prog_simps add.assoc)
  qed
qed

text \<open>C38: a run of the publisher delivers each pending event once, oldest first. With the default
  sink and no other worker, one run delivers exactly the oldest 10000 pending events in the order of
  their creation, reports their number, and leaves exactly the rest pending; so a run that finds no
  more than 10000 leaves none.\<close>

theorem publish_delivers_in_order:
  assumes "db_ok d"
  shows "\<exists>d'. publish_telemetry logging_sink (\<lambda>_. {}) clk (d, lg) =
      (Inr (min 10000 (length (pending d))), (d', lg @ map ob_payload (take 10000 (pending d)))) \<and>
    pending d' = drop 10000 (pending d)"
  using publish_loop_logging [OF assms, of clk 50 0 0 lg] by (auto simp: publish_telemetry_def)

definition outbox_row :: "uuid \<Rightarrow> instant \<Rightarrow> telemetry_outbox" where
  "outbox_row i t = \<lparr>ob_id = i, ob_event_type = ''request_log'', ob_schema_version = SCHEMA_VERSION,
     ob_payload = JInt t, ob_published_at = None, ob_attempts = 0, ob_created_at = t\<rparr>"

definition outbox_db :: db where
  "outbox_db = empty_db\<lparr>db_outbox := [outbox_row 1 20, outbox_row 2 10]\<rparr>"

lemma outbox_db_ok: "db_ok outbox_db"
  by (simp add: outbox_db_def outbox_row_def db_ok_def table_ok_defs empty_db_def)

lemma outbox_db_pending: "pending outbox_db = [outbox_row 2 10, outbox_row 1 20]"
  by (simp add: pending_def outbox_db_def outbox_row_def)

theorem publish_delivers_in_order_witness:
  "\<exists>d'. publish_telemetry logging_sink (\<lambda>_. {}) (\<lambda>_. 30) (outbox_db, []) = (Inr 2, (d', [JInt 10, JInt 20])) \<and>
    pending d' = []"
  using publish_delivers_in_order [OF outbox_db_ok, of "\<lambda>_. 30" "[]"] by (simp add: outbox_db_pending outbox_row_def numeral_2_eq_2)

text \<open>C39: a failed delivery is not counted. The publisher is meant to leave the failed batch pending
  with one attempt more, and \<open>drain_outbox\<close> does write that; but it re-raises inside the transaction of
  the run, so the rollback takes the attempts back and the database is as before the run, however many
  batches the sink had taken by then.\<close>

theorem failed_delivery_not_counted:
  assumes "claim_batch {} 200 d \<noteq> []" "sink (map ob_payload (claim_batch {} 200 d)) k = (Inl e, k')"
  shows "(\<exists>d1. drain_outbox sink 200 {} (clk 0) (d, k) = (Inl e, (d1, k')) \<and>
      (\<forall>r \<in> set (claim_batch {} 200 d). r\<lparr>ob_attempts := ob_attempts r + 1\<rparr> \<in> set (db_outbox d1))) \<and>
    publish_telemetry sink (\<lambda>_. {}) clk (d, k) = (Inl e, (d, k')) \<and>
    (\<forall>locked s. case publish_telemetry sink locked clk (d, s) of (Inl _, (d', _)) \<Rightarrow> d' = d | (Inr _, _) \<Rightarrow> True)"
proof (intro conjI allI)
  let ?rows = "claim_batch {} 200 d"
  let ?d1 = "touch_rows (ob_id ` set ?rows) None d"
  have run: "drain_outbox sink 200 {} t (d, k) = (Inl e, (?d1, k'))" for t
    using assms by (simp add: drain_outbox_def Let_def)
  have "r\<lparr>ob_attempts := ob_attempts r + 1\<rparr> \<in> set (db_outbox ?d1)" if "r \<in> set ?rows" for r
  proof -
    have "r \<in> set (db_outbox d)" using that by (auto simp: claim_batch_def pending_def dest!: in_set_takeD)
    then show ?thesis using that by (auto simp: touch_rows_def in_update_where intro!: bexI [of _ r])
  qed
  then show "\<exists>d1. drain_outbox sink 200 {} (clk 0) (d, k) = (Inl e, (d1, k')) \<and>
      (\<forall>r \<in> set ?rows. r\<lparr>ob_attempts := ob_attempts r + 1\<rparr> \<in> set (db_outbox d1))"
    using run by blast
  show "publish_telemetry sink (\<lambda>_. {}) clk (d, k) = (Inl e, (d, k'))"
    using run by (simp add: publish_telemetry_def prog_simps numeral_eq_Suc)
  show "case publish_telemetry sink locked clk (d, s) of (Inl _, (d', _)) \<Rightarrow> d' = d | (Inr _, _) \<Rightarrow> True" for locked s
    by (auto simp: publish_telemetry_def split: prod.splits sum.splits)
qed

theorem failed_delivery_not_counted_witness:
  "publish_telemetry (\<lambda>events. raise (PyExc ''ConnectError'')) (\<lambda>_. {}) (\<lambda>_. 30) (outbox_db, ()) =
    (Inl (PyExc ''ConnectError''), (outbox_db, ())) \<and> ob_attempts (outbox_row 2 10) = 0"
proof -
  have "claim_batch {} 200 outbox_db \<noteq> []" by (simp add: claim_batch_def outbox_db_pending)
  from failed_delivery_not_counted [OF this, of "\<lambda>events. raise (PyExc ''ConnectError'')" "()" "PyExc ''ConnectError''" "()" "\<lambda>_. 30"]
  show ?thesis by (simp add: prog_simps outbox_row_def)
qed

end
