(* ===== verification/ApiKeys.thy ===== *)
theory ApiKeys
  imports Telemetry
begin

text \<open>
  \<open>services/api_key.py\<close>, \<open>repositories/api_key.py\<close>, \<open>api/api_keys.py\<close> and \<open>client_ip\<close> of
  \<open>api/deps.py\<close>: API keys are issued, listed, revoked and rotated; only a hash, the prefix and the last
  four characters are stored. The two random parts of a key and the ids of the rows are arguments.
\<close>

section \<open>Repository\<close>

definition get_key_by_hash :: "string \<Rightarrow> api_key option dbprog" where
  "get_key_by_hash h = select_one db_keys (\<lambda>k. k_key_hash k = h)"

definition get_key_in_api :: "uuid \<Rightarrow> uuid \<Rightarrow> api_key option dbprog" where
  "get_key_in_api kid aid = select_one db_keys (\<lambda>k. k_id k = kid \<and> k_api_id k = aid)"

definition list_keys_for_api :: "uuid \<Rightarrow> api_key list dbprog" where
  "list_keys_for_api aid = gets (\<lambda>d. order_desc k_created_at (filter (\<lambda>k. k_api_id k = aid) (db_keys d)))"

section \<open>The service\<close>

record issued_api_key =
  ik_record :: api_key
  ik_full_key :: string

text \<open>What a new key draws: its row's id, its public id and its secret.\<close>

record key_draws =
  kd_id :: uuid
  kd_public_id :: string
  kd_secret :: string

definition create_key ::
  "env \<Rightarrow> instant \<Rightarrow> key_draws \<Rightarrow> uuid \<Rightarrow> uuid \<Rightarrow> string \<Rightarrow> int option \<Rightarrow> uuid option \<Rightarrow> issued_api_key dbprog" where
  "create_key E now kd oid aid name expires_in_days created_by = thenP (get_api oid aid)
     (let g = generate_api_key E (kd_public_id kd) (kd_secret kd);
          k = \<lparr> k_id = kd_id kd, k_api_id = aid, k_organization_id = oid, k_name = name,
                k_prefix = gk_prefix g, k_last_four = gk_last_four g, k_key_hash = gk_key_hash g,
                k_created_by_user_id = created_by,
                k_expires_at = (case expires_in_days of None \<Rightarrow> None | Some n \<Rightarrow> Some (now + n * us_per_day)),
                k_revoked_at = None, k_rotated_to = None, k_created_at = now \<rparr>
      in thenP (add_key k) (ret \<lparr> ik_record = k, ik_full_key = gk_full_key g \<rparr>))"

definition list_keys :: "uuid \<Rightarrow> uuid \<Rightarrow> api_key list dbprog" where
  "list_keys oid aid = thenP (get_api oid aid) (list_keys_for_api aid)"

definition get_key :: "uuid \<Rightarrow> uuid \<Rightarrow> uuid \<Rightarrow> api_key dbprog" where
  "get_key oid aid kid = thenP (get_api oid aid) (bindP (get_key_in_api kid aid) (\<lambda>k. case k of
     None \<Rightarrow> raise (err NotFoundError ''API key not found for this API.'') | Some k \<Rightarrow> ret k))"

definition set_key :: "uuid \<Rightarrow> (api_key \<Rightarrow> api_key) \<Rightarrow> unit dbprog" where
  "set_key i f = modifyP (\<lambda>d. d\<lparr>db_keys := update_where (\<lambda>k. k_id k = i) f (db_keys d)\<rparr>)"

definition revoke_key :: "instant \<Rightarrow> uuid \<Rightarrow> uuid \<Rightarrow> uuid \<Rightarrow> unit dbprog" where
  "revoke_key now oid aid kid = bindP (get_key oid aid kid) (\<lambda>k.
     if k_revoked_at k = None then set_key (k_id k) (\<lambda>k. k\<lparr>k_revoked_at := Some now\<rparr>) else ret ())"

text \<open>What rotation does to the old key at time \<open>now\<close>.\<close>

definition retire :: "instant \<Rightarrow> int \<Rightarrow> uuid \<Rightarrow> api_key \<Rightarrow> api_key" where
  "retire now grace_hours successor old =
     (let grace_expiry = now + grace_hours * (3600 * us_per_second);
          old1 = (if grace_hours = 0 then old\<lparr>k_revoked_at := Some now\<rparr>
            else if (case k_expires_at old of None \<Rightarrow> True | Some e \<Rightarrow> grace_expiry < e)
            then old\<lparr>k_expires_at := Some grace_expiry\<rparr> else old)
      in old1\<lparr>k_rotated_to := Some successor\<rparr>)"

definition rotate_key ::
  "env \<Rightarrow> instant \<Rightarrow> instant \<Rightarrow> key_draws \<Rightarrow> uuid \<Rightarrow> uuid \<Rightarrow> uuid \<Rightarrow> int \<Rightarrow> uuid option \<Rightarrow> issued_api_key dbprog" where
  "rotate_key E t0 now kd oid aid kid grace_hours created_by = bindP (get_key oid aid kid) (\<lambda>old.
     thenP (raise_if (k_revoked_at old \<noteq> None) (err ValidationAppError ''Cannot rotate a revoked key.''))
     (bindP (create_key E t0 kd oid aid (k_name old) None created_by) (\<lambda>issued.
      thenP (set_key (k_id old) (retire now grace_hours (k_id (ik_record issued)))) (ret issued))))"

section \<open>Endpoints\<close>

text \<open>\<open>forwarded\<close> is the \<open>X-Forwarded-For\<close> header, \<open>peer\<close> the connection's address.\<close>

definition client_ip :: "string option \<Rightarrow> string option \<Rightarrow> string" where
  "client_ip forwarded peer =
     (let direct = (case peer of Some h \<Rightarrow> h | None \<Rightarrow> ''unknown'')
      in case forwarded of None \<Rightarrow> direct
         | Some f \<Rightarrow> if f = [] then direct else strip_by is_space (hd (split_on CHR '','' f)))"

text \<open>\<open>ApiKeyResponse\<close>: what is ever shown of a stored key.\<close>

record key_response =
  kr_id :: uuid
  kr_api_id :: uuid
  kr_name :: string
  kr_prefix :: string
  kr_last_four :: string
  kr_expires_at :: "instant option"
  kr_revoked_at :: "instant option"
  kr_created_at :: instant

definition key_response_of :: "api_key \<Rightarrow> key_response" where
  "key_response_of k = \<lparr> kr_id = k_id k, kr_api_id = k_api_id k, kr_name = k_name k, kr_prefix = k_prefix k,
     kr_last_four = k_last_four k, kr_expires_at = k_expires_at k, kr_revoked_at = k_revoked_at k,
     kr_created_at = k_created_at k \<rparr>"

text \<open>The ids the audit record draws: of its row, its event and its outbox row.\<close>

record audit_ids =
  ai_row :: uuid
  ai_event :: uuid
  ai_outbox :: uuid

definition create_key_endpoint where
  "create_key_endpoint E st isofmt now cred kd ai ip oid aid name expires_in_days =
     authorized E st now cred KEY_CREATE oid (\<lambda>u.
       bindP (create_key E now kd oid aid name expires_in_days (Some (u_id u))) (\<lambda>issued.
       thenP (record_audit isofmt now (ai_row ai) (ai_event ai) (ai_outbox ai) ''api_key.create'' ''api_key''
                (Some oid) (Some (u_id u)) (Some (k_id (ik_record issued))) (Some ip)
                (Some [(''api_id'', JStr (uuid_str aid))]))
       (ret (key_response_of (ik_record issued), ik_full_key issued))))"

definition list_keys_endpoint where
  "list_keys_endpoint E st now cred oid aid =
     authorized E st now cred KEY_READ oid (\<lambda>_. bindP (list_keys oid aid) (\<lambda>ks. ret (map key_response_of ks)))"

definition rotate_key_endpoint where
  "rotate_key_endpoint E st isofmt now cred kd ai ip oid aid kid grace_hours =
     authorized E st now cred KEY_ROTATE oid (\<lambda>u.
       bindP (rotate_key E now now kd oid aid kid grace_hours (Some (u_id u))) (\<lambda>issued.
       thenP (record_audit isofmt now (ai_row ai) (ai_event ai) (ai_outbox ai) ''api_key.rotate'' ''api_key''
                (Some oid) (Some (u_id u)) (Some kid) (Some ip)
                (Some [(''new_key_id'', JStr (uuid_str (k_id (ik_record issued))))]))
       (ret (key_response_of (ik_record issued), ik_full_key issued))))"

definition revoke_key_endpoint where
  "revoke_key_endpoint E st isofmt now cred ai ip oid aid kid =
     authorized E st now cred KEY_REVOKE oid (\<lambda>u.
       thenP (revoke_key now oid aid kid)
       (record_audit isofmt now (ai_row ai) (ai_event ai) (ai_outbox ai) ''api_key.revoke'' ''api_key''
          (Some oid) (Some (u_id u)) (Some kid) (Some ip) None))"

section \<open>Running the lookups\<close>

lemma reads_keys [prog_keeps]:
  "reads (get_key_by_hash h)" "reads (get_key_in_api i j)" "reads (list_keys_for_api i)"
  by (simp_all add: get_key_by_hash_def get_key_in_api_def list_keys_for_api_def reads_select_one prog_keeps)

lemma key_by_hash_run:
  "db_ok d \<Longrightarrow> get_key_by_hash h d = (Inr (find (\<lambda>k. k_key_hash k = h) (db_keys d)), d)"
  using db_okD(10) [of d] by (simp add: get_key_by_hash_def select_one_def keys_ok_def scalar_unique1)

lemma key_in_api_run:
  "db_ok d \<Longrightarrow> get_key_in_api kid aid d = (Inr (find (\<lambda>k. k_id k = kid \<and> k_api_id k = aid) (db_keys d)), d)"
  using db_okD(10) [of d] by (simp add: get_key_in_api_def select_one_def keys_ok_def scalar_unique)

lemma get_key_run:
  "db_ok d \<Longrightarrow> get_api oid aid d = (Inr a, d) \<Longrightarrow>
   find (\<lambda>k. k_id k = kid \<and> k_api_id k = aid) (db_keys d) = Some k \<Longrightarrow> get_key oid aid kid d = (Inr k, d)"
  by (simp add: get_key_def prog_simps key_in_api_run)

lemma db_ok_set_key:
  "(\<And>k. k_id (f k) = k_id k \<and> k_key_hash (f k) = k_key_hash k \<and> k_api_id (f k) = k_api_id k \<and>
     k_organization_id (f k) = k_organization_id k) \<Longrightarrow> preserves db_ok (set_key i f)"
  unfolding set_key_def by (intro preserves_modifyP db_ok_update_keys) auto

lemma retire_keeps [simp]:
  "k_id (retire now h s k) = k_id k" "k_key_hash (retire now h s k) = k_key_hash k"
  "k_api_id (retire now h s k) = k_api_id k" "k_organization_id (retire now h s k) = k_organization_id k"
  by (simp_all add: retire_def Let_def)

lemma db_ok_create_key [prog_keeps]: "preserves db_ok (create_key E now kd oid aid name ex cby)"
  unfolding create_key_def Let_def by (intro prog_keeps)

lemma db_ok_get_key [prog_keeps]: "preserves db_ok (get_key oid aid kid)"
  unfolding get_key_def by (intro prog_keeps)

lemma db_ok_revoke_key [prog_keeps]: "preserves db_ok (revoke_key now oid aid kid)"
  unfolding revoke_key_def by (intro prog_keeps db_ok_set_key) auto

lemma db_ok_rotate_key [prog_keeps]: "preserves db_ok (rotate_key E t0 now kd oid aid kid h cby)"
  unfolding rotate_key_def by (intro prog_keeps db_ok_set_key) auto

lemma create_key_ok:
  assumes "db_ok d" "get_api oid aid d = (Inr a, d)"
    and "kd_id kd \<notin> k_id ` set (db_keys d)"
    and "gk_key_hash (generate_api_key E (kd_public_id kd) (kd_secret kd)) \<notin> k_key_hash ` set (db_keys d)"
  obtains k where "create_key E now kd oid aid name ex cby d =
      (Inr \<lparr>ik_record = k, ik_full_key = gk_full_key (generate_api_key E (kd_public_id kd) (kd_secret kd))\<rparr>,
       d\<lparr>db_keys := db_keys d @ [k]\<rparr>)"
    and "k_id k = kd_id kd" "k_key_hash k = gk_key_hash (generate_api_key E (kd_public_id kd) (kd_secret kd))"
    and "k_revoked_at k = None" "k_expires_at k = (case ex of None \<Rightarrow> None | Some n \<Rightarrow> Some (now + n * us_per_day))"
    and "k_api_id k = aid" "k_organization_id k = oid"
proof -
  have a: "a \<in> set (db_apis d)" "a_id a = aid" "a_organization_id a = oid"
    using get_api_found [OF assms(2)] by auto
  have "oid \<in> o_id ` set (db_orgs d)" using db_okD(6) [OF assms(1)] a by (auto simp: apis_ok_def)
  moreover have "aid \<in> a_id ` set (db_apis d)" using a by auto
  ultimately show thesis
    using assms(2-4) by (intro that) (auto simp: create_key_def prog_simps add_key_def Let_def)
qed

lemma find_snoc_new: "(\<And>y. y \<in> set xs \<Longrightarrow> \<not> P y) \<Longrightarrow> P x \<Longrightarrow> find P (xs @ [x]) = Some x"
  by (induction xs) auto

lemma find_snoc_old: "find P xs = Some y \<Longrightarrow> find P (xs @ [x]) = Some y"
  by (simp add: find_append)

section \<open>Properties\<close>

definition sample_draws :: key_draws where
  "sample_draws = \<lparr>kd_id = 91, kd_public_id = ''abcd0123'', kd_secret = ''topsecret''\<rparr>"

lemma key_db_get: "get_api 7 40 (key_db ex) = (Inr (api_row 40 7 ''pay''), key_db ex)"
  unfolding get_api_run [OF key_db_ok] by (simp add: key_db_def api_db_def api_row_def)

lemma sample_fresh:
  "kd_id sample_draws \<notin> k_id ` set (db_keys (key_db ex))"
  "gk_key_hash (generate_api_key plain_env (kd_public_id sample_draws) (kd_secret sample_draws)) \<notin>
     k_key_hash ` set (db_keys (key_db ex))"
  by (simp_all add: sample_draws_def key_db_def key_row_def generate_api_key_def hash_token_def plain_env_def
      API_KEY_PREFIX_def Let_def)

text \<open>A key works from the moment it is issued, and is shown once. For a free id and hash, issuing
  succeeds; the full key that is returned is found again by the gateway's lookup, belongs to the API and
  organization it was issued for, and is valid until exactly its expiry; and what can be read of the keys
  afterwards would be the same for any other secret with the same last four characters.\<close>

theorem issued_key_works:
  assumes "db_ok d" "get_api oid aid d = (Inr a, d)"
    and "kd_id kd \<notin> k_id ` set (db_keys d)"
    and "gk_key_hash (generate_api_key E (kd_public_id kd) (kd_secret kd)) \<notin> k_key_hash ` set (db_keys d)"
  shows "\<exists>issued d'. create_key E now kd oid aid name ex cby d = (Inr issued, d') \<and>
    get_key_by_hash (hash_token E (ik_full_key issued)) d' = (Inr (Some (ik_record issued)), d') \<and>
    k_api_id (ik_record issued) = aid \<and> k_organization_id (ik_record issued) = oid \<and>
    (\<forall>t. is_valid_at (ik_record issued) t \<longleftrightarrow> (case ex of None \<Rightarrow> True | Some n \<Rightarrow> t < now + n * us_per_day)) \<and>
    (\<forall>s2 issued2 d2. last_four s2 = last_four (kd_secret kd) \<longrightarrow>
       create_key E now (kd\<lparr>kd_secret := s2\<rparr>) oid aid name ex cby d = (Inr issued2, d2) \<longrightarrow>
       map key_response_of (db_keys d2) = map key_response_of (db_keys d'))"
proof -
  obtain k where run: "create_key E now kd oid aid name ex cby d =
      (Inr \<lparr>ik_record = k, ik_full_key = gk_full_key (generate_api_key E (kd_public_id kd) (kd_secret kd))\<rparr>,
       d\<lparr>db_keys := db_keys d @ [k]\<rparr>)"
    and k: "k_key_hash k = gk_key_hash (generate_api_key E (kd_public_id kd) (kd_secret kd))" "k_revoked_at k = None"
      "k_expires_at k = (case ex of None \<Rightarrow> None | Some n \<Rightarrow> Some (now + n * us_per_day))"
      "k_api_id k = aid" "k_organization_id k = oid"
    by (rule create_key_ok [OF assms]) blast
  let ?d = "d\<lparr>db_keys := db_keys d @ [k]\<rparr>"
  have ok: "db_ok ?d" using preservesD [OF db_ok_create_key assms(1), of E now kd oid aid name ex cby] run by simp
  have hash: "hash_token E (gk_full_key (generate_api_key E (kd_public_id kd) (kd_secret kd))) = k_key_hash k"
    unfolding k by (simp add: generate_api_key_def Let_def)
  have "find (\<lambda>x. k_key_hash x = k_key_hash k) (db_keys d @ [k]) = Some k"
    by (rule find_snoc_new) (use assms(4) in \<open>auto simp: k(1) image_iff\<close>)
  then have found: "get_key_by_hash (k_key_hash k) ?d = (Inr (Some k), ?d)" by (simp add: key_by_hash_run [OF ok])
  have valid: "is_valid_at k t \<longleftrightarrow> (case ex of None \<Rightarrow> True | Some n \<Rightarrow> t < now + n * us_per_day)" for t
    using k by (auto simp: is_valid_at_def split: option.splits)
  have same: "map key_response_of (db_keys d2) = map key_response_of (db_keys ?d)"
    if "last_four s2 = last_four (kd_secret kd)"
      "create_key E now (kd\<lparr>kd_secret := s2\<rparr>) oid aid name ex cby d = (Inr issued2, d2)" for s2 issued2 d2
    using that run assms(2)
    by (auto simp: create_key_def prog_simps add_key_def Let_def key_response_of_def generate_api_key_def split: if_splits)
  show ?thesis
    by (rule exI, rule exI, rule conjI, rule run) (use hash found valid same k(4,5) in auto)
qed

theorem issued_key_works_witness:
  "\<exists>issued d'. create_key plain_env 100 sample_draws 7 40 ''k'' (Some 1) None (key_db None) = (Inr issued, d') \<and>
    get_key_by_hash (hash_token plain_env (ik_full_key issued)) d' = (Inr (Some (ik_record issued)), d') \<and>
    is_valid_at (ik_record issued) 86400000099 \<and> \<not> is_valid_at (ik_record issued) 86400000100"
proof -
  obtain issued d' where r: "create_key plain_env 100 sample_draws 7 40 ''k'' (Some 1) None (key_db None) = (Inr issued, d')"
    "get_key_by_hash (hash_token plain_env (ik_full_key issued)) d' = (Inr (Some (ik_record issued)), d')"
    "\<forall>t. is_valid_at (ik_record issued) t \<longleftrightarrow> t < 100 + 1 * us_per_day"
    using issued_key_works [OF key_db_ok key_db_get sample_fresh, of 100 "''k''" "Some 1" None None] by auto
  have "is_valid_at (ik_record issued) 86400000099" "\<not> is_valid_at (ik_record issued) 86400000100"
    using r(3) by (simp_all add: us_per_day_def)
  then show ?thesis using r(1,2) by blast
qed

text \<open>Rotation hands over within the grace window and no longer. Rotating a key in force issues a
  new one that works at once and does not expire; the old one keeps working for exactly the grace period
  (not at all when it is zero), unless it would have expired before, and points to its successor.\<close>

theorem rotation_grace_window:
  assumes "db_ok d" "get_api oid aid d = (Inr a, d)"
    and "find (\<lambda>k. k_id k = kid \<and> k_api_id k = aid) (db_keys d) = Some old" "k_revoked_at old = None"
    and "kd_id kd \<notin> k_id ` set (db_keys d)"
    and "gk_key_hash (generate_api_key E (kd_public_id kd) (kd_secret kd)) \<notin> k_key_hash ` set (db_keys d)"
  shows "\<exists>issued d' old'. rotate_key E t0 now kd oid aid kid grace cby d = (Inr issued, d') \<and>
    get_key_by_hash (hash_token E (ik_full_key issued)) d' = (Inr (Some (ik_record issued)), d') \<and>
    (\<forall>t. is_valid_at (ik_record issued) t) \<and>
    get_key_by_hash (k_key_hash old) d' = (Inr (Some old'), d') \<and> k_rotated_to old' = Some (k_id (ik_record issued)) \<and>
    (\<forall>t. is_valid_at old' t \<longleftrightarrow> is_valid_at old t \<and> grace \<noteq> 0 \<and> t < now + grace * (3600 * us_per_second))"
proof -
  obtain k where run: "create_key E t0 kd oid aid (k_name old) None cby d =
      (Inr \<lparr>ik_record = k, ik_full_key = gk_full_key (generate_api_key E (kd_public_id kd) (kd_secret kd))\<rparr>,
       d\<lparr>db_keys := db_keys d @ [k]\<rparr>)"
    and k: "k_id k = kd_id kd" "k_key_hash k = gk_key_hash (generate_api_key E (kd_public_id kd) (kd_secret kd))"
      "k_revoked_at k = None" "k_expires_at k = None"
    by (rule create_key_ok [OF assms(1,2,5,6), where now = t0 and name = "k_name old" and ex = None and cby = cby]) auto
  have old: "old \<in> set (db_keys d)" "k_id old = kid" "k_api_id old = aid" using find_SomeD [OF assms(3)] by auto
  have u: "distinct (map k_id (db_keys d))" "distinct (map k_key_hash (db_keys d))"
    using db_okD(10) [OF assms(1)] by (simp_all add: keys_ok_def)
  let ?f = "retire now grace (k_id k)"
  let ?d = "d\<lparr>db_keys := update_where (\<lambda>x. k_id x = k_id old) ?f (db_keys d @ [k])\<rparr>"
  have rot: "rotate_key E t0 now kd oid aid kid grace cby d =
      (Inr \<lparr>ik_record = k, ik_full_key = gk_full_key (generate_api_key E (kd_public_id kd) (kd_secret kd))\<rparr>, ?d)"
    using assms(4) run by (simp add: rotate_key_def prog_simps get_key_run [OF assms(1-3)] set_key_def)
  have ok: "db_ok ?d" using preservesD [OF db_ok_rotate_key assms(1), of E t0 now kd oid aid kid grace cby] rot by simp
  have kk: "k_id k \<noteq> k_id old" using assms(5) old(1) k(1) by auto
  have f: "find (\<lambda>x. k_key_hash x = h) (db_keys ?d) =
      map_option (\<lambda>x. if k_id x = k_id old then ?f x else x) (find (\<lambda>x. k_key_hash x = h) (db_keys d @ [k]))" for h
    by simp (subst find_update_where; simp)
  have "find (\<lambda>x. k_key_hash x = k_key_hash k) (db_keys d @ [k]) = Some k"
    by (rule find_snoc_new) (use assms(6) in \<open>auto simp: k(2) image_iff\<close>)
  then have new: "get_key_by_hash (k_key_hash k) ?d = (Inr (Some k), ?d)"
    unfolding key_by_hash_run [OF ok] f using kk by simp
  have "find (\<lambda>x. k_key_hash x = k_key_hash old) (db_keys d @ [k]) = Some old"
    by (rule find_snoc_old) (rule find_Some_iff_unique [OF u(2) old(1) refl])
  then have ret: "get_key_by_hash (k_key_hash old) ?d = (Inr (Some (?f old)), ?d)"
    unfolding key_by_hash_run [OF ok] f by simp
  have hash: "hash_token E (gk_full_key (generate_api_key E (kd_public_id kd) (kd_secret kd))) = k_key_hash k"
    unfolding k by (simp add: generate_api_key_def Let_def)
  have valid: "is_valid_at (?f old) t \<longleftrightarrow> is_valid_at old t \<and> grace \<noteq> 0 \<and> t < now + grace * (3600 * us_per_second)" for t
    using assms(4) by (auto simp: is_valid_at_def retire_def Let_def split: option.splits)
  show ?thesis
    by (rule exI, rule exI, rule exI [of _ "?f old"], rule conjI, rule rot)
       (use hash new ret valid k in \<open>auto simp: is_valid_at_def retire_def Let_def\<close>)
qed

theorem rotation_grace_window_witness:
  "\<exists>issued d' old'. rotate_key plain_env 100 100 sample_draws 7 40 90 1 None (key_db None) = (Inr issued, d') \<and>
    get_key_by_hash ''hash'' d' = (Inr (Some old'), d') \<and> is_valid_at old' 3600000099 \<and> \<not> is_valid_at old' 3600000100"
proof -
  have old: "find (\<lambda>k. k_id k = 90 \<and> k_api_id k = 40) (db_keys (key_db None)) = Some (key_row 90 ''hash'' None)"
    "k_revoked_at (key_row 90 ''hash'' None) = None" "k_key_hash (key_row 90 ''hash'' None) = ''hash''"
    "\<And>t. is_valid_at (key_row 90 ''hash'' None) t"
    by (simp_all add: key_db_def key_row_def is_valid_at_def)
  obtain issued d' old' where r: "rotate_key plain_env 100 100 sample_draws 7 40 90 1 None (key_db None) = (Inr issued, d')"
    "get_key_by_hash ''hash'' d' = (Inr (Some old'), d')"
    "\<forall>t. is_valid_at old' t \<longleftrightarrow> is_valid_at (key_row 90 ''hash'' None) t \<and> (1 :: int) \<noteq> 0 \<and> t < 100 + 1 * (3600 * us_per_second)"
    using rotation_grace_window [OF key_db_ok key_db_get old(1,2) sample_fresh, of 100 100 1 None] old(3) by auto
  have "is_valid_at old' 3600000099" "\<not> is_valid_at old' 3600000100"
    using r(3) old(4) by (simp_all add: us_per_second_def)
  then show ?thesis using r(1,2) by blast
qed

text \<open>A revoked key: the row with its hash says so.\<close>

definition revoked :: "string \<Rightarrow> db \<Rightarrow> bool" where
  "revoked h d \<longleftrightarrow> (\<exists>k \<in> set (db_keys d). k_key_hash k = h \<and> k_revoked_at k \<noteq> None)"

lemma revoked_set_key:
  "(\<And>k. k_key_hash (f k) = k_key_hash k \<and> (k_revoked_at k \<noteq> None \<longrightarrow> k_revoked_at (f k) \<noteq> None)) \<Longrightarrow>
   preserves (revoked h) (set_key i f)"
  unfolding set_key_def revoked_def
proof (rule preserves_modifyP, elim bexE conjE)
  fix s k
  assume f: "\<And>k. k_key_hash (f k) = k_key_hash k \<and> (k_revoked_at k \<noteq> None \<longrightarrow> k_revoked_at (f k) \<noteq> None)"
    and k: "k \<in> set (db_keys s)" "k_key_hash k = h" "k_revoked_at k \<noteq> None"
  have "(if k_id k = i then f k else k) \<in> set (update_where (\<lambda>k. k_id k = i) f (db_keys s))"
    using k(1) by (auto simp: in_update_where)
  then show "\<exists>k \<in> set (db_keys (s\<lparr>db_keys := update_where (\<lambda>k. k_id k = i) f (db_keys s)\<rparr>)).
      k_key_hash k = h \<and> k_revoked_at k \<noteq> None"
    using f k by (intro bexI [of _ "if k_id k = i then f k else k"]) auto
qed

lemma revoked_create [prog_keeps]: "preserves (revoked h) (create_key E now kd oid aid name ex cby)"
  unfolding create_key_def Let_def add_key_def
  by (intro preserves_thenP preserves_insert_row reads_preserves [OF reads_get_api] preserves_ret)
     (auto simp: revoked_def)

lemma reads_get_key [prog_keeps]: "reads (get_key oid aid kid)"
  unfolding get_key_def thenP_def by (intro prog_keeps)

lemma get_key_found:
  assumes "db_ok d" "get_key oid aid kid d = (Inr k, d')"
  shows "k \<in> set (db_keys d) \<and> k_id k = kid \<and> k_api_id k = aid"
proof -
  obtain a where "get_api oid aid d = (Inr a, d)"
    using assms(2) reads_run [OF reads_get_api] by (auto simp: get_key_def thenP_def elim!: bindP_Inr)
  then show ?thesis
    using assms(2) find_SomeD [of "\<lambda>k. k_id k = kid \<and> k_api_id k = aid" "db_keys d" k]
    by (simp add: get_key_def prog_simps key_in_api_run [OF assms(1)] split: option.splits)
qed

text \<open>C40: revocation is final. Once a key is revoked, its lookup yields a key that is valid at no time,
  it cannot be rotated, and issuing, rotating and revoking keys, in any order and of any API, keep it
  revoked.\<close>

theorem revocation_final:
  assumes "db_ok d"
  shows "(\<forall>oid aid kid now d1 k. revoke_key now oid aid kid d = (Inr (), d1) \<longrightarrow>
      find (\<lambda>k. k_id k = kid) (db_keys d) = Some k \<longrightarrow> revoked (k_key_hash k) d1) \<and>
    (revoked h d \<longrightarrow>
      (\<exists>k. get_key_by_hash h d = (Inr (Some k), d) \<and> (\<forall>t. \<not> is_valid_at k t) \<and>
        (\<forall>E t0 now kd oid aid g cby. fst (rotate_key E t0 now kd oid aid (k_id k) g cby d) \<in> range Inl)) \<and>
      revoked h (snd (create_key E now kd oid aid name ex cby d)) \<and>
      revoked h (snd (rotate_key E t0 now kd oid aid kid g cby d)) \<and>
      revoked h (snd (revoke_key now oid aid kid d)))"
proof (intro conjI allI impI)
  have u: "distinct (map k_id (db_keys d))" "distinct (map k_key_hash (db_keys d))"
    using db_okD(10) [OF assms] by (simp_all add: keys_ok_def)
  fix oid aid kid now d1 k
  assume r: "revoke_key now oid aid kid d = (Inr (), d1)" and k: "find (\<lambda>k. k_id k = kid) (db_keys d) = Some k"
  obtain k' where g: "get_key oid aid kid d = (Inr k', d)"
    using r reads_run [OF reads_get_key] by (auto simp: revoke_key_def elim!: bindP_Inr)
  have "k' \<in> set (db_keys d) \<and> k_id k' = kid" using get_key_found [OF assms g] by blast
  then have "k' = k" using find_SomeD [OF k] unique_row [OF u(1)] by auto
  moreover have "k\<lparr>k_revoked_at := Some now\<rparr> \<in> set (update_where (\<lambda>x. k_id x = k_id k) (\<lambda>x. x\<lparr>k_revoked_at := Some now\<rparr>) (db_keys d))"
    using find_SomeD [OF k] by (auto simp: in_update_where intro!: bexI [of _ k])
  ultimately show "revoked (k_key_hash k) d1"
    using r g find_SomeD [OF k] by (auto simp: revoke_key_def prog_simps set_key_def revoked_def split: if_splits
        intro: bexI [of _ "k\<lparr>k_revoked_at := Some now\<rparr>"])
next
  assume rev: "revoked h d"
  have u: "distinct (map k_id (db_keys d))" "distinct (map k_key_hash (db_keys d))"
    using db_okD(10) [OF assms] by (simp_all add: keys_ok_def)
  obtain k where k: "k \<in> set (db_keys d)" "k_key_hash k = h" "k_revoked_at k \<noteq> None"
    using rev by (auto simp: revoked_def)
  have look: "get_key_by_hash h d = (Inr (Some k), d)"
    using key_by_hash_run [OF assms, of h] find_Some_iff_unique [OF u(2) k(1,2)] by simp
  have "fst (rotate_key E t0 now kd oid aid (k_id k) g cby d) \<in> range Inl" for E t0 now kd oid aid g cby
  proof (cases "get_key oid aid (k_id k) d")
    case (Pair r d')
    have d': "d' = d" using reads_run [OF reads_get_key Pair] .
    show ?thesis
    proof (cases r)
      case (Inl e)
      then show ?thesis using Pair by (simp add: rotate_key_def prog_simps)
    next
      case (Inr k')
      have "k' \<in> set (db_keys d) \<and> k_id k' = k_id k" using get_key_found [OF assms] Pair Inr by blast
      then have "k' = k" using unique_row [OF u(1) _ k(1)] by blast
      then show ?thesis using Pair Inr k(3) by (simp add: rotate_key_def prog_simps)
    qed
  qed
  then show "\<exists>k. get_key_by_hash h d = (Inr (Some k), d) \<and> (\<forall>t. \<not> is_valid_at k t) \<and>
        (\<forall>E t0 now kd oid aid g cby. fst (rotate_key E t0 now kd oid aid (k_id k) g cby d) \<in> range Inl)"
    using look k(3) by (auto simp: is_valid_at_def)
  show "revoked h (snd (create_key E now kd oid aid name ex cby d))"
    by (rule preservesD [OF revoked_create rev])
  show "revoked h (snd (rotate_key E t0 now kd oid aid kid g cby d))"
    by (rule preservesD [where P = "revoked h", OF _ rev], unfold rotate_key_def)
       (intro preserves_bindP preserves_thenP preserves_raise_if preserves_ret revoked_create revoked_set_key
          reads_preserves [OF reads_get_key], auto simp: retire_def Let_def)
  show "revoked h (snd (revoke_key now oid aid kid d))"
    by (rule preservesD [where P = "revoked h", OF _ rev], unfold revoke_key_def)
       (intro preserves_bindP preserves_if preserves_ret revoked_set_key reads_preserves [OF reads_get_key], auto)
qed

theorem revocation_final_witness:
  "\<exists>k. revoked ''hash'' (snd (revoke_key 5 7 40 90 (key_db None))) \<and>
    get_key_by_hash ''hash'' (snd (revoke_key 5 7 40 90 (key_db None))) = (Inr (Some k), snd (revoke_key 5 7 40 90 (key_db None))) \<and>
    (\<forall>t. \<not> is_valid_at k t)"
proof -
  have old: "find (\<lambda>k. k_id k = 90 \<and> k_api_id k = 40) (db_keys (key_db None)) = Some (key_row 90 ''hash'' None)"
    "find (\<lambda>k. k_id k = 90) (db_keys (key_db None)) = Some (key_row 90 ''hash'' None)"
    "k_revoked_at (key_row 90 ''hash'' None) = None" "k_key_hash (key_row 90 ''hash'' None) = ''hash''"
    by (simp_all add: key_db_def key_row_def)
  let ?d = "snd (revoke_key 5 7 40 90 (key_db None))"
  have "fst (revoke_key 5 7 40 90 (key_db None)) = Inr ()"
    by (simp add: revoke_key_def prog_simps get_key_run [OF key_db_ok key_db_get old(1)] old(3) set_key_def)
  then have run: "revoke_key 5 7 40 90 (key_db None) = (Inr (), ?d)" by (metis prod.collapse)
  have rev: "revoked ''hash'' ?d"
    using revocation_final [OF key_db_ok [of None]] run old(2,4) by metis
  have ok: "db_ok ?d" by (rule preservesD [OF db_ok_revoke_key key_db_ok])
  show ?thesis using revocation_final [OF ok, THEN conjunct2, THEN mp, OF rev, THEN conjunct1] rev by blast
qed

end
