(* ===== verification/Gateway.thy ===== *)
theory Gateway
  imports ApiKeys Quota
begin

text \<open>
  \<open>services/gateway.py\<close> and \<open>api/gateway.py\<close>: the path of a proxied request. The outside of the
  database is a pair of the Redis state and the state of the HTTP world; the HTTP client is a function
  from a request to an answer (or one of the failures \<open>httpx\<close> raises) and the world after it. All clock
  readings of one request are the fields of \<open>gw_clock\<close>, so they may differ in any way.
\<close>

section \<open>Requests, answers and clocks\<close>

record incoming_request =
  ir_method :: string
  ir_api_slug :: string
  ir_version :: string
  ir_upstream_path :: string
  ir_query_string :: string
  ir_headers :: "(string \<times> string) list"
  ir_body :: string
  ir_client_ip :: string

record upstream_request =
  ur_method :: string
  ur_url :: string
  ur_headers :: "(string \<times> string) list"
  ur_content :: string

record upstream_response =
  up_status_code :: int
  up_headers :: "(string \<times> string) list"
  up_content :: string

text \<open>\<open>httpx.TimeoutException\<close>, any other \<open>httpx.HTTPError\<close>, and exceptions that are neither.\<close>

datatype http_answer = Answered upstream_response | TimedOut | HttpFailed | HttpRaised exn

record ('r, 'h) gateway =
  gw_env :: env
  gw_redis :: "'r redis_api"
  gw_round :: "rat \<Rightarrow> rat"
  gw_http :: "upstream_request \<Rightarrow> 'h \<Rightarrow> http_answer \<times> 'h"

text \<open>The application's clock when the key is checked; the limiter's readings; for the quotas'
  increments and decrements the application's datetime with the server's milliseconds; the seconds the
  upstream took; the clock when the outcome is built.\<close>

record gw_clock =
  gc_now :: instant
  gc_tick :: tick
  gc_consume :: "nat \<Rightarrow> datetime \<times> int"
  gc_rollback :: "nat \<Rightarrow> datetime \<times> int"
  gc_elapsed :: rat
  gc_done :: instant

definition on_cache :: "('r, exn, 'a) prog \<Rightarrow> ('r \<times> 'h, 'a) wprog" where
  "on_cache m = on_redis (\<lambda>(r, h). case m r of (x, r') \<Rightarrow> (x, (r', h)))"

text \<open>\<open>round(x, n)\<close>: to the nearest multiple of \<open>10^-n\<close>, ties to even.\<close>

definition round_half_even :: "rat \<Rightarrow> int" where
  "round_half_even x = (let f = \<lfloor>x\<rfloor>; r = x - of_int f
     in if r < 1 / 2 then f else if 1 / 2 < r then f + 1 else if even f then f else f + 1)"

definition py_round :: "nat \<Rightarrow> rat \<Rightarrow> rat" where
  "py_round n x = of_int (round_half_even (x * 10 ^ n)) / 10 ^ n"

section \<open>The service\<close>

definition HOP_BY_HOP :: "string list" where
  "HOP_BY_HOP = [''connection'', ''keep-alive'', ''proxy-authenticate'', ''proxy-authorization'', ''te'',
     ''trailers'', ''transfer-encoding'', ''upgrade'', ''host'', ''content-length'', ''authorization'',
     ''x-api-key'']"

definition end_to_end :: "(string \<times> string) list \<Rightarrow> (string \<times> string) list" where
  "end_to_end hs = filter (\<lambda>(k, v). str_lower k \<notin> set HOP_BY_HOP) hs"

definition gw_authenticate :: "env \<Rightarrow> instant \<Rightarrow> string option \<Rightarrow> (api_key \<times> api) dbprog" where
  "gw_authenticate E now presented = (case presented of
     None \<Rightarrow> raise (err_coded AuthenticationError ''Missing API key.'' ''missing_api_key'')
   | Some p \<Rightarrow>
       if p = [] then raise (err_coded AuthenticationError ''Missing API key.'' ''missing_api_key'')
       else bindP (get_key_by_hash (hash_token E p)) (\<lambda>found. case found of
         None \<Rightarrow> raise (err_coded AuthenticationError ''Invalid or expired API key.'' ''invalid_api_key'')
       | Some k \<Rightarrow>
           if \<not> is_valid_at k now
           then raise (err_coded AuthenticationError ''Invalid or expired API key.'' ''invalid_api_key'')
           else bindP (repo_get db_apis a_id (k_api_id k)) (\<lambda>a. case a of
             None \<Rightarrow> raise (PyExc ''AttributeError'')
           | Some a \<Rightarrow>
               if \<not> a_is_active a
               then raise (err_coded AuthenticationError ''The target API is disabled.'' ''api_disabled'')
               else ret (k, a))))"

definition rule_spec :: "rate_limit_rule \<Rightarrow> rate_limit_spec" where
  "rule_spec l = \<lparr> sp_requests = l_requests l, sp_window_seconds = l_window_seconds l, sp_burst = l_burst l \<rparr>"

definition enforce_rate_limit ::
  "('r, 'h) gateway \<Rightarrow> tick \<Rightarrow> uuid \<Rightarrow> uuid \<Rightarrow> ('r \<times> 'h, (string \<times> int) list) wprog" where
  "enforce_rate_limit G tk aid kid = bindP (on_db (get_rule_for_api aid)) (\<lambda>rule. case rule of
     None \<Rightarrow> ret []
   | Some l \<Rightarrow> bindP (on_cache (get_limiter (gw_round G) (gw_redis G) (l_algorithm l) tk
           (uuid_str aid @ '':'' @ uuid_str kid) (rule_spec l))) (\<lambda>res.
       if \<not> rl_allowed res
       then raise (err_detailed RateLimitedError ''Rate limit exceeded for this API key.''
              [(''retry_after'', JInt (rl_retry_after res)), (''limit'', JInt (rl_limit res))])
       else ret [(''limit'', rl_limit res), (''remaining'', rl_remaining res)]))"

fun rollback_quota ::
  "'r redis_api \<Rightarrow> (nat \<Rightarrow> datetime \<times> int) \<Rightarrow> uuid \<Rightarrow> nat \<Rightarrow> quota_period list \<Rightarrow> ('r, exn, unit) prog" where
  "rollback_quota R clk kid i [] = ret ()"
| "rollback_quota R clk kid i (p # ps) =
     thenP (modifyP (rollback R (snd (clk i)) kid p (fst (clk i)))) (rollback_quota R clk kid (Suc i) ps)"

definition consumeP :: "'r redis_api \<Rightarrow> datetime \<times> int \<Rightarrow> uuid \<Rightarrow> quota \<Rightarrow> ('r, exn, quota_check) prog" where
  "consumeP R now kid q s =
     (case consume R (snd now) kid (q_period q) (q_max_requests q) (fst now) s of (c, s') \<Rightarrow> (Inr c, s'))"

text \<open>The loop of \<open>_enforce_quota\<close> over the quotas that are left.\<close>

fun quota_loop ::
  "'r redis_api \<Rightarrow> gw_clock \<Rightarrow> uuid \<Rightarrow> quota_period list \<Rightarrow> quota list \<Rightarrow> ('r, exn, quota_period list) prog" where
  "quota_loop R ck kid consumed [] = ret consumed"
| "quota_loop R ck kid consumed (q # qs) =
     bindP (consumeP R (gc_consume ck (length consumed)) kid q) (\<lambda>check.
       if exceeded check
       then thenP (rollback_quota R (gc_rollback ck) kid 0 (consumed @ [q_period q]))
              (raise (err_detailed QuotaExceededError
                (period_str (q_period q) @ '' quota of '' @ int_str (q_max_requests q) @ '' requests exceeded.'')
                [(''period'', JStr (period_str (q_period q))), (''limit'', JInt (q_max_requests q))]))
       else quota_loop R ck kid (consumed @ [q_period q]) qs)"

definition enforce_quota ::
  "('r, 'h) gateway \<Rightarrow> gw_clock \<Rightarrow> uuid \<Rightarrow> uuid \<Rightarrow> ('r \<times> 'h, quota_period list) wprog" where
  "enforce_quota G ck aid kid = bindP (on_db (list_quotas_for_api aid)) (\<lambda>qs.
     on_cache (quota_loop (gw_redis G) ck kid [] qs))"

definition upstream_url :: "string \<Rightarrow> incoming_request \<Rightarrow> string" where
  "upstream_url base req =
     (let url = rstrip_by (\<lambda>c. c = CHR ''/'') base;
          url1 = (if ir_upstream_path req \<noteq> []
                  then url @ ''/'' @ lstrip_by (\<lambda>c. c = CHR ''/'') (ir_upstream_path req) else url)
      in if ir_query_string req \<noteq> [] then url1 @ ''?'' @ ir_query_string req else url1)"

definition upstream_request_of :: "string \<Rightarrow> incoming_request \<Rightarrow> upstream_request" where
  "upstream_request_of base req = \<lparr> ur_method = ir_method req, ur_url = upstream_url base req,
     ur_headers = end_to_end (ir_headers req), ur_content = ir_body req \<rparr>"

definition forward ::
  "('r, 'h) gateway \<Rightarrow> rat \<Rightarrow> string \<Rightarrow> incoming_request \<Rightarrow> ('r \<times> 'h, gateway_response \<times> int \<times> rat) wprog" where
  "forward G elapsed base req = on_redis (\<lambda>(r, h).
     case gw_http G (upstream_request_of base req) h of
       (TimedOut, h') \<Rightarrow> (Inl (err_coded UpstreamError ''Upstream request timed out.'' ''upstream_timeout''), (r, h'))
     | (HttpFailed, h') \<Rightarrow> (Inl (err UpstreamError ''Failed to reach the upstream service.''), (r, h'))
     | (HttpRaised e, h') \<Rightarrow> (Inl e, (r, h'))
     | (Answered u, h') \<Rightarrow> (Inr (\<lparr> gr_status_code = up_status_code u, gr_headers = end_to_end (up_headers u),
           gr_content = up_content u \<rparr>, int (length (ir_body req)), py_round 2 (elapsed * 1000)), (r, h')))"

text \<open>From the quota check on: what is charged is given back when forwarding raises.\<close>

definition charge_and_forward ::
  "('r, 'h) gateway \<Rightarrow> gw_clock \<Rightarrow> uuid \<Rightarrow> uuid \<Rightarrow> string \<Rightarrow> incoming_request \<Rightarrow>
   ('r \<times> 'h, gateway_response \<times> int \<times> rat) wprog" where
  "charge_and_forward G ck aid kid base req = bindP (enforce_quota G ck aid kid) (\<lambda>consumed.
     on_error (forward G (gc_elapsed ck) base req)
       (on_cache (rollback_quota (gw_redis G) (gc_rollback ck) kid 0 consumed)))"

definition outcome_of ::
  "gw_clock \<Rightarrow> incoming_request \<Rightarrow> api_key \<Rightarrow> api \<Rightarrow> api_version \<Rightarrow> (string \<times> int) list \<Rightarrow>
   gateway_response \<times> int \<times> rat \<Rightarrow> gateway_outcome" where
  "outcome_of ck req key a v rate_info = (\<lambda>(response, request_bytes, latency_ms).
     \<lparr> go_api_key_id = k_id key, go_api_id = a_id a, go_api_version_id = v_id v,
       go_organization_id = k_organization_id key, go_method = ir_method req,
       go_path = ir_upstream_path req, go_status_code = gr_status_code response,
       go_latency_ms = latency_ms, go_request_bytes = request_bytes,
       go_response_bytes = int (length (gr_content response)), go_client_ip = ir_client_ip req,
       go_upstream_url = v_upstream_base_url v, go_timestamp = gc_done ck,
       go_response = response, go_rate_limit = rate_info \<rparr>)"

definition handle_request ::
  "('r, 'h) gateway \<Rightarrow> gw_clock \<Rightarrow> incoming_request \<Rightarrow> string option \<Rightarrow> ('r \<times> 'h, gateway_outcome) wprog" where
  "handle_request G ck req presented =
     bindP (on_db (gw_authenticate (gw_env G) (gc_now ck) presented)) (\<lambda>(key, a).
     thenP (raise_if (a_slug a \<noteq> ir_api_slug req)
              (err_coded AuthenticationError ''API key does not authorize this API.'' ''key_api_mismatch''))
     (bindP (on_db (get_active (a_id a) (ir_version req))) (\<lambda>version. case version of
        None \<Rightarrow> raise (err NotFoundError (''No active version '' @ [CHR 39] @ ir_version req @ [CHR 39] @ '' for this API.''))
      | Some v \<Rightarrow>
          thenP (raise_if (\<not> v_is_active v)
                   (err NotFoundError (''No active version '' @ [CHR 39] @ ir_version req @ [CHR 39] @ '' for this API.'')))
          (bindP (enforce_rate_limit G (gc_tick ck) (a_id a) (k_id key)) (\<lambda>rate_info.
           bindP (charge_and_forward G ck (a_id a) (k_id key) (v_upstream_base_url v) req)
             (\<lambda>served. ret (outcome_of ck req key a v rate_info served)))))))"

section \<open>The endpoint\<close>

text \<open>The headers of a request have lower-case names.\<close>

definition extract_api_key :: "(string \<times> string) list \<Rightarrow> string option" where
  "extract_api_key hs = (case map_of hs ''authorization'' of
     None \<Rightarrow> map_of hs ''x-api-key''
   | Some auth \<Rightarrow> if auth \<noteq> [] \<and> take 7 (str_lower auth) = ''bearer ''
       then Some (strip_by is_space (drop 7 auth)) else map_of hs ''x-api-key'')"

fun header_set :: "string \<Rightarrow> string \<Rightarrow> (string \<times> string) list \<Rightarrow> (string \<times> string) list" where
  "header_set k v [] = [(k, v)]"
| "header_set k v ((k', v') # hs) = (if k' = k then (k, v) # hs else (k', v') # header_set k v hs)"

text \<open>The request as the handler sees it; \<open>rq_headers\<close> are the items of \<open>dict(request.headers)\<close>, one per name
  in lower case.\<close>

record raw_request =
  rq_method :: string
  rq_query :: string
  rq_headers :: "(string \<times> string) list"
  rq_body :: string
  rq_peer :: "string option"

definition incoming :: "string \<Rightarrow> string \<Rightarrow> string \<Rightarrow> raw_request \<Rightarrow> incoming_request" where
  "incoming slug version path rq = \<lparr> ir_method = rq_method rq, ir_api_slug = slug, ir_version = version,
     ir_upstream_path = path, ir_query_string = rq_query rq, ir_headers = rq_headers rq, ir_body = rq_body rq,
     ir_client_ip = client_ip (map_of (rq_headers rq) ''x-forwarded-for'') (rq_peer rq) \<rparr>"

text \<open>\<open>rate_limit.get(k, "")\<close> as text, and the response with the headers the handler gives it (the framework
  adds \<open>content-length\<close> when it sends it); \<open>float_str\<close> is Python's \<open>str\<close> of a float.\<close>

definition rate_text :: "(string \<times> int) list \<Rightarrow> string \<Rightarrow> string" where
  "rate_text info k = (case map_of info k of Some n \<Rightarrow> int_str n | None \<Rightarrow> [])"

definition proxy_response :: "(rat \<Rightarrow> string) \<Rightarrow> gateway_outcome \<Rightarrow> gateway_response" where
  "proxy_response float_str g =
     (let hs = gr_headers (go_response g);
          hs1 = (if go_rate_limit g \<noteq> []
            then header_set ''X-RateLimit-Remaining'' (rate_text (go_rate_limit g) ''remaining'')
              (header_set ''X-RateLimit-Limit'' (rate_text (go_rate_limit g) ''limit'') hs) else hs)
      in \<lparr> gr_status_code = go_status_code g,
           gr_headers = header_set ''X-Gateway-Latency-Ms'' (float_str (go_latency_ms g)) hs1,
           gr_content = gr_content (go_response g) \<rparr>)"

definition proxy ::
  "('r, 'h) gateway \<Rightarrow> (instant \<Rightarrow> string) \<Rightarrow> (rat \<Rightarrow> string) \<Rightarrow> gw_clock \<Rightarrow> instant \<Rightarrow> record_ids \<Rightarrow>
   string \<Rightarrow> string \<Rightarrow> string \<Rightarrow> raw_request \<Rightarrow> ('r \<times> 'h, gateway_response) wprog" where
  "proxy G isofmt float_str ck tx ids slug version path rq = get_session
     (bindP (handle_request G ck (incoming slug version path rq) (extract_api_key (rq_headers rq))) (\<lambda>g.
      thenP (on_db (record_request isofmt tx ids g)) (ret (proxy_response float_str g))))"

lemma on_cache_run [prog_simps]:
  "on_cache m w = (fst (m (fst (w_redis w))), w\<lparr>w_redis := (snd (m (fst (w_redis w))), snd (w_redis w))\<rparr>)"
  by (simp add: on_cache_def on_redis_run split_beta)

lemma reads_authenticate [prog_keeps]: "reads (gw_authenticate E now p)"
  unfolding gw_authenticate_def by (intro prog_keeps reads_repo(1); simp add: prog_keeps reads_repo split: option.split)

section \<open>What a request charges\<close>

text \<open>The readings of one request, between server times \<open>t0\<close> and \<open>T\<close> and on the day of \<open>a\<close>, end before
  a counter they open could expire.\<close>

definition one_window :: "gw_clock \<Rightarrow> datetime \<Rightarrow> int \<Rightarrow> int \<Rightarrow> bool" where
  "one_window ck a t0 T \<longleftrightarrow> valid_datetime a \<and>
     (\<forall>i. valid_datetime (fst (gc_consume ck i)) \<and> same_bucket DAILY a (fst (gc_consume ck i)) \<and>
        t0 \<le> snd (gc_consume ck i) \<and> snd (gc_consume ck i) \<le> T \<and>
        (\<forall>p. T < snd (gc_consume ck i) + 1000 * snd (bucket_and_ttl p (fst (gc_consume ck i))))) \<and>
     (\<forall>i. valid_datetime (fst (gc_rollback ck i)) \<and> same_bucket DAILY a (fst (gc_rollback ck i)) \<and>
        t0 \<le> snd (gc_rollback ck i) \<and> snd (gc_rollback ck i) \<le> T)"

lemma one_window_until:
  assumes "valid_datetime a" "T + skew + 2000 < bucket_over DAILY a div 1000"
    and "\<And>i. valid_datetime (fst (gc_consume ck i)) \<and> same_bucket DAILY a (fst (gc_consume ck i)) \<and>
      t0 \<le> snd (gc_consume ck i) \<and> snd (gc_consume ck i) \<le> T \<and>
      server_ms (fst (gc_consume ck i)) - skew \<le> snd (gc_consume ck i)"
    and "\<And>i. valid_datetime (fst (gc_rollback ck i)) \<and> same_bucket DAILY a (fst (gc_rollback ck i)) \<and>
      t0 \<le> snd (gc_rollback ck i) \<and> snd (gc_rollback ck i) \<le> T"
  shows "one_window ck a t0 T"
  unfolding one_window_def using assms opened_outlives [OF _ _ _ assms(2)] by blast

text \<open>All through the window the counter reads \<open>n\<close>.\<close>

definition holds_count :: "int \<Rightarrow> int \<Rightarrow> store \<Rightarrow> string \<Rightarrow> int \<Rightarrow> bool" where
  "holds_count t0 T st k n \<longleftrightarrow> (live st t0 k = None \<and> n = 0) \<or>
     (\<exists>d. st k = Some (RInt n, d) \<and> (case d of None \<Rightarrow> True | Some e \<Rightarrow> T < e))"

definition day_key :: "uuid \<Rightarrow> datetime \<Rightarrow> quota_period \<Rightarrow> string" where
  "day_key kid a p = quota_key kid p (fst (bucket_and_ttl p a))"

lemma day_key_inj: "day_key kid a p = day_key kid' a p' \<longleftrightarrow> kid = kid' \<and> p = p'"
  by (auto simp: day_key_def quota_key_iff)

lemma same_bucket_any: "same_bucket DAILY a b \<Longrightarrow> same_bucket p a b"
  by (cases p) (auto simp: same_bucket_def)

lemma day_key_of:
  "valid_datetime a \<Longrightarrow> valid_datetime b \<Longrightarrow> same_bucket DAILY a b \<Longrightarrow>
   quota_key kid p (fst (bucket_and_ttl p b)) = day_key kid a p"
  by (simp add: day_key_def same_bucket_key same_bucket_any)

lemma holds_count_at:
  assumes "holds_count t0 T st k n" "t0 \<le> t" "t \<le> T"
  shows "counter_at st t k = n" "is_counter st t k"
    and "n \<noteq> 0 \<Longrightarrow> live st t k = st k"
proof -
  have "live st t k = None \<and> n = 0 \<or> (\<exists>d. live st t k = Some (RInt n, d) \<and> live st t k = st k)"
    using assms(1) unfolding holds_count_def
  proof
    assume "live st t0 k = None \<and> n = 0"
    then show ?thesis using live_dead_later [OF _ assms(2)] by blast
  next
    assume "\<exists>d. st k = Some (RInt n, d) \<and> (case d of None \<Rightarrow> True | Some e \<Rightarrow> T < e)"
    then obtain d where d: "st k = Some (RInt n, d)" "case d of None \<Rightarrow> True | Some e \<Rightarrow> T < e" by blast
    then have "live st t k = st k" using assms(3) by (cases d) (simp_all add: live_def)
    with d show ?thesis by simp
  qed
  then show "counter_at st t k = n" "is_counter st t k" "n \<noteq> 0 \<Longrightarrow> live st t k = st k"
    by (elim disjE exE conjE; simp add: live_defs)+
qed

lemma holds_count_deadline:
  assumes "holds_count t0 T st k n" "t0 \<le> t" "t \<le> T" "n \<noteq> 0"
  shows "case deadline_at st t k of None \<Rightarrow> True | Some e \<Rightarrow> T < e"
proof -
  obtain d where d: "st k = Some (RInt n, d)" "case d of None \<Rightarrow> True | Some e \<Rightarrow> T < e"
    using assms(1,4) by (auto simp: holds_count_def)
  have "live st t k = Some (RInt n, d)" using holds_count_at(3) [OF assms] d(1) by simp
  then show ?thesis using d(2) by (simp add: deadline_at_def)
qed

lemma holds_count_upd_other [simp]: "k' \<noteq> k \<Longrightarrow> holds_count t0 T (st(k := x)) k' n = holds_count t0 T st k' n"
  by (simp add: holds_count_def)

context redis_server
begin

lemma consume_counts:
  assumes "holds_count t0 T (view s) key n" "0 \<le> n" "t0 \<le> t" "t \<le> T" "T < t + 1000 * snd (bucket_and_ttl p now)"
    and k: "key = quota_key kid p (fst (bucket_and_ttl p now))"
  shows "qc_used (fst (consume R t kid p lmt now s)) = n + 1"
    and "holds_count t0 T (view (snd (consume R t kid p lmt now s))) key (n + 1)"
    and "k' \<noteq> key \<Longrightarrow> view (snd (consume R t kid p lmt now s)) k' = view s k'"
proof -
  obtain b ttl where bt: "bucket_and_ttl p now = (b, ttl)" by fastforce
  obtain u s1 where i: "r_incr R t key s = (u, s1)" by fastforce
  note c = holds_count_at [OF assms(1,3,4)]
  have ttl: "0 < ttl" using ttl_at_least_one [of p now] bt by simp
  have u: "u = n + 1" "view s1 = (view s)(key \<mapsto> (RInt (n + 1), deadline_at (view s) t key))"
    using incr_val [OF c(2)] incr_view [OF c(2)] c(1) i by simp_all
  have run: "consume R t kid p lmt now s =
      (\<lparr>qc_period = p, qc_limit = lmt, qc_used = u\<rparr>, if u = 1 then r_expire R t key ttl s1 else s1)"
    using k bt i by (simp add: consume_def)
  show "qc_used (fst (consume R t kid p lmt now s)) = n + 1" using run u by simp
  have alive: "t < e" if "deadline_at (view s) t key = Some e" for e
    using that live_deadline [of "view s" t key] by (auto simp: deadline_at_def split: option.splits)
  have fresh: "view (r_expire R t key ttl s1) = (view s)(key \<mapsto> (RInt (n + 1), Some (t + 1000 * ttl)))"
    using expire_view [OF ttl, of t key s1] u(2) alive
    by (cases "deadline_at (view s) t key") (simp_all add: put_expiry_def linorder_not_le)
  show "k' \<noteq> key \<Longrightarrow> view (snd (consume R t kid p lmt now s)) k' = view s k'"
    using run u fresh by simp
  have "n \<noteq> 0 \<Longrightarrow> case deadline_at (view s) t key of None \<Rightarrow> True | Some e \<Rightarrow> T < e"
    by (rule holds_count_deadline [OF assms(1,3,4)])
  then show "holds_count t0 T (view (snd (consume R t kid p lmt now s))) key (n + 1)"
    using run u fresh assms(5) bt by (cases "n = 0") (simp_all add: holds_count_def)
qed

lemma rollback_counts:
  assumes "holds_count t0 T (view s) key n" "n \<noteq> 0" "t0 \<le> t" "t \<le> T"
    and k: "key = quota_key kid p (fst (bucket_and_ttl p now))"
  shows "holds_count t0 T (view (rollback R t kid p now s)) key (n - 1)"
    and "k' \<noteq> key \<Longrightarrow> view (rollback R t kid p now s) k' = view s k'"
proof -
  note c = holds_count_at [OF assms(1,3,4)]
  have v: "view (rollback R t kid p now s) = (view s)(key \<mapsto> (RInt (n - 1), deadline_at (view s) t key))"
    using decr_view [OF c(2)] c(1) k by (simp add: rollback_def split_beta Let_def)
  then show "k' \<noteq> key \<Longrightarrow> view (rollback R t kid p now s) k' = view s k'" by simp
  show "holds_count t0 T (view (rollback R t kid p now s)) key (n - 1)"
    using v holds_count_deadline [OF assms(1,3,4,2)] by (simp add: holds_count_def)
qed

end

text \<open>Every period's counter reads \<open>base\<close>, plus one for the periods in \<open>P\<close>, and every key that is not
  such a counter is as it was in \<open>st0\<close>.\<close>

definition charged ::
  "int \<Rightarrow> int \<Rightarrow> datetime \<Rightarrow> uuid \<Rightarrow> (quota_period \<Rightarrow> int) \<Rightarrow> store \<Rightarrow> quota_period set \<Rightarrow> store \<Rightarrow> bool" where
  "charged t0 T a kid base st0 P st \<longleftrightarrow>
     (\<forall>p. holds_count t0 T st (day_key kid a p) (base p + (if p \<in> P then 1 else 0))) \<and>
     (\<forall>k. k \<notin> range (day_key kid a) \<longrightarrow> st k = st0 k)"

lemma chargedD:
  assumes "charged t0 T a kid base st0 P st"
  shows "p \<in> P \<Longrightarrow> holds_count t0 T st (day_key kid a p) (base p + 1)"
    and "p \<notin> P \<Longrightarrow> holds_count t0 T st (day_key kid a p) (base p)"
    and "k \<notin> range (day_key kid a) \<Longrightarrow> st k = st0 k"
proof -
  have "holds_count t0 T st (day_key kid a p) (base p + (if p \<in> P then 1 else 0))"
    using assms by (simp only: charged_def)
  then show "p \<in> P \<Longrightarrow> holds_count t0 T st (day_key kid a p) (base p + 1)"
    and "p \<notin> P \<Longrightarrow> holds_count t0 T st (day_key kid a p) (base p)" by simp_all
qed (use assms in \<open>auto simp: charged_def\<close>)

lemma charged_move:
  assumes "charged t0 T a kid base st0 P st" "\<And>k. k \<noteq> day_key kid a p \<Longrightarrow> st' k = st k"
    and "holds_count t0 T st' (day_key kid a p) (base p + (if p \<in> P' then 1 else 0))"
    and "\<And>p'. p' \<noteq> p \<Longrightarrow> p' \<in> P \<longleftrightarrow> p' \<in> P'"
  shows "charged t0 T a kid base st0 P' st'"
proof -
  have "holds_count t0 T st' (day_key kid a p') (base p' + (if p' \<in> P' then 1 else 0))" for p'
  proof (cases "p' = p")
    case False
    then have "st' (day_key kid a p') = st (day_key kid a p')" using assms(2) by (simp add: day_key_inj)
    then have "holds_count t0 T st' (day_key kid a p') n = holds_count t0 T st (day_key kid a p') n" for n
      by (simp add: holds_count_def live_def)
    moreover have "holds_count t0 T st (day_key kid a p') (base p' + (if p' \<in> P then 1 else 0))"
      using assms(1) by (simp only: charged_def)
    ultimately show ?thesis using assms(4) [OF False] by simp
  qed (use assms(3) in simp)
  moreover have "st' k = st0 k" if "k \<notin> range (day_key kid a)" for k
    using that assms(2) [of k] chargedD(3) [OF assms(1)] by auto
  ultimately show ?thesis by (simp add: charged_def)
qed

lemma one_windowD:
  assumes "one_window ck a t0 T"
  shows "quota_key kid p (fst (bucket_and_ttl p (fst (gc_consume ck i)))) = day_key kid a p"
    and "quota_key kid p (fst (bucket_and_ttl p (fst (gc_rollback ck i)))) = day_key kid a p"
    and "t0 \<le> snd (gc_consume ck i)" "snd (gc_consume ck i) \<le> T"
    and "t0 \<le> snd (gc_rollback ck i)" "snd (gc_rollback ck i) \<le> T"
    and "T < snd (gc_consume ck i) + 1000 * snd (bucket_and_ttl p (fst (gc_consume ck i)))"
  using assms day_key_of by (auto simp: one_window_def)

context redis_server
begin

lemma rollback_quota_gives_back:
  assumes "one_window ck a t0 T" "\<And>p. 0 \<le> base p"
    and "charged t0 T a kid base st0 P (view s)" "distinct ps" "set ps \<subseteq> P"
  shows "fst (rollback_quota R (gc_rollback ck) kid i ps s) = Inr () \<and>
    charged t0 T a kid base st0 (P - set ps) (view (snd (rollback_quota R (gc_rollback ck) kid i ps s)))"
  using assms(3-5)
proof (induction ps arbitrary: i P s)
  case (Cons p ps)
  let ?now = "gc_rollback ck i" let ?s = "rollback R (snd ?now) kid p (fst ?now) s"
  note w = one_windowD [OF assms(1)]
  have p: "p \<in> P" using Cons.prems(3) by simp
  have "base p + 1 \<noteq> 0" using assms(2) [of p] by simp
  note undo = rollback_counts [OF chargedD(1) [OF Cons.prems(1) p] this w(5,6) w(2) [symmetric]]
  have c: "charged t0 T a kid base st0 (P - {p}) (view ?s)"
    by (rule charged_move [OF Cons.prems(1) undo(2)]) (use undo(1) in auto)
  have "P - {p} - set ps = P - set (p # ps)" by auto
  with Cons.IH [OF c, of "Suc i"] Cons.prems(2,3) show ?case by (auto simp: prog_simps)
qed (simp add: prog_simps)

lemma quota_loop_charges:
  assumes "one_window ck a t0 T" "\<And>p. 0 \<le> base p"
    and "charged t0 T a kid base st0 (set consumed) (view s)" "distinct (consumed @ map q_period qs)"
  shows "case quota_loop R ck kid consumed qs s of
     (Inl e, s') \<Rightarrow> charged t0 T a kid base st0 {} (view s') \<and> (\<exists>q \<in> set qs. q_max_requests q \<le> base (q_period q))
   | (Inr ps, s') \<Rightarrow> ps = consumed @ map q_period qs \<and> charged t0 T a kid base st0 (set ps) (view s') \<and>
       (\<forall>q \<in> set qs. base (q_period q) < q_max_requests q)"
  using assms(3-4)
proof (induction qs arbitrary: consumed s)
  case Nil
  then show ?case by (simp add: prog_simps)
next
  case (Cons q qs)
  let ?i = "gc_consume ck (length consumed)" and ?p = "q_period q"
  let ?c = "consume R (snd ?i) kid ?p (q_max_requests q) (fst ?i) s"
  note w = one_windowD [OF assms(1)]
  have new: "?p \<notin> set consumed" using Cons.prems(2) by auto
  note one = consume_counts [OF chargedD(2) [OF Cons.prems(1) new] assms(2) w(3,4,7) w(1) [symmetric],
      where lmt = "q_max_requests q"]
  have c: "charged t0 T a kid base st0 (set (consumed @ [?p])) (view (snd ?c))"
    by (rule charged_move [OF Cons.prems(1) one(3)]) (use one(2) in auto)
  have run: "consumeP R ?i kid q s = (Inr (fst ?c), snd ?c)" by (simp add: consumeP_def split_beta)
  have ex: "exceeded (fst ?c) \<longleftrightarrow> q_max_requests q \<le> base ?p"
    using one(1) consume_limit [of R "snd ?i" kid ?p "q_max_requests q" "fst ?i" s "fst ?c" "snd ?c"]
    by (auto simp: exceeded_def)
  show ?case
  proof (cases "q_max_requests q \<le> base ?p")
    case True
    have d: "distinct (consumed @ [?p])" using Cons.prems(2) by simp
    show ?thesis
      using rollback_quota_gives_back [OF assms(1,2) c d order_refl, of 0] True ex run
      by (auto simp: prog_simps split: prod.splits sum.splits)
  next
    case False
    then have "quota_loop R ck kid consumed (q # qs) s = quota_loop R ck kid (consumed @ [?p]) qs (snd ?c)"
      using ex run by (simp add: prog_simps)
    then show ?thesis using Cons.IH [OF c] Cons.prems(2) False by (auto split: prod.splits sum.splits)
  qed
qed

end

section \<open>The stages of a request\<close>

abbreviation http_of :: "('r \<times> 'h) world \<Rightarrow> 'h" where "http_of w \<equiv> snd (w_redis w)"

text \<open>What authentication and the choice of the version establish.\<close>

definition resolved ::
  "('r, 'h) gateway \<Rightarrow> gw_clock \<Rightarrow> incoming_request \<Rightarrow> string option \<Rightarrow> db \<Rightarrow> api_key \<Rightarrow> api \<Rightarrow> api_version \<Rightarrow> bool" where
  "resolved G ck req presented d k a v \<longleftrightarrow>
     (case presented of None \<Rightarrow> False | Some p \<Rightarrow> p \<noteq> [] \<and> k_key_hash k = hash_token (gw_env G) p) \<and>
     k \<in> set (db_keys d) \<and> is_valid_at k (gc_now ck) \<and>
     a \<in> set (db_apis d) \<and> a_id a = k_api_id k \<and> a_is_active a \<and> a_slug a = ir_api_slug req \<and>
     v \<in> set (db_versions d) \<and> v_api_id v = a_id a \<and> v_version v = ir_version req \<and> v_is_active v"

lemma select_one_Some: "select_one tab P d = (Inr (Some x), d') \<Longrightarrow> x \<in> set (tab d) \<and> P x \<and> d' = d"
proof -
  assume "select_one tab P d = (Inr (Some x), d')"
  then have "x \<in> set (filter P (tab d)) \<and> d' = d"
    by (cases "filter P (tab d)" rule: scalar_one_or_none.cases) (auto simp: select_one_def)
  then show ?thesis by simp
qed

lemma gw_authenticate_Inr:
  assumes "gw_authenticate E now presented d = (Inr (k, a), d')"
  shows "(case presented of None \<Rightarrow> False | Some p \<Rightarrow> p \<noteq> [] \<and> k_key_hash k = hash_token E p) \<and>
    k \<in> set (db_keys d) \<and> is_valid_at k now \<and> a \<in> set (db_apis d) \<and> a_id a = k_api_id k \<and> a_is_active a \<and> d' = d"
  using assms
  by (auto simp: gw_authenticate_def prog_simps get_key_by_hash_def dest!: select_one_Some find_SomeD
      split: option.splits if_splits prod.splits sum.splits)

lemma keeps_http_basic:
  "preserves (\<lambda>w. http_of w = h \<and> w_db w = d) (on_cache m)"
  "reads n \<Longrightarrow> preserves (\<lambda>w. http_of w = h \<and> w_db w = d) (on_db n)"
  by (simp_all add: preserves_def on_cache_run on_db_run reads_def)

lemma reads_quota_rows: "reads (list_quotas_for_api aid)" "reads (get_rule_for_api aid)"
  by (simp_all add: list_quotas_for_api_def get_rule_for_api_def prog_keeps)

lemma keeps_http_stages:
  "preserves (\<lambda>w. http_of w = h \<and> w_db w = d) (enforce_rate_limit G tk aid kid)"
  "preserves (\<lambda>w. http_of w = h \<and> w_db w = d) (enforce_quota G ck aid kid)"
  unfolding enforce_rate_limit_def enforce_quota_def
  by (intro prog_keeps keeps_http_basic reads_quota_rows)+

lemma on_db_reads: "reads m \<Longrightarrow> m (w_db w) = (x, d) \<Longrightarrow> on_db m w = (x, w)"
  using reads_run [of m "w_db w" x d] by (simp add: on_db_run)

lemma handle_request_cases:
  assumes "handle_request G ck req presented w = (r, w')"
  obtains (refused) "isl r" "http_of w' = http_of w" "w_db w' = w_db w"
  | (admitted) k a v info w1 where "resolved G ck req presented (w_db w) k a v"
      "enforce_rate_limit G (gc_tick ck) (a_id a) (k_id k) w = (Inr info, w1)"
      "http_of w1 = http_of w" "w_db w1 = w_db w"
      "bindP (charge_and_forward G ck (a_id a) (k_id k) (v_upstream_base_url v) req)
         (\<lambda>served. ret (outcome_of ck req k a v info served)) w1 = (r, w')"
proof -
  obtain x where auth: "gw_authenticate (gw_env G) (gc_now ck) presented (w_db w) = (x, w_db w)"
    using reads_run [OF reads_authenticate] by (metis surj_pair)
  note run = assms [unfolded handle_request_def bindP_run [of "on_db (gw_authenticate (gw_env G) (gc_now ck) presented)"]
      on_db_reads [OF reads_authenticate auth]]
  show thesis
  proof (cases x)
    case (Inl e)
    then show thesis using run by (intro refused) auto
  next
    case (Inr ka)
    obtain k a where ka: "ka = (k, a)" by fastforce
    note key = gw_authenticate_Inr [OF auth [unfolded Inr ka]]
    obtain y where active: "get_active (a_id a) (ir_version req) (w_db w) = (y, w_db w)"
      by (simp add: get_active_def select_one_def)
    have ra: "reads (get_active (a_id a) (ir_version req))" by (simp add: get_active_def reads_select_one)
    show thesis
    proof (cases "a_slug a = ir_api_slug req")
      case False
      then show thesis using run Inr ka by (intro refused) (auto simp: prog_simps)
    next
      case slug: True
      show thesis
      proof (cases "\<exists>v. y = Inr (Some v) \<and> v_is_active v")
        case False
        then show thesis using run Inr ka slug on_db_reads [OF ra active]
          by (intro refused) (auto simp: prog_simps split: sum.splits option.splits)
      next
        case True
        then obtain v where v: "y = Inr (Some v)" "v_is_active v" by blast
        have res: "resolved G ck req presented (w_db w) k a v"
          using key slug v select_one_Some [OF active [unfolded v(1) get_active_def]] by (simp add: resolved_def)
        obtain z w1 where rl: "enforce_rate_limit G (gc_tick ck) (a_id a) (k_id k) w = (z, w1)" by fastforce
        have w1: "http_of w1 = http_of w" "w_db w1 = w_db w"
          using preservesD [OF keeps_http_stages(1) conjI [OF refl refl], of G "gc_tick ck" "a_id a" "k_id k" w] rl
          by simp_all
        show thesis
        proof (cases z)
          case (Inl e)
          then show thesis using run Inr ka slug v rl w1 on_db_reads [OF ra active]
            by (intro refused) (auto simp: prog_simps)
        next
          case (Inr info)
          then show thesis using run \<open>x = Inr ka\<close> ka slug v rl on_db_reads [OF ra active]
            by (intro admitted [OF res _ w1]) (auto simp: thenP_run bindP_run [of "enforce_rate_limit G tk i j" for tk i j]
                bindP_run [of "on_db m" for m] raise_if_run)
        qed
      qed
    qed
  qed
qed

text \<open>What the upstream call leaves of the world.\<close>

lemma charge_and_forward_http:
  "http_of (snd (charge_and_forward G ck aid kid url req w)) =
     (if isl (fst (enforce_quota G ck aid kid w)) then http_of w
      else snd (gw_http G (upstream_request_of url req) (http_of w)))"
  "w_db (snd (charge_and_forward G ck aid kid url req w)) = w_db w"
proof -
  obtain x w1 where q: "enforce_quota G ck aid kid w = (x, w1)" by fastforce
  have w1: "http_of w1 = http_of w" "w_db w1 = w_db w"
    using preservesD [OF keeps_http_stages(2) conjI [OF refl refl], of G ck aid kid w] q by simp_all
  show "http_of (snd (charge_and_forward G ck aid kid url req w)) =
     (if isl (fst (enforce_quota G ck aid kid w)) then http_of w
      else snd (gw_http G (upstream_request_of url req) (http_of w)))"
    "w_db (snd (charge_and_forward G ck aid kid url req w)) = w_db w"
    using q w1
    by (auto simp: charge_and_forward_def forward_def prog_simps on_cache_run split: sum.splits prod.splits http_answer.splits)
qed

section \<open>Properties\<close>

text \<open>C10: nothing reaches an upstream but authorized traffic. Whatever a request does, either the world
  behind the HTTP client is untouched, or it presented the key of a valid, unexpired, unrevoked row whose
  API is active and is the one in the path, the version in the path is an active one of that API, the rate
  limit and every quota let it pass, and exactly one call was made: to that version's upstream, without
  the caller's credentials or any other hop-by-hop header.\<close>

theorem only_authorized_traffic_forwarded:
  "let req = incoming slug version path rq; w' = snd (proxy G isofmt fs ck tx ids slug version path rq w) in
   http_of w' = http_of w \<or>
   (\<exists>k a v. resolved G ck req (extract_api_key (rq_headers rq)) (w_db w) k a v \<and>
      \<not> isl (fst (enforce_rate_limit G (gc_tick ck) (a_id a) (k_id k) w)) \<and>
      \<not> isl (fst (enforce_quota G ck (a_id a) (k_id k)
          (snd (enforce_rate_limit G (gc_tick ck) (a_id a) (k_id k) w)))) \<and>
      http_of w' = snd (gw_http G (upstream_request_of (v_upstream_base_url v) req) (http_of w)) \<and>
      set (map (str_lower \<circ> fst) (ur_headers (upstream_request_of (v_upstream_base_url v) req))) \<inter>
        set HOP_BY_HOP = {})"
proof -
  let ?req = "incoming slug version path rq" and ?key = "extract_api_key (rq_headers rq)"
  obtain r w2 where run: "handle_request G ck ?req ?key w = (r, w2)" by fastforce
  have same: "http_of (snd (proxy G isofmt fs ck tx ids slug version path rq w)) = http_of w2"
    using run by (auto simp: proxy_def prog_simps split: sum.splits prod.splits)
  have clean: "set (map (str_lower \<circ> fst) (ur_headers (upstream_request_of url ?req))) \<inter> set HOP_BY_HOP = {}" for url
    by (auto simp: upstream_request_of_def end_to_end_def)
  show ?thesis
    using run
  proof (cases rule: handle_request_cases)
    case (admitted k a v info w1)
    have w2: "http_of w2 = http_of (snd (charge_and_forward G ck (a_id a) (k_id k) (v_upstream_base_url v) ?req w1))"
      using admitted(5) by (auto simp: prog_simps split: sum.splits prod.splits)
    show ?thesis
    proof (cases "isl (fst (enforce_quota G ck (a_id a) (k_id k) w1))")
      case True
      then show ?thesis using same w2 admitted(3) by (simp add: charge_and_forward_http Let_def)
    next
      case False
      then have "http_of w2 = snd (gw_http G (upstream_request_of (v_upstream_base_url v) ?req) (http_of w))"
        using w2 admitted(3) by (simp add: charge_and_forward_http)
      then show ?thesis
        unfolding Let_def same using admitted(1,2) False clean
        by (intro disjI2 exI [of _ k] exI [of _ a] exI [of _ v]) simp
    qed
  qed (use same in \<open>simp add: Let_def\<close>)
qed

text \<open>The quotas of an API that are in force.\<close>

definition quotas_in_force :: "uuid \<Rightarrow> db \<Rightarrow> quota list" where
  "quotas_in_force aid d = filter (\<lambda>q. q_api_id q = aid) (db_quotas d)"

lemma distinct_periods: "db_ok d \<Longrightarrow> distinct (map q_period (quotas_in_force aid d))"
  using db_okD(8) [of d] by (auto simp: quotas_ok_def quotas_in_force_def distinct_map inj_on_def)

lemma enforce_quota_charges:
  assumes R: "redis_server (gw_redis G) view" and "one_window ck a t0 T" "\<And>p. 0 \<le> base p" "db_ok (w_db w)"
    and "charged t0 T a kid base st0 {} (view (fst (w_redis w)))"
  shows "case enforce_quota G ck aid kid w of
     (Inl e, w') \<Rightarrow> charged t0 T a kid base st0 {} (view (fst (w_redis w'))) \<and>
       (\<exists>q \<in> set (quotas_in_force aid (w_db w)). q_max_requests q \<le> base (q_period q))
   | (Inr ps, w') \<Rightarrow> ps = map q_period (quotas_in_force aid (w_db w)) \<and>
       charged t0 T a kid base st0 (set ps) (view (fst (w_redis w'))) \<and>
       (\<forall>q \<in> set (quotas_in_force aid (w_db w)). base (q_period q) < q_max_requests q)"
proof -
  have "charged t0 T a kid base st0 (set []) (view (fst (w_redis w)))" using assms(5) by simp
  note loop = redis_server.quota_loop_charges [OF R assms(2,3) this, where qs = "quotas_in_force aid (w_db w)"]
  show ?thesis
    using loop distinct_periods [OF assms(4), of aid]
    by (auto simp: enforce_quota_def prog_simps list_quotas_for_api_def on_cache_run quotas_in_force_def
        split: sum.splits prod.splits)
qed

text \<open>C17: from the quota check on, a quota unit is charged exactly for what is served. With Redis behaving
  as documented, when the upstream answers, the key's counters of the API's quotas are one higher and none
  was at its limit; when the request fails, because a quota is used up, the upstream cannot be reached,
  times out or the client raises anything else, every counter of the key reads what it did before; either
  way the accounting and the forwarding (\<open>charge_and_forward\<close>, the last stage of the handling) touch no
  other key of Redis. The readings of the request lie within one day and end at Redis's time \<open>T\<close>, before a
  counter of the key, there already or opened by them, could expire; for those they open that is up to two
  seconds before midnight, and the skew if Redis's clock is behind the application's (lemma
  \<open>one_window_until\<close>). In the seconds left out the counter may have expired before the day is over, as the
  theory Quota shows.\<close>

theorem quota_charged_only_when_served:
  assumes "redis_server (gw_redis G) view" "one_window ck a t0 T" "\<And>p. 0 \<le> base p" "db_ok (w_db w)"
    and "charged t0 T a kid base st0 {} (view (fst (w_redis w)))"
  shows "case charge_and_forward G ck aid kid url req w of
     (Inl e, w') \<Rightarrow> charged t0 T a kid base st0 {} (view (fst (w_redis w')))
   | (Inr _, w') \<Rightarrow> charged t0 T a kid base st0 (q_period ` set (quotas_in_force aid (w_db w))) (view (fst (w_redis w'))) \<and>
       (\<forall>q \<in> set (quotas_in_force aid (w_db w)). base (q_period q) < q_max_requests q)"
proof -
  obtain x w1 where q: "enforce_quota G ck aid kid w = (x, w1)" by fastforce
  note c = enforce_quota_charges [OF assms, of aid, unfolded q]
  show ?thesis
  proof (cases x)
    case (Inl e)
    then show ?thesis using c q by (simp add: charge_and_forward_def prog_simps)
  next
    case (Inr ps)
    note c' = c [unfolded Inr prod.case sum.case]
    have d: "distinct ps" using c' distinct_periods [OF assms(4), of aid] by simp
    note p = conjunct1 [OF conjunct2 [OF c']]
    note undo = redis_server.rollback_quota_gives_back [OF assms(1-3) p d order_refl, of 0]
    have ps: "set ps = q_period ` set (quotas_in_force aid (w_db w))" using c' by (metis list.set_map)
    have room: "\<forall>q \<in> set (quotas_in_force aid (w_db w)). base (q_period q) < q_max_requests q"
      using c' by blast
    show ?thesis
      using q Inr undo p [unfolded ps] room
      by (auto simp: charge_and_forward_def forward_def prog_simps on_cache_run
          split: sum.splits prod.splits http_answer.splits)
  qed
qed

section \<open>A successful request\<close>

lemma map_of_header_set: "map_of (header_set k v hs) n = (if n = k then Some v else map_of hs n)"
  by (induction hs) auto

lemma charge_and_forward_Inr:
  assumes "charge_and_forward G ck aid kid url req w = (Inr (response, request_bytes, latency), w')"
  obtains u where "fst (gw_http G (upstream_request_of url req) (http_of w)) = Answered u"
    "response = \<lparr>gr_status_code = up_status_code u, gr_headers = end_to_end (up_headers u), gr_content = up_content u\<rparr>"
    "request_bytes = int (length (ir_body req))"
proof -
  obtain ps w1 where q: "enforce_quota G ck aid kid w = (Inr ps, w1)"
    and f: "on_error (forward G (gc_elapsed ck) url req)
       (on_cache (rollback_quota (gw_redis G) (gc_rollback ck) kid 0 ps)) w1 = (Inr (response, request_bytes, latency), w')"
    using assms unfolding charge_and_forward_def by (elim bindP_Inr)
  have "http_of w1 = http_of w"
    using preservesD [OF keeps_http_stages(2) conjI [OF refl refl], of G ck aid kid w] q by simp
  moreover obtain u where "fst (gw_http G (upstream_request_of url req) (http_of w1)) = Answered u"
    "response = \<lparr>gr_status_code = up_status_code u, gr_headers = end_to_end (up_headers u), gr_content = up_content u\<rparr>"
    "request_bytes = int (length (ir_body req))"
    using f by (auto simp: forward_def prog_simps split: sum.splits prod.splits http_answer.splits)
  ultimately show thesis using that by simp
qed

lemma record_request_logs:
  assumes "fst (record_request isofmt now ids g d) = Inr ()"
  shows "db_logs (snd (record_request isofmt now ids g d)) = db_logs d @ [log_row now (ri_log ids) g]"
  using assms
  by (auto simp: record_request_def prog_simps add_log_def usage_increment_def emit_def add_outbox_def
      split: if_splits sum.splits prod.splits)

text \<open>C23: the caller gets the upstream's answer, and it is on record. When a request succeeds, the
  upstream of the version it named answered; the caller sees that status and body, and of the headers
  exactly the end-to-end ones next to the gateway's own; and one request log is added, with the key, its
  API and organization, the method, path, address and sizes of this request and the upstream's status.\<close>

theorem proxied_response_faithful:
  assumes "proxy G isofmt fs ck tx ids slug version path rq w = (Inr resp, w')"
  shows "\<exists>k a v u. resolved G ck (incoming slug version path rq) (extract_api_key (rq_headers rq)) (w_db w) k a v \<and>
    fst (gw_http G (upstream_request_of (v_upstream_base_url v) (incoming slug version path rq)) (http_of w)) = Answered u \<and>
    gr_status_code resp = up_status_code u \<and> gr_content resp = up_content u \<and>
    (\<forall>n. n \<in> {''X-RateLimit-Limit'', ''X-RateLimit-Remaining'', ''X-Gateway-Latency-Ms''} \<or>
       map_of (gr_headers resp) n = map_of (end_to_end (up_headers u)) n) \<and>
    (\<exists>g. db_logs (w_db w') = db_logs (w_db w) @ [g] \<and> g_id g = ri_log ids \<and> g_api_key_id g = Some (k_id k) \<and>
       g_api_id g = a_id a \<and> g_organization_id g = k_organization_id k \<and> g_api_version_id g = v_id v \<and>
       g_method g = rq_method rq \<and> g_path g = path \<and> g_status_code g = up_status_code u \<and>
       g_request_bytes g = int (length (rq_body rq)) \<and> g_response_bytes g = int (length (up_content u)) \<and>
       g_client_ip g = client_ip (map_of (rq_headers rq) ''x-forwarded-for'') (rq_peer rq))"
proof -
  let ?req = "incoming slug version path rq" and ?key = "extract_api_key (rq_headers rq)"
  have "bindP (handle_request G ck ?req ?key) (\<lambda>g. thenP (on_db (record_request isofmt tx ids g))
      (ret (proxy_response fs g))) w = (Inr resp, w')"
    using assms by (auto simp: proxy_def get_session_def split: sum.splits prod.splits)
  then obtain g w2 where h: "handle_request G ck ?req ?key w = (Inr g, w2)"
    and rec: "thenP (on_db (record_request isofmt tx ids g)) (ret (proxy_response fs g)) w2 = (Inr resp, w')"
    by (elim bindP_Inr)
  have logs: "db_logs (w_db w') = db_logs (w_db w2) @ [log_row tx (ri_log ids) g]" and resp: "resp = proxy_response fs g"
    using rec record_request_logs [of isofmt tx ids g "w_db w2"]
    by (auto simp: thenP_run on_db_run ret_run split: sum.splits prod.splits)
  show ?thesis
    using h
  proof (cases rule: handle_request_cases)
    case refused
    then show ?thesis by simp
  next
    case (admitted k a v info w1)
    obtain response rb lat where c: "charge_and_forward G ck (a_id a) (k_id k) (v_upstream_base_url v) ?req w1 =
        (Inr (response, rb, lat), w2)" and g: "g = outcome_of ck ?req k a v info (response, rb, lat)"
      using admitted(5) by (auto simp: ret_run elim!: bindP_Inr)
    have db: "w_db w2 = w_db w"
      using charge_and_forward_http(2) [of G ck "a_id a" "k_id k" "v_upstream_base_url v" ?req w1] c admitted(4) by simp
    obtain u where u: "fst (gw_http G (upstream_request_of (v_upstream_base_url v) ?req) (http_of w1)) = Answered u"
      "response = \<lparr>gr_status_code = up_status_code u, gr_headers = end_to_end (up_headers u), gr_content = up_content u\<rparr>"
      "rb = int (length (ir_body ?req))"
      by (rule charge_and_forward_Inr [OF c])
    have "n \<in> {''X-RateLimit-Limit'', ''X-RateLimit-Remaining'', ''X-Gateway-Latency-Ms''} \<or>
       map_of (gr_headers resp) n = map_of (end_to_end (up_headers u)) n" for n
      unfolding resp g u(2) by (simp add: proxy_response_def outcome_of_def map_of_header_set Let_def)
    then show ?thesis
      using admitted(1,3) u(1) logs db
      by (intro exI [of _ k] exI [of _ a] exI [of _ v] exI [of _ u])
         (simp add: resp g u(2,3) proxy_response_def outcome_of_def log_row_def incoming_def Let_def)
  qed
qed

definition sample_gateway :: "http_answer \<Rightarrow> (store, nat) gateway" where
  "sample_gateway answer = \<lparr>gw_env = plain_env, gw_redis = mem_redis, gw_round = (\<lambda>x. x),
     gw_http = (\<lambda>_ n. (answer, Suc n))\<rparr>"

definition sample_clock :: gw_clock where
  "sample_clock = \<lparr>gc_now = 5, gc_tick = \<lparr>tk_server = 0, tk_time = 0, tk_perf = 0\<rparr>,
     gc_consume = (\<lambda>_. (noon, server_ms noon)), gc_rollback = (\<lambda>_. (noon, server_ms noon)),
     gc_elapsed = 1 / 8, gc_done = 6\<rparr>"

definition sample_raw :: raw_request where
  "sample_raw = \<lparr>rq_method = ''GET'', rq_query = ''a=1'',
     rq_headers = [(''host'', ''gw''), (''x-api-key'', ''hash''), (''accept'', ''json'')],
     rq_body = ''hi'', rq_peer = Some ''1.2.3.4''\<rparr>"

definition sample_world :: "db \<Rightarrow> (store \<times> nat) world" where
  "sample_world d = \<lparr>w_db = d, w_sent = [], w_redis = (\<lambda>_. None, 0)\<rparr>"

definition sample_answer :: http_answer where
  "sample_answer = Answered \<lparr>up_status_code = 200,
     up_headers = [(''content-type'', ''json''), (''connection'', ''close'')], up_content = ''ok''\<rparr>"

theorem proxied_response_faithful_witness:
  "\<exists>resp w'. proxy (sample_gateway sample_answer) (\<lambda>_. []) (\<lambda>_. ''1'') sample_clock 7
      \<lparr>ri_log = 1, ri_usage = 2, ri_event = 3, ri_outbox = 4\<rparr> ''pay'' ''v1'' ''x'' sample_raw
      (sample_world ((key_db None)\<lparr>db_quotas := []\<rparr>)) = (Inr resp, w') \<and>
    gr_status_code resp = 200 \<and> gr_content resp = ''ok'' \<and> length (db_logs (w_db w')) = 1"
proof -
  let ?w = "sample_world ((key_db None)\<lparr>db_quotas := []\<rparr>)"
  obtain resp w' where run: "proxy (sample_gateway sample_answer) (\<lambda>_. []) (\<lambda>_. ''1'') sample_clock 7
      \<lparr>ri_log = 1, ri_usage = 2, ri_event = 3, ri_outbox = 4\<rparr> ''pay'' ''v1'' ''x'' sample_raw ?w = (Inr resp, w')"
    by (simp add: proxy_def sample_gateway_def sample_answer_def sample_clock_def sample_raw_def sample_world_def
        key_db_def api_db_def org_db_def key_row_def api_row_def prog_simps handle_request_def gw_authenticate_def
        get_key_by_hash_def select_one_def extract_api_key_def hash_token_def plain_env_def empty_db_def
        is_valid_at_def incoming_def get_active_def enforce_rate_limit_def get_rule_for_api_def
        charge_and_forward_def enforce_quota_def list_quotas_for_api_def forward_def
        record_request_def add_log_def log_row_def outcome_of_def log_fits_def int32_def usage_increment_def
        emit_def add_outbox_def client_ip_def proxy_response_def)
  have "fst (gw_http (sample_gateway sample_answer) r h) = Answered u \<Longrightarrow>
      up_status_code u = 200 \<and> up_content u = ''ok''" for r h u
    by (auto simp: sample_gateway_def sample_answer_def)
  moreover have "db_logs (w_db ?w) = []"
    by (simp add: sample_world_def key_db_def api_db_def org_db_def empty_db_def)
  ultimately show ?thesis using proxied_response_faithful [OF run] run by fastforce
qed

lemma sample_window: "one_window sample_clock noon (server_ms noon) (server_ms noon)"
  using ttl_at_least_one [where now = noon]
  by (simp add: one_window_def sample_clock_def noon_facts) (metis zero_less_one order_less_le_trans)

lemma sample_charged: "charged t T a kid (\<lambda>_. 0) (\<lambda>_. None) {} (\<lambda>_. None)"
  by (simp add: charged_def holds_count_def live_def)

theorem quota_charged_only_when_served_witness:
  "charged (server_ms noon) (server_ms noon) noon 90 (\<lambda>_. 0) (\<lambda>_. None) {}
     (fst (w_redis (snd (charge_and_forward (sample_gateway TimedOut) sample_clock 40 90 ''http://u/''
        (incoming ''pay'' ''v1'' ''x'' sample_raw) (sample_world (key_db None))))))"
proof -
  let ?run = "charge_and_forward (sample_gateway TimedOut) sample_clock 40 90 ''http://u/''
    (incoming ''pay'' ''v1'' ''x'' sample_raw) (sample_world (key_db None))"
  have R: "redis_server (gw_redis (sample_gateway TimedOut)) (\<lambda>s. s)"
    using mem.redis_server_axioms by (simp add: sample_gateway_def)
  have ok: "db_ok (w_db (sample_world (key_db None)))" by (simp add: sample_world_def key_db_ok)
  have start: "charged (server_ms noon) (server_ms noon) noon 90 (\<lambda>_. 0) (\<lambda>_. None) {}
      (fst (w_redis (sample_world (key_db None))))"
    by (simp add: sample_world_def sample_charged)
  obtain e w' where run: "?run = (Inl e, w')"
  proof (cases ?run)
    case (Pair r w')
    show thesis
    proof (cases r)
      case (Inr x)
      obtain resp rb lat where x: "x = (resp, rb, lat)" by (cases x)
      show thesis
        by (rule charge_and_forward_Inr [OF Pair [unfolded Inr x]]) (simp add: sample_gateway_def)
    qed (use Pair that in simp)
  qed
  show ?thesis
    using quota_charged_only_when_served [where view = "\<lambda>s. s" and base = "\<lambda>_. 0", OF R sample_window _ ok start,
        of 40 "''http://u/''" "incoming ''pay'' ''v1'' ''x'' sample_raw"] run by simp
qed

text \<open>A quota belongs to a key, not to the API. Whatever one key of an API has used, and whether or
  not it is refused, another key of the same API is let through exactly when its own counters are below
  the limits; so a second key, or a rotation, brings the whole quota again.\<close>

theorem quota_not_shared_by_keys:
  assumes "redis_server (gw_redis G) view" "one_window ck a t0 T" "one_window ck' a t0 T" "db_ok (w_db w)"
    and "\<And>p. 0 \<le> base p" "\<And>p. 0 \<le> base' p" "kid' \<noteq> kid"
    and "charged t0 T a kid base before {} (view (fst (w_redis w)))"
    and "charged t0 T a kid' base' before' {} (view (fst (w_redis w)))"
  shows "\<not> isl (fst (enforce_quota G ck' aid kid' (snd (enforce_quota G ck aid kid w)))) \<longleftrightarrow>
     (\<forall>q \<in> set (quotas_in_force aid (w_db w)). base' (q_period q) < q_max_requests q)"
proof -
  let ?w = "snd (enforce_quota G ck aid kid w)"
  have db: "w_db ?w = w_db w"
    using preservesD [OF keeps_http_stages(2) conjI [OF refl refl], of G ck aid kid w] by simp
  obtain P where P: "charged t0 T a kid base before P (view (fst (w_redis ?w)))"
    using enforce_quota_charges [OF assms(1,2,5,4,8), of aid] by (auto split: prod.splits sum.splits)
  have other: "day_key kid' a p \<notin> range (day_key kid a)" for p
    using assms(7) by (auto simp: day_key_inj)
  have same: "view (fst (w_redis ?w)) (day_key kid' a p) = view (fst (w_redis w)) (day_key kid' a p)" for p
    using chargedD(3) [OF P, of "day_key kid' a p"] chargedD(3) [OF assms(8), of "day_key kid' a p"] other
    by simp
  have "charged t0 T a kid' base' (view (fst (w_redis ?w))) {} (view (fst (w_redis ?w)))"
    using assms(9) same by (simp add: charged_def holds_count_def live_def)
  from enforce_quota_charges [OF assms(1,3,6) _ this, of aid] db assms(4)
  show ?thesis by (auto simp: not_less [symmetric] split: prod.splits sum.splits)
qed

theorem quota_not_shared_by_keys_witness:
  "\<not> isl (fst (enforce_quota (sample_gateway TimedOut) sample_clock 40 91
     (snd (enforce_quota (sample_gateway TimedOut) sample_clock 40 90 (sample_world (key_db None))))))"
proof -
  have "\<not> isl (fst (enforce_quota (sample_gateway TimedOut) sample_clock 40 91
       (snd (enforce_quota (sample_gateway TimedOut) sample_clock 40 90 (sample_world (key_db None)))))) \<longleftrightarrow>
     (\<forall>q \<in> set (quotas_in_force 40 (w_db (sample_world (key_db None)))). 0 < q_max_requests q)"
    by (rule quota_not_shared_by_keys [where view = "\<lambda>s. s" and base' = "\<lambda>_. 0" and base = "\<lambda>_. 0"
        and before = "\<lambda>_. None" and before' = "\<lambda>_. None", OF _ sample_window sample_window])
       (simp_all add: sample_gateway_def mem.redis_server_axioms sample_world_def key_db_ok sample_charged)
  then show ?thesis
    by (simp add: quotas_in_force_def sample_world_def key_db_def api_db_def org_db_def)
qed

end
