(* ===== verification/Analytics.thy ===== *)
theory Analytics
  imports Gateway
begin

text \<open>
  \<open>repositories/analytics.py\<close>, \<open>services/analytics.py\<close>, \<open>api/analytics.py\<close>, \<open>api/dashboard.py\<close> and the
  \<open>analytics.rollup_daily\<close> task: aggregates of the request logs, the daily rollup of them, and the
  per-key usage. Averages and percentiles are exact rationals; a GROUP BY lists its groups in the order
  their first rows have in the table (SQL leaves the order open); ids of new rollup rows are arguments.
\<close>

section \<open>SQL's aggregates\<close>

definition group_keys :: "('a \<Rightarrow> 'k) \<Rightarrow> 'a list \<Rightarrow> 'k list" where
  "group_keys k xs = remdups (map k xs)"

definition count_where :: "('a \<Rightarrow> bool) \<Rightarrow> 'a list \<Rightarrow> int" where
  "count_where P xs = int (length (filter P xs))"

text \<open>\<open>coalesce(avg(x), 0)\<close> and \<open>coalesce(percentile_cont(p) WITHIN GROUP (ORDER BY x), 0)\<close>: the value at
  position \<open>p * (n - 1)\<close> of the sorted values, between two of them on the line that joins them.\<close>

definition avg_or_0 :: "rat list \<Rightarrow> rat" where
  "avg_or_0 xs = (if xs = [] then 0 else sum_list xs / of_nat (length xs))"

definition percentile_cont :: "rat \<Rightarrow> rat list \<Rightarrow> rat" where
  "percentile_cont p xs = (if xs = [] then 0 else
     (let ys = sort xs; pos = p * of_nat (length xs - 1); lo = nat \<lfloor>pos\<rfloor>; hi = nat \<lceil>pos\<rceil>
      in ys ! lo + (pos - of_nat lo) * (ys ! hi - ys ! lo)))"

section \<open>The repository\<close>

definition server_failed :: "request_log \<Rightarrow> bool" where
  "server_failed g \<longleftrightarrow> 500 \<le> g_status_code g"

text \<open>\<open>_scope\<close>, with the SELECT that uses it.\<close>

definition in_scope :: "uuid \<Rightarrow> uuid option \<Rightarrow> instant \<Rightarrow> request_log \<Rightarrow> bool" where
  "in_scope oid api since g \<longleftrightarrow> g_organization_id g = oid \<and> since \<le> g_created_at g \<and>
     given api (\<lambda>i. g_api_id g = i)"

definition scoped :: "uuid \<Rightarrow> uuid option \<Rightarrow> instant \<Rightarrow> db \<Rightarrow> request_log list" where
  "scoped oid api since d = filter (in_scope oid api since) (db_logs d)"

record usage_summary =
  us_request_count :: int
  us_error_count :: int
  us_error_rate :: rat
  us_avg_latency_ms :: rat
  us_p95_latency_ms :: rat

definition repo_summary :: "uuid \<Rightarrow> uuid option \<Rightarrow> instant \<Rightarrow> usage_summary dbprog" where
  "repo_summary oid api since = gets (\<lambda>d.
     let rows = scoped oid api since d; total = int (length rows); errs = count_where server_failed rows
     in \<lparr> us_request_count = total, us_error_count = errs,
          us_error_rate = (if total \<noteq> 0 then of_int errs / of_int total else 0),
          us_avg_latency_ms = py_round 2 (avg_or_0 (map g_latency_ms rows)),
          us_p95_latency_ms = py_round 2 (percentile_cont (95 / 100) (map g_latency_ms rows)) \<rparr>)"

definition repo_top_endpoints ::
  "uuid \<Rightarrow> uuid option \<Rightarrow> instant \<Rightarrow> nat \<Rightarrow> (string \<times> int \<times> rat) list dbprog" where
  "repo_top_endpoints oid api since lmt = gets (\<lambda>d.
     let rows = scoped oid api since d;
         groups = map (\<lambda>p. (p, count_where (\<lambda>g. g_path g = p) rows,
           avg_or_0 (map g_latency_ms (filter (\<lambda>g. g_path g = p) rows)))) (group_keys g_path rows)
     in map (\<lambda>(p, n, a). (p, n, py_round 2 a)) (take lmt (order_desc (\<lambda>(p, n, a). n) groups)))"

definition status_class :: "int \<Rightarrow> string" where
  "status_class c = (if c < 200 then ''1xx'' else if c < 300 then ''2xx'' else if c < 400 then ''3xx''
     else if c < 500 then ''4xx'' else ''5xx'')"

definition repo_status_breakdown :: "uuid \<Rightarrow> uuid option \<Rightarrow> instant \<Rightarrow> (string \<times> int) list dbprog" where
  "repo_status_breakdown oid api since = gets (\<lambda>d.
     let rows = scoped oid api since d; cls = (\<lambda>g. status_class (g_status_code g))
     in map (\<lambda>k. (k, count_where (\<lambda>g. cls g = k) rows)) (group_keys cls rows))"

definition repo_active_keys :: "uuid \<Rightarrow> uuid option \<Rightarrow> instant \<Rightarrow> int dbprog" where
  "repo_active_keys oid api since = gets (\<lambda>d.
     int (length (filter (\<lambda>k. k \<noteq> None) (group_keys g_api_key_id (scoped oid api since d)))))"

record series_point =
  sp_date :: date
  sp_request_count :: int
  sp_error_count :: int
  sp_avg_latency_ms :: rat

definition series_rows :: "uuid \<Rightarrow> uuid option \<Rightarrow> date \<Rightarrow> db \<Rightarrow> daily_usage list" where
  "series_rows oid api since_date d = filter (\<lambda>u. du_organization_id u = oid \<and> since_date \<le> du_usage_date u \<and>
     given api (\<lambda>i. du_api_id u = i)) (db_daily d)"

definition series_point_of :: "daily_usage list \<Rightarrow> date \<Rightarrow> series_point" where
  "series_point_of rows t =
     (let day = filter (\<lambda>u. du_usage_date u = t) rows; requests = sum_list (map du_request_count day)
      in \<lparr> sp_date = t, sp_request_count = requests, sp_error_count = sum_list (map du_error_count day),
           sp_avg_latency_ms = (if requests \<noteq> 0
             then py_round 2 (sum_list (map du_total_latency_ms day) / of_int requests) else 0) \<rparr>)"

definition repo_daily_series :: "uuid \<Rightarrow> uuid option \<Rightarrow> date \<Rightarrow> series_point list dbprog" where
  "repo_daily_series oid api since_date = gets (\<lambda>d.
     let rows = series_rows oid api since_date d
     in map (series_point_of rows) (sort (group_keys du_usage_date rows)))"

text \<open>\<open>top_keys\<close>. The query does not use \<open>organization_id\<close>.\<close>

definition repo_top_keys :: "uuid \<Rightarrow> date \<Rightarrow> nat \<Rightarrow> (string \<times> int \<times> int) list dbprog" where
  "repo_top_keys oid since_date lmt = gets (\<lambda>d.
     let rows = filter (\<lambda>u. since_date \<le> ku_usage_date u) (db_usage d);
         groups = map (\<lambda>k. let mine = filter (\<lambda>u. ku_api_key_id u = k) rows
           in (k, sum_list (map ku_request_count mine), sum_list (map ku_error_count mine))) (group_keys ku_api_key_id rows)
     in map (\<lambda>(k, n, e). (uuid_str k, n, e)) (take lmt (order_desc (\<lambda>(k, n, e). n) groups)))"

text \<open>\<open>rollup_daily\<close>: the day's bounds are its first and last microsecond; the new row of the \<open>i\<close>-th
  group has the id \<open>ids i\<close>.\<close>

definition day_rows :: "date \<Rightarrow> db \<Rightarrow> request_log list" where
  "day_rows t d = filter (\<lambda>g. t * us_per_day \<le> g_created_at g \<and> g_created_at g \<le> t * us_per_day + (us_per_day - 1)) (db_logs d)"

definition org_api :: "request_log \<Rightarrow> uuid \<times> uuid" where
  "org_api g = (g_organization_id g, g_api_id g)"

definition rollup_row :: "date \<Rightarrow> request_log list \<Rightarrow> uuid \<Rightarrow> uuid \<times> uuid \<Rightarrow> daily_usage" where
  "rollup_row t rows i k = (let mine = filter (\<lambda>g. org_api g = k) rows
     in \<lparr> du_id = i, du_organization_id = fst k, du_api_id = snd k, du_usage_date = t,
          du_request_count = int (length mine), du_error_count = count_where server_failed mine,
          du_total_latency_ms = sum_list (map g_latency_ms mine),
          du_total_request_bytes = sum_list (map g_request_bytes mine),
          du_total_response_bytes = sum_list (map g_response_bytes mine) \<rparr>)"

definition rollup_rows :: "(nat \<Rightarrow> uuid) \<Rightarrow> date \<Rightarrow> db \<Rightarrow> daily_usage list" where
  "rollup_rows ids t d = (let rows = day_rows t d; groups = group_keys org_api rows
     in map (\<lambda>i. rollup_row t rows (ids i) (groups ! i)) [0..<length groups])"

definition repo_rollup_daily :: "(nat \<Rightarrow> uuid) \<Rightarrow> date \<Rightarrow> nat dbprog" where
  "repo_rollup_daily ids t =
     thenP (modifyP (\<lambda>d. d\<lparr>db_daily := delete_where (\<lambda>u. du_usage_date u = t) (db_daily d)\<rparr>))
     (bindP (gets (rollup_rows ids t)) (\<lambda>rows. thenP (mapP add_daily rows) (ret (length rows))))"

section \<open>The service\<close>

definition since_days :: "instant \<Rightarrow> int \<Rightarrow> instant" where
  "since_days now days = now - days * us_per_day"

record summary_response =
  sr_request_count :: int
  sr_error_count :: int
  sr_error_rate :: rat
  sr_avg_latency_ms :: rat
  sr_p95_latency_ms :: rat
  sr_active_keys :: int
  sr_window_days :: int

definition analytics_summary :: "instant \<Rightarrow> uuid \<Rightarrow> uuid option \<Rightarrow> int \<Rightarrow> summary_response dbprog" where
  "analytics_summary now oid api days =
     (let since = since_days now days
      in bindP (repo_summary oid api since) (\<lambda>s. bindP (repo_active_keys oid api since) (\<lambda>active.
         ret \<lparr> sr_request_count = us_request_count s, sr_error_count = us_error_count s,
               sr_error_rate = py_round 4 (us_error_rate s), sr_avg_latency_ms = us_avg_latency_ms s,
               sr_p95_latency_ms = us_p95_latency_ms s, sr_active_keys = active, sr_window_days = days \<rparr>)))"

definition analytics_top_endpoints where
  "analytics_top_endpoints now oid api days lmt = repo_top_endpoints oid api (since_days now days) lmt"

definition analytics_status_breakdown where
  "analytics_status_breakdown now oid api days = repo_status_breakdown oid api (since_days now days)"

definition analytics_timeseries where
  "analytics_timeseries now oid api days = repo_daily_series oid api (date_of (since_days now days))"

definition analytics_top_keys where
  "analytics_top_keys now oid days lmt = repo_top_keys oid (date_of (since_days now days)) lmt"

section \<open>Endpoints\<close>

definition summary_endpoint where
  "summary_endpoint E st now cred oid api days =
     authorized E st now cred ANALYTICS_READ oid (\<lambda>_. analytics_summary now oid api days)"

definition top_endpoints_endpoint where
  "top_endpoints_endpoint E st now cred oid api days lmt =
     authorized E st now cred ANALYTICS_READ oid (\<lambda>_. analytics_top_endpoints now oid api days lmt)"

definition status_breakdown_endpoint where
  "status_breakdown_endpoint E st now cred oid api days =
     authorized E st now cred ANALYTICS_READ oid (\<lambda>_. analytics_status_breakdown now oid api days)"

definition timeseries_endpoint where
  "timeseries_endpoint E st now cred oid api days =
     authorized E st now cred ANALYTICS_READ oid (\<lambda>_. analytics_timeseries now oid api days)"

definition top_keys_endpoint where
  "top_keys_endpoint E st now cred oid days lmt =
     authorized E st now cred ANALYTICS_READ oid (\<lambda>_. analytics_top_keys now oid days lmt)"

record dashboard =
  da_summary :: summary_response
  da_top_endpoints :: "(string \<times> int \<times> rat) list"
  da_status_breakdown :: "(string \<times> int) list"
  da_top_keys :: "(string \<times> int \<times> int) list"
  da_api_count :: int

definition developer_dashboard where
  "developer_dashboard E st now nows cred oid days = authorized E st now cred ANALYTICS_READ oid (\<lambda>_.
     bindP (gets (\<lambda>d. count_where (\<lambda>a. a_organization_id a = oid) (db_apis d))) (\<lambda>api_count.
     bindP (analytics_summary (nows (0 :: nat)) oid None days) (\<lambda>s.
     bindP (analytics_top_endpoints (nows (1 :: nat)) oid None days 5) (\<lambda>top.
     bindP (analytics_status_breakdown (nows (2 :: nat)) oid None days) (\<lambda>classes.
     bindP (analytics_top_keys (nows 3) oid days 5) (\<lambda>keys.
     ret \<lparr> da_summary = s, da_top_endpoints = top, da_status_breakdown = classes, da_top_keys = keys,
           da_api_count = api_count \<rparr>))))))"

text \<open>The task: yesterday, then today, in one transaction.\<close>

definition rollup_daily_usage :: "(nat \<Rightarrow> uuid) \<Rightarrow> (nat \<Rightarrow> uuid) \<Rightarrow> instant \<Rightarrow> nat dbprog" where
  "rollup_daily_usage ids ids' now = session_scope
     (bindP (repo_rollup_daily ids (date_of now - 1)) (\<lambda>n.
      bindP (repo_rollup_daily ids' (date_of now)) (\<lambda>m. ret (n + m))))"

section \<open>The rollup\<close>

lemma date_of_iff: "date_of c = t \<longleftrightarrow> t * us_per_day \<le> c \<and> c \<le> t * us_per_day + (us_per_day - 1)"
proof
  have pos: "(0::int) < us_per_day" by (simp add: us_per_day_def)
  assume "date_of c = t"
  then have "c = t * us_per_day + c mod us_per_day" by (auto simp: date_of_def)
  then show "t * us_per_day \<le> c \<and> c \<le> t * us_per_day + (us_per_day - 1)"
    using pos_mod_bound [OF pos, of c] pos_mod_sign [OF pos, of c] by linarith
next
  assume "t * us_per_day \<le> c \<and> c \<le> t * us_per_day + (us_per_day - 1)"
  then show "date_of c = t"
    unfolding date_of_def by (intro int_div_pos_eq [where r = "c - t * us_per_day"]) (auto simp: mult.commute)
qed

abbreviation api_day :: "daily_usage \<Rightarrow> uuid \<times> date" where
  "api_day u \<equiv> (du_api_id u, du_usage_date u)"

lemma mapP_add_daily:
  assumes "distinct (map du_id us)" "du_id ` set us \<inter> du_id ` set (db_daily d) = {}"
  shows "if (\<forall>u \<in> set us. daily_fits u) \<and> distinct (map api_day us) \<and>
      api_day ` set us \<inter> api_day ` set (db_daily d) = {}
    then mapP add_daily us d = (Inr (map (\<lambda>_. ()) us), d\<lparr>db_daily := db_daily d @ us\<rparr>)
    else \<exists>e d'. mapP add_daily us d = (Inl e, d')"
  using assms
proof (induction us arbitrary: d)
  case (Cons u us)
  let ?d = "d\<lparr>db_daily := db_daily d @ [u]\<rparr>"
  show ?case
  proof (cases "daily_fits u \<and> api_day u \<notin> api_day ` set (db_daily d)")
    case True
    have one: "add_daily u d = (Inr (), ?d)"
      using Cons.prems True by (auto simp: add_daily_def prog_simps)
    let ?ok = "(\<forall>u \<in> set us. daily_fits u) \<and> distinct (map api_day us) \<and>
        api_day ` set us \<inter> api_day ` set (db_daily ?d) = {}"
    have rest: "if ?ok then mapP add_daily us ?d = (Inr (map (\<lambda>_. ()) us), ?d\<lparr>db_daily := db_daily ?d @ us\<rparr>)
      else \<exists>e d'. mapP add_daily us ?d = (Inl e, d')"
      by (rule Cons.IH) (use Cons.prems in auto)
    have ok: "(\<forall>u \<in> set (u # us). daily_fits u) \<and> distinct (map api_day (u # us)) \<and>
        api_day ` set (u # us) \<inter> api_day ` set (db_daily d) = {} \<longleftrightarrow> ?ok"
      using True by auto
    show ?thesis
    proof (cases ?ok)
      case True
      then show ?thesis using one rest by (simp only: ok if_True) (simp add: prog_simps)
    next
      case False
      then obtain e d' where "mapP add_daily us ?d = (Inl e, d')" using rest by (simp only: if_False) blast
      then show ?thesis using one False by (simp only: ok if_False) (simp add: prog_simps)
    qed
  next
    case False
    then have "\<exists>e d'. add_daily u d = (Inl e, d')" by (auto simp: add_daily_def prog_simps)
    then show ?thesis using False by (auto simp: prog_simps)
  qed
qed (simp add: prog_simps)

text \<open>What the rollup promises: after it, the table's content for the day is the logs' totals.\<close>

type_synonym totals = "int \<times> int \<times> rat \<times> int \<times> int"

definition row_totals :: "daily_usage \<Rightarrow> totals" where
  "row_totals u = (du_request_count u, du_error_count u, du_total_latency_ms u, du_total_request_bytes u,
     du_total_response_bytes u)"

definition daily_view :: "db \<Rightarrow> uuid \<times> uuid \<Rightarrow> date \<Rightarrow> totals option" where
  "daily_view d oa t =
     map_option row_totals (find (\<lambda>u. (du_organization_id u, du_api_id u) = oa \<and> du_usage_date u = t) (db_daily d))"

definition log_totals :: "db \<Rightarrow> uuid \<times> uuid \<Rightarrow> date \<Rightarrow> totals option" where
  "log_totals d oa t = (let mine = filter (\<lambda>g. org_api g = oa \<and> date_of (g_created_at g) = t) (db_logs d)
     in if mine = [] then None else Some (int (length mine), count_where server_failed mine,
          sum_list (map g_latency_ms mine), sum_list (map g_request_bytes mine), sum_list (map g_response_bytes mine)))"

definition totals_fit :: "totals \<Rightarrow> bool" where
  "totals_fit = (\<lambda>(n, e, l, q, p). int32 n \<and> int32 e \<and> int32 q \<and> int32 p)"

definition rollup_groups :: "date \<Rightarrow> db \<Rightarrow> (uuid \<times> uuid) list" where
  "rollup_groups t d = group_keys org_api (day_rows t d)"

lemma day_rows_date: "day_rows t d = filter (\<lambda>g. date_of (g_created_at g) = t) (db_logs d)"
  by (simp add: day_rows_def date_of_iff)

lemma rollup_row_totals:
  "oa \<in> set (rollup_groups t d) \<Longrightarrow> Some (row_totals (rollup_row t (day_rows t d) i oa)) = log_totals d oa t"
  "log_totals d oa t = None \<longleftrightarrow> oa \<notin> set (rollup_groups t d)"
proof -
  have mine: "filter (\<lambda>g. org_api g = oa) (day_rows t d) =
      filter (\<lambda>g. org_api g = oa \<and> date_of (g_created_at g) = t) (db_logs d)"
    unfolding day_rows_date filter_filter by (rule filter_cong) auto
  have empty: "filter (\<lambda>g. org_api g = oa) (day_rows t d) = [] \<longleftrightarrow> oa \<notin> set (rollup_groups t d)"
    by (auto simp: filter_empty_conv rollup_groups_def group_keys_def)
  show "log_totals d oa t = None \<longleftrightarrow> oa \<notin> set (rollup_groups t d)"
    using empty by (simp add: log_totals_def mine [symmetric] Let_def)
  show "oa \<in> set (rollup_groups t d) \<Longrightarrow> Some (row_totals (rollup_row t (day_rows t d) i oa)) = log_totals d oa t"
    using empty by (simp add: log_totals_def mine [symmetric] Let_def row_totals_def rollup_row_def)
qed

lemma rollup_row_fields [simp]:
  "du_id (rollup_row t rows i k) = i" "du_organization_id (rollup_row t rows i k) = fst k"
  "du_api_id (rollup_row t rows i k) = snd k" "du_usage_date (rollup_row t rows i k) = t"
  by (simp_all add: rollup_row_def Let_def)

lemma rollup_rows_alt: "rollup_rows ids t d =
    map (\<lambda>i. rollup_row t (day_rows t d) (ids i) (rollup_groups t d ! i)) [0..<length (rollup_groups t d)]"
  by (simp add: rollup_rows_def rollup_groups_def Let_def)

lemma fits_row: "daily_fits (rollup_row t rows i k) \<longleftrightarrow> totals_fit (row_totals (rollup_row t rows i k))"
  by (simp add: daily_fits_def totals_fit_def row_totals_def)

lemma set_rollup_rows: "set (rollup_rows ids t d) =
    (\<lambda>i. rollup_row t (day_rows t d) (ids i) (rollup_groups t d ! i)) ` {..<length (rollup_groups t d)}"
  by (simp add: rollup_rows_alt lessThan_atLeast0)

lemma rollup_rows_keys:
  "map du_id (rollup_rows ids t d) = map ids [0..<length (rollup_groups t d)]"
  "map (\<lambda>u. (du_organization_id u, du_api_id u)) (rollup_rows ids t d) = rollup_groups t d"
  "u \<in> set (rollup_rows ids t d) \<Longrightarrow> du_usage_date u = t \<and> (\<exists>i k. k \<in> set (rollup_groups t d) \<and>
     u = rollup_row t (day_rows t d) i k)"
proof -
  show "map du_id (rollup_rows ids t d) = map ids [0..<length (rollup_groups t d)]"
    by (simp add: rollup_rows_alt o_def)
  show "map (\<lambda>u. (du_organization_id u, du_api_id u)) (rollup_rows ids t d) = rollup_groups t d"
    by (simp add: rollup_rows_alt o_def map_nth)
  assume "u \<in> set (rollup_rows ids t d)"
  then obtain i where "i < length (rollup_groups t d)"
    "u = rollup_row t (day_rows t d) (ids i) (rollup_groups t d ! i)"
    unfolding set_rollup_rows by blast
  then show "du_usage_date u = t \<and> (\<exists>i k. k \<in> set (rollup_groups t d) \<and> u = rollup_row t (day_rows t d) i k)"
    using nth_mem by (metis rollup_row_fields(4))
qed

lemma daily_view_rolled:
  assumes "db_daily d' = delete_where (\<lambda>u. du_usage_date u = t) (db_daily d) @ rollup_rows ids t d"
  shows "daily_view d' oa s = (if s = t then log_totals d oa t else daily_view d oa s)"
proof -
  let ?P = "\<lambda>u. (du_organization_id u, du_api_id u) = oa \<and> du_usage_date u = s"
  let ?rows = "rollup_rows ids t d"
  have old: "find ?P (delete_where (\<lambda>u. du_usage_date u = t) xs) = (if s = t then None else find ?P xs)" for xs
    by (induction xs) (auto simp: table_simps)
  have new: "find ?P ?rows = None" if "s \<noteq> t"
    using that rollup_rows_keys(3) [of _ ids t d] by (auto simp: find_None_iff)
  have here: "map_option row_totals (find ?P ?rows) = log_totals d oa t" if s: "s = t"
  proof (cases "find ?P ?rows")
    case None
    then have "oa \<notin> set (map (\<lambda>u. (du_organization_id u, du_api_id u)) ?rows)"
      using rollup_rows_keys(3) [of _ ids t d] s by (auto simp: find_None_iff)
    then show ?thesis using None rollup_row_totals(2) [of d oa t] unfolding rollup_rows_keys(2) by simp
  next
    case (Some u)
    have u: "u \<in> set ?rows" "(du_organization_id u, du_api_id u) = oa" using find_SomeD [OF Some] by auto
    then obtain i k where "k \<in> set (rollup_groups t d)" "u = rollup_row t (day_rows t d) i k"
      using rollup_rows_keys(3) [of u ids t d] by blast
    moreover from this(2) have "k = oa" using u(2) by (cases k) simp
    ultimately show ?thesis using Some rollup_row_totals(1) [of oa t d i] by simp
  qed
  have "find ?P (db_daily d') = (if s = t then find ?P ?rows else find ?P (db_daily d))"
    unfolding assms find_append old using new by (auto split: option.splits)
  then show ?thesis using here by (simp add: daily_view_def)
qed

text \<open>The table holds one row per API and day, of 32-bit totals: a day can be rebuilt when each API's
  logs of the day name one organization and the totals fit.\<close>

definition api_has_one_org :: "date \<Rightarrow> db \<Rightarrow> bool" where
  "api_has_one_org t d \<longleftrightarrow> distinct (map snd (rollup_groups t d))"

definition day_fits :: "date \<Rightarrow> db \<Rightarrow> bool" where
  "day_fits t d \<longleftrightarrow> api_has_one_org t d \<and> (\<forall>oa \<in> set (rollup_groups t d). totals_fit (the (log_totals d oa t)))"

lemma rollup_rows_insertable:
  "(\<forall>u \<in> set (rollup_rows ids t d). daily_fits u) \<and> distinct (map api_day (rollup_rows ids t d)) \<longleftrightarrow> day_fits t d"
proof -
  let ?rows = "rollup_rows ids t d"
  have fits: "daily_fits (rollup_row t (day_rows t d) i oa) \<longleftrightarrow> totals_fit (the (log_totals d oa t))"
    if "oa \<in> set (rollup_groups t d)" for i oa
    using rollup_row_totals(1) [OF that, of i] by (metis fits_row option.sel)
  have "(\<forall>u \<in> set ?rows. daily_fits u) \<longleftrightarrow>
      (\<forall>oa \<in> set (rollup_groups t d). totals_fit (the (log_totals d oa t)))"
    unfolding set_rollup_rows all_set_conv_all_nth using fits by (simp add: lessThan_def)
  moreover have "map api_day ?rows = map (\<lambda>a. (a, t)) (map snd (rollup_groups t d))"
    unfolding rollup_rows_keys(2) [of ids, symmetric] using rollup_rows_keys(3) by (auto simp: o_def)
  then have "distinct (map api_day ?rows) \<longleftrightarrow> api_has_one_org t d"
    by (simp add: distinct_map api_has_one_org_def inj_on_def)
  ultimately show ?thesis by (auto simp: day_fits_def)
qed

text \<open>One rebuilt day.\<close>

definition rolled :: "(nat \<Rightarrow> uuid) \<Rightarrow> date \<Rightarrow> db \<Rightarrow> db" where
  "rolled ids t d = d\<lparr>db_daily := delete_where (\<lambda>u. du_usage_date u = t) (db_daily d) @ rollup_rows ids t d\<rparr>"

lemma rollup_day:
  assumes "distinct (map ids [0..<length (rollup_groups t d)])"
    and "ids ` {..<length (rollup_groups t d)} \<inter> du_id ` set (db_daily d) = {}"
  shows "if day_fits t d then repo_rollup_daily ids t d = (Inr (length (rollup_groups t d)), rolled ids t d)
    else \<exists>e d'. repo_rollup_daily ids t d = (Inl e, d')"
proof -
  let ?rows = "rollup_rows ids t d"
  let ?d1 = "d\<lparr>db_daily := delete_where (\<lambda>u. du_usage_date u = t) (db_daily d)\<rparr>"
  have same: "rollup_rows ids t ?d1 = ?rows" by (simp add: rollup_rows_def day_rows_def)
  have len: "length ?rows = length (rollup_groups t d)" by (simp add: rollup_rows_alt)
  have "distinct (map du_id ?rows)" using assms(1) by (simp add: rollup_rows_keys)
  moreover have "du_id ` set ?rows = ids ` {..<length (rollup_groups t d)}"
    using arg_cong [OF rollup_rows_keys(1) [of ids t d], of set] by (auto simp: lessThan_atLeast0)
  then have "du_id ` set ?rows \<inter> du_id ` set (db_daily ?d1) = {}"
    using assms(2) by (auto simp: table_simps)
  ultimately have "if (\<forall>u \<in> set ?rows. daily_fits u) \<and> distinct (map api_day ?rows) \<and>
      api_day ` set ?rows \<inter> api_day ` set (db_daily ?d1) = {}
    then mapP add_daily ?rows ?d1 = (Inr (map (\<lambda>_. ()) ?rows), ?d1\<lparr>db_daily := db_daily ?d1 @ ?rows\<rparr>)
    else \<exists>e d'. mapP add_daily ?rows ?d1 = (Inl e, d')"
    by (rule mapP_add_daily)
  moreover have "api_day ` set ?rows \<inter> api_day ` set (db_daily ?d1) = {}"
    using rollup_rows_keys(3) [of _ ids t d] by (auto simp: table_simps)
  moreover have "repo_rollup_daily ids t d =
      (case mapP add_daily ?rows ?d1 of (Inl e, d') \<Rightarrow> (Inl e, d') | (Inr _, d') \<Rightarrow> (Inr (length ?rows), d'))"
    using same by (simp add: repo_rollup_daily_def prog_simps split: prod.split sum.split)
  ultimately show ?thesis
    using rollup_rows_insertable [of ids t d] by (auto simp: len rolled_def)
qed

lemma rolled_same [simp]:
  "rollup_groups s (rolled ids t d) = rollup_groups s d" "log_totals (rolled ids t d) oa s = log_totals d oa s"
  "day_fits s (rolled ids t d) = day_fits s d" "db_logs (rolled ids t d) = db_logs d"
  by (simp_all add: rolled_def rollup_groups_def day_rows_def log_totals_def day_fits_def api_has_one_org_def)

lemma rolled_ids:
  "du_id ` set (db_daily (rolled ids t d)) \<subseteq> du_id ` set (db_daily d) \<union> ids ` {..<length (rollup_groups t d)}"
  using arg_cong [OF rollup_rows_keys(1) [of ids t d], of set]
  by (auto simp: rolled_def table_simps lessThan_atLeast0)

lemma daily_view_rolled_day: "daily_view (rolled ids t d) oa s = (if s = t then log_totals d oa t else daily_view d oa s)"
  by (rule daily_view_rolled) (simp add: rolled_def)

section \<open>Properties\<close>

text \<open>C22: the worker's rollup refines its specification, a table that maps an organization's API and a
  day to the totals of that day's request logs. One transaction rebuilds yesterday and today: it leaves
  exactly the logs' totals for the two days, whatever was there before (so running it again changes
  nothing), and every other day as it was. It succeeds exactly when for both days each API's logs name
  one organization (the table has one row per API and day) and every total fits its 32-bit column;
  otherwise, one API with 2 GiB of response bodies in a day being enough, it fails and both days keep
  their old totals. The new rows' ids are fresh.\<close>

theorem rollup_refines_totals:
  assumes "yesterday = date_of now - 1" "today = date_of now"
    and "fresh = map ids [0..<length (rollup_groups yesterday d)] @ map ids' [0..<length (rollup_groups today d)]"
    and "distinct fresh" "set fresh \<inter> du_id ` set (db_daily d) = {}"
  shows "case rollup_daily_usage ids ids' now d of
    (Inr n, d') \<Rightarrow> day_fits yesterday d \<and> day_fits today d \<and>
      n = length (rollup_groups yesterday d) + length (rollup_groups today d) \<and>
      (\<forall>oa t. daily_view d' oa t =
        (if t = yesterday \<or> t = today then log_totals d oa t else daily_view d oa t)) \<and>
      db_logs d' = db_logs d
  | (Inl e, d') \<Rightarrow> d' = d \<and> \<not> (day_fits yesterday d \<and> day_fits today d)"
proof -
  let ?d1 = "rolled ids yesterday d"
  have yesterday: "today - 1 = yesterday" and today: "date_of now = today" using assms(1,2) by simp_all
  have first: "if day_fits yesterday d
      then repo_rollup_daily ids yesterday d = (Inr (length (rollup_groups yesterday d)), ?d1)
      else \<exists>e d'. repo_rollup_daily ids yesterday d = (Inl e, d')"
    by (rule rollup_day) (use assms(3-5) in \<open>auto simp: lessThan_atLeast0\<close>)
  have "ids' ` {..<length (rollup_groups today d)} \<inter> du_id ` set (db_daily ?d1) = {}"
    using rolled_ids [of ids yesterday d] assms(3-5) by (simp add: lessThan_atLeast0) blast
  then have second: "if day_fits today d
      then repo_rollup_daily ids' today ?d1 = (Inr (length (rollup_groups today d)), rolled ids' today ?d1)
      else \<exists>e d'. repo_rollup_daily ids' today ?d1 = (Inl e, d')"
    using rollup_day [of ids' today ?d1] assms(3,4) by simp
  have "daily_view (rolled ids' today ?d1) oa t =
      (if t = yesterday \<or> t = today then log_totals d oa t else daily_view d oa t)" for oa t
    by (auto simp: daily_view_rolled_day)
  then show ?thesis
    using first second
    by (cases "day_fits yesterday d"; cases "day_fits today d")
       (auto simp: rollup_daily_usage_def yesterday today prog_simps)
qed

definition logged_db :: db where
  "logged_db = (key_db None)\<lparr>db_logs := [log_row 5 1 (logged_outcome ''1.2.3.4'' 502)]\<rparr>"

lemma logged_db_groups: "rollup_groups 0 logged_db = [(7, 40)]"
  by (simp add: rollup_groups_def group_keys_def day_rows_def logged_db_def log_row_def logged_outcome_def org_api_def
      us_per_day_def)

lemma logged_db_yesterday: "rollup_groups (- 1) logged_db = []"
  by (simp add: rollup_groups_def group_keys_def day_rows_def logged_db_def log_row_def logged_outcome_def us_per_day_def)

theorem rollup_refines_totals_witness:
  "\<exists>d'. rollup_daily_usage (\<lambda>_. 69) (\<lambda>_. 70) 6 logged_db = (Inr 1, d') \<and>
     daily_view d' (7, 40) 0 = Some (1, 1, 1, 0, 0)"
proof -
  have totals: "log_totals logged_db (7, 40) 0 = Some (1, 1, 1, 0, 0)"
    by (simp add: log_totals_def logged_db_def log_row_def logged_outcome_def org_api_def date_of_def us_per_day_def
        count_where_def server_failed_def)
  have none: "db_daily logged_db = []" by (simp add: logged_db_def key_db_def api_db_def org_db_def empty_db_def)
  have fits: "day_fits 0 logged_db" "day_fits (- 1) logged_db"
    by (simp_all add: day_fits_def api_has_one_org_def logged_db_groups logged_db_yesterday totals totals_fit_def int32_def)
  have days: "date_of 6 - 1 = - 1" "date_of 6 = 0" by (simp_all add: date_of_def us_per_day_def)
  show ?thesis
    using rollup_refines_totals [where now = 6 and d = logged_db and ids = "\<lambda>_. 69" and ids' = "\<lambda>_. 70",
        OF refl refl refl]
    by (auto simp: days logged_db_groups logged_db_yesterday none totals fits split: prod.splits sum.splits)
qed

section \<open>Aggregates\<close>

lemma round_half_even_mono: "x \<le> y \<Longrightarrow> round_half_even x \<le> round_half_even y"
proof -
  assume le: "x \<le> y"
  have b: "\<lfloor>z\<rfloor> \<le> round_half_even z \<and> round_half_even z \<le> \<lfloor>z\<rfloor> + 1" for z
    by (simp add: round_half_even_def Let_def)
  show ?thesis
  proof (cases "\<lfloor>x\<rfloor> = \<lfloor>y\<rfloor>")
    case True
    then show ?thesis using le by (auto simp: round_half_even_def Let_def)
  next
    case False
    then have "\<lfloor>x\<rfloor> + 1 \<le> \<lfloor>y\<rfloor>" using floor_mono [OF le] by linarith
    then show ?thesis using b [of x] b [of y] by linarith
  qed
qed

lemma py_round_mono: "x \<le> y \<Longrightarrow> py_round n x \<le> py_round n y"
  by (simp add: py_round_def divide_right_mono round_half_even_mono)

lemma py_round_int: "py_round n (of_int i) = of_int i"
proof -
  have "of_int i * 10 ^ n = (of_int (i * 10 ^ n) :: rat)" by simp
  then have "round_half_even (of_int i * 10 ^ n) = i * 10 ^ n"
    by (simp only: round_half_even_def Let_def floor_of_int) simp
  then show ?thesis by (simp add: py_round_def)
qed

lemma percentile_between:
  assumes "0 \<le> p" "p \<le> 1" "xs \<noteq> []"
  shows "Min (set xs) \<le> percentile_cont p xs" "percentile_cont p xs \<le> Max (set xs)"
proof -
  let ?n = "length xs - 1" let ?pos = "p * of_nat ?n" let ?ys = "sort xs"
  let ?lo = "nat \<lfloor>?pos\<rfloor>" let ?hi = "nat \<lceil>?pos\<rceil>"
  have pos: "0 \<le> ?pos" using assms(1) by simp
  have "p * of_nat ?n \<le> 1 * of_nat ?n" by (rule mult_right_mono) (use assms(2) in auto)
  then have "?pos \<le> of_int (int ?n)" by simp
  then have "\<lceil>?pos\<rceil> \<le> int ?n" by (simp only: ceiling_le_iff)
  then have hi: "?hi < length ?ys" using assms(3) by (cases xs) auto
  have "?lo \<le> ?hi" by (intro nat_mono) linarith
  then have lo: "?lo < length ?ys" using hi by (rule le_less_trans)
  have mem: "?ys ! ?lo \<in> set xs" "?ys ! ?hi \<in> set xs" using nth_mem [OF lo] nth_mem [OF hi] by simp_all
  have le: "?ys ! ?lo \<le> ?ys ! ?hi" using sorted_nth_mono [OF sorted_sort \<open>?lo \<le> ?hi\<close> hi] .
  have "of_nat ?lo = (of_int \<lfloor>?pos\<rfloor> :: rat)" using pos by simp
  then have f: "0 \<le> ?pos - of_nat ?lo" "?pos - of_nat ?lo \<le> 1" by linarith+
  have step: "0 \<le> (?pos - of_nat ?lo) * (?ys ! ?hi - ?ys ! ?lo)"
    "(?pos - of_nat ?lo) * (?ys ! ?hi - ?ys ! ?lo) \<le> 1 * (?ys ! ?hi - ?ys ! ?lo)"
    using f le by (intro mult_nonneg_nonneg mult_right_mono; simp)+
  have val: "percentile_cont p xs = ?ys ! ?lo + (?pos - of_nat ?lo) * (?ys ! ?hi - ?ys ! ?lo)"
    using assms(3) by (simp add: percentile_cont_def Let_def)
  have upper: "A + B \<le> C" if "B \<le> 1 * (C - A)" for A B C :: rat using that by simp
  have "Min (set xs) \<le> ?ys ! ?lo" "?ys ! ?hi \<le> Max (set xs)" using mem by auto
  then show "Min (set xs) \<le> percentile_cont p xs" "percentile_cont p xs \<le> Max (set xs)"
    unfolding val using step(1) order_trans [OF upper [OF step(2)]] by (linarith, blast)
qed

lemma sum_groups:
  "finite K \<Longrightarrow> f ` set xs \<subseteq> K \<Longrightarrow> (\<Sum>k\<in>K. count_where (\<lambda>x. f x = k) xs) = int (length xs)"
proof (induction xs)
  case (Cons x xs)
  have "(\<Sum>k\<in>K. count_where (\<lambda>y. f y = k) (x # xs)) =
      (\<Sum>k\<in>K. (if f x = k then 1 else 0) + count_where (\<lambda>y. f y = k) xs)"
    by (intro sum.cong) (auto simp: count_where_def)
  also have "\<dots> = (\<Sum>k\<in>K. if f x = k then 1 else 0) + int (length xs)"
    using Cons by (simp add: sum.distrib)
  also have "(\<Sum>k\<in>K. if f x = k then 1 else 0) = (1 :: int)"
    using Cons.prems by simp
  finally show ?case by simp
qed (simp add: count_where_def)

lemma sum_group_keys: "sum_list (map (\<lambda>k. count_where (\<lambda>x. f x = k) xs) (group_keys f xs)) = int (length xs)"
  using sum_groups [of "f ` set xs" f xs] by (simp add: group_keys_def sum_list_distinct_conv_sum_set)

lemma map_of_groups: "map_of (map (\<lambda>k. (k, h k)) (group_keys f xs)) k = (if k \<in> f ` set xs then Some (h k) else None)"
  by (simp add: map_of_map_restrict group_keys_def restrict_map_def)

lemma status_class_5xx: "status_class c = ''5xx'' \<longleftrightarrow> 500 \<le> c"
  by (simp add: status_class_def)

lemma count_where_le: "0 \<le> count_where P xs" "count_where P xs \<le> int (length xs)"
  by (simp_all add: count_where_def)

lemma count_where_pos: "count_where P xs \<noteq> 0 \<longleftrightarrow> (\<exists>x \<in> set xs. P x)"
  by (auto simp: count_where_def filter_empty_conv)

text \<open>What the dashboard shows of an organization's traffic adds up. Over one window the requests
  per status class sum to the number of requests and the 5xx class is the number of errors; errors and
  active keys are no more than requests, the error rate lies between 0 and 1, and the p95 latency lies
  between the least and the greatest latency, rounded as it is.\<close>

theorem summary_consistent:
  "case (fst (analytics_summary now oid api days d), fst (analytics_status_breakdown now oid api days d)) of
    (Inr s, Inr classes) \<Rightarrow>
      sum_list (map snd classes) = sr_request_count s \<and>
      (case map_of classes ''5xx'' of None \<Rightarrow> 0 | Some n \<Rightarrow> n) = sr_error_count s \<and>
      0 \<le> sr_error_count s \<and> sr_error_count s \<le> sr_request_count s \<and>
      0 \<le> sr_active_keys s \<and> sr_active_keys s \<le> sr_request_count s \<and>
      0 \<le> sr_error_rate s \<and> sr_error_rate s \<le> 1 \<and>
      (let latencies = map g_latency_ms (scoped oid api (since_days now days) d)
       in if latencies = [] then sr_p95_latency_ms s = 0
          else py_round 2 (Min (set latencies)) \<le> sr_p95_latency_ms s \<and>
            sr_p95_latency_ms s \<le> py_round 2 (Max (set latencies)))
  | _ \<Rightarrow> False"
proof -
  let ?rows = "scoped oid api (since_days now days) d"
  let ?cls = "\<lambda>g. status_class (g_status_code g)"
  let ?clss = "map (\<lambda>k. (k, count_where (\<lambda>g. ?cls g = k) ?rows)) (group_keys ?cls ?rows)"
  let ?errs = "count_where server_failed ?rows"
  let ?rate = "if length ?rows \<noteq> 0 then of_int ?errs / of_int (int (length ?rows)) else 0 :: rat"
  have failed: "server_failed g \<longleftrightarrow> ?cls g = ''5xx''" for g
    by (simp add: server_failed_def status_class_5xx)
  have fail: "?errs = count_where (\<lambda>g. ?cls g = ''5xx'') ?rows"
    by (rule arg_cong [where f = "\<lambda>P. count_where P ?rows"]) (simp add: fun_eq_iff failed)
  have five: "(case map_of ?clss ''5xx'' of None \<Rightarrow> 0 | Some n \<Rightarrow> n) = ?errs"
    using count_where_pos [of "\<lambda>g. ?cls g = ''5xx''" ?rows]
    by (cases "''5xx'' \<in> ?cls ` set ?rows") (simp_all only: map_of_groups fail, auto, metis imageI)
  have sum: "sum_list (map snd ?clss) = int (length ?rows)"
    using sum_group_keys [of ?cls ?rows] by (simp add: o_def)
  have active: "length (filter (\<lambda>k. k \<noteq> None) (group_keys g_api_key_id ?rows)) \<le> length ?rows"
    unfolding group_keys_def using length_filter_le length_remdups_leq le_trans by (metis length_map)
  have "0 \<le> ?rate" "?rate \<le> 1"
    using count_where_le [of server_failed ?rows] by (auto simp: divide_le_eq_1)
  then have rate: "0 \<le> py_round 4 ?rate" "py_round 4 ?rate \<le> 1"
    using py_round_mono [of 0 ?rate 4] py_round_mono [of ?rate 1 4] py_round_int [of 4 0] py_round_int [of 4 1] by simp_all
  have p95: "py_round 2 (Min (set xs)) \<le> py_round 2 (percentile_cont (95 / 100) xs) \<and>
      py_round 2 (percentile_cont (95 / 100) xs) \<le> py_round 2 (Max (set xs))" if "xs \<noteq> []" for xs
    using percentile_between [OF _ _ that, of "95 / 100"] by (auto intro: py_round_mono)
  have zero: "py_round 2 (percentile_cont (95 / 100) []) = 0"
    using py_round_int [of 2 0] by (simp add: percentile_cont_def)
  show ?thesis
    using sum five active rate p95 [of "map g_latency_ms ?rows"] zero count_where_le [of server_failed ?rows]
    by (simp add: analytics_summary_def analytics_status_breakdown_def repo_summary_def repo_status_breakdown_def
        repo_active_keys_def prog_simps Let_def)
qed

text \<open>C34: the top-keys report of an organization is about every organization's keys. Whatever
  organization asks, a key with usage in the window, of any tenant, is in the report unless the report is
  full, with its id and its request and error counts, summed over all its usage rows of the window.\<close>

theorem top_keys_cross_tenants:
  assumes "u \<in> set (db_usage d)" "date_of (since_days now days) \<le> ku_usage_date u"
    and "analytics_top_keys now oid days lmt d = (Inr rows, d')" "length rows < lmt"
    and "mine = filter (\<lambda>v. ku_api_key_id v = ku_api_key_id u \<and> date_of (since_days now days) \<le> ku_usage_date v)
      (db_usage d)"
  shows "(uuid_str (ku_api_key_id u), sum_list (map ku_request_count mine), sum_list (map ku_error_count mine))
    \<in> set rows"
proof -
  let ?rows = "filter (\<lambda>u. date_of (since_days now days) \<le> ku_usage_date u) (db_usage d)"
  let ?group = "\<lambda>k. let mine = filter (\<lambda>u. ku_api_key_id u = k) ?rows
    in (k, sum_list (map ku_request_count mine), sum_list (map ku_error_count mine))"
  let ?sorted = "order_desc (\<lambda>(k, n, e). n) (map ?group (group_keys ku_api_key_id ?rows))"
  have rows: "rows = map (\<lambda>(k, n, e). (uuid_str k, n, e)) (take lmt ?sorted)"
    using assms(3) unfolding analytics_top_keys_def repo_top_keys_def gets_run Let_def by blast
  then have all: "take lmt ?sorted = ?sorted" using assms(4) by simp
  have "ku_api_key_id u \<in> set (group_keys ku_api_key_id ?rows)" using assms(1,2) by (auto simp: group_keys_def)
  then have "?group (ku_api_key_id u) \<in> set ?sorted" by (auto simp: set_order_desc)
  moreover have "?group (ku_api_key_id u) =
      (ku_api_key_id u, sum_list (map ku_request_count mine), sum_list (map ku_error_count mine))"
    by (simp add: assms(5) conj_commute Let_def)
  ultimately show ?thesis unfolding rows all by force
qed

text \<open>\<open>api_db\<close> with a key in each organization, used on day 0.\<close>

definition usage_db :: db where
  "usage_db = api_db\<lparr>db_keys := [key_row 90 ''hash'' None, (key_row 91 ''other'' None)\<lparr>k_api_id := 41, k_organization_id := 8\<rparr>],
     db_usage := [\<lparr>ku_id = 1, ku_api_key_id = 91, ku_api_id = 41, ku_usage_date = 0, ku_request_count = 3, ku_error_count = 0\<rparr>]\<rparr>"

theorem top_keys_cross_tenants_witness:
  "\<exists>rows d'. analytics_top_keys 5 7 1 10 usage_db = (Inr rows, d') \<and> (uuid_str 91, 3, 0) \<in> set rows"
proof -
  obtain rows d' where run: "analytics_top_keys 5 7 1 10 usage_db = (Inr rows, d')" and len: "length rows < 10"
    by (simp add: analytics_top_keys_def repo_top_keys_def prog_simps usage_db_def Let_def since_days_def date_of_def
        us_per_day_def group_keys_def order_desc_def)
  let ?u = "\<lparr>ku_id = 1, ku_api_key_id = 91, ku_api_id = 41, ku_usage_date = 0, ku_request_count = 3, ku_error_count = 0\<rparr>"
  have "?u \<in> set (db_usage usage_db)" by (simp add: usage_db_def)
  then show ?thesis
    using top_keys_cross_tenants [OF _ _ run len refl, of ?u] run
    by (auto simp: since_days_def date_of_def us_per_day_def usage_db_def)
qed

end
