(* ===== verification/Seed.thy ===== *)
theory Seed
  imports Session
begin

text \<open>
  \<open>db/seed.py\<close>: on startup the permission catalogue and the built-in roles of \<open>core/permissions.py\<close> are
  written to the database. The ids of new rows are arguments. A role's \<open>r_permissions\<close> is the set of its
  associated permissions as a list, here in catalogue order.
\<close>

section \<open>The operation\<close>

definition permission_row_of :: "uuid \<Rightarrow> permission \<Rightarrow> permission_row" where
  "permission_row_of i p = \<lparr>p_id = i, p_code = perm_code p, p_description = perm_code p\<rparr>"

definition new_role :: "uuid \<Rightarrow> role_name \<Rightarrow> role" where
  "new_role i r = \<lparr>r_id = i, r_name = role_code r, r_description = role_description r, r_is_system = True,
     r_permissions = []\<rparr>"

text \<open>\<open>existing_perms\<close> after the flush, and a lookup in it.\<close>

definition existing_perms :: "db \<Rightarrow> (string \<times> uuid) list" where
  "existing_perms d = map (\<lambda>p. (p_code p, p_id p)) (db_permissions d)"

definition perm_id_of :: "(string \<times> uuid) list \<Rightarrow> permission \<Rightarrow> uuid dbprog" where
  "perm_id_of perms p = (case map_of perms (perm_code p) of
     None \<Rightarrow> raise (PyExc ''KeyError'') | Some i \<Rightarrow> ret i)"

definition desired_permissions :: "role_name \<Rightarrow> permission list" where
  "desired_permissions r = filter (\<lambda>p. p \<in> role_permissions r) sorted_permissions"

definition seed_role ::
  "(string \<times> uuid) list \<Rightarrow> string list \<Rightarrow> (role_name \<Rightarrow> uuid) \<Rightarrow> role_name \<Rightarrow> unit dbprog" where
  "seed_role perms existing rid r =
     thenP (if role_code r \<in> set existing then ret () else add_role (new_role (rid r) r))
     (bindP (mapP (perm_id_of perms) (desired_permissions r)) (\<lambda>ids.
      modifyP (\<lambda>d. d\<lparr>db_roles := update_where (\<lambda>x. r_name x = role_code r) (\<lambda>x. x\<lparr>r_permissions := ids\<rparr>) (db_roles d)\<rparr>)))"

definition seed_rbac :: "(permission \<Rightarrow> uuid) \<Rightarrow> (role_name \<Rightarrow> uuid) \<Rightarrow> unit dbprog" where
  "seed_rbac pid rid =
     bindP (gets (\<lambda>d. map p_code (db_permissions d))) (\<lambda>codes.
     thenP (mapP (\<lambda>p. add_permission (permission_row_of (pid p) p)) (filter (\<lambda>p. perm_code p \<notin> set codes) sorted_permissions))
     (bindP (gets existing_perms) (\<lambda>perms.
      bindP (gets (\<lambda>d. map r_name (db_roles d))) (\<lambda>existing.
      thenP (mapP (seed_role perms existing rid) all_roles) (ret ())))))"

section \<open>Running it\<close>

lemma distinct_sorted_permissions: "distinct sorted_permissions"
proof -
  have "distinct all_permissions" by (simp add: all_permissions_def)
  then show ?thesis by (simp add: sorted_permissions_def)
qed

lemma mapP_add_permission:
  assumes "distinct ps" "inj pid" "range pid \<inter> p_id ` set (db_permissions d) = {}"
    and "perm_code ` set ps \<inter> p_code ` set (db_permissions d) = {}"
  shows "\<exists>us. mapP (\<lambda>p. add_permission (permission_row_of (pid p) p)) ps d =
    (Inr us, d\<lparr>db_permissions := db_permissions d @ map (\<lambda>p. permission_row_of (pid p) p) ps\<rparr>)"
proof -
  have gen: "pid ` set qs \<inter> p_id ` set (db_permissions d) = {} \<Longrightarrow> perm_code ` set qs \<inter> p_code ` set (db_permissions d) = {} \<Longrightarrow>
    distinct qs \<Longrightarrow> \<exists>us. mapP (\<lambda>p. add_permission (permission_row_of (pid p) p)) qs d =
    (Inr us, d\<lparr>db_permissions := db_permissions d @ map (\<lambda>p. permission_row_of (pid p) p) qs\<rparr>)" for qs d
  proof (induction qs arbitrary: d)
    case (Cons p qs)
    let ?d = "d\<lparr>db_permissions := db_permissions d @ [permission_row_of (pid p) p]\<rparr>"
    have one: "add_permission (permission_row_of (pid p) p) d = (Inr (), ?d)"
      using Cons.prems by (auto simp: add_permission_def prog_simps permission_row_of_def)
    have "\<exists>us. mapP (\<lambda>p. add_permission (permission_row_of (pid p) p)) qs ?d =
      (Inr us, ?d\<lparr>db_permissions := db_permissions ?d @ map (\<lambda>p. permission_row_of (pid p) p) qs\<rparr>)"
      by (rule Cons.IH) (use Cons.prems assms(2) in \<open>auto simp: permission_row_of_def perm_code_inj inj_eq\<close>)
    then show ?case using one by (auto simp: prog_simps)
  qed (simp add: prog_simps)
  show ?thesis by (rule gen) (use assms in auto)
qed

definition desired_ids :: "(string \<times> uuid) list \<Rightarrow> role_name \<Rightarrow> uuid list" where
  "desired_ids perms r = map (\<lambda>p. the (map_of perms (perm_code p))) (desired_permissions r)"

lemma mapP_perm_id:
  "(\<And>p. map_of perms (perm_code p) \<noteq> None) \<Longrightarrow>
   mapP (perm_id_of perms) ps d = (Inr (map (\<lambda>p. the (map_of perms (perm_code p))) ps), d)"
  by (induction ps) (auto simp: prog_simps perm_id_of_def split: option.splits)

definition role_step :: "(string \<times> uuid) list \<Rightarrow> string list \<Rightarrow> (role_name \<Rightarrow> uuid) \<Rightarrow> role_name \<Rightarrow> role list \<Rightarrow> role list" where
  "role_step perms existing rid r rows = update_where (\<lambda>x. r_name x = role_code r) (\<lambda>x. x\<lparr>r_permissions := desired_ids perms r\<rparr>)
     (if role_code r \<in> set existing then rows else rows @ [new_role (rid r) r])"

lemma names_role_step:
  "q \<noteq> r \<Longrightarrow> role_code q \<in> r_name ` set (role_step perms existing rid r rows) \<longleftrightarrow> role_code q \<in> r_name ` set rows"
  by (auto simp: role_step_def image_update_where new_role_def role_code_inj)

lemma disjoint_insert_subset: "A \<subseteq> insert x B \<Longrightarrow> x \<notin> C \<Longrightarrow> C \<inter> B = {} \<Longrightarrow> C \<inter> A = {}"
  by blast

lemma mapP_seed_role:
  assumes "\<And>p. map_of perms (perm_code p) \<noteq> None" "inj rid" "distinct rs"
    and "rid ` set rs \<inter> r_id ` set (db_roles d) = {}"
    and "\<forall>r \<in> set rs. role_code r \<in> set existing \<or> role_code r \<notin> r_name ` set (db_roles d)"
  shows "\<exists>us. mapP (seed_role perms existing rid) rs d =
    (Inr us, d\<lparr>db_roles := fold (role_step perms existing rid) rs (db_roles d)\<rparr>)"
  using assms(3-5)
proof (induction rs arbitrary: d)
  case (Cons r rs)
  let ?d = "d\<lparr>db_roles := role_step perms existing rid r (db_roles d)\<rparr>"
  have one: "seed_role perms existing rid r d = (Inr (), ?d)"
    using Cons.prems mapP_perm_id [OF assms(1)]
    by (auto simp: seed_role_def prog_simps role_step_def desired_ids_def add_role_def new_role_def)
  have ids: "r_id ` set (role_step perms existing rid r rows) \<subseteq> insert (rid r) (r_id ` set rows)" for rows
    by (auto simp: role_step_def image_update_where new_role_def)
  have "\<exists>us. mapP (seed_role perms existing rid) rs ?d =
      (Inr us, ?d\<lparr>db_roles := fold (role_step perms existing rid) rs (db_roles ?d)\<rparr>)"
  proof (rule Cons.IH)
    show "rid ` set rs \<inter> r_id ` set (db_roles ?d) = {}"
    proof -
      have a: "rid r \<notin> rid ` set rs" using Cons.prems(1) assms(2) by (auto simp: inj_eq)
      have b: "r_id ` set (db_roles ?d) \<subseteq> insert (rid r) (r_id ` set (db_roles d))" using ids by simp
      have c: "rid ` set rs \<inter> r_id ` set (db_roles d) = {}" using Cons.prems(2) by simp
      show ?thesis by (rule disjoint_insert_subset [OF b a c])
    qed
    show "\<forall>q \<in> set rs. role_code q \<in> set existing \<or> role_code q \<notin> r_name ` set (db_roles ?d)"
    proof
      fix q
      assume q: "q \<in> set rs"
      then have "q \<noteq> r" using Cons.prems(1) by auto
      then show "role_code q \<in> set existing \<or> role_code q \<notin> r_name ` set (db_roles ?d)"
        using Cons.prems(3) q by (simp add: names_role_step)
    qed
  qed (use Cons.prems in simp)
  then show ?case using one by (auto simp: prog_simps)
qed (simp add: prog_simps)

section \<open>What it leaves\<close>

lemma find_role_step:
  assumes "role_code r \<in> set existing \<longleftrightarrow> role_code r \<in> r_name ` set rows"
  shows "n \<noteq> role_code r \<Longrightarrow> find (\<lambda>x. r_name x = n) (role_step perms existing rid r rows) = find (\<lambda>x. r_name x = n) rows"
    and "\<exists>x. find (\<lambda>x. r_name x = role_code r) (role_step perms existing rid r rows) = Some x \<and>
      r_permissions x = desired_ids perms r"
proof -
  let ?rows = "if role_code r \<in> set existing then rows else rows @ [new_role (rid r) r]"
  have f: "find (\<lambda>x. r_name x = n) (role_step perms existing rid r rows) =
      map_option (\<lambda>x. if r_name x = role_code r then x\<lparr>r_permissions := desired_ids perms r\<rparr> else x)
        (find (\<lambda>x. r_name x = n) ?rows)" for n
    unfolding role_step_def by (rule find_update_where) simp
  show "n \<noteq> role_code r \<Longrightarrow> find (\<lambda>x. r_name x = n) (role_step perms existing rid r rows) = find (\<lambda>x. r_name x = n) rows"
    unfolding f by (cases "find (\<lambda>x. r_name x = n) rows") (auto simp: find_append new_role_def dest: find_SomeD)
  have "find (\<lambda>x. r_name x = role_code r) ?rows \<noteq> None"
    using assms by (auto simp: find_None_iff new_role_def)
  then obtain x where x: "find (\<lambda>x. r_name x = role_code r) ?rows = Some x" by blast
  have "r_name x = role_code r" using find_SomeD [OF x] by simp
  then have "find (\<lambda>x. r_name x = role_code r) (role_step perms existing rid r rows) =
      Some (x\<lparr>r_permissions := desired_ids perms r\<rparr>)"
    unfolding f x by simp
  then show "\<exists>x. find (\<lambda>x. r_name x = role_code r) (role_step perms existing rid r rows) = Some x \<and>
      r_permissions x = desired_ids perms r"
    by (intro exI [of _ "x\<lparr>r_permissions := desired_ids perms r\<rparr>"]) simp
qed

lemma find_fold_roles:
  assumes "distinct rs" "\<forall>r \<in> set rs. role_code r \<in> set existing \<longleftrightarrow> role_code r \<in> r_name ` set rows"
  shows "(\<forall>n. n \<notin> role_code ` set rs \<longrightarrow>
      find (\<lambda>x. r_name x = n) (fold (role_step perms existing rid) rs rows) = find (\<lambda>x. r_name x = n) rows) \<and>
    (\<forall>r \<in> set rs. \<exists>x. find (\<lambda>x. r_name x = role_code r) (fold (role_step perms existing rid) rs rows) = Some x \<and>
      r_permissions x = desired_ids perms r)"
  using assms
proof (induction rs arbitrary: rows)
  case (Cons q rs)
  let ?rows = "role_step perms existing rid q rows"
  have here: "role_code q \<in> set existing \<longleftrightarrow> role_code q \<in> r_name ` set rows" using Cons.prems by simp
  have rest: "\<forall>r \<in> set rs. role_code r \<in> set existing \<longleftrightarrow> role_code r \<in> r_name ` set ?rows"
    using Cons.prems names_role_step by (metis distinct.simps(2) list.set_intros(2))
  have d: "distinct rs" "role_code q \<notin> role_code ` set rs"
    using Cons.prems(1) by (auto simp: role_code_inj)
  note step = find_role_step [OF here] and ih = Cons.IH [OF d(1) rest]
  show ?case using ih step d(2) by auto
qed simp

lemma db_ok_update_roles:
  "db_ok d \<Longrightarrow> (\<And>x. r_id (f x) = r_id x) \<Longrightarrow> (\<And>x. r_name (f x) = r_name x) \<Longrightarrow>
   db_ok (d\<lparr>db_roles := update_where P f (db_roles d)\<rparr>)"
  by (simp add: db_ok_def roles_ok_def members_ok_def map_update_where image_update_where)

lemma reads_perm_id [prog_keeps]: "reads (perm_id_of perms p)"
  by (simp add: perm_id_of_def prog_keeps split: option.split)

lemma db_ok_seed [prog_keeps]: "preserves db_ok (seed_rbac pid rid)"
  unfolding seed_rbac_def seed_role_def
  by (intro prog_keeps preserves_modifyP db_ok_update_roles; simp)

text \<open>What the database grants to a role: the codes of its associated permissions.\<close>

definition db_grants :: "db \<Rightarrow> string \<Rightarrow> string set option" where
  "db_grants d name = map_option (\<lambda>r. set (map p_code (filter (\<lambda>p. p_id p \<in> set (r_permissions r)) (db_permissions d))))
     (find (\<lambda>r. r_name r = name) (db_roles d))"

lemma desired_codes:
  assumes "distinct (map p_id ps)" "distinct (map p_code ps)" "range perm_code \<subseteq> p_code ` set ps"
  shows "set (map p_code (filter (\<lambda>p. p_id p \<in> set (desired_ids (map (\<lambda>p. (p_code p, p_id p)) ps) r)) ps)) =
    perm_code ` role_permissions r"
proof -
  let ?perms = "map (\<lambda>p. (p_code p, p_id p)) ps"
  have look: "map_of ?perms (p_code p) = Some (p_id p)" if "p \<in> set ps" for p
    using that assms(2) by (intro map_of_is_SomeI) (auto simp: o_def)
  have row: "\<exists>p \<in> set ps. p_code p = perm_code q \<and> the (map_of ?perms (perm_code q)) = p_id p" for q
  proof -
    have "perm_code q \<in> p_code ` set ps" using assms(3) by blast
    then obtain p where p: "p \<in> set ps" "p_code p = perm_code q" by auto
    then show ?thesis using look [OF p(1)] by (intro bexI [of _ p]) simp_all
  qed
  have ids: "set (desired_ids ?perms r) = (\<lambda>q. the (map_of ?perms (perm_code q))) ` role_permissions r"
    by (auto simp: desired_ids_def desired_permissions_def)
  have "p_id p \<in> set (desired_ids ?perms r) \<longleftrightarrow> p_code p \<in> perm_code ` role_permissions r" if p: "p \<in> set ps" for p
  proof
    assume "p_id p \<in> set (desired_ids ?perms r)"
    then obtain q where q: "q \<in> role_permissions r" "p_id p = the (map_of ?perms (perm_code q))" unfolding ids by blast
    then obtain p' where "p' \<in> set ps" "p_code p' = perm_code q" "p_id p' = p_id p" using row by metis
    then have "p' = p" using unique_row [OF assms(1)] p by blast
    then show "p_code p \<in> perm_code ` role_permissions r" using q \<open>p_code p' = perm_code q\<close> by simp
  next
    assume "p_code p \<in> perm_code ` role_permissions r"
    then show "p_id p \<in> set (desired_ids ?perms r)" unfolding ids using look [OF p] by force
  qed
  moreover have "perm_code q \<in> p_code ` set ps" for q using assms(3) by blast
  ultimately show ?thesis by (auto simp: image_iff) (metis (no_types, lifting) image_iff)+
qed

text \<open>How a run goes.\<close>

lemma perm_lookup:
  assumes "range perm_code \<subseteq> p_code ` set ps"
  shows "map_of (map (\<lambda>p. (p_code p, p_id p)) ps) (perm_code p) \<noteq> None"
proof -
  have "perm_code p \<in> fst ` set (map (\<lambda>p. (p_code p, p_id p)) ps)"
    using assms by (auto simp: image_image)
  then show ?thesis by (simp add: map_of_eq_None_iff del: set_map)
qed

lemma seed_rbac_run:
  assumes "db_ok d" "inj pid" "inj rid"
    and "range pid \<inter> p_id ` set (db_permissions d) = {}" "range rid \<inter> r_id ` set (db_roles d) = {}"
  defines "ps \<equiv> db_permissions d @ map (\<lambda>p. permission_row_of (pid p) p)
      (filter (\<lambda>p. perm_code p \<notin> p_code ` set (db_permissions d)) sorted_permissions)"
  shows "seed_rbac pid rid d = (Inr (), d\<lparr>db_permissions := ps,
      db_roles := fold (role_step (map (\<lambda>p. (p_code p, p_id p)) ps) (map r_name (db_roles d)) rid) all_roles (db_roles d)\<rparr>)"
    and "range perm_code \<subseteq> p_code ` set ps"
proof -
  let ?new = "filter (\<lambda>p. perm_code p \<notin> p_code ` set (db_permissions d)) sorted_permissions"
  let ?d1 = "d\<lparr>db_permissions := ps\<rparr>" let ?perms = "map (\<lambda>p. (p_code p, p_id p)) ps"
  show codes: "range perm_code \<subseteq> p_code ` set ps"
  proof
    fix c
    assume "c \<in> range perm_code"
    then obtain q where q: "c = perm_code q" by blast
    show "c \<in> p_code ` set ps"
    proof (cases "c \<in> p_code ` set (db_permissions d)")
      case False
      then have "permission_row_of (pid q) q \<in> set ps" using q by (simp add: ps_def)
      then show ?thesis using q by (intro image_eqI) (simp_all add: permission_row_of_def)
    qed (simp add: ps_def image_Un)
  qed
  obtain us where one: "mapP (\<lambda>p. add_permission (permission_row_of (pid p) p)) ?new d = (Inr us, ?d1)"
  proof -
    have "distinct ?new" "perm_code ` set ?new \<inter> p_code ` set (db_permissions d) = {}"
      using distinct_sorted_permissions by auto
    then show thesis using that mapP_add_permission [OF _ assms(2,4), of ?new] unfolding ps_def by blast
  qed
  have "map_of ?perms (perm_code p) \<noteq> None" for p by (rule perm_lookup [OF codes])
  moreover have "distinct all_roles" by (simp add: all_roles_def)
  ultimately obtain vs where "mapP (seed_role ?perms (map r_name (db_roles d)) rid) all_roles ?d1 = (Inr vs,
      ?d1\<lparr>db_roles := fold (role_step ?perms (map r_name (db_roles d)) rid) all_roles (db_roles ?d1)\<rparr>)"
    using mapP_seed_role [of ?perms rid all_roles ?d1 "map r_name (db_roles d)"] assms(3,5) by fastforce
  then show "seed_rbac pid rid d = (Inr (), d\<lparr>db_permissions := ps,
      db_roles := fold (role_step ?perms (map r_name (db_roles d)) rid) all_roles (db_roles d)\<rparr>)"
    using one by (simp add: seed_rbac_def prog_simps existing_perms_def)
qed

text \<open>C31: seeding makes the database agree with the permission catalogue of the code, from any
  well-formed state. Afterwards each built-in role grants exactly the codes the catalogue gives it, whatever
  was granted before; other roles keep what they had, nothing but permissions and roles is written, the
  database stays well formed, and seeding again, as every startup does, changes nothing.\<close>

theorem seed_matches_catalogue:
  assumes "db_ok d" "inj pid" "inj rid"
    and "range pid \<inter> p_id ` set (db_permissions d) = {}" "range rid \<inter> r_id ` set (db_roles d) = {}"
  shows "\<exists>d'. seed_rbac pid rid d = (Inr (), d') \<and> db_ok d' \<and>
    (\<forall>r. db_grants d' (role_code r) = Some (perm_code ` role_permissions r)) \<and>
    (\<forall>n. n \<notin> range role_code \<longrightarrow> find (\<lambda>r. r_name r = n) (db_roles d') = find (\<lambda>r. r_name r = n) (db_roles d)) \<and>
    d'\<lparr>db_permissions := db_permissions d, db_roles := db_roles d\<rparr> = d \<and>
    (\<forall>pid' rid'. seed_rbac pid' rid' d' = (Inr (), d'))"
proof -
  define ps where "ps = db_permissions d @ map (\<lambda>p. permission_row_of (pid p) p)
      (filter (\<lambda>p. perm_code p \<notin> p_code ` set (db_permissions d)) sorted_permissions)"
  let ?perms = "map (\<lambda>p. (p_code p, p_id p)) ps"
  define rows where "rows = fold (role_step ?perms (map r_name (db_roles d)) rid) all_roles (db_roles d)"
  let ?d' = "d\<lparr>db_permissions := ps, db_roles := rows\<rparr>"
  have run: "seed_rbac pid rid d = (Inr (), ?d')" and codes: "range perm_code \<subseteq> p_code ` set ps"
    using seed_rbac_run [OF assms] by (simp_all add: ps_def rows_def)
  have ok: "db_ok ?d'" using preservesD [OF db_ok_seed assms(1), of pid rid] run by simp
  then have unique: "distinct (map p_id ps)" "distinct (map p_code ps)" "distinct (map r_name rows)"
    using db_okD(3) [OF ok] by (simp_all add: roles_ok_def)
  have "\<forall>r \<in> set all_roles. role_code r \<in> set (map r_name (db_roles d)) \<longleftrightarrow> role_code r \<in> r_name ` set (db_roles d)"
    by simp
  moreover have "distinct all_roles" by (simp add: all_roles_def)
  moreover have every: "set all_roles = UNIV" using all_roles_complete by auto
  ultimately have other: "n \<notin> range role_code \<Longrightarrow> find (\<lambda>r. r_name r = n) rows = find (\<lambda>r. r_name r = n) (db_roles d)"
    and built_in: "\<exists>x. find (\<lambda>x. r_name x = role_code r) rows = Some x \<and> r_permissions x = desired_ids ?perms r" for n r
    using find_fold_roles [of all_roles "map r_name (db_roles d)" "db_roles d" ?perms rid]
    unfolding rows_def every by blast+
  have grants: "db_grants ?d' (role_code r) = Some (perm_code ` role_permissions r)" for r
    using built_in [of r] desired_codes [OF unique(1,2) codes, of r] by (auto simp: db_grants_def)
  have again: "seed_rbac pid' rid' ?d' = (Inr (), ?d')" for pid' rid'
  proof -
    have none: "filter (\<lambda>p. perm_code p \<notin> set (map p_code ps)) sorted_permissions = []"
      using codes by (auto simp: filter_empty_conv)
    have known: "role_code r \<in> set (map r_name rows)" for r
      using built_in [of r] find_SomeD by (metis (mono_tags, lifting) image_eqI list.set_map)
    have same: "x \<in> set rows \<Longrightarrow> r_name x = role_code r \<Longrightarrow> x\<lparr>r_permissions := desired_ids ?perms r\<rparr> = x" for x r
      using built_in [of r] find_Some_iff_unique [OF unique(3)] by fastforce
    have keep: "update_where (\<lambda>x. r_name x = role_code r) (\<lambda>x. x\<lparr>r_permissions := desired_ids ?perms r\<rparr>) rows = rows" for r
      unfolding update_where_def by (rule map_idI) (use same in simp)
    have step: "seed_role ?perms (map r_name rows) rid' r ?d' = (Inr (), ?d')" for r
      using known [of r] mapP_perm_id [OF perm_lookup [OF codes]] keep [of r]
      by (simp add: seed_role_def prog_simps desired_ids_def)
    have "mapP (seed_role ?perms (map r_name rows) rid') rs ?d' = (Inr (map (\<lambda>_. ()) rs), ?d')" for rs
      by (induction rs) (simp_all add: prog_simps step)
    then show ?thesis using none by (simp add: seed_rbac_def prog_simps existing_perms_def)
  qed
  show ?thesis by (intro exI [of _ ?d'] conjI allI impI) (use run ok grants other again in simp_all)
qed

theorem seed_matches_catalogue_witness:
  "\<exists>d'. seed_rbac (\<lambda>p. of_nat (length (takeWhile (\<lambda>q. q \<noteq> p) all_permissions))) (\<lambda>r. of_nat (length (takeWhile (\<lambda>q. q \<noteq> r) all_roles)))
      empty_db = (Inr (), d') \<and> db_grants d' ''viewer'' = Some (perm_code ` read_only)"
proof -
  let ?pid = "\<lambda>p. of_nat (length (takeWhile (\<lambda>q. q \<noteq> p) all_permissions)) :: uuid"
  let ?rid = "\<lambda>r. of_nat (length (takeWhile (\<lambda>q. q \<noteq> r) all_roles)) :: uuid"
  have "inj ?pid" unfolding inj_on_def
  proof (intro ballI impI)
    fix p q :: permission
    assume "?pid p = ?pid q"
    then show "p = q" by (cases p; cases q) (simp_all add: all_permissions_def)
  qed
  moreover have "inj ?rid" unfolding inj_on_def
  proof (intro ballI impI)
    fix p q :: role_name
    assume "?rid p = ?rid q"
    then show "p = q" by (cases p; cases q) (simp_all add: all_roles_def)
  qed
  ultimately show ?thesis
    using seed_matches_catalogue [of empty_db ?pid ?rid] db_ok_empty
    by (auto simp: empty_db_def dest!: spec [where x = VIEWER])
qed

end
