(* ===== verification/Web.thy ===== *)
theory Web
  imports Analytics Seed
begin

text \<open>
  \<open>middleware/request_context.py\<close>, \<open>api/health.py\<close> and the admin overview of \<open>api/dashboard.py\<close>. An
  ASGI application is a function from the request's scope to the messages it sends, in order, and the
  exception it ends with, if any. A probe of Postgres or Redis is the exception it raised or nothing.
\<close>

section \<open>Request context\<close>

record scope =
  sc_type :: string
  sc_headers :: "(string \<times> string) list"
  sc_request_id :: "string option"
  sc_correlation_id :: "string option"

datatype asgi_message = ResponseStart int "(string \<times> string) list" | ResponseBody json | OtherMessage string

type_synonym asgi_app = "scope \<Rightarrow> asgi_message list \<times> exn option"

text \<open>\<open>bytes.decode()\<close>: UTF-8, or a \<open>UnicodeDecodeError\<close>; the text is represented by its bytes.\<close>

definition byte_in :: "nat \<Rightarrow> nat \<Rightarrow> char \<Rightarrow> bool" where
  "byte_in lo hi c \<longleftrightarrow> lo \<le> (of_char c :: nat) \<and> (of_char c :: nat) \<le> hi"

abbreviation continuation :: "char \<Rightarrow> bool" where "continuation \<equiv> byte_in 128 191"

fun utf8_ok :: "string \<Rightarrow> bool" where
  "utf8_ok [] = True"
| "utf8_ok (a # s) =
     (if byte_in 0 127 a then utf8_ok s
      else (case s of [] \<Rightarrow> False | b # s1 \<Rightarrow>
        if byte_in 194 223 a then continuation b \<and> utf8_ok s1
        else (case s1 of [] \<Rightarrow> False | c # s2 \<Rightarrow>
          if byte_in 224 239 a
          then (if byte_in 224 224 a then byte_in 160 191 b
                else if byte_in 237 237 a then byte_in 128 159 b else continuation b) \<and> continuation c \<and> utf8_ok s2
          else (case s2 of [] \<Rightarrow> False | e # s3 \<Rightarrow>
            byte_in 240 244 a \<and>
            (if byte_in 240 240 a then byte_in 144 191 b
             else if byte_in 244 244 a then byte_in 128 143 b else continuation b) \<and>
            continuation c \<and> continuation e \<and> utf8_ok s3))))"

definition decode_utf8 :: "string \<Rightarrow> exn + string" where
  "decode_utf8 s = (if utf8_ok s then Inr s else Inl (PyExc ''UnicodeDecodeError''))"

text \<open>\<open>send_wrapper\<close>.\<close>

fun stamp :: "string \<Rightarrow> string \<Rightarrow> asgi_message \<Rightarrow> asgi_message" where
  "stamp rid cid (ResponseStart st hs) = ResponseStart st (hs @ [(''x-request-id'', rid), (''x-correlation-id'', cid)])"
| "stamp rid cid m = m"

text \<open>The status the access line shows: of the last response started, 500 when there was none.\<close>

fun logged_status :: "int \<Rightarrow> asgi_message list \<Rightarrow> int" where
  "logged_status n [] = n"
| "logged_status n (ResponseStart st hs # ms) = logged_status st ms"
| "logged_status n (m # ms) = logged_status n ms"

text \<open>\<open>dict(headers)\<close> keeps the last of several values of a header.\<close>

definition request_context :: "uuid \<Rightarrow> asgi_app \<Rightarrow> scope \<Rightarrow> (asgi_message list \<times> exn option) \<times> int option" where
  "request_context u app sc =
     (if sc_type sc \<noteq> ''http'' then (app sc, None)
      else let rid = uuid_str u;
               inbound = (case map_of (rev (sc_headers sc)) ''x-correlation-id'' of None \<Rightarrow> [] | Some v \<Rightarrow> v)
           in case decode_utf8 inbound of
             Inl e \<Rightarrow> (([], Some e), None)
           | Inr text \<Rightarrow>
               let cid = (if text = [] then rid else text);
                   (ms, failure) = app (sc\<lparr>sc_request_id := Some rid, sc_correlation_id := Some cid\<rparr>);
                   sent = map (stamp rid cid) ms
               in ((sent, failure), Some (logged_status 500 sent)))"

text \<open>An error response as messages.\<close>

definition response_messages :: "http_response \<Rightarrow> asgi_message list" where
  "response_messages r = [ResponseStart (hr_status r) (hr_headers r), ResponseBody (hr_body r)]"

section \<open>Health\<close>

record health_component =
  hc_status :: string
  hc_detail :: "string option"

definition check_db :: "exn + unit \<Rightarrow> health_component" where
  "check_db probe = (case probe of
     Inr _ \<Rightarrow> \<lparr>hc_status = ''ok'', hc_detail = None\<rparr>
   | Inl _ \<Rightarrow> \<lparr>hc_status = ''error'', hc_detail = Some ''database unreachable''\<rparr>)"

definition check_redis :: "exn + unit \<Rightarrow> health_component" where
  "check_redis probe = (case probe of
     Inr _ \<Rightarrow> \<lparr>hc_status = ''ok'', hc_detail = None\<rparr>
   | Inl _ \<Rightarrow> \<lparr>hc_status = ''error'', hc_detail = Some ''redis unreachable''\<rparr>)"

record health_response =
  he_status :: string
  he_version :: string
  he_components :: "(string \<times> health_component) list"

definition health_ready :: "string \<Rightarrow> exn + unit \<Rightarrow> exn + unit \<Rightarrow> int \<times> health_response" where
  "health_ready version db redis =
     (let components = [(''database'', check_db db), (''redis'', check_redis redis)];
          healthy = list_all (\<lambda>c. hc_status (snd c) = ''ok'') components
      in (if healthy then 200 else 503,
          \<lparr>he_status = (if healthy then ''ok'' else ''degraded''), he_version = version, he_components = components\<rparr>))"

definition health_live :: "(string \<times> string) list" where
  "health_live = [(''status'', ''ok'')]"

section \<open>The admin overview\<close>

record overview =
  ov_organizations :: int
  ov_apis :: int
  ov_active_apis :: int
  ov_requests_24h :: int
  ov_errors_24h :: int
  ov_error_rate_24h :: rat
  ov_health :: "(string \<times> string) list"

definition admin_overview ::
  "env \<Rightarrow> settings \<Rightarrow> instant \<Rightarrow> instant \<Rightarrow> string option \<Rightarrow> exn + unit \<Rightarrow> exn + unit \<Rightarrow> overview dbprog" where
  "admin_overview E st now since_now cred db_probe redis_probe = session_scope
     (bindP (get_current_user E st now cred) (\<lambda>u.
      thenP (ofSum (get_current_superuser u))
      (bindP (gets (\<lambda>d. filter (\<lambda>g. since_now - us_per_day \<le> g_created_at g) (db_logs d))) (\<lambda>recent.
       gets (\<lambda>d. let total = int (length recent); errors = count_where server_failed recent
         in \<lparr>ov_organizations = int (length (db_orgs d)), ov_apis = int (length (db_apis d)),
             ov_active_apis = count_where a_is_active (db_apis d), ov_requests_24h = total, ov_errors_24h = errors,
             ov_error_rate_24h = (if total \<noteq> 0 then py_round 4 (of_int errors / of_int total) else 0),
             ov_health = [(''database'', hc_status (check_db db_probe)), (''redis'', hc_status (check_redis redis_probe))]\<rparr>)))))"

section \<open>Properties\<close>

lemma logged_status_stamp: "logged_status n (map (stamp rid cid) ms) = logged_status n ms"
  by (induction n ms rule: logged_status.induct) simp_all

lemma utf8_ascii: "(\<And>c. c \<in> set s \<Longrightarrow> byte_in 0 127 c) \<Longrightarrow> utf8_ok s"
  by (induction s) (auto split: list.splits)

text \<open>An error can be traced from the client's side. When a route fails with an error that the
  application's handlers render, the response that leaves the middleware carries in \<open>x-request-id\<close> the very
  id the error envelope names, and in \<open>x-correlation-id\<close> the caller's correlation id, or that same id when
  the caller sent none; the status logged is the status sent.\<close>

theorem error_response_traceable:
  assumes "sc_type sc = ''http''" "utf8_ok cid"
    and "cid = (case map_of (rev (sc_headers sc)) ''x-correlation-id'' of None \<Rightarrow> [] | Some v \<Rightarrow> v)"
    and "\<And>sc'. app sc' = (response_messages (handle_exn (sc_request_id sc') e), None)"
  shows "\<exists>st hs body. request_context u app sc = (([ResponseStart st hs, ResponseBody body], None), Some st) \<and>
    st = hr_status (handle_exn None e) \<and>
    map_of (rev hs) ''x-request-id'' = Some (uuid_str u) \<and>
    map_of (rev hs) ''x-correlation-id'' = Some (if cid = [] then uuid_str u else cid) \<and>
    Option.bind (jfield ''error'' body) (jfield ''request_id'') = Some (JStr (uuid_str u))"
proof -
  let ?r = "handle_exn (Some (uuid_str u)) e"
  have status: "hr_status ?r = hr_status (handle_exn None e)" by (simp add: handle_exn_def split: exn.split)
  have rid: "Option.bind (jfield ''error'' (hr_body ?r)) (jfield ''request_id'') = Some (JStr (uuid_str u))"
    by (simp add: handle_exn_def envelope_def opt_str_json_def split: exn.split)
  have run: "request_context u app sc = ((map (stamp (uuid_str u) (if cid = [] then uuid_str u else cid)) (response_messages ?r), None),
      Some (hr_status ?r))"
    using assms(1,2) unfolding request_context_def assms(3) [symmetric] assms(4)
    by (simp add: decode_utf8_def response_messages_def Let_def)
  show ?thesis
    unfolding run status [symmetric]
    by (intro exI [of _ "hr_status ?r"]) (simp add: response_messages_def rid)
qed

theorem error_response_traceable_witness:
  "\<exists>st hs body. request_context 7 (\<lambda>sc. (response_messages (handle_exn (sc_request_id sc) (err NotFoundError ''no'')), None))
      \<lparr>sc_type = ''http'', sc_headers = [(''x-correlation-id'', ''abc'')], sc_request_id = None, sc_correlation_id = None\<rparr> =
      (([ResponseStart st hs, ResponseBody body], None), Some st) \<and> st = 404 \<and>
    map_of (rev hs) ''x-correlation-id'' = Some ''abc'' \<and> map_of (rev hs) ''x-request-id'' = Some (uuid_str 7)"
proof -
  have "utf8_ok ''abc''" by (rule utf8_ascii) (auto simp: byte_in_def)
  then show ?thesis
    using error_response_traceable [of "\<lparr>sc_type = ''http'', sc_headers = [(''x-correlation-id'', ''abc'')], sc_request_id = None,
        sc_correlation_id = None\<rparr>" "''abc''" _ "err NotFoundError ''no''" 7] by fastforce
qed

end
