(* ===== verification/System.thy ===== *)
theory System
  imports Web
begin

text \<open>
  The platform as a whole: one step is one request to a state-changing endpoint, one run of a worker's task,
  or the seeding of a startup, whole before the next begins, with any arguments, clock readings, drawn ids
  and behaviour of the outside (Redis, the HTTP client, the telemetry sink); a state is reachable when steps lead to it from the empty
  database. The invariants of the components are put together over the reachable states.
\<close>

section \<open>Steps\<close>

type_synonym ('r, 'h) platform = "('r \<times> 'h) world"

text \<open>A request whose endpoint is a program on the database, and a worker that also talks to the outside.\<close>

abbreviation after_db :: "'a dbprog \<Rightarrow> ('r, 'h) platform \<Rightarrow> ('r, 'h) platform" where
  "after_db m w \<equiv> w\<lparr>w_db := snd (m (w_db w))\<rparr>"

definition run_publisher ::
  "'h sink \<Rightarrow> (nat \<Rightarrow> uuid set) \<Rightarrow> (nat \<Rightarrow> instant) \<Rightarrow> ('r, 'h) platform \<Rightarrow> ('r, 'h) platform" where
  "run_publisher sink locked clk w = (case publish_telemetry sink locked clk (w_db w, snd (w_redis w)) of
     (_, (d, h)) \<Rightarrow> w\<lparr>w_db := d, w_redis := (fst (w_redis w), h)\<rparr>)"

inductive platform_step :: "('r, 'h) platform \<Rightarrow> ('r, 'h) platform \<Rightarrow> bool" where
  startup: "platform_step w (after_db (session_scope (seed_rbac pid rid)) w)"
| register: "platform_step w (snd (register_endpoint E st now uid salt email pw fn w))"
| login: "platform_step w (snd (login_endpoint R ms E st now salt raw tid jti fam ip email pw w))"
| refresh: "platform_step w (after_db (refresh_endpoint E st now raw2 tid jti body ck) w)"
| logout: "platform_step w (after_db (logout_endpoint E now body ck) w)"
| verify: "platform_step w (after_db (verify_email_endpoint E st now tok) w)"
| request_reset: "platform_step w (snd (password_reset_endpoint R ms E st now ip email w))"
| confirm_reset: "platform_step w (after_db (confirm_reset_endpoint E st now salt tok pw) w)"
| create_org: "platform_step w (after_db (create_organization_endpoint E st now cred oid mid name slug) w)"
| update_org: "platform_step w (after_db (update_organization_endpoint E st now cred oid name) w)"
| delete_org: "platform_step w (after_db (delete_organization_endpoint E st now cred oid) w)"
| add_member: "platform_step w (after_db (add_member_endpoint E st now cred oid mid nid email role) w)"
| update_role: "platform_step w (after_db (update_member_role_endpoint E st now cred oid mid role) w)"
| remove_member: "platform_step w (after_db (remove_member_endpoint E st now cred oid mid) w)"
| create_api: "platform_step w (after_db (create_api_endpoint E st now cred aid oid name slug desc) w)"
| update_api: "platform_step w (after_db (update_api_endpoint E st now cred oid aid nm ds act) w)"
| delete_api: "platform_step w (after_db (delete_api_endpoint E st now cred oid aid) w)"
| add_version: "platform_step w (after_db (add_version_endpoint E st now cred vid oid aid ver url active) w)"
| delete_version: "platform_step w (after_db (delete_version_endpoint E st now cred oid aid vid) w)"
| set_quota: "platform_step w (after_db (set_quota_endpoint E st now cred oid aid wanted) w)"
| set_rate_limit: "platform_step w (after_db (set_rate_limit_endpoint E st now cred lid oid aid al n win burst) w)"
| create_key: "platform_step w (after_db (create_key_endpoint E st isofmt now cred (kd :: key_draws) (ai :: audit_ids) ip oid aid name ex) w)"
| rotate_key: "platform_step w (after_db (rotate_key_endpoint E st isofmt now cred (kd :: key_draws) (ai :: audit_ids) ip oid aid kid grace) w)"
| revoke_key: "platform_step w (after_db (revoke_key_endpoint E st isofmt now cred (ai :: audit_ids) ip oid aid kid) w)"
| proxied: "platform_step w (snd (proxy G isofmt fs clocks tx ids slug version path rq w))"
| mark_read: "platform_step w (after_db (mark_read_endpoint E st now cred nid) w)"
| mark_all: "platform_step w (after_db (mark_all_read_endpoint E st now cred) w)"
| publish: "platform_step w (run_publisher sink locked clk w)"
| rollup: "platform_step w (after_db (rollup_daily_usage rids rids' now) w)"

inductive reachable :: "('r, 'h) platform \<Rightarrow> bool" where
  start: "w_db w = empty_db \<Longrightarrow> reachable w"
| step: "reachable w \<Longrightarrow> platform_step w w' \<Longrightarrow> reachable w'"

section \<open>Every table stays well formed\<close>

lemma preserves_authorized:
  "(\<And>u. preserves P (body u)) \<Longrightarrow> preserves P (authorized E st now cred perm oid body)"
  unfolding authorized_def
  by (intro preserves_session_scope preserves_bindP reads_preserves [OF reads_get_current_user]
      reads_preserves [OF reads_require_permission])

lemma db_ok_add_member_endpoint: "preserves db_ok (add_member_endpoint E st now cred oid mid nid email role)"
  unfolding add_member_endpoint_def by (intro preserves_authorized prog_keeps)

section \<open>The tables ownership reads\<close>

definition org_tables :: "db \<Rightarrow> organization list \<times> organization_member list \<times> role list" where
  "org_tables d = (db_orgs d, db_members d, db_roles d)"

lemma owned_same_tables: "org_tables d' = org_tables d \<Longrightarrow> every_org_owned d' = every_org_owned d"
  by (simp add: org_tables_def every_org_owned_def has_owner_def role_name_of_def)

text \<open>A program that leaves them alone.\<close>

abbreviation spares_orgs :: "'a dbprog \<Rightarrow> bool" where
  "spares_orgs m \<equiv> \<forall>T. preserves (\<lambda>d. org_tables d = T) m"

lemma spares_orgs_owned: "spares_orgs m \<Longrightarrow> preserves every_org_owned m"
  unfolding preserves_def using owned_same_tables by metis

lemma spares_add [prog_keeps]:
  "preserves (\<lambda>d. org_tables d = T) (add_user u)" "preserves (\<lambda>d. org_tables d = T) (add_token t)"
  "preserves (\<lambda>d. org_tables d = T) (add_api a)" "preserves (\<lambda>d. org_tables d = T) (add_version_row v)"
  "preserves (\<lambda>d. org_tables d = T) (add_quota q)" "preserves (\<lambda>d. org_tables d = T) (add_rule l)"
  "preserves (\<lambda>d. org_tables d = T) (add_key k)" "preserves (\<lambda>d. org_tables d = T) (add_log lg)"
  "preserves (\<lambda>d. org_tables d = T) (add_audit al)" "preserves (\<lambda>d. org_tables d = T) (add_outbox b)"
  "preserves (\<lambda>d. org_tables d = T) (add_daily du)" "preserves (\<lambda>d. org_tables d = T) (add_note n)"
  unfolding add_defs thenP_def
  by (intro preserves_bindP preserves_raise_if preserves_insert_row; simp add: org_tables_def)+

lemma spares_sets [prog_keeps]:
  "preserves (\<lambda>d. org_tables d = T) (set_user i f)" "preserves (\<lambda>d. org_tables d = T) (set_token i g)"
  "preserves (\<lambda>d. org_tables d = T) (revoke_family now fam)" "preserves (\<lambda>d. org_tables d = T) (revoke_token now t)"
  "preserves (\<lambda>d. org_tables d = T) (set_key i h)" "preserves (\<lambda>d. org_tables d = T) (set_note i k)"
  "preserves (\<lambda>d. org_tables d = T) (mark_all_read now u)" "preserves (\<lambda>d. org_tables d = T) (delete_quota_row q)"
  "preserves (\<lambda>d. org_tables d = T) (usage_increment uid key api day er)"
  by (auto simp: preserves_def set_user_def set_token_def revoke_family_def revoke_token_def set_key_def set_note_def
      mark_all_read_def delete_quota_row_def usage_increment_def prog_simps org_tables_def)

lemmas sparing_defs =
  authenticate_def issue_tokens_def rotate_refresh_def logout_def verify_email_def reset_password_def
  create_api_def update_api_def delete_api_def add_version_def delete_version_def set_quotas_def set_rate_limit_def
  create_key_def get_key_def revoke_key_def rotate_key_def emit_def record_audit_def record_request_def mark_read_def
  create_notification_def repo_rollup_daily_def

lemma spares_services [prog_keeps]:
  "preserves (\<lambda>d. org_tables d = T) (authenticate E salt e p)"
  "preserves (\<lambda>d. org_tables d = T) (issue_tokens E st now raw tid jti u fam)"
  "preserves (\<lambda>d. org_tables d = T) (logout E now raw)"
  "preserves (\<lambda>d. org_tables d = T) (emit isofmt now rid ev)"
  "preserves (\<lambda>d. org_tables d = T) (mark_read now i nid)"
  "preserves (\<lambda>d. org_tables d = T) (create_notification now nid i t1 t2 t3 oid)"
  unfolding sparing_defs Let_def by (intro prog_keeps reads_repo)+

lemma spares_accounts [prog_keeps]:
  "preserves (\<lambda>d. org_tables d = T) (rotate_refresh E st now raw2 tid jti raw)"
  "preserves (\<lambda>d. org_tables d = T) (verify_email E st now tok)"
  "preserves (\<lambda>d. org_tables d = T) (reset_password E st now salt tok pw)"
  "preserves (\<lambda>d. org_tables d = T) (record_audit isofmt now aid eid oid act rt org actor rid ip meta)"
  "preserves (\<lambda>d. org_tables d = T) (record_request isofmt now ids g)"
  unfolding sparing_defs Let_def by (intro prog_keeps reads_repo)+

lemma spares_rows: "org_tables (d\<lparr>db_apis := x1\<rparr>) = org_tables d" "org_tables (d\<lparr>db_versions := x2\<rparr>) = org_tables d"
  "org_tables (d\<lparr>db_rules := x3\<rparr>) = org_tables d" "org_tables (d\<lparr>db_daily := x4\<rparr>) = org_tables d"
  "org_tables (delete_apis_where P d) = org_tables d"
  by (simp_all add: org_tables_def delete_apis_where_def delete_keys_where_def Let_def)

lemma spares_create_api [prog_keeps]: "preserves (\<lambda>d. org_tables d = T) (create_api now aid oid name slug desc)"
  unfolding create_api_def by (intro prog_keeps)

lemma spares_update_api [prog_keeps]: "preserves (\<lambda>d. org_tables d = T) (update_api oid aid nm ds act)"
  unfolding update_api_def Let_def by (intro prog_keeps preserves_modifyP) (auto simp: spares_rows)

lemma spares_delete_api [prog_keeps]: "preserves (\<lambda>d. org_tables d = T) (delete_api oid aid)"
  unfolding delete_api_def by (intro prog_keeps preserves_modifyP) (auto simp: spares_rows)

lemma spares_add_version [prog_keeps]: "preserves (\<lambda>d. org_tables d = T) (add_version now vid oid aid ver url active)"
  unfolding add_version_def Let_def by (intro prog_keeps)

lemma spares_delete_version [prog_keeps]: "preserves (\<lambda>d. org_tables d = T) (delete_version oid aid vid)"
  unfolding delete_version_def by (intro prog_keeps preserves_modifyP reads_repo(1)) (auto simp: spares_rows)

lemma spares_set_quotas [prog_keeps]: "preserves (\<lambda>d. org_tables d = T) (set_quotas oid aid wanted)"
  unfolding set_quotas_def Let_def split_beta by (intro prog_keeps)

lemma spares_set_rate_limit [prog_keeps]: "preserves (\<lambda>d. org_tables d = T) (set_rate_limit lid oid aid al n win burst)"
  unfolding set_rate_limit_def Let_def by (intro prog_keeps preserves_modifyP) (auto simp: spares_rows)

lemma spares_keys [prog_keeps]:
  "preserves (\<lambda>d. org_tables d = T) (create_key E now kd oid aid name ex cby)"
  "preserves (\<lambda>d. org_tables d = T) (revoke_key now oid aid kid)"
  unfolding create_key_def revoke_key_def Let_def by (intro prog_keeps)+

lemma spares_rotate_key [prog_keeps]: "preserves (\<lambda>d. org_tables d = T) (rotate_key E t0 now kd oid aid kid grace cby)"
  unfolding rotate_key_def by (intro prog_keeps)

lemma spares_rollup [prog_keeps]: "preserves (\<lambda>d. org_tables d = T) (repo_rollup_daily ids t)"
  unfolding repo_rollup_daily_def by (intro prog_keeps preserves_modifyP) (auto simp: spares_rows)

lemma db_ok_rollup: "preserves db_ok (repo_rollup_daily ids t)"
proof -
  have "db_ok (d\<lparr>db_daily := delete_where P (db_daily d)\<rparr>)" if "db_ok d" for P d
    using that db_okD [OF that] by (simp add: db_ok_def daily_ok_def distinct_delete_where fk_delete)
  then show ?thesis
    unfolding repo_rollup_daily_def
    by (intro preserves_thenP preserves_bindP preserves_mapP preserves_gets preserves_ret preserves_modifyP db_ok_add)
qed

section \<open>The invariant\<close>

definition sound_db :: "db \<Rightarrow> bool" where
  "sound_db d \<longleftrightarrow> db_ok d \<and> every_org_owned d"

lemma sound_spared:
  assumes "sound_db d" "preserves db_ok m" "\<And>T. preserves (\<lambda>d. org_tables d = T) m"
  shows "sound_db (snd (m d))"
  using assms(1) preservesD [OF assms(2)] owned_same_tables [OF preservesD [OF assms(3) refl]] by (simp add: sound_db_def)

lemma sound_scope:
  assumes "sound_db d" "preserves db_ok m" "\<And>T. preserves (\<lambda>d. org_tables d = T) m"
  shows "sound_db (snd (session_scope m d))"
  by (rule sound_spared [OF assms(1)]) (intro preserves_session_scope assms(2,3))+

lemma sound_authorized:
  assumes "sound_db d" "\<And>u. preserves db_ok (body u)" "\<And>u T. preserves (\<lambda>d. org_tables d = T) (body u)"
  shows "sound_db (snd (authorized E st now cred perm oid body d))"
  by (rule sound_spared [OF assms(1)]) (intro preserves_authorized assms(2,3))+

lemma sound_world:
  assumes "sound_db (w_db w)" "keeps_db db_ok m" "\<And>T. keeps_db (\<lambda>d. org_tables d = T) m"
  shows "sound_db (w_db (snd (m w)))"
  using assms(1) keeps_db_run [OF assms(2), of w "fst (m w)" "snd (m w)"]
    keeps_db_run [OF assms(3), of w "org_tables (w_db w)" "fst (m w)" "snd (m w)"]
    owned_same_tables [of "w_db (snd (m w))" "w_db w"]
  by (simp add: sound_db_def)

lemma keeps_handle_request: "keeps_db P (handle_request G clocks req presented)"
  unfolding keeps_db_def
proof (rule preservesI)
  fix w :: "('a \<times> 'b) world"
  assume p: "P (w_db w)"
  obtain r w' where run: "handle_request G clocks req presented w = (r, w')" by fastforce
  have "w_db w' = w_db w"
    using run
  proof (cases rule: handle_request_cases)
    case (admitted k a v info w1)
    have "w_db w' = w_db (snd (charge_and_forward G clocks (a_id a) (k_id k) (v_upstream_base_url v) req w1))"
      using admitted(5) by (auto simp: prog_simps split: sum.splits prod.splits)
    then show ?thesis using admitted(4) by (simp add: charge_and_forward_http)
  qed
  then show "P (w_db (snd (handle_request G clocks req presented w)))" using p run by simp
qed

lemma keeps_proxy: "(\<And>g. preserves P (record_request isofmt tx ids g)) \<Longrightarrow>
    keeps_db P (proxy G isofmt fs clocks tx ids slug version path rq)"
  unfolding proxy_def
  by (intro keeps_db_get_session keeps_db_bindP keeps_handle_request keeps_db_thenP keeps_db_on_db keeps_db_basic)

lemma keeps_auth_endpoints:
  assumes "\<And>u. preserves P (add_user u)" "\<And>E salt e p. preserves P (authenticate E salt e p)"
    and "\<And>E st now raw tid jti u fam. preserves P (issue_tokens E st now raw tid jti u fam)"
  shows "keeps_db P (register_endpoint E st now uid salt email pw fn)"
    and "keeps_db P (login_endpoint R ms E st now salt raw tid jti fam ip email pw)"
    and "keeps_db P (password_reset_endpoint R ms E st now ip email)"
  unfolding register_endpoint_def login_endpoint_def password_reset_endpoint_def register_def request_password_reset_def
    send_verification_email_def Let_def
  by (intro prog_keeps assms)+

lemma sound_publish: "sound_db (w_db w) \<Longrightarrow> sound_db (w_db (run_publisher sink locked clk w))"
proof -
  assume s: "sound_db (w_db w)"
  let ?P = "\<lambda>s. sound_db (fst s)"
  have touch: "sound_db d \<Longrightarrow> sound_db (touch_rows ids p d)" for ids p d
    using owned_same_tables [of "touch_rows ids p d" d]
    by (simp add: sound_db_def touch_rows_def org_tables_def db_ok_update_outbox)
  have drain: "preserves ?P (drain_outbox sink n l now)" for n l now
    by (auto simp: preserves_def drain_outbox_def Let_def touch split: prod.splits sum.splits)
  have loop: "preserves ?P (publish_loop sink locked clk n i acc)" for n i acc
    by (induction n arbitrary: i acc) (simp_all, (intro preserves_bindP preserves_if preserves_ret drain preserves_raise_if | assumption)+)
  show ?thesis
    using s preservesD [OF loop [of 50 0 0], of "(w_db w, snd (w_redis w))"]
    by (auto simp: run_publisher_def publish_telemetry_def split: prod.splits sum.splits)
qed

lemma role_name_of_grows:
  assumes "role_name_of d rid = role_code OWNER"
  shows "role_name_of (d\<lparr>db_roles := db_roles d @ rs\<rparr>) rid = role_code OWNER"
    and "(\<And>x. r_id (f x) = r_id x \<and> r_name (f x) = r_name x) \<Longrightarrow>
      role_name_of (d\<lparr>db_roles := update_where Q f (db_roles d)\<rparr>) rid = role_code OWNER"
  using assms
  by (auto simp: role_name_of_def find_append find_update_where split: option.splits)

lemma owned_more_roles:
  assumes "every_org_owned d" "\<And>rid. role_name_of d rid = role_code OWNER \<Longrightarrow> role_name_of d' rid = role_code OWNER"
    and "db_orgs d' = db_orgs d" "db_members d' = db_members d"
  shows "every_org_owned d'"
  using assms unfolding every_org_owned_def has_owner_def by metis

lemma owned_add_role: "preserves every_org_owned (add_role r)"
  unfolding add_role_def
proof (rule preserves_insert_row)
  fix d assume "every_org_owned d"
  then show "every_org_owned (d\<lparr>db_roles := db_roles d @ [r]\<rparr>)"
    by (rule owned_more_roles) (erule role_name_of_grows(1), simp_all)
qed

lemma owned_add_permission: "preserves every_org_owned (add_permission p)"
  unfolding add_permission_def
  by (rule preserves_insert_row) (simp add: every_org_owned_def has_owner_def role_name_of_def)

lemma owned_seed: "preserves every_org_owned (seed_rbac pid rid)"
proof -
  have grants: "preserves every_org_owned
      (modifyP (\<lambda>d. d\<lparr>db_roles := update_where Q (\<lambda>x. x\<lparr>r_permissions := ids\<rparr>) (db_roles d)\<rparr>))" for Q ids
    by (rule preserves_modifyP, erule owned_more_roles, erule role_name_of_grows(2)) simp_all
  show ?thesis
    unfolding seed_rbac_def seed_role_def
    by (intro preserves_bindP preserves_thenP preserves_mapP preserves_if preserves_ret preserves_gets grants
        owned_add_role owned_add_permission reads_preserves [OF reads_perm_id])
qed

lemma sound_from:
  "m d = (Inr x, d') \<Longrightarrow> sound_db d \<Longrightarrow> preserves db_ok m \<Longrightarrow> every_org_owned d' \<Longrightarrow> sound_db d'"
  using preservesD [of db_ok m d] by (simp add: sound_db_def)

lemma sound_create_org:
  assumes "sound_db d"
  shows "sound_db (snd (create_organization_endpoint E st now cred oid mid name slug d))"
  unfolding create_organization_endpoint_def
proof (rule session_scope_invariant [where P = sound_db, OF assms], elim bindP_Inr)
  fix x d' u d1
  assume "get_current_user E st now cred d = (Inr u, d1)" "create_organization now oid mid u name slug d1 = (Inr x, d')"
  then have run: "create_organization now oid mid u name slug d = (Inr x, d')"
    using reads_run [OF reads_get_current_user] by metis
  then show "sound_db d'"
    using sound_from [OF run assms db_ok_create_organization] owned_create [OF _ _ run] assms
    by (simp add: sound_db_def)
qed

lemma owned_same_ids:
  assumes "every_org_owned d" "o_id ` set os = o_id ` set (db_orgs d)"
  shows "every_org_owned (d\<lparr>db_orgs := os\<rparr>)"
proof -
  have "has_owner (d\<lparr>db_orgs := os\<rparr>) = has_owner d" by (simp add: fun_eq_iff has_owner_def role_name_of_def)
  moreover have "\<forall>i \<in> o_id ` set os. has_owner d i" using assms by (simp add: every_org_owned_def)
  ultimately show ?thesis by (simp add: every_org_owned_def)
qed

lemma sound_guarded:
  assumes "sound_db d"
  shows "sound_db (snd (delete_organization_endpoint E st now cred oid d))"
    and "sound_db (snd (update_member_role_endpoint E st now cred oid mid role d))"
    and "sound_db (snd (remove_member_endpoint E st now cred oid mid d))"
    and "sound_db (snd (update_organization_endpoint E st now cred oid name d))"
proof -
  have d: "db_ok d" "every_org_owned d" using assms by (simp_all add: sound_db_def)
  show "sound_db (snd (delete_organization_endpoint E st now cred oid d))"
    unfolding delete_organization_endpoint_def
    by (rule authorized_invariant [where P = sound_db, OF assms])
       (use sound_from [OF _ assms db_ok_delete_organization] owned_delete [OF d(2)] in blast)
  show "sound_db (snd (update_member_role_endpoint E st now cred oid mid role d))"
    unfolding update_member_role_endpoint_def
    by (rule authorized_invariant [where P = sound_db, OF assms])
       (use owned_update_role [OF d] in \<open>simp add: sound_db_def\<close>)
  show "sound_db (snd (remove_member_endpoint E st now cred oid mid d))"
    unfolding remove_member_endpoint_def
    by (rule authorized_invariant [where P = sound_db, OF assms])
       (use sound_from [OF _ assms db_ok_remove_member] owned_remove_member [OF d] in simp)
  show "sound_db (snd (update_organization_endpoint E st now cred oid name d))"
    unfolding update_organization_endpoint_def
  proof (rule authorized_invariant [where P = sound_db, OF assms])
    fix x d'
    assume run: "update_organization oid name d = (Inr x, d')"
    have "\<exists>u. d' = d\<lparr>db_orgs := update_where u (\<lambda>x. x\<lparr>o_name := name\<rparr>) (db_orgs d)\<rparr>"
      using run unfolding update_organization_def
    proof (elim bindP_Inr)
      fix r d1
      assume "get_organization oid d = (Inr r, d1)"
        and rest: "thenP (modifyP (\<lambda>d. d\<lparr>db_orgs := update_where (\<lambda>x. o_id x = o_id r) (\<lambda>x. x\<lparr>o_name := name\<rparr>)
          (db_orgs d)\<rparr>)) (ret (r\<lparr>o_name := name\<rparr>)) d1 = (Inr x, d')"
      then have "d1 = d" using reads_run [OF reads_get_organization] by simp
      then show ?thesis using rest by (auto simp: prog_simps)
    qed
    then obtain u where d': "d' = d\<lparr>db_orgs := update_where u (\<lambda>x. x\<lparr>o_name := name\<rparr>) (db_orgs d)\<rparr>" by blast
    have "every_org_owned d'" unfolding d' by (rule owned_same_ids [OF d(2)]) (simp add: image_update_where)
    then show "sound_db d'" using sound_from [OF run assms db_ok_update_organization] by simp
  qed
qed

lemma sound_add_member:
  assumes "sound_db d"
  shows "sound_db (snd (add_member_endpoint E st now cred oid mid nid email role d))"
  unfolding add_member_endpoint_def thenP_def
proof (rule authorized_invariant [where P = sound_db, OF assms], elim bindP_Inr)
  fix x d' m d1 nm d2 n d3
  assume a: "add_member_to_org now mid oid email role d = (Inr m, d1)"
    "gets (\<lambda>d. role_name_of d (m_role_id m)) d1 = (Inr nm, d2)"
    "create_notification now nid (m_user_id m) ''member.added'' ''You were added to an organization''
      (''You now have the '' @ [CHR 39] @ nm @ [CHR 39] @ '' role.'') (Some oid) d2 = (Inr n, d3)" "ret m d3 = (Inr x, d')"
  have "every_org_owned d1" using owned_add_member [OF _ a(1)] assms by (simp add: sound_db_def)
  then have "sound_db d1" by (rule sound_from [OF a(1) assms db_ok_add_member_to_org])
  then show "sound_db d'"
    using sound_spared [OF _ db_ok_create_notification spares_services(6), of d1 now nid "m_user_id m" "''member.added''"
        "''You were added to an organization''" "''You now have the '' @ [CHR 39] @ nm @ [CHR 39] @ '' role.''" "Some oid"] a(2-4)
    by (simp add: prog_simps)
qed

lemmas endpoint_defs =
  create_api_endpoint_def update_api_endpoint_def delete_api_endpoint_def add_version_endpoint_def
  delete_version_endpoint_def set_quota_endpoint_def set_rate_limit_endpoint_def create_key_endpoint_def
  rotate_key_endpoint_def revoke_key_endpoint_def

lemma sound_catalogue:
  assumes "sound_db d"
  shows "sound_db (snd (create_api_endpoint E st now cred aid oid name slug desc d))"
    and "sound_db (snd (update_api_endpoint E st now cred oid aid nm ds act d))"
    and "sound_db (snd (delete_api_endpoint E st now cred oid aid d))"
    and "sound_db (snd (add_version_endpoint E st now cred vid oid aid ver url active d))"
    and "sound_db (snd (delete_version_endpoint E st now cred oid aid vid d))"
    and "sound_db (snd (set_quota_endpoint E st now cred oid aid wanted d))"
    and "sound_db (snd (set_rate_limit_endpoint E st now cred lid oid aid al n win burst d))"
    and "sound_db (snd (create_key_endpoint E st isofmt now cred kd ai ip oid aid name ex d))"
    and "sound_db (snd (rotate_key_endpoint E st isofmt now cred kd ai ip oid aid kid grace d))"
    and "sound_db (snd (revoke_key_endpoint E st isofmt now cred ai ip oid aid kid d))"
  unfolding endpoint_defs by (rule sound_authorized [OF assms]; intro prog_keeps)+

lemma sound_inbox:
  assumes "sound_db d"
  shows "sound_db (snd (mark_read_endpoint E st now cred nid d))"
    and "sound_db (snd (mark_all_read_endpoint E st now cred d))"
  unfolding mark_read_endpoint_def mark_all_read_endpoint_def by (rule sound_scope [OF assms]; intro prog_keeps)+

lemma sound_step:
  assumes "platform_step w w'" "sound_db (w_db w)"
  shows "sound_db (w_db w')"
  using assms
proof (induction rule: platform_step.induct)
  case (startup w pid rid)
  have "sound_db d \<Longrightarrow> sound_db (snd (session_scope (seed_rbac pid rid) d))" for d
    using preservesD [OF preserves_session_scope [OF db_ok_seed]] preservesD [OF preserves_session_scope [OF owned_seed]]
    by (simp add: sound_db_def)
  then show ?case using startup by simp
next
  case (register w E st now uid salt email pw fn)
  show ?case by (rule sound_world [OF register]) (intro keeps_auth_endpoints prog_keeps)+
next
  case (login w R ms E st now salt raw tid jti fam ip email pw)
  show ?case by (rule sound_world [OF login]) (intro keeps_auth_endpoints prog_keeps)+
next
  case (request_reset w R ms E st now ip email)
  show ?case by (rule sound_world [OF request_reset]) (intro keeps_auth_endpoints prog_keeps)+
next
  case (proxied w G isofmt fs clocks tx ids slug version path rq)
  show ?case by (rule sound_world [OF proxied]) (intro keeps_proxy prog_keeps)+
next
  case (publish w sink locked clk)
  then show ?case by (rule sound_publish)
next
  case (rollup w rids rids' now)
  show ?case
    unfolding rollup_daily_usage_def
    by simp (rule sound_scope [OF rollup], (intro preserves_bindP preserves_ret db_ok_rollup spares_rollup)+)
qed (simp_all add: sound_create_org sound_guarded sound_add_member refresh_endpoint_def logout_endpoint_def
    verify_email_endpoint_def confirm_reset_endpoint_def sound_scope sound_catalogue sound_inbox prog_keeps)

lemma reachable_sound: "reachable w \<Longrightarrow> sound_db (w_db w)"
proof (induction rule: reachable.induct)
  case (start w)
  then show ?case using db_ok_empty by (simp add: sound_db_def every_org_owned_def empty_db_def)
qed (use sound_step in blast)

text \<open>C1: every state the platform reaches by handling one thing at a time is well formed. From an empty
  database, whatever requests, worker runs and restarts happen one after another, each of them whole
  before the next begins, in any order, with any arguments, failures and answers of the outside, the
  tables keep every declared constraint (primary keys, unique columns, foreign keys) and no organization
  is without an owner. Requests that overlap in time are not steps of this relation, and the second part
  does not hold of them: two removals that read the owners before either deletes leave an organization
  without one (theory Organization, the last section).\<close>

theorem reachable_states_sound:
  assumes "reachable w"
  shows "db_ok (w_db w) \<and> every_org_owned (w_db w)"
  using reachable_sound [OF assms] by (simp add: sound_db_def)

definition first_steps :: "(unit, unit) platform" where
  "first_steps =
     (let E = plain_env\<lparr>e_jwt_decode := (\<lambda>_ _ _ _ _. Inr [(''sub'', JStr (uuid_str 1)), (''type'', JStr ''access'')])\<rparr>;
          w0 = \<lparr>w_db = empty_db, w_sent = [], w_redis = ((), ())\<rparr>;
          w1 = after_db (session_scope (seed_rbac
             (\<lambda>p. of_nat (length (takeWhile (\<lambda>q. q \<noteq> p) all_permissions)))
             (\<lambda>r. of_nat (length (takeWhile (\<lambda>q. q \<noteq> r) all_roles))))) w0;
          w2 = snd (register_endpoint E default_settings 0 1 ''s'' ''a@b.c'' ''password'' None w1)
      in after_db (create_organization_endpoint E default_settings 0 (Some ''t'') 7 8 ''Org'' None) w2)"

lemma first_steps_run: "map o_slug (db_orgs (w_db first_steps)) = [''org'']"
  by code_simp

lemma first_steps_reachable: "reachable first_steps"
  unfolding first_steps_def Let_def
  by (rule reachable.step [OF reachable.step [OF reachable.step [OF reachable.start startup] register] create_org]) simp

theorem reachable_states_sound_witness:
  "\<exists>g. db_orgs (w_db first_steps) = [g] \<and> o_slug g = ''org'' \<and> has_owner (w_db first_steps) (o_id g)"
  using reachable_states_sound [OF first_steps_reachable] first_steps_run by (auto simp: every_org_owned_def)

end
