(* ===== verification/Ddl.thy ===== *)
theory Ddl
  imports Prelude
begin

text \<open>
  The data definition operations the migrations call (\<open>op.create_table\<close>, \<open>op.create_index\<close>, \<open>op.drop_index\<close>,
  \<open>op.drop_table\<close>) as Postgres documents them: a schema is the list of its tables in the order of their
  creation, each with columns, constraints and indexes. Tables, indexes and the indexes behind primary keys
  and unique constraints share one name space; a foreign key needs a unique key to point to; a table that
  others reference cannot be dropped. Here also: undoing an operation gives the schema before it back.
\<close>

section \<open>Tables\<close>

datatype sql_type = UUID | SqlString nat | SqlBoolean | SqlInteger | SqlFloat | SqlDateTime | SqlDate | JSONB

datatype on_delete = CASCADE | RESTRICT | SET_NULL

record sql_column =
  sc_name :: string
  sc_type :: sql_type
  sc_nullable :: bool
  sc_server_now :: bool

datatype sql_constraint =
    PrimaryKeyConstraint "string list" string
  | UniqueConstraint "string list" string
  | ForeignKeyConstraint string string string string on_delete

text \<open>\<open>ForeignKeyConstraint column table target name ondelete\<close>: every foreign key of the program has one column.\<close>

record sql_index =
  ix_name :: string
  ix_columns :: "string list"
  ix_unique :: bool

record sql_table =
  st_columns :: "sql_column list"
  st_constraints :: "sql_constraint list"
  st_indexes :: "sql_index list"

type_synonym schema = "(string \<times> sql_table) list"

fun key_columns :: "sql_constraint \<Rightarrow> string list" where
  "key_columns (PrimaryKeyConstraint cs n) = cs"
| "key_columns (UniqueConstraint cs n) = cs"
| "key_columns (ForeignKeyConstraint c t tc n od) = [c]"

fun index_behind :: "sql_constraint \<Rightarrow> string list" where
  "index_behind (PrimaryKeyConstraint cs n) = [n]"
| "index_behind (UniqueConstraint cs n) = [n]"
| "index_behind (ForeignKeyConstraint c t tc n od) = []"

text \<open>The names a table takes in the name space of relations.\<close>

definition relations_of :: "string \<times> sql_table \<Rightarrow> string list" where
  "relations_of nt = fst nt # concat (map index_behind (st_constraints (snd nt))) @ map ix_name (st_indexes (snd nt))"

definition relation_names :: "schema \<Rightarrow> string list" where
  "relation_names s = concat (map relations_of s)"

definition column_names :: "sql_table \<Rightarrow> string list" where
  "column_names t = map sc_name (st_columns t)"

text \<open>The column sets a foreign key may point to.\<close>

definition unique_keys :: "sql_table \<Rightarrow> string list list" where
  "unique_keys t = concat (map (\<lambda>c. case c of PrimaryKeyConstraint cs _ \<Rightarrow> [cs] | UniqueConstraint cs _ \<Rightarrow> [cs] | _ \<Rightarrow> [])
       (st_constraints t)) @
     map ix_columns (filter ix_unique (st_indexes t))"

fun references :: "sql_constraint \<Rightarrow> (string \<times> string) list" where
  "references (ForeignKeyConstraint c t tc n od) = [(t, tc)]"
| "references _ = []"

definition foreign_targets :: "sql_table \<Rightarrow> (string \<times> string) list" where
  "foreign_targets t = concat (map references (st_constraints t))"

definition column_type :: "sql_table \<Rightarrow> string \<Rightarrow> sql_type option" where
  "column_type t c = map_option sc_type (find (\<lambda>x. sc_name x = c) (st_columns t))"

definition reference_ok :: "schema \<Rightarrow> sql_table \<Rightarrow> sql_constraint \<Rightarrow> bool" where
  "reference_ok s t c = (case c of
     ForeignKeyConstraint col rt rc n od \<Rightarrow> (case map_of s rt of
       None \<Rightarrow> False
     | Some t' \<Rightarrow> [rc] \<in> set (unique_keys t') \<and> column_type t' rc = column_type t col)
   | _ \<Rightarrow> True)"

section \<open>Operations\<close>

datatype ddl_error = DuplicateRelation | DuplicateColumn | UndefinedTable | UndefinedColumn | InvalidForeignKey |
  UndefinedObject | DependentObjectsStillExist | UnknownRevision

datatype ddl_op =
    create_table string "sql_column list" "sql_constraint list"
  | create_index string string "string list" bool
  | drop_index string string
  | drop_table string

definition new_table :: "sql_column list \<Rightarrow> sql_constraint list \<Rightarrow> sql_table" where
  "new_table cols cons = \<lparr>st_columns = cols, st_constraints = cons, st_indexes = []\<rparr>"

definition update_table :: "string \<Rightarrow> (sql_table \<Rightarrow> sql_table) \<Rightarrow> schema \<Rightarrow> schema" where
  "update_table n f s = map (\<lambda>(m, t). if m = n then (m, f t) else (m, t)) s"

fun apply_op :: "ddl_op \<Rightarrow> schema \<Rightarrow> ddl_error + schema" where
  "apply_op (create_table n cols cons) s =
     (let t = new_table cols cons
      in if \<not> distinct (relations_of (n, t)) \<or> set (relations_of (n, t)) \<inter> set (relation_names s) \<noteq> {}
         then Inl DuplicateRelation
         else if \<not> distinct (map sc_name cols) then Inl DuplicateColumn
         else if \<not> list_all (\<lambda>c. set (key_columns c) \<subseteq> set (map sc_name cols)) cons then Inl UndefinedColumn
         else if \<not> list_all (reference_ok s t) cons then Inl InvalidForeignKey
         else Inr (s @ [(n, t)]))"
| "apply_op (create_index i n cols u) s = (case map_of s n of
       None \<Rightarrow> Inl UndefinedTable
     | Some t \<Rightarrow>
         if i \<in> set (relation_names s) then Inl DuplicateRelation
         else if \<not> set cols \<subseteq> set (column_names t) then Inl UndefinedColumn
         else Inr (update_table n (\<lambda>t. t\<lparr>st_indexes := st_indexes t @ [\<lparr>ix_name = i, ix_columns = cols, ix_unique = u\<rparr>]\<rparr>) s))"
| "apply_op (drop_index i n) s = (case map_of s n of
       None \<Rightarrow> Inl UndefinedObject
     | Some t \<Rightarrow>
         if i \<notin> ix_name ` set (st_indexes t) then Inl UndefinedObject
         else Inr (update_table n (\<lambda>t. t\<lparr>st_indexes := filter (\<lambda>x. ix_name x \<noteq> i) (st_indexes t)\<rparr>) s))"
| "apply_op (drop_table n) s = (case map_of s n of
       None \<Rightarrow> Inl UndefinedTable
     | Some t \<Rightarrow>
         if \<exists>(m, t') \<in> set s. m \<noteq> n \<and> n \<in> fst ` set (foreign_targets t') then Inl DependentObjectsStillExist
         else Inr (filter (\<lambda>nt. fst nt \<noteq> n) s))"

fun run_ops :: "ddl_op list \<Rightarrow> schema \<Rightarrow> ddl_error + schema" where
  "run_ops [] s = Inr s"
| "run_ops (x # xs) s = (case apply_op x s of Inl e \<Rightarrow> Inl e | Inr s' \<Rightarrow> run_ops xs s')"

section \<open>Undoing\<close>

text \<open>A schema in which no two relations share a name and every foreign key has its target.\<close>

definition schema_ok :: "schema \<Rightarrow> bool" where
  "schema_ok s \<longleftrightarrow> distinct (relation_names s) \<and> (\<forall>nt \<in> set s. fst ` set (foreign_targets (snd nt)) \<subseteq> fst ` set s)"

lemma schema_ok_Nil [simp]: "schema_ok []"
  by (simp add: schema_ok_def relation_names_def)

fun undo :: "ddl_op \<Rightarrow> ddl_op option" where
  "undo (create_table n cols cons) = Some (drop_table n)"
| "undo (create_index i n cols u) = Some (drop_index i n)"
| "undo _ = None"

lemma run_ops_append:
  "run_ops (xs @ ys) s = (case run_ops xs s of Inl e \<Rightarrow> Inl e | Inr s' \<Rightarrow> run_ops ys s')"
  by (induction xs arbitrary: s) (auto split: sum.splits)

lemma table_names_in: "fst ` set s \<subseteq> set (relation_names s)"
  by (auto simp: relation_names_def relations_of_def)

lemma fst_update_table: "map fst (update_table n f s) = map fst s"
  by (auto simp: update_table_def)

lemma distinct_tables: "distinct (relation_names s) \<Longrightarrow> distinct (map fst s)"
  by (induction s) (auto simp: relation_names_def relations_of_def)

lemma map_of_update_table: "map_of (update_table n f s) m = (if m = n then map_option f (map_of s m) else map_of s m)"
  by (induction s) (auto simp: update_table_def)

lemma update_table_same: "(\<And>t. (n, t) \<in> set s \<Longrightarrow> f t = t) \<Longrightarrow> update_table n f s = s"
  unfolding update_table_def by (rule map_idI) auto

lemma update_table_twice: "update_table n g (update_table n f s) = update_table n (g \<circ> f) s"
  by (auto simp: update_table_def)

lemma relation_names_append: "relation_names (s @ s') = relation_names s @ relation_names s'"
  by (simp add: relation_names_def)

lemma undo_create_table:
  assumes "schema_ok s" "apply_op (create_table n cols cons) s = Inr s'"
  shows "schema_ok s'" and "apply_op (drop_table n) s' = Inr s"
proof -
  let ?t = "new_table cols cons"
  have s': "s' = s @ [(n, ?t)]" and fresh: "distinct (relations_of (n, ?t))"
    "set (relations_of (n, ?t)) \<inter> set (relation_names s) = {}" and refs: "list_all (reference_ok s ?t) cons"
    using assms(2) by (auto simp: Let_def split: if_splits)
  have new: "n \<notin> fst ` set s" using fresh(2) table_names_in by (auto simp: relations_of_def)
  have targets: "fst ` set (foreign_targets ?t) \<subseteq> fst ` set s"
  proof
    fix m assume "m \<in> fst ` set (foreign_targets ?t)"
    then obtain c where c: "c \<in> set cons" "m \<in> fst ` set (references c)"
      by (auto simp: foreign_targets_def new_table_def)
    then have "reference_ok s ?t c" using refs by (auto simp: list_all_iff)
    then show "m \<in> fst ` set s"
      using c(2) by (cases c) (auto simp: reference_ok_def dest: map_of_SomeD split: option.splits intro: rev_image_eqI)
  qed
  have "distinct (relation_names s')"
    using assms(1) fresh unfolding schema_ok_def s' relation_names_append by (simp add: relation_names_def Int_commute)
  moreover have "\<forall>nt \<in> set s'. fst ` set (foreign_targets (snd nt)) \<subseteq> fst ` set s'"
  proof
    fix nt assume "nt \<in> set s'"
    then consider "nt \<in> set s" | "nt = (n, ?t)" by (auto simp: s')
    then have "fst ` set (foreign_targets (snd nt)) \<subseteq> fst ` set s"
    proof cases
      case 1
      then show ?thesis using assms(1) unfolding schema_ok_def by blast
    next
      case 2
      then show ?thesis using targets by simp
    qed
    then show "fst ` set (foreign_targets (snd nt)) \<subseteq> fst ` set s'" by (auto simp: s')
  qed
  ultimately show "schema_ok s'" unfolding schema_ok_def ..
  have alone: "\<not> (\<exists>(m, t') \<in> set s'. m \<noteq> n \<and> n \<in> fst ` set (foreign_targets t'))"
  proof
    assume "\<exists>(m, t') \<in> set s'. m \<noteq> n \<and> n \<in> fst ` set (foreign_targets t')"
    then obtain m t' where m: "(m, t') \<in> set s" "n \<in> fst ` set (foreign_targets t')" by (auto simp: s')
    then have "n \<in> fst ` set s" using assms(1) bspec [OF conjunct2 [OF assms(1) [unfolded schema_ok_def]] m(1)] by auto
    then show False using new by contradiction
  qed
  have "map_of s n = None" using new by (simp add: map_of_eq_None_iff)
  then have found: "map_of s' n = Some ?t" by (simp add: s' map_add_def)
  have "filter (\<lambda>nt. fst nt \<noteq> n) s' = s"
    unfolding s' using new by (auto simp: filter_id_conv intro: rev_image_eqI)
  then show "apply_op (drop_table n) s' = Inr s"
    using alone found by simp
qed

lemma undo_create_index:
  assumes "schema_ok s" "apply_op (create_index i n cols u) s = Inr s'"
  shows "schema_ok s'" and "apply_op (drop_index i n) s' = Inr s"
proof -
  let ?x = "\<lparr>ix_name = i, ix_columns = cols, ix_unique = u\<rparr>"
  let ?f = "\<lambda>t. t\<lparr>st_indexes := st_indexes t @ [?x]\<rparr>"
  let ?g = "\<lambda>t. t\<lparr>st_indexes := filter (\<lambda>x. ix_name x \<noteq> i) (st_indexes t)\<rparr>"
  obtain t where t: "map_of s n = Some t" and s': "s' = update_table n ?f s" and i: "i \<notin> set (relation_names s)"
    using assms(2) by (auto split: option.splits if_splits)
  have names: "i \<notin> ix_name ` set (st_indexes t')" if "(m, t') \<in> set s" for m t'
  proof
    assume "i \<in> ix_name ` set (st_indexes t')"
    then have "i \<in> set (relations_of (m, t'))" by (simp add: relations_of_def)
    then show False using i that unfolding relation_names_def by fastforce
  qed
  have "update_table n (?g \<circ> ?f) s = s"
  proof (rule update_table_same)
    fix t' assume "(n, t') \<in> set s"
    then have "filter (\<lambda>x. ix_name x \<noteq> i) (st_indexes t') = st_indexes t'" using names by (auto simp: filter_id_conv)
    then show "(?g \<circ> ?f) t' = t'" by simp
  qed
  then show "apply_op (drop_index i n) s' = Inr s"
    using t by (simp add: s' map_of_update_table update_table_twice)
  have perm: "distinct (relation_names (update_table n ?f s))" if "distinct (relation_names s)" "i \<notin> set (relation_names s)"
    using that
  proof (induction s)
    case (Cons nt s)
    obtain m t' where nt: "nt = (m, t')" by fastforce
    have "n \<notin> fst ` set s \<or> m \<noteq> n"
      using Cons.prems(1) table_names_in [of s] by (auto simp: nt relation_names_def relations_of_def)
    then have rest: "m = n \<Longrightarrow> update_table n ?f s = s" by (intro update_table_same) (auto intro: rev_image_eqI)
    have one: "set (relations_of (k, ?f t)) = insert i (set (relations_of (k, t)))" for k t
      by (auto simp: relations_of_def)
    have sub: "set (relation_names (update_table n ?f s)) \<subseteq> insert i (set (relation_names s))"
    proof
      fix r assume "r \<in> set (relation_names (update_table n ?f s))"
      then obtain k t0 where "(k, t0) \<in> set s" "r \<in> set (relations_of (if k = n then (k, ?f t0) else (k, t0)))"
        by (auto simp: relation_names_def update_table_def)
      then show "r \<in> insert i (set (relation_names s))"
        using one [of k t0] by (cases "k = n") (auto simp: relation_names_def)
    qed
    show ?case
    proof (cases "m = n")
      case True
      then show ?thesis
        using Cons.prems rest by (auto simp: nt update_table_def relation_names_def relations_of_def)
    next
      case False
      have "relation_names (update_table n ?f (nt # s)) = relations_of nt @ relation_names (update_table n ?f s)"
        using False by (simp add: nt update_table_def relation_names_def)
      moreover have "distinct (relations_of nt)" "set (relations_of nt) \<inter> set (relation_names s) = {}" "i \<notin> set (relations_of nt)"
        using Cons.prems by (simp_all add: relation_names_def)
      moreover have "distinct (relation_names (update_table n ?f s))"
        using Cons.IH Cons.prems by (simp add: relation_names_def)
      ultimately show ?thesis
        using sub by (simp only: distinct_append) blast
    qed
  qed (simp add: update_table_def relation_names_def)
  have "fst ` set s' = fst ` set s" using fst_update_table [of n ?f s] unfolding s' by (metis list.set_map)
  moreover have "\<exists>nt0 \<in> set s. foreign_targets (snd nt) = foreign_targets (snd nt0)" if "nt \<in> set s'" for nt
    using that by (force simp: s' update_table_def foreign_targets_def)
  ultimately have "\<forall>nt \<in> set s'. fst ` set (foreign_targets (snd nt)) \<subseteq> fst ` set s'"
    using assms(1) unfolding schema_ok_def by metis
  moreover have "distinct (relation_names s')"
    using assms(1) perm i unfolding schema_ok_def s' by simp
  ultimately show "schema_ok s'" unfolding schema_ok_def by simp
qed

text \<open>Operations that have an inverse, run backwards, lead back.\<close>

lemma undo_run:
  assumes "schema_ok s" "map undo xs = map Some ys" "run_ops xs s = Inr s'"
  shows "schema_ok s' \<and> run_ops (rev ys) s' = Inr s"
  using assms
proof (induction xs arbitrary: ys s)
  case (Cons x xs)
  obtain y ys' where ys: "ys = y # ys'" "undo x = Some y" "map undo xs = map Some ys'" using Cons.prems(2) by auto
  obtain s1 where s1: "apply_op x s = Inr s1" "run_ops xs s1 = Inr s'" using Cons.prems(3) by (auto split: sum.splits)
  have one: "schema_ok s1 \<and> apply_op y s1 = Inr s"
    using ys(2) s1(1) undo_create_table [OF Cons.prems(1)] undo_create_index [OF Cons.prems(1)]
    by (cases x) (auto simp del: apply_op.simps)
  then show ?case
    using Cons.IH [OF _ ys(3) s1(2)] by (simp add: ys(1) run_ops_append del: apply_op.simps)
qed simp

end
