(* ===== verification/Migrations.thy ===== *)
theory Migrations
  imports Ddl
begin

text \<open>
  The migrations \<open>alembic/versions/*.py\<close>, operation by operation, the ORM's \<open>Base.metadata\<close> (\<open>app/models\<close> and
  \<open>app/db/base.py\<close>: mixins, naming convention, \<open>index=True\<close> and \<open>unique=True\<close> columns), and \<open>alembic/env.py\<close>'s
  run of the migrations in one transaction. Alembic itself is represented by what it documents: revisions
  are applied in the order their \<open>down_revision\<close> links give. Python-side defaults of columns are not part of
  a schema. What is shown: the migrations build exactly the schema the models declare, and downgrading undoes
  upgrading.
\<close>

section \<open>Revisions\<close>

definition column :: "string \<Rightarrow> sql_type \<Rightarrow> sql_column" where
  "column n ty = \<lparr>sc_name = n, sc_type = ty, sc_nullable = False, sc_server_now = False\<rparr>"

definition null_column :: "string \<Rightarrow> sql_type \<Rightarrow> sql_column" where
  "null_column n ty = \<lparr>sc_name = n, sc_type = ty, sc_nullable = True, sc_server_now = False\<rparr>"

definition now_column :: "string \<Rightarrow> sql_column" where
  "now_column n = \<lparr>sc_name = n, sc_type = SqlDateTime, sc_nullable = False, sc_server_now = True\<rparr>"

record revision =
  rv_id :: string
  rv_down :: "string option"
  rv_upgrade :: "ddl_op list"
  rv_downgrade :: "ddl_op list"

definition upgrade_58f2239887bc :: "ddl_op list" where
  "upgrade_58f2239887bc = [
     create_table ''users''
       [column ''email'' (SqlString 320),
        null_column ''full_name'' (SqlString 200),
        column ''password_hash'' (SqlString 255),
        column ''is_active'' SqlBoolean,
        column ''is_email_verified'' SqlBoolean,
        column ''is_superuser'' SqlBoolean,
        column ''id'' UUID,
        now_column ''created_at'',
        now_column ''updated_at'']
       [PrimaryKeyConstraint [''id''] ''pk_users''],
     create_index ''ix_users_email'' ''users'' [''email''] True,
     create_table ''refresh_tokens''
       [column ''user_id'' UUID,
        column ''family_id'' UUID,
        column ''token_hash'' (SqlString 64),
        column ''expires_at'' SqlDateTime,
        null_column ''revoked_at'' SqlDateTime,
        null_column ''rotated_to'' UUID,
        column ''id'' UUID,
        now_column ''created_at'',
        now_column ''updated_at'']
       [ForeignKeyConstraint ''user_id'' ''users'' ''id'' ''fk_refresh_tokens_user_id_users'' CASCADE,
        PrimaryKeyConstraint [''id''] ''pk_refresh_tokens'',
        UniqueConstraint [''token_hash''] ''uq_refresh_tokens_token_hash''],
     create_index ''ix_refresh_tokens_family_id'' ''refresh_tokens'' [''family_id''] False,
     create_index ''ix_refresh_tokens_user_id'' ''refresh_tokens'' [''user_id''] False]"

definition downgrade_58f2239887bc :: "ddl_op list" where
  "downgrade_58f2239887bc = [
     drop_index ''ix_refresh_tokens_user_id'' ''refresh_tokens'',
     drop_index ''ix_refresh_tokens_family_id'' ''refresh_tokens'',
     drop_table ''refresh_tokens'',
     drop_index ''ix_users_email'' ''users'',
     drop_table ''users'']"

definition revision_58f2239887bc :: revision where
  "revision_58f2239887bc = \<lparr> rv_id = ''58f2239887bc'', rv_down = None,
     rv_upgrade = upgrade_58f2239887bc, rv_downgrade = downgrade_58f2239887bc \<rparr>"

definition upgrade_4d0d14f33a23 :: "ddl_op list" where
  "upgrade_4d0d14f33a23 = [
     create_table ''organizations''
       [column ''name'' (SqlString 200),
        column ''slug'' (SqlString 120),
        column ''id'' UUID,
        now_column ''created_at'',
        now_column ''updated_at'']
       [PrimaryKeyConstraint [''id''] ''pk_organizations''],
     create_index ''ix_organizations_slug'' ''organizations'' [''slug''] True,
     create_table ''permissions''
       [column ''code'' (SqlString 64),
        column ''description'' (SqlString 255),
        column ''id'' UUID,
        now_column ''created_at'',
        now_column ''updated_at'']
       [PrimaryKeyConstraint [''id''] ''pk_permissions''],
     create_index ''ix_permissions_code'' ''permissions'' [''code''] True,
     create_table ''roles''
       [column ''name'' (SqlString 64),
        column ''description'' (SqlString 255),
        column ''is_system'' SqlBoolean,
        column ''id'' UUID,
        now_column ''created_at'',
        now_column ''updated_at'']
       [PrimaryKeyConstraint [''id''] ''pk_roles''],
     create_index ''ix_roles_name'' ''roles'' [''name''] True,
     create_table ''organization_members''
       [column ''organization_id'' UUID,
        column ''user_id'' UUID,
        column ''role_id'' UUID,
        column ''id'' UUID,
        now_column ''created_at'',
        now_column ''updated_at'']
       [ForeignKeyConstraint ''organization_id'' ''organizations'' ''id'' ''fk_organization_members_organization_id_organizations'' CASCADE,
        ForeignKeyConstraint ''role_id'' ''roles'' ''id'' ''fk_organization_members_role_id_roles'' RESTRICT,
        ForeignKeyConstraint ''user_id'' ''users'' ''id'' ''fk_organization_members_user_id_users'' CASCADE,
        PrimaryKeyConstraint [''id''] ''pk_organization_members'',
        UniqueConstraint [''organization_id'', ''user_id''] ''uq_member_org_user''],
     create_index ''ix_organization_members_organization_id'' ''organization_members'' [''organization_id''] False,
     create_index ''ix_organization_members_user_id'' ''organization_members'' [''user_id''] False,
     create_table ''role_permissions''
       [column ''role_id'' UUID,
        column ''permission_id'' UUID]
       [ForeignKeyConstraint ''permission_id'' ''permissions'' ''id'' ''fk_role_permissions_permission_id_permissions'' CASCADE,
        ForeignKeyConstraint ''role_id'' ''roles'' ''id'' ''fk_role_permissions_role_id_roles'' CASCADE,
        PrimaryKeyConstraint [''role_id'', ''permission_id''] ''pk_role_permissions'']]"

definition downgrade_4d0d14f33a23 :: "ddl_op list" where
  "downgrade_4d0d14f33a23 = [
     drop_table ''role_permissions'',
     drop_index ''ix_organization_members_user_id'' ''organization_members'',
     drop_index ''ix_organization_members_organization_id'' ''organization_members'',
     drop_table ''organization_members'',
     drop_index ''ix_roles_name'' ''roles'',
     drop_table ''roles'',
     drop_index ''ix_permissions_code'' ''permissions'',
     drop_table ''permissions'',
     drop_index ''ix_organizations_slug'' ''organizations'',
     drop_table ''organizations'']"

definition revision_4d0d14f33a23 :: revision where
  "revision_4d0d14f33a23 = \<lparr> rv_id = ''4d0d14f33a23'', rv_down = Some ''58f2239887bc'',
     rv_upgrade = upgrade_4d0d14f33a23, rv_downgrade = downgrade_4d0d14f33a23 \<rparr>"

definition upgrade_3b0a3e40e787 :: "ddl_op list" where
  "upgrade_3b0a3e40e787 = [
     create_table ''apis''
       [column ''organization_id'' UUID,
        column ''name'' (SqlString 200),
        column ''slug'' (SqlString 120),
        column ''description'' (SqlString 1000),
        column ''is_active'' SqlBoolean,
        column ''id'' UUID,
        now_column ''created_at'',
        now_column ''updated_at'']
       [ForeignKeyConstraint ''organization_id'' ''organizations'' ''id'' ''fk_apis_organization_id_organizations'' CASCADE,
        PrimaryKeyConstraint [''id''] ''pk_apis'',
        UniqueConstraint [''organization_id'', ''slug''] ''uq_apis_org_slug''],
     create_index ''ix_apis_organization_id'' ''apis'' [''organization_id''] False,
     create_table ''api_versions''
       [column ''api_id'' UUID,
        column ''version'' (SqlString 40),
        column ''upstream_base_url'' (SqlString 2048),
        column ''is_active'' SqlBoolean,
        column ''id'' UUID,
        now_column ''created_at'',
        now_column ''updated_at'']
       [ForeignKeyConstraint ''api_id'' ''apis'' ''id'' ''fk_api_versions_api_id_apis'' CASCADE,
        PrimaryKeyConstraint [''id''] ''pk_api_versions'',
        UniqueConstraint [''api_id'', ''version''] ''uq_api_versions_api_version''],
     create_index ''ix_api_versions_api_id'' ''api_versions'' [''api_id''] False,
     create_table ''quotas''
       [column ''api_id'' UUID,
        column ''period'' (SqlString 16),
        column ''max_requests'' SqlInteger,
        column ''id'' UUID,
        now_column ''created_at'',
        now_column ''updated_at'']
       [ForeignKeyConstraint ''api_id'' ''apis'' ''id'' ''fk_quotas_api_id_apis'' CASCADE,
        PrimaryKeyConstraint [''id''] ''pk_quotas'',
        UniqueConstraint [''api_id'', ''period''] ''uq_quotas_api_period''],
     create_index ''ix_quotas_api_id'' ''quotas'' [''api_id''] False,
     create_table ''rate_limit_rules''
       [column ''api_id'' UUID,
        column ''algorithm'' (SqlString 24),
        column ''requests'' SqlInteger,
        column ''window_seconds'' SqlInteger,
        null_column ''burst'' SqlInteger,
        column ''id'' UUID,
        now_column ''created_at'',
        now_column ''updated_at'']
       [ForeignKeyConstraint ''api_id'' ''apis'' ''id'' ''fk_rate_limit_rules_api_id_apis'' CASCADE,
        PrimaryKeyConstraint [''id''] ''pk_rate_limit_rules'',
        UniqueConstraint [''api_id''] ''uq_rate_limit_rules_api''],
     create_index ''ix_rate_limit_rules_api_id'' ''rate_limit_rules'' [''api_id''] False]"

definition downgrade_3b0a3e40e787 :: "ddl_op list" where
  "downgrade_3b0a3e40e787 = [
     drop_index ''ix_rate_limit_rules_api_id'' ''rate_limit_rules'',
     drop_table ''rate_limit_rules'',
     drop_index ''ix_quotas_api_id'' ''quotas'',
     drop_table ''quotas'',
     drop_index ''ix_api_versions_api_id'' ''api_versions'',
     drop_table ''api_versions'',
     drop_index ''ix_apis_organization_id'' ''apis'',
     drop_table ''apis'']"

definition revision_3b0a3e40e787 :: revision where
  "revision_3b0a3e40e787 = \<lparr> rv_id = ''3b0a3e40e787'', rv_down = Some ''4d0d14f33a23'',
     rv_upgrade = upgrade_3b0a3e40e787, rv_downgrade = downgrade_3b0a3e40e787 \<rparr>"

definition upgrade_32a8e8465d9a :: "ddl_op list" where
  "upgrade_32a8e8465d9a = [
     create_table ''api_keys''
       [column ''api_id'' UUID,
        column ''organization_id'' UUID,
        column ''name'' (SqlString 200),
        column ''prefix'' (SqlString 32),
        column ''last_four'' (SqlString 8),
        column ''key_hash'' (SqlString 64),
        null_column ''created_by_user_id'' UUID,
        null_column ''expires_at'' SqlDateTime,
        null_column ''revoked_at'' SqlDateTime,
        null_column ''rotated_to'' UUID,
        column ''id'' UUID,
        now_column ''created_at'',
        now_column ''updated_at'']
       [ForeignKeyConstraint ''api_id'' ''apis'' ''id'' ''fk_api_keys_api_id_apis'' CASCADE,
        ForeignKeyConstraint ''created_by_user_id'' ''users'' ''id'' ''fk_api_keys_created_by_user_id_users'' SET_NULL,
        ForeignKeyConstraint ''organization_id'' ''organizations'' ''id'' ''fk_api_keys_organization_id_organizations'' CASCADE,
        PrimaryKeyConstraint [''id''] ''pk_api_keys''],
     create_index ''ix_api_keys_api_id'' ''api_keys'' [''api_id''] False,
     create_index ''ix_api_keys_key_hash'' ''api_keys'' [''key_hash''] True,
     create_index ''ix_api_keys_organization_id'' ''api_keys'' [''organization_id''] False,
     create_index ''ix_api_keys_prefix'' ''api_keys'' [''prefix''] False]"

definition downgrade_32a8e8465d9a :: "ddl_op list" where
  "downgrade_32a8e8465d9a = [
     drop_index ''ix_api_keys_prefix'' ''api_keys'',
     drop_index ''ix_api_keys_organization_id'' ''api_keys'',
     drop_index ''ix_api_keys_key_hash'' ''api_keys'',
     drop_index ''ix_api_keys_api_id'' ''api_keys'',
     drop_table ''api_keys'']"

definition revision_32a8e8465d9a :: revision where
  "revision_32a8e8465d9a = \<lparr> rv_id = ''32a8e8465d9a'', rv_down = Some ''3b0a3e40e787'',
     rv_upgrade = upgrade_32a8e8465d9a, rv_downgrade = downgrade_32a8e8465d9a \<rparr>"

definition upgrade_74a92ae4539c :: "ddl_op list" where
  "upgrade_74a92ae4539c = [
     create_table ''audit_logs''
       [null_column ''organization_id'' UUID,
        null_column ''actor_user_id'' UUID,
        column ''action'' (SqlString 100),
        column ''resource_type'' (SqlString 64),
        null_column ''resource_id'' UUID,
        null_column ''ip'' (SqlString 64),
        column ''metadata'' JSONB,
        column ''id'' UUID,
        now_column ''created_at'',
        now_column ''updated_at'']
       [PrimaryKeyConstraint [''id''] ''pk_audit_logs''],
     create_index ''ix_audit_logs_org_created'' ''audit_logs'' [''organization_id'', ''created_at''] False,
     create_table ''request_logs''
       [column ''organization_id'' UUID,
        column ''api_id'' UUID,
        column ''api_version_id'' UUID,
        null_column ''api_key_id'' UUID,
        column ''method'' (SqlString 10),
        column ''path'' (SqlString 2048),
        column ''status_code'' SqlInteger,
        column ''latency_ms'' SqlFloat,
        column ''request_bytes'' SqlInteger,
        column ''response_bytes'' SqlInteger,
        column ''client_ip'' (SqlString 64),
        column ''upstream_url'' (SqlString 2048),
        column ''id'' UUID,
        now_column ''created_at'',
        now_column ''updated_at'']
       [PrimaryKeyConstraint [''id''] ''pk_request_logs''],
     create_index ''ix_request_logs_api_created'' ''request_logs'' [''api_id'', ''created_at''] False,
     create_index ''ix_request_logs_org_created'' ''request_logs'' [''organization_id'', ''created_at''] False,
     create_table ''telemetry_outbox''
       [column ''event_type'' (SqlString 64),
        column ''schema_version'' (SqlString 16),
        column ''payload'' JSONB,
        null_column ''published_at'' SqlDateTime,
        column ''attempts'' SqlInteger,
        column ''id'' UUID,
        now_column ''created_at'',
        now_column ''updated_at'']
       [PrimaryKeyConstraint [''id''] ''pk_telemetry_outbox''],
     create_index ''ix_telemetry_outbox_pending'' ''telemetry_outbox'' [''published_at'', ''created_at''] False,
     create_table ''api_key_usage''
       [column ''api_key_id'' UUID,
        column ''api_id'' UUID,
        column ''usage_date'' SqlDate,
        column ''request_count'' SqlInteger,
        column ''error_count'' SqlInteger,
        column ''id'' UUID,
        now_column ''created_at'',
        now_column ''updated_at'']
       [ForeignKeyConstraint ''api_key_id'' ''api_keys'' ''id'' ''fk_api_key_usage_api_key_id_api_keys'' CASCADE,
        PrimaryKeyConstraint [''id''] ''pk_api_key_usage'',
        UniqueConstraint [''api_key_id'', ''usage_date''] ''uq_api_key_usage_key_date''],
     create_index ''ix_api_key_usage_api_date'' ''api_key_usage'' [''api_id'', ''usage_date''] False]"

definition downgrade_74a92ae4539c :: "ddl_op list" where
  "downgrade_74a92ae4539c = [
     drop_index ''ix_api_key_usage_api_date'' ''api_key_usage'',
     drop_table ''api_key_usage'',
     drop_index ''ix_telemetry_outbox_pending'' ''telemetry_outbox'',
     drop_table ''telemetry_outbox'',
     drop_index ''ix_request_logs_org_created'' ''request_logs'',
     drop_index ''ix_request_logs_api_created'' ''request_logs'',
     drop_table ''request_logs'',
     drop_index ''ix_audit_logs_org_created'' ''audit_logs'',
     drop_table ''audit_logs'']"

definition revision_74a92ae4539c :: revision where
  "revision_74a92ae4539c = \<lparr> rv_id = ''74a92ae4539c'', rv_down = Some ''32a8e8465d9a'',
     rv_upgrade = upgrade_74a92ae4539c, rv_downgrade = downgrade_74a92ae4539c \<rparr>"

definition upgrade_5116f937ace7 :: "ddl_op list" where
  "upgrade_5116f937ace7 = [
     create_table ''daily_usage''
       [column ''organization_id'' UUID,
        column ''api_id'' UUID,
        column ''usage_date'' SqlDate,
        column ''request_count'' SqlInteger,
        column ''error_count'' SqlInteger,
        column ''total_latency_ms'' SqlFloat,
        column ''total_request_bytes'' SqlInteger,
        column ''total_response_bytes'' SqlInteger,
        column ''id'' UUID,
        now_column ''created_at'',
        now_column ''updated_at'']
       [PrimaryKeyConstraint [''id''] ''pk_daily_usage'',
        UniqueConstraint [''api_id'', ''usage_date''] ''uq_daily_usage_api_date''],
     create_index ''ix_daily_usage_org_date'' ''daily_usage'' [''organization_id'', ''usage_date''] False]"

definition downgrade_5116f937ace7 :: "ddl_op list" where
  "downgrade_5116f937ace7 = [
     drop_index ''ix_daily_usage_org_date'' ''daily_usage'',
     drop_table ''daily_usage'']"

definition revision_5116f937ace7 :: revision where
  "revision_5116f937ace7 = \<lparr> rv_id = ''5116f937ace7'', rv_down = Some ''74a92ae4539c'',
     rv_upgrade = upgrade_5116f937ace7, rv_downgrade = downgrade_5116f937ace7 \<rparr>"

definition upgrade_fa5ac4531897 :: "ddl_op list" where
  "upgrade_fa5ac4531897 = [
     create_table ''notifications''
       [column ''user_id'' UUID,
        null_column ''organization_id'' UUID,
        column ''type'' (SqlString 64),
        column ''title'' (SqlString 255),
        column ''body'' (SqlString 2000),
        null_column ''read_at'' SqlDateTime,
        column ''id'' UUID,
        now_column ''created_at'',
        now_column ''updated_at'']
       [ForeignKeyConstraint ''user_id'' ''users'' ''id'' ''fk_notifications_user_id_users'' CASCADE,
        PrimaryKeyConstraint [''id''] ''pk_notifications''],
     create_index ''ix_notifications_user_created'' ''notifications'' [''user_id'', ''created_at''] False,
     create_index ''ix_notifications_user_id'' ''notifications'' [''user_id''] False]"

definition downgrade_fa5ac4531897 :: "ddl_op list" where
  "downgrade_fa5ac4531897 = [
     drop_index ''ix_notifications_user_id'' ''notifications'',
     drop_index ''ix_notifications_user_created'' ''notifications'',
     drop_table ''notifications'']"

definition revision_fa5ac4531897 :: revision where
  "revision_fa5ac4531897 = \<lparr> rv_id = ''fa5ac4531897'', rv_down = Some ''5116f937ace7'',
     rv_upgrade = upgrade_fa5ac4531897, rv_downgrade = downgrade_fa5ac4531897 \<rparr>"

text \<open>The directory \<open>versions\<close>, in the order of the file names.\<close>

definition versions :: "revision list" where
  "versions = [revision_32a8e8465d9a, revision_3b0a3e40e787, revision_4d0d14f33a23, revision_5116f937ace7,
     revision_58f2239887bc, revision_74a92ae4539c, revision_fa5ac4531897]"

section \<open>Running them\<close>

text \<open>The revision a database is at, and its schema.\<close>

type_synonym alembic = "string option \<times> schema"

text \<open>The revisions after \<open>cur\<close>, each the successor of the one before; at most \<open>n\<close> of them.\<close>

fun successors :: "nat \<Rightarrow> revision list \<Rightarrow> string option \<Rightarrow> revision list" where
  "successors 0 revs cur = []"
| "successors (Suc n) revs cur = (case find (\<lambda>r. rv_down r = cur) revs of
     None \<Rightarrow> [] | Some r \<Rightarrow> r # successors n revs (Some (rv_id r)))"

fun upgrade_through :: "revision list \<Rightarrow> alembic \<Rightarrow> ddl_error + alembic" where
  "upgrade_through [] st = Inr st"
| "upgrade_through (r # rs) st = (case run_ops (rv_upgrade r) (snd st) of
     Inl e \<Rightarrow> Inl e | Inr s \<Rightarrow> upgrade_through rs (Some (rv_id r), s))"

definition upgrade_head :: "revision list \<Rightarrow> alembic \<Rightarrow> ddl_error + alembic" where
  "upgrade_head revs st = upgrade_through (successors (length revs) revs (fst st)) st"

text \<open>\<open>alembic downgrade -k\<close>: undo the current revision, then its predecessors, \<open>k\<close> in all.\<close>

fun downgrade_by :: "revision list \<Rightarrow> nat \<Rightarrow> alembic \<Rightarrow> ddl_error + alembic" where
  "downgrade_by revs 0 st = Inr st"
| "downgrade_by revs (Suc k) st = (case find (\<lambda>r. Some (rv_id r) = fst st) revs of
     None \<Rightarrow> Inl UnknownRevision
   | Some r \<Rightarrow> (case run_ops (rv_downgrade r) (snd st) of
       Inl e \<Rightarrow> Inl e | Inr s \<Rightarrow> downgrade_by revs k (rv_down r, s)))"

text \<open>\<open>_do_run_migrations\<close>: everything in one transaction.\<close>

definition do_run_migrations :: "(alembic \<Rightarrow> ddl_error + alembic) \<Rightarrow> alembic \<Rightarrow> (ddl_error + unit) \<times> alembic" where
  "do_run_migrations cmd st = (case cmd st of Inl e \<Rightarrow> (Inl e, st) | Inr st' \<Rightarrow> (Inr (), st'))"

section \<open>The models' metadata\<close>

record orm_column =
  oc_name :: string
  oc_type :: sql_type
  oc_nullable :: bool
  oc_primary_key :: bool
  oc_unique :: bool
  oc_index :: bool
  oc_foreign_key :: "(string \<times> string \<times> on_delete) option"
  oc_server_now :: bool

datatype table_arg = Unique "string list" string | Index string "string list"

record orm_class =
  cl_tablename :: string
  cl_columns :: "orm_column list"
  cl_args :: "table_arg list"

text \<open>\<open>mapped_column(type, nullable=False)\<close>; the options are updates of it.\<close>

definition mapped :: "string \<Rightarrow> sql_type \<Rightarrow> orm_column" where
  "mapped n ty = \<lparr>oc_name = n, oc_type = ty, oc_nullable = False, oc_primary_key = False, oc_unique = False,
     oc_index = False, oc_foreign_key = None, oc_server_now = False\<rparr>"

abbreviation nullable :: "orm_column \<Rightarrow> orm_column" where
  "nullable c \<equiv> c\<lparr>oc_nullable := True\<rparr>"

abbreviation indexed :: "orm_column \<Rightarrow> orm_column" where
  "indexed c \<equiv> c\<lparr>oc_index := True\<rparr>"

abbreviation unique_indexed :: "orm_column \<Rightarrow> orm_column" where
  "unique_indexed c \<equiv> c\<lparr>oc_unique := True, oc_index := True\<rparr>"

definition refers :: "string \<Rightarrow> string \<Rightarrow> on_delete \<Rightarrow> orm_column" where
  "refers n t od = (mapped n UUID)\<lparr>oc_foreign_key := Some (t, ''id'', od)\<rparr>"

text \<open>\<open>NAMING_CONVENTION\<close>.\<close>

definition name_ix :: "string \<Rightarrow> string \<Rightarrow> string" where "name_ix t c = ''ix_'' @ t @ ''_'' @ c"

definition name_uq :: "string \<Rightarrow> string \<Rightarrow> string" where "name_uq t c = ''uq_'' @ t @ ''_'' @ c"

definition name_fk :: "string \<Rightarrow> string \<Rightarrow> string \<Rightarrow> string" where
  "name_fk t c rt = ''fk_'' @ t @ ''_'' @ c @ ''_'' @ rt"

definition name_pk :: "string \<Rightarrow> string" where "name_pk t = ''pk_'' @ t"

definition UUIDPrimaryKeyMixin :: "orm_column list" where
  "UUIDPrimaryKeyMixin = [(mapped ''id'' UUID)\<lparr>oc_primary_key := True\<rparr>]"

definition TimestampMixin :: "orm_column list" where
  "TimestampMixin = [(mapped ''created_at'' SqlDateTime)\<lparr>oc_server_now := True\<rparr>,
     (mapped ''updated_at'' SqlDateTime)\<lparr>oc_server_now := True\<rparr>]"

text \<open>A class \<open>C(UUIDPrimaryKeyMixin, TimestampMixin, Base)\<close>: its own columns come before those of the mixins.\<close>

definition model :: "string \<Rightarrow> orm_column list \<Rightarrow> table_arg list \<Rightarrow> orm_class" where
  "model t cols args = \<lparr>cl_tablename = t, cl_columns = cols @ UUIDPrimaryKeyMixin @ TimestampMixin, cl_args = args\<rparr>"

definition User_class :: orm_class where
  "User_class = model ''users''
     [unique_indexed (mapped ''email'' (SqlString 320)), nullable (mapped ''full_name'' (SqlString 200)),
      mapped ''password_hash'' (SqlString 255), mapped ''is_active'' SqlBoolean,
      mapped ''is_email_verified'' SqlBoolean, mapped ''is_superuser'' SqlBoolean] []"

definition RefreshToken_class :: orm_class where
  "RefreshToken_class = model ''refresh_tokens''
     [indexed (refers ''user_id'' ''users'' CASCADE), indexed (mapped ''family_id'' UUID),
      mapped ''token_hash'' (SqlString 64), mapped ''expires_at'' SqlDateTime,
      nullable (mapped ''revoked_at'' SqlDateTime), nullable (mapped ''rotated_to'' UUID)]
     [Unique [''token_hash''] ''uq_refresh_tokens_token_hash'']"

definition role_permissions_table :: orm_class where
  "role_permissions_table = \<lparr>cl_tablename = ''role_permissions'',
     cl_columns = [(refers ''role_id'' ''roles'' CASCADE)\<lparr>oc_primary_key := True\<rparr>,
       (refers ''permission_id'' ''permissions'' CASCADE)\<lparr>oc_primary_key := True\<rparr>], cl_args = []\<rparr>"

definition Permission_class :: orm_class where
  "Permission_class = model ''permissions''
     [unique_indexed (mapped ''code'' (SqlString 64)), mapped ''description'' (SqlString 255)] []"

definition Role_class :: orm_class where
  "Role_class = model ''roles''
     [unique_indexed (mapped ''name'' (SqlString 64)), mapped ''description'' (SqlString 255),
      mapped ''is_system'' SqlBoolean] []"

definition Organization_class :: orm_class where
  "Organization_class = model ''organizations''
     [mapped ''name'' (SqlString 200), unique_indexed (mapped ''slug'' (SqlString 120))] []"

definition OrganizationMember_class :: orm_class where
  "OrganizationMember_class = model ''organization_members''
     [indexed (refers ''organization_id'' ''organizations'' CASCADE), indexed (refers ''user_id'' ''users'' CASCADE),
      refers ''role_id'' ''roles'' RESTRICT]
     [Unique [''organization_id'', ''user_id''] ''uq_member_org_user'']"

definition Api_class :: orm_class where
  "Api_class = model ''apis''
     [indexed (refers ''organization_id'' ''organizations'' CASCADE), mapped ''name'' (SqlString 200),
      mapped ''slug'' (SqlString 120), mapped ''description'' (SqlString 1000), mapped ''is_active'' SqlBoolean]
     [Unique [''organization_id'', ''slug''] ''uq_apis_org_slug'']"

definition ApiVersion_class :: orm_class where
  "ApiVersion_class = model ''api_versions''
     [indexed (refers ''api_id'' ''apis'' CASCADE), mapped ''version'' (SqlString 40),
      mapped ''upstream_base_url'' (SqlString 2048), mapped ''is_active'' SqlBoolean]
     [Unique [''api_id'', ''version''] ''uq_api_versions_api_version'']"

definition Quota_class :: orm_class where
  "Quota_class = model ''quotas''
     [indexed (refers ''api_id'' ''apis'' CASCADE), mapped ''period'' (SqlString 16), mapped ''max_requests'' SqlInteger]
     [Unique [''api_id'', ''period''] ''uq_quotas_api_period'']"

definition RateLimitRule_class :: orm_class where
  "RateLimitRule_class = model ''rate_limit_rules''
     [indexed (refers ''api_id'' ''apis'' CASCADE), mapped ''algorithm'' (SqlString 24), mapped ''requests'' SqlInteger,
      mapped ''window_seconds'' SqlInteger, nullable (mapped ''burst'' SqlInteger)]
     [Unique [''api_id''] ''uq_rate_limit_rules_api'']"

definition ApiKey_class :: orm_class where
  "ApiKey_class = model ''api_keys''
     [indexed (refers ''api_id'' ''apis'' CASCADE), indexed (refers ''organization_id'' ''organizations'' CASCADE),
      mapped ''name'' (SqlString 200), indexed (mapped ''prefix'' (SqlString 32)), mapped ''last_four'' (SqlString 8),
      unique_indexed (mapped ''key_hash'' (SqlString 64)), nullable (refers ''created_by_user_id'' ''users'' SET_NULL),
      nullable (mapped ''expires_at'' SqlDateTime), nullable (mapped ''revoked_at'' SqlDateTime),
      nullable (mapped ''rotated_to'' UUID)] []"

definition RequestLog_class :: orm_class where
  "RequestLog_class = model ''request_logs''
     [mapped ''organization_id'' UUID, mapped ''api_id'' UUID, mapped ''api_version_id'' UUID,
      nullable (mapped ''api_key_id'' UUID), mapped ''method'' (SqlString 10), mapped ''path'' (SqlString 2048),
      mapped ''status_code'' SqlInteger, mapped ''latency_ms'' SqlFloat, mapped ''request_bytes'' SqlInteger,
      mapped ''response_bytes'' SqlInteger, mapped ''client_ip'' (SqlString 64), mapped ''upstream_url'' (SqlString 2048)]
     [Index ''ix_request_logs_api_created'' [''api_id'', ''created_at''],
      Index ''ix_request_logs_org_created'' [''organization_id'', ''created_at'']]"

definition ApiKeyUsage_class :: orm_class where
  "ApiKeyUsage_class = model ''api_key_usage''
     [refers ''api_key_id'' ''api_keys'' CASCADE, mapped ''api_id'' UUID, mapped ''usage_date'' SqlDate,
      mapped ''request_count'' SqlInteger, mapped ''error_count'' SqlInteger]
     [Unique [''api_key_id'', ''usage_date''] ''uq_api_key_usage_key_date'',
      Index ''ix_api_key_usage_api_date'' [''api_id'', ''usage_date'']]"

definition AuditLog_class :: orm_class where
  "AuditLog_class = model ''audit_logs''
     [nullable (mapped ''organization_id'' UUID), nullable (mapped ''actor_user_id'' UUID),
      mapped ''action'' (SqlString 100), mapped ''resource_type'' (SqlString 64), nullable (mapped ''resource_id'' UUID),
      nullable (mapped ''ip'' (SqlString 64)), mapped ''metadata'' JSONB]
     [Index ''ix_audit_logs_org_created'' [''organization_id'', ''created_at'']]"

definition TelemetryOutbox_class :: orm_class where
  "TelemetryOutbox_class = model ''telemetry_outbox''
     [mapped ''event_type'' (SqlString 64), mapped ''schema_version'' (SqlString 16), mapped ''payload'' JSONB,
      nullable (mapped ''published_at'' SqlDateTime), mapped ''attempts'' SqlInteger]
     [Index ''ix_telemetry_outbox_pending'' [''published_at'', ''created_at'']]"

definition DailyUsage_class :: orm_class where
  "DailyUsage_class = model ''daily_usage''
     [mapped ''organization_id'' UUID, mapped ''api_id'' UUID, mapped ''usage_date'' SqlDate,
      mapped ''request_count'' SqlInteger, mapped ''error_count'' SqlInteger, mapped ''total_latency_ms'' SqlFloat,
      mapped ''total_request_bytes'' SqlInteger, mapped ''total_response_bytes'' SqlInteger]
     [Unique [''api_id'', ''usage_date''] ''uq_daily_usage_api_date'',
      Index ''ix_daily_usage_org_date'' [''organization_id'', ''usage_date'']]"

definition Notification_class :: orm_class where
  "Notification_class = model ''notifications''
     [indexed (refers ''user_id'' ''users'' CASCADE), nullable (mapped ''organization_id'' UUID),
      mapped ''type'' (SqlString 64), mapped ''title'' (SqlString 255), mapped ''body'' (SqlString 2000),
      nullable (mapped ''read_at'' SqlDateTime)]
     [Index ''ix_notifications_user_created'' [''user_id'', ''created_at'']]"

text \<open>\<open>app/models/__init__.py\<close>: what importing the package registers.\<close>

definition registered :: "orm_class list" where
  "registered = [DailyUsage_class, Api_class, ApiVersion_class, Quota_class, RateLimitRule_class, ApiKey_class,
     Notification_class, Organization_class, OrganizationMember_class, Permission_class, Role_class,
     role_permissions_table, ApiKeyUsage_class, AuditLog_class, RequestLog_class, TelemetryOutbox_class,
     RefreshToken_class, User_class]"

text \<open>What SQLAlchemy makes of a class: \<open>index=True\<close> is an index, unique when \<open>unique=True\<close> is given with it,
  and \<open>unique=True\<close> alone a constraint, all with the names of the convention.\<close>

definition table_of :: "orm_class \<Rightarrow> string \<times> sql_table" where
  "table_of cl = (let t = cl_tablename cl; cols = cl_columns cl in (t,
     \<lparr>st_columns = map (\<lambda>c. \<lparr>sc_name = oc_name c, sc_type = oc_type c, sc_nullable = oc_nullable c,
         sc_server_now = oc_server_now c\<rparr>) cols,
      st_constraints = PrimaryKeyConstraint (map oc_name (filter oc_primary_key cols)) (name_pk t) #
        concat (map (\<lambda>c. case oc_foreign_key c of None \<Rightarrow> []
          | Some (rt, rc, od) \<Rightarrow> [ForeignKeyConstraint (oc_name c) rt rc (name_fk t (oc_name c) rt) od]) cols) @
        map (\<lambda>c. UniqueConstraint [oc_name c] (name_uq t (oc_name c))) (filter (\<lambda>c. oc_unique c \<and> \<not> oc_index c) cols) @
        concat (map (\<lambda>a. case a of Unique cs n \<Rightarrow> [UniqueConstraint cs n] | Index n cs \<Rightarrow> []) (cl_args cl)),
      st_indexes = map (\<lambda>c. \<lparr>ix_name = name_ix t (oc_name c), ix_columns = [oc_name c], ix_unique = oc_unique c\<rparr>)
          (filter oc_index cols) @
        concat (map (\<lambda>a. case a of Unique cs n \<Rightarrow> []
          | Index n cs \<Rightarrow> [\<lparr>ix_name = n, ix_columns = cs, ix_unique = False\<rparr>]) (cl_args cl))\<rparr>))"

definition metadata :: schema where
  "metadata = map table_of registered"

section \<open>The migrations build the models' schema\<close>

text \<open>The same tables, up to the order of the tables, of their constraints and of their indexes.\<close>

definition same_table :: "sql_table \<Rightarrow> sql_table \<Rightarrow> bool" where
  "same_table t t' \<longleftrightarrow> st_columns t = st_columns t' \<and> set (st_constraints t) = set (st_constraints t') \<and>
     set (st_indexes t) = set (st_indexes t')"

definition same_schema :: "schema \<Rightarrow> schema \<Rightarrow> bool" where
  "same_schema s s' \<longleftrightarrow> length s = length s' \<and> distinct (map fst s) \<and>
     list_all (\<lambda>(n, t). case map_of s n of None \<Rightarrow> False | Some t' \<Rightarrow> same_table t' t) s'"

text \<open>Every name a schema gives to Postgres.\<close>

definition identifiers :: "schema \<Rightarrow> string list" where
  "identifiers s = relation_names s @ concat (map (\<lambda>(n, t). column_names t @
     concat (map (\<lambda>c. case c of ForeignKeyConstraint _ _ _ m _ \<Rightarrow> [m] | _ \<Rightarrow> []) (st_constraints t))) s)"

definition head_schema :: schema where
  "head_schema = (case upgrade_head versions (None, []) of Inl e \<Rightarrow> [] | Inr st \<Rightarrow> snd st)"

text \<open>One evaluation of the whole history.\<close>

lemma head_facts:
  "(case upgrade_head versions (None, []) of Inl e \<Rightarrow> False
    | Inr st \<Rightarrow> fst st = Some ''fa5ac4531897'' \<and> same_schema (snd st) metadata \<and>
        list_all (\<lambda>n. length n \<le> 63) (identifiers (snd st)))"
  by code_simp

lemma upgrade_run: "upgrade_head versions (None, []) = Inr (Some ''fa5ac4531897'', head_schema)"
  and head_same: "same_schema head_schema metadata"
  and head_identifiers: "list_all (\<lambda>n. length n \<le> 63) (identifiers head_schema)"
  using head_facts by (auto simp: head_schema_def split: sum.splits)

text \<open>C2: migrating an empty database to the head revision succeeds and gives exactly the schema the models
  declare: the same tables with the same columns (type, nullability, server default), primary keys, unique
  constraints, foreign keys with their delete rules, and indexes, all under the names of the naming
  convention, none longer than the 63 characters Postgres keeps. Migrating again changes nothing.\<close>

theorem migrations_build_metadata:
  "\<exists>s. do_run_migrations (upgrade_head versions) (None, []) = (Inr (), (Some ''fa5ac4531897'', s)) \<and>
     same_schema s metadata \<and> list_all (\<lambda>n. length n \<le> 63) (identifiers s) \<and>
     do_run_migrations (upgrade_head versions) (Some ''fa5ac4531897'', s) = (Inr (), (Some ''fa5ac4531897'', s))"
proof (intro exI conjI)
  have last: "successors (length versions) versions (Some ''fa5ac4531897'') = []" by code_simp
  show "do_run_migrations (upgrade_head versions) (None, []) = (Inr (), (Some ''fa5ac4531897'', head_schema))"
    by (simp add: do_run_migrations_def upgrade_run)
  show "do_run_migrations (upgrade_head versions) (Some ''fa5ac4531897'', head_schema) =
      (Inr (), (Some ''fa5ac4531897'', head_schema))"
    by (simp add: do_run_migrations_def upgrade_head_def last)
  show "same_schema head_schema metadata" by (rule head_same)
  show "list_all (\<lambda>n. length n \<le> 63) (identifiers head_schema)" by (rule head_identifiers)
qed

lemma downgrades_are_undos: "list_all (\<lambda>r. map undo (rv_upgrade r) = map Some (rev (rv_downgrade r))) versions"
  by code_simp

lemma revision_ids: "distinct (map rv_id versions)"
  by code_simp

lemma find_by_key: "distinct (map f xs) \<Longrightarrow> x \<in> set xs \<Longrightarrow> find (\<lambda>y. f y = f x) xs = Some x"
  by (induction xs) auto

text \<open>C32: every downgrade undoes its upgrade: on any well-formed schema (whatever other tables and indexes it
  has) to which the upgrade of a revision applies, downgrading by one gives the schema and the revision before
  back.\<close>

theorem downgrade_undoes_upgrade:
  assumes "r \<in> set versions" "schema_ok s"
    and "do_run_migrations (upgrade_through [r]) (rv_down r, s) = (Inr (), st)"
  shows "schema_ok (snd st) \<and> do_run_migrations (downgrade_by versions 1) st = (Inr (), (rv_down r, s))"
proof -
  obtain s' where s': "run_ops (rv_upgrade r) s = Inr s'" "st = (Some (rv_id r), s')"
    using assms(3) by (auto simp: do_run_migrations_def split: sum.splits)
  have "map undo (rv_upgrade r) = map Some (rev (rv_downgrade r))"
    using downgrades_are_undos assms(1) by (simp only: list_all_iff)
  then have "schema_ok s' \<and> run_ops (rv_downgrade r) s' = Inr s"
    using undo_run [OF assms(2) _ s'(1)] by fastforce
  then show ?thesis
    using find_by_key [OF revision_ids assms(1)] by (simp add: do_run_migrations_def s'(2))
qed

theorem downgrade_undoes_upgrade_witness:
  "\<exists>st. do_run_migrations (upgrade_through [revision_58f2239887bc]) (None, []) = (Inr (), st) \<and>
     map fst (snd st) = [''users'', ''refresh_tokens''] \<and> do_run_migrations (downgrade_by versions 1) st = (Inr (), (None, []))"
proof -
  have run: "(case do_run_migrations (upgrade_through [revision_58f2239887bc]) (None, []) of
      (r, st) \<Rightarrow> r = Inr () \<and> map fst (snd st) = [''users'', ''refresh_tokens''])"
    by code_simp
  obtain r st where st: "do_run_migrations (upgrade_through [revision_58f2239887bc]) (None, []) = (r, st)"
    by (cases "do_run_migrations (upgrade_through [revision_58f2239887bc]) (None, [])")
  have "rv_down revision_58f2239887bc = None" "revision_58f2239887bc \<in> set versions"
    by (simp_all add: revision_58f2239887bc_def versions_def)
  then show ?thesis
    using run st downgrade_undoes_upgrade [of revision_58f2239887bc "[]" st] by auto
qed

end
