(* ===== verification/Constraints.thy ===== *)
theory Constraints
  imports Migrations Models
begin

text \<open>
  What the database enforces: the rows of the model's tables as rows of SQL values, column by column under
  the names of \<open>app/models\<close>, and the key constraints of a schema (primary keys, unique constraints and unique
  indexes with SQL's reading of NULL, foreign keys) on them. Shown: on the schema the migrations build they
  are exactly the invariant the other theories keep.
\<close>

section \<open>Rows of SQL values\<close>

datatype sql_value = NULL | Uuid uuid | Text string | Boolean bool | Integer int | Float rat | DateTime instant |
  Date date | Jsonb json

type_synonym sql_row = "(string \<times> sql_value) list"

text \<open>A column the model does not carry (\<open>updated_at\<close>) reads as NULL; no constraint is about one.\<close>

definition col :: "string \<Rightarrow> sql_row \<Rightarrow> sql_value" where
  "col c r = (case map_of r c of None \<Rightarrow> NULL | Some v \<Rightarrow> v)"

definition or_null :: "('a \<Rightarrow> sql_value) \<Rightarrow> 'a option \<Rightarrow> sql_value" where
  "or_null f x = (case x of None \<Rightarrow> NULL | Some v \<Rightarrow> f v)"

definition user_row :: "user \<Rightarrow> sql_row" where
  "user_row u = [(''id'', Uuid (u_id u)), (''email'', Text (u_email u)), (''full_name'', or_null Text (u_full_name u)),
     (''password_hash'', Text (u_password_hash u)), (''is_active'', Boolean (u_is_active u)),
     (''is_email_verified'', Boolean (u_is_email_verified u)), (''is_superuser'', Boolean (u_is_superuser u)),
     (''created_at'', DateTime (u_created_at u))]"

definition token_row :: "refresh_token \<Rightarrow> sql_row" where
  "token_row t = [(''id'', Uuid (rt_id t)), (''user_id'', Uuid (rt_user_id t)), (''family_id'', Uuid (rt_family_id t)),
     (''token_hash'', Text (rt_token_hash t)), (''expires_at'', DateTime (rt_expires_at t)),
     (''revoked_at'', or_null DateTime (rt_revoked_at t)), (''rotated_to'', or_null Uuid (rt_rotated_to t))]"

definition permission_sql_row :: "permission_row \<Rightarrow> sql_row" where
  "permission_sql_row p = [(''id'', Uuid (p_id p)), (''code'', Text (p_code p)), (''description'', Text (p_description p))]"

definition role_row :: "role \<Rightarrow> sql_row" where
  "role_row r = [(''id'', Uuid (r_id r)), (''name'', Text (r_name r)), (''description'', Text (r_description r)),
     (''is_system'', Boolean (r_is_system r))]"

definition role_permission_rows :: "role \<Rightarrow> sql_row list" where
  "role_permission_rows r = map (\<lambda>p. [(''role_id'', Uuid (r_id r)), (''permission_id'', Uuid p)]) (r_permissions r)"

definition org_row :: "organization \<Rightarrow> sql_row" where
  "org_row g = [(''id'', Uuid (o_id g)), (''name'', Text (o_name g)), (''slug'', Text (o_slug g)),
     (''created_at'', DateTime (o_created_at g))]"

definition member_row :: "organization_member \<Rightarrow> sql_row" where
  "member_row m = [(''id'', Uuid (m_id m)), (''organization_id'', Uuid (m_organization_id m)),
     (''user_id'', Uuid (m_user_id m)), (''role_id'', Uuid (m_role_id m)), (''created_at'', DateTime (m_created_at m))]"

definition api_row :: "api \<Rightarrow> sql_row" where
  "api_row a = [(''id'', Uuid (a_id a)), (''organization_id'', Uuid (a_organization_id a)), (''name'', Text (a_name a)),
     (''slug'', Text (a_slug a)), (''description'', Text (a_description a)), (''is_active'', Boolean (a_is_active a)),
     (''created_at'', DateTime (a_created_at a))]"

definition version_row :: "api_version \<Rightarrow> sql_row" where
  "version_row v = [(''id'', Uuid (v_id v)), (''api_id'', Uuid (v_api_id v)), (''version'', Text (v_version v)),
     (''upstream_base_url'', Text (v_upstream_base_url v)), (''is_active'', Boolean (v_is_active v)),
     (''created_at'', DateTime (v_created_at v))]"

definition quota_row :: "quota \<Rightarrow> sql_row" where
  "quota_row q = [(''id'', Uuid (q_id q)), (''api_id'', Uuid (q_api_id q)), (''period'', Text (period_str (q_period q))),
     (''max_requests'', Integer (q_max_requests q))]"

definition rule_row :: "rate_limit_rule \<Rightarrow> sql_row" where
  "rule_row l = [(''id'', Uuid (l_id l)), (''api_id'', Uuid (l_api_id l)), (''algorithm'', Text (algorithm_str (l_algorithm l))),
     (''requests'', Integer (l_requests l)), (''window_seconds'', Integer (l_window_seconds l)),
     (''burst'', or_null Integer (l_burst l))]"

definition key_sql_row :: "api_key \<Rightarrow> sql_row" where
  "key_sql_row k = [(''id'', Uuid (k_id k)), (''api_id'', Uuid (k_api_id k)), (''organization_id'', Uuid (k_organization_id k)),
     (''name'', Text (k_name k)), (''prefix'', Text (k_prefix k)), (''last_four'', Text (k_last_four k)),
     (''key_hash'', Text (k_key_hash k)), (''created_by_user_id'', or_null Uuid (k_created_by_user_id k)),
     (''expires_at'', or_null DateTime (k_expires_at k)), (''revoked_at'', or_null DateTime (k_revoked_at k)),
     (''rotated_to'', or_null Uuid (k_rotated_to k)), (''created_at'', DateTime (k_created_at k))]"

definition log_row :: "request_log \<Rightarrow> sql_row" where
  "log_row g = [(''id'', Uuid (g_id g)), (''organization_id'', Uuid (g_organization_id g)), (''api_id'', Uuid (g_api_id g)),
     (''api_version_id'', Uuid (g_api_version_id g)), (''api_key_id'', or_null Uuid (g_api_key_id g)),
     (''method'', Text (g_method g)), (''path'', Text (g_path g)), (''status_code'', Integer (g_status_code g)),
     (''latency_ms'', Float (g_latency_ms g)), (''request_bytes'', Integer (g_request_bytes g)),
     (''response_bytes'', Integer (g_response_bytes g)), (''client_ip'', Text (g_client_ip g)),
     (''upstream_url'', Text (g_upstream_url g)), (''created_at'', DateTime (g_created_at g))]"

definition usage_row :: "api_key_usage \<Rightarrow> sql_row" where
  "usage_row u = [(''id'', Uuid (ku_id u)), (''api_key_id'', Uuid (ku_api_key_id u)), (''api_id'', Uuid (ku_api_id u)),
     (''usage_date'', Date (ku_usage_date u)), (''request_count'', Integer (ku_request_count u)),
     (''error_count'', Integer (ku_error_count u))]"

definition audit_row :: "audit_log \<Rightarrow> sql_row" where
  "audit_row a = [(''id'', Uuid (al_id a)), (''organization_id'', or_null Uuid (al_organization_id a)),
     (''actor_user_id'', or_null Uuid (al_actor_user_id a)), (''action'', Text (al_action a)),
     (''resource_type'', Text (al_resource_type a)), (''resource_id'', or_null Uuid (al_resource_id a)),
     (''ip'', or_null Text (al_ip a)), (''metadata'', Jsonb (JObj (al_metadata a))),
     (''created_at'', DateTime (al_created_at a))]"

definition outbox_row :: "telemetry_outbox \<Rightarrow> sql_row" where
  "outbox_row b = [(''id'', Uuid (ob_id b)), (''event_type'', Text (ob_event_type b)),
     (''schema_version'', Text (ob_schema_version b)), (''payload'', Jsonb (ob_payload b)),
     (''published_at'', or_null DateTime (ob_published_at b)), (''attempts'', Integer (ob_attempts b)),
     (''created_at'', DateTime (ob_created_at b))]"

definition daily_row :: "daily_usage \<Rightarrow> sql_row" where
  "daily_row u = [(''id'', Uuid (du_id u)), (''organization_id'', Uuid (du_organization_id u)), (''api_id'', Uuid (du_api_id u)),
     (''usage_date'', Date (du_usage_date u)), (''request_count'', Integer (du_request_count u)),
     (''error_count'', Integer (du_error_count u)), (''total_latency_ms'', Float (du_total_latency_ms u)),
     (''total_request_bytes'', Integer (du_total_request_bytes u)),
     (''total_response_bytes'', Integer (du_total_response_bytes u))]"

definition note_row :: "notification \<Rightarrow> sql_row" where
  "note_row n = [(''id'', Uuid (n_id n)), (''user_id'', Uuid (n_user_id n)),
     (''organization_id'', or_null Uuid (n_organization_id n)), (''type'', Text (n_type n)), (''title'', Text (n_title n)),
     (''body'', Text (n_body n)), (''read_at'', or_null DateTime (n_read_at n)), (''created_at'', DateTime (n_created_at n))]"

type_synonym dump = "string \<Rightarrow> sql_row list"

definition dump_tables :: "db \<Rightarrow> (string \<times> sql_row list) list" where
  "dump_tables d = [(''users'', map user_row (db_users d)), (''refresh_tokens'', map token_row (db_tokens d)),
     (''permissions'', map permission_sql_row (db_permissions d)), (''roles'', map role_row (db_roles d)),
     (''role_permissions'', concat (map role_permission_rows (db_roles d))), (''organizations'', map org_row (db_orgs d)),
     (''organization_members'', map member_row (db_members d)), (''apis'', map api_row (db_apis d)),
     (''api_versions'', map version_row (db_versions d)), (''quotas'', map quota_row (db_quotas d)),
     (''rate_limit_rules'', map rule_row (db_rules d)), (''api_keys'', map key_sql_row (db_keys d)),
     (''request_logs'', map log_row (db_logs d)), (''api_key_usage'', map usage_row (db_usage d)),
     (''audit_logs'', map audit_row (db_audit d)), (''telemetry_outbox'', map outbox_row (db_outbox d)),
     (''daily_usage'', map daily_row (db_daily d)), (''notifications'', map note_row (db_notes d))]"

definition dump :: "db \<Rightarrow> dump" where
  "dump d t = (case map_of (dump_tables d) t of None \<Rightarrow> [] | Some rs \<Rightarrow> rs)"

section \<open>Key constraints\<close>

definition key_values :: "string list \<Rightarrow> sql_row list \<Rightarrow> sql_value list list" where
  "key_values cs rs = map (\<lambda>r. map (\<lambda>c. col c r) cs) rs"

text \<open>Two rows clash when they agree on the key and none of its values is NULL.\<close>

definition unique_in :: "string list \<Rightarrow> sql_row list \<Rightarrow> bool" where
  "unique_in cs rs \<longleftrightarrow> distinct (filter (\<lambda>vs. NULL \<notin> set vs) (key_values cs rs))"

definition not_null :: "string list \<Rightarrow> sql_row list \<Rightarrow> bool" where
  "not_null cs rs \<longleftrightarrow> (\<forall>vs \<in> set (key_values cs rs). NULL \<notin> set vs)"

fun constraint_holds :: "dump \<Rightarrow> sql_row list \<Rightarrow> sql_constraint \<Rightarrow> bool" where
  "constraint_holds D rs (PrimaryKeyConstraint cs n) \<longleftrightarrow>
     not_null cs rs \<and> unique_in cs rs"
| "constraint_holds D rs (UniqueConstraint cs n) \<longleftrightarrow> unique_in cs rs"
| "constraint_holds D rs (ForeignKeyConstraint c t tc n od) \<longleftrightarrow>
     list_all (\<lambda>r. col c r = NULL \<or> col c r \<in> col tc ` set (D t)) rs"

definition index_holds :: "sql_row list \<Rightarrow> sql_index \<Rightarrow> bool" where
  "index_holds rs i \<longleftrightarrow> (ix_unique i \<longrightarrow> unique_in (ix_columns i) rs)"

definition table_holds :: "dump \<Rightarrow> string \<times> sql_table \<Rightarrow> bool" where
  "table_holds D nt \<longleftrightarrow> (\<forall>c \<in> set (st_constraints (snd nt)). constraint_holds D (D (fst nt)) c) \<and>
     (\<forall>i \<in> set (st_indexes (snd nt)). index_holds (D (fst nt)) i)"

definition schema_holds :: "schema \<Rightarrow> dump \<Rightarrow> bool" where
  "schema_holds s D \<longleftrightarrow> (\<forall>nt \<in> set s. table_holds D nt)"

text \<open>What the constraints ask beyond \<open>db_ok\<close>: the association rows of a role and the creators of keys.\<close>

definition links_ok :: "db \<Rightarrow> bool" where
  "links_ok d \<longleftrightarrow> (\<forall>r \<in> set (db_roles d). distinct (r_permissions r) \<and> set (r_permissions r) \<subseteq> p_id ` set (db_permissions d)) \<and>
     (\<forall>k \<in> set (db_keys d). case k_created_by_user_id k of None \<Rightarrow> True | Some u \<Rightarrow> u \<in> u_id ` set (db_users d))"

section \<open>The same constraints\<close>

lemma same_tables_hold:
  assumes "same_table t t'"
  shows "table_holds D (n, t) = table_holds D (n, t')"
  using assms by (simp add: same_table_def table_holds_def)

lemma same_schemas_hold:
  assumes "same_schema s s'" "distinct (map fst s')"
  shows "schema_holds s D = schema_holds s' D"
proof -
  have match: "\<exists>t. map_of s n = Some t \<and> same_table t t'" if "(n, t') \<in> set s'" for n t'
    using assms(1) that by (fastforce simp: same_schema_def list_all_iff split: option.splits)
  have d: "distinct (map fst s)" and len: "length s = length s'" using assms(1) by (simp_all add: same_schema_def)
  have "fst ` set s' \<subseteq> fst ` set s" using match by (force dest: map_of_SomeD)
  moreover have "card (fst ` set s') = card (fst ` set s)"
    using d assms(2) len by (metis distinct_card length_map set_map)
  ultimately have names: "fst ` set s = fst ` set s'" by (metis card_subset_eq finite_imageI finite_set)
  show ?thesis
  proof
    assume h: "schema_holds s D"
    show "schema_holds s' D" unfolding schema_holds_def
    proof
      fix nt assume nt: "nt \<in> set s'"
      obtain n t' where "nt = (n, t')" by fastforce
      moreover obtain t where "(n, t) \<in> set s" "same_table t t'" using match nt \<open>nt = (n, t')\<close> map_of_SomeD by metis
      ultimately show "table_holds D nt" using h same_tables_hold unfolding schema_holds_def by blast
    qed
  next
    assume h: "schema_holds s' D"
    show "schema_holds s D" unfolding schema_holds_def
    proof
      fix nt assume nt: "nt \<in> set s"
      obtain n t where n: "nt = (n, t)" by fastforce
      then obtain t' where t': "(n, t') \<in> set s'" using names nt by (metis (no_types, lifting) fst_conv image_iff prod.collapse)
      moreover have "map_of s n = Some t" using d nt n by simp
      ultimately have "same_table t t'" using match by fastforce
      then show "table_holds D nt" using h t' n same_tables_hold unfolding schema_holds_def by blast
    qed
  qed
qed

lemma unique_in_map:
  assumes "\<And>x. NULL \<notin> set (map (\<lambda>c. col c (f x)) cs)"
    and "\<And>x y. map (\<lambda>c. col c (f x)) cs = map (\<lambda>c. col c (f y)) cs \<longleftrightarrow> k x = k y"
  shows "unique_in cs (map f xs) = distinct (map k xs)"
proof -
  have "filter (\<lambda>vs. NULL \<notin> set vs) (key_values cs (map f xs)) = map (\<lambda>x. map (\<lambda>c. col c (f x)) cs) xs"
    using assms(1) by (induction xs) (simp_all add: key_values_def)
  moreover have "distinct (map (\<lambda>x. map (\<lambda>c. col c (f x)) cs) xs) = distinct (map k xs)"
    using assms(2) by (induction xs) (auto simp: image_iff)
  ultimately show ?thesis by (simp add: unique_in_def)
qed

lemma period_str_inj: "period_str p = period_str q \<longleftrightarrow> p = q"
  by (cases p; cases q) simp_all

lemmas row_defs = user_row_def token_row_def permission_sql_row_def role_row_def org_row_def member_row_def api_row_def
  version_row_def quota_row_def rule_row_def key_sql_row_def log_row_def usage_row_def audit_row_def outbox_row_def
  daily_row_def note_row_def col_def

lemma unique_keys_accounts:
  "unique_in [''id''] (map user_row us) = distinct (map u_id us)"
  "unique_in [''email''] (map user_row us) = distinct (map u_email us)"
  "unique_in [''id''] (map token_row ts) = distinct (map rt_id ts)"
  "unique_in [''token_hash''] (map token_row ts) = distinct (map rt_token_hash ts)"
  "unique_in [''id''] (map permission_sql_row ps) = distinct (map p_id ps)"
  "unique_in [''code''] (map permission_sql_row ps) = distinct (map p_code ps)"
  "unique_in [''id''] (map role_row rs) = distinct (map r_id rs)"
  "unique_in [''name''] (map role_row rs) = distinct (map r_name rs)"
  "unique_in [''id''] (map org_row os) = distinct (map o_id os)"
  "unique_in [''slug''] (map org_row os) = distinct (map o_slug os)"
  "unique_in [''id''] (map member_row ms) = distinct (map m_id ms)"
  "unique_in [''organization_id'', ''user_id''] (map member_row ms) = distinct (map (\<lambda>m. (m_user_id m, m_organization_id m)) ms)"
  "unique_in [''id''] (map note_row ns) = distinct (map n_id ns)"
  by (rule unique_in_map; auto simp: row_defs)+

lemma unique_keys_catalogue:
  "unique_in [''id''] (map api_row as) = distinct (map a_id as)"
  "unique_in [''organization_id'', ''slug''] (map api_row as) = distinct (map (\<lambda>a. (a_slug a, a_organization_id a)) as)"
  "unique_in [''id''] (map version_row vs) = distinct (map v_id vs)"
  "unique_in [''api_id'', ''version''] (map version_row vs) = distinct (map (\<lambda>v. (v_api_id v, v_version v)) vs)"
  "unique_in [''id''] (map quota_row qs) = distinct (map q_id qs)"
  "unique_in [''api_id'', ''period''] (map quota_row qs) = distinct (map (\<lambda>q. (q_api_id q, q_period q)) qs)"
  "unique_in [''id''] (map rule_row ls) = distinct (map l_id ls)"
  "unique_in [''api_id''] (map rule_row ls) = distinct (map l_api_id ls)"
  "unique_in [''id''] (map key_sql_row ks) = distinct (map k_id ks)"
  "unique_in [''key_hash''] (map key_sql_row ks) = distinct (map k_key_hash ks)"
  by (rule unique_in_map; auto simp: row_defs period_str_inj)+

lemma unique_keys_streams:
  "unique_in [''id''] (map log_row gs) = distinct (map g_id gs)"
  "unique_in [''id''] (map usage_row uu) = distinct (map ku_id uu)"
  "unique_in [''api_key_id'', ''usage_date''] (map usage_row uu) = distinct (map (\<lambda>u. (ku_api_key_id u, ku_usage_date u)) uu)"
  "unique_in [''id''] (map audit_row al) = distinct (map al_id al)"
  "unique_in [''id''] (map outbox_row bs) = distinct (map ob_id bs)"
  "unique_in [''id''] (map daily_row ds) = distinct (map du_id ds)"
  "unique_in [''api_id'', ''usage_date''] (map daily_row ds) = distinct (map (\<lambda>u. (du_api_id u, du_usage_date u)) ds)"
  by (rule unique_in_map; auto simp: row_defs)+

lemma ids_not_null:
  "not_null [''id''] (map f xs) \<longleftrightarrow> (\<forall>x \<in> set xs. col ''id'' (f x) \<noteq> NULL)"
  by (auto simp: key_values_def not_null_def)

lemma id_columns:
  "col ''id'' (user_row u) = Uuid (u_id u)" "col ''id'' (token_row t) = Uuid (rt_id t)"
  "col ''id'' (permission_sql_row p) = Uuid (p_id p)" "col ''id'' (role_row r) = Uuid (r_id r)"
  "col ''id'' (org_row g) = Uuid (o_id g)" "col ''id'' (member_row m) = Uuid (m_id m)" "col ''id'' (api_row a) = Uuid (a_id a)"
  "col ''id'' (version_row v) = Uuid (v_id v)" "col ''id'' (quota_row q) = Uuid (q_id q)" "col ''id'' (rule_row l) = Uuid (l_id l)"
  "col ''id'' (key_sql_row k) = Uuid (k_id k)" "col ''id'' (log_row lg) = Uuid (g_id lg)" "col ''id'' (usage_row uu) = Uuid (ku_id uu)"
  "col ''id'' (audit_row al) = Uuid (al_id al)" "col ''id'' (outbox_row b) = Uuid (ob_id b)" "col ''id'' (daily_row du) = Uuid (du_id du)"
  "col ''id'' (note_row n) = Uuid (n_id n)"
  by (simp_all add: row_defs)

lemma fk_columns:
  "col ''user_id'' (token_row t) = Uuid (rt_user_id t)" "col ''organization_id'' (member_row m) = Uuid (m_organization_id m)"
  "col ''user_id'' (member_row m) = Uuid (m_user_id m)" "col ''role_id'' (member_row m) = Uuid (m_role_id m)"
  "col ''organization_id'' (api_row a) = Uuid (a_organization_id a)" "col ''api_id'' (version_row v) = Uuid (v_api_id v)"
  "col ''api_id'' (quota_row q) = Uuid (q_api_id q)" "col ''api_id'' (rule_row l) = Uuid (l_api_id l)"
  "col ''api_id'' (key_sql_row k) = Uuid (k_api_id k)" "col ''organization_id'' (key_sql_row k) = Uuid (k_organization_id k)"
  "col ''created_by_user_id'' (key_sql_row k) = or_null Uuid (k_created_by_user_id k)"
  "col ''api_key_id'' (usage_row uu) = Uuid (ku_api_key_id uu)" "col ''user_id'' (note_row n) = Uuid (n_user_id n)"
  by (simp_all add: row_defs)

lemma referenced_ids:
  "col ''id'' ` user_row ` A = Uuid ` u_id ` A" "col ''id'' ` role_row ` B = Uuid ` r_id ` B"
  "col ''id'' ` org_row ` C = Uuid ` o_id ` C" "col ''id'' ` api_row ` F = Uuid ` a_id ` F"
  "col ''id'' ` key_sql_row ` G = Uuid ` k_id ` G" "col ''id'' ` permission_sql_row ` H = Uuid ` p_id ` H"
  by (simp_all add: image_image id_columns)

lemma Uuid_in_image: "Uuid i \<in> Uuid ` A \<longleftrightarrow> i \<in> A" "(\<forall>x \<in> set xs. h x \<in> A) \<longleftrightarrow> h ` set xs \<subseteq> A"
  by auto

lemmas class_defs = User_class_def RefreshToken_class_def role_permissions_table_def Permission_class_def Role_class_def
  Organization_class_def OrganizationMember_class_def Api_class_def ApiVersion_class_def Quota_class_def
  RateLimitRule_class_def ApiKey_class_def RequestLog_class_def ApiKeyUsage_class_def AuditLog_class_def
  TelemetryOutbox_class_def DailyUsage_class_def Notification_class_def model_def mapped_def refers_def
  UUIDPrimaryKeyMixin_def TimestampMixin_def

lemmas hold_simps = table_holds_def table_of_def Let_def index_holds_def dump_def dump_tables_def ids_not_null id_columns fk_columns
  referenced_ids list_all_iff Uuid_in_image unique_keys_accounts unique_keys_catalogue unique_keys_streams table_ok_defs

lemma accounts_hold:
  "table_holds (dump d) (table_of User_class) \<longleftrightarrow> users_ok (db_users d)"
  "table_holds (dump d) (table_of RefreshToken_class) \<longleftrightarrow> tokens_ok (db_users d) (db_tokens d)"
  "table_holds (dump d) (table_of Organization_class) \<longleftrightarrow> orgs_ok (db_orgs d)"
  "table_holds (dump d) (table_of Notification_class) \<longleftrightarrow> notes_ok (db_users d) (db_notes d)"
  "table_holds (dump d) (table_of OrganizationMember_class) \<longleftrightarrow>
     members_ok (db_users d) (db_roles d) (db_orgs d) (db_members d)"
  "table_holds (dump d) (table_of Permission_class) \<and> table_holds (dump d) (table_of Role_class) \<longleftrightarrow>
     roles_ok (db_permissions d) (db_roles d)"
  by (auto simp: hold_simps class_defs)

lemma or_null_in: "or_null Uuid x = NULL \<or> or_null Uuid x \<in> Uuid ` A \<longleftrightarrow> (case x of None \<Rightarrow> True | Some u \<Rightarrow> u \<in> A)"
  by (auto simp: or_null_def split: option.splits)

lemma catalogue_hold:
  "table_holds (dump d) (table_of Api_class) \<longleftrightarrow> apis_ok (db_orgs d) (db_apis d)"
  "table_holds (dump d) (table_of ApiVersion_class) \<longleftrightarrow> versions_ok (db_apis d) (db_versions d)"
  "table_holds (dump d) (table_of Quota_class) \<longleftrightarrow> quotas_ok (db_apis d) (db_quotas d)"
  "table_holds (dump d) (table_of RateLimitRule_class) \<longleftrightarrow> rules_ok (db_apis d) (db_rules d)"
  "table_holds (dump d) (table_of ApiKey_class) \<longleftrightarrow> keys_ok (db_orgs d) (db_apis d) (db_keys d) \<and>
     (\<forall>k \<in> set (db_keys d). case k_created_by_user_id k of None \<Rightarrow> True | Some u \<Rightarrow> u \<in> u_id ` set (db_users d))"
  by (auto simp: hold_simps class_defs or_null_in)

lemma streams_hold:
  "table_holds (dump d) (table_of ApiKeyUsage_class) \<longleftrightarrow> usage_ok (db_keys d) (db_usage d)"
  "table_holds (dump d) (table_of DailyUsage_class) \<longleftrightarrow> daily_ok (db_daily d)"
  "table_holds (dump d) (table_of RequestLog_class) \<and> table_holds (dump d) (table_of AuditLog_class) \<and>
     table_holds (dump d) (table_of TelemetryOutbox_class) \<longleftrightarrow> streams_ok (db_logs d) (db_audit d) (db_outbox d)"
  by (auto simp: hold_simps class_defs)

lemma distinct_association:
  assumes "distinct (map r_id rs)"
  shows "distinct (concat (map (\<lambda>r. map (Pair (r_id r)) (r_permissions r)) rs)) \<longleftrightarrow>
    (\<forall>r \<in> set rs. distinct (r_permissions r))"
  using assms
proof (induction rs)
  case (Cons r rs)
  have "distinct (map (Pair (r_id r)) (r_permissions r)) \<longleftrightarrow> distinct (r_permissions r)"
    by (simp add: distinct_map inj_on_def)
  moreover have "set (map (Pair (r_id r)) (r_permissions r)) \<inter> set (concat (map (\<lambda>r. map (Pair (r_id r)) (r_permissions r)) rs)) = {}"
    using Cons.prems by (auto simp: image_iff)
  ultimately show ?case using Cons by (simp only: list.map concat.simps distinct_append) simp
qed simp

definition link_row :: "uuid \<times> uuid \<Rightarrow> sql_row" where
  "link_row rp = [(''role_id'', Uuid (fst rp)), (''permission_id'', Uuid (snd rp))]"

lemma association_rows: "concat (map role_permission_rows rs) = map link_row (concat (map (\<lambda>r. map (Pair (r_id r)) (r_permissions r)) rs))"
  by (induction rs) (simp_all add: role_permission_rows_def link_row_def)

lemma association_hold:
  assumes "roles_ok (db_permissions d) (db_roles d)"
  shows "table_holds (dump d) (table_of role_permissions_table) \<longleftrightarrow>
    (\<forall>r \<in> set (db_roles d). distinct (r_permissions r) \<and> set (r_permissions r) \<subseteq> p_id ` set (db_permissions d))"
proof -
  let ?links = "concat (map (\<lambda>r. map (Pair (r_id r)) (r_permissions r)) (db_roles d))"
  have cols: "col ''role_id'' (link_row x) = Uuid (fst x)" "col ''permission_id'' (link_row x) = Uuid (snd x)" for x
    by (simp_all add: link_row_def col_def)
  have uniq: "unique_in [''role_id'', ''permission_id''] (map link_row ?links) = distinct ?links"
    using unique_in_map [of link_row "[''role_id'', ''permission_id'']" "\<lambda>x. x" ?links] by (simp add: cols prod_eq_iff)
  have null: "not_null [''role_id'', ''permission_id''] (map link_row ?links)"
    by (auto simp: key_values_def not_null_def cols)
  show ?thesis
    using distinct_association [of "db_roles d"] assms null uniq
    by (auto simp: hold_simps class_defs association_rows cols)
qed

lemma metadata_holds: "schema_holds metadata (dump d) \<longleftrightarrow> db_ok d \<and> links_ok d"
proof -
  have "schema_holds metadata (dump d) \<longleftrightarrow> (\<forall>cl \<in> set registered. table_holds (dump d) (table_of cl))"
    by (simp add: schema_holds_def metadata_def)
  also have "\<dots> \<longleftrightarrow> db_ok d \<and> links_ok d"
    using association_hold [of d] accounts_hold [of d] catalogue_hold [of d] streams_hold [of d]
    unfolding registered_def db_ok_def links_ok_def by (simp only: list.set ball_simps) blast
  finally show ?thesis .
qed

text \<open>C3: the invariant \<open>db_ok\<close> of this development, with the links of \<open>links_ok\<close>, is neither more nor less than
  what Postgres enforces: on the schema the migrations build from an empty database, a database satisfies every
  primary key, unique constraint, unique index and foreign key exactly when it satisfies them.\<close>

theorem invariant_is_the_schema:
  "\<exists>s. upgrade_head versions (None, []) = Inr (Some ''fa5ac4531897'', s) \<and>
     (\<forall>d. schema_holds s (dump d) = (db_ok d \<and> links_ok d))"
proof -
  have "distinct (map fst metadata)" by code_simp
  then show ?thesis
    using upgrade_run same_schemas_hold [OF head_same] metadata_holds by blast
qed

end
