(* ===== verification/Integrity.thy ===== *)
theory Integrity
  imports System Constraints
begin

text \<open>
  Every state the platform can reach satisfies the schema its migrations build. System shows \<open>db_ok\<close> for the
  reachable states; here the two links \<open>db_ok\<close> leaves open (the permissions of a role exist, once each; the
  creator of a key exists) are carried through every operation, and both are put together with the
  equivalence of Constraints.
\<close>

section \<open>The links\<close>

text \<open>\<open>U\<close> are users the body of an endpoint relies on, such as its caller.\<close>

abbreviation linked :: "uuid set \<Rightarrow> db \<Rightarrow> bool" where
  "linked U d \<equiv> links_ok d \<and> U \<subseteq> u_id ` set (db_users d)"

definition creators :: "db \<Rightarrow> uuid set" where
  "creators d = {u. Some u \<in> k_created_by_user_id ` set (db_keys d)}"

definition role_links :: "db \<Rightarrow> bool" where
  "role_links d \<longleftrightarrow> (\<forall>r \<in> set (db_roles d). distinct (r_permissions r) \<and> set (r_permissions r) \<subseteq> p_id ` set (db_permissions d))"

lemma links_ok_alt: "links_ok d \<longleftrightarrow> role_links d \<and> creators d \<subseteq> u_id ` set (db_users d)"
  unfolding links_ok_def role_links_def creators_def
  by (intro arg_cong2 [where f = "(\<and>)"] refl) (force split: option.splits)

lemma linked_frame:
  assumes "linked U d" "db_roles d' = db_roles d" "db_permissions d' = db_permissions d"
    and "u_id ` set (db_users d) \<subseteq> u_id ` set (db_users d')" "creators d' \<subseteq> creators d"
  shows "linked U d'"
proof -
  have "creators d' \<subseteq> u_id ` set (db_users d')" "U \<subseteq> u_id ` set (db_users d')"
    using assms(1,4,5) unfolding links_ok_alt by (meson subset_trans)+
  then show ?thesis using assms(1-3) by (simp add: links_ok_alt role_links_def)
qed

lemma linked_add [prog_keeps]:
  "preserves (linked U) (add_user u)" "preserves (linked U) (add_token t)" "preserves (linked U) (add_org g)"
  "preserves (linked U) (add_member m)" "preserves (linked U) (add_api a)" "preserves (linked U) (add_version_row v)"
  "preserves (linked U) (add_quota q)" "preserves (linked U) (add_rule l)" "preserves (linked U) (add_log lg)"
  "preserves (linked U) (add_audit al)" "preserves (linked U) (add_outbox b)" "preserves (linked U) (add_daily du)"
  "preserves (linked U) (add_note n)"
  unfolding add_defs thenP_def
  by (intro preserves_bindP preserves_raise_if preserves_insert_row; erule linked_frame; auto simp: creators_def)+

lemma linked_add_key:
  "k_created_by_user_id k = Some u \<Longrightarrow> u \<in> U \<Longrightarrow> preserves (linked U) (add_key k)"
  unfolding add_defs thenP_def
  by (intro preserves_bindP preserves_raise_if preserves_insert_row) (auto simp: links_ok_alt role_links_def creators_def)

lemma linked_sets [prog_keeps]:
  "preserves (linked U) (set_token i g)" "preserves (linked U) (revoke_family now fam)"
  "preserves (linked U) (revoke_token now t)" "preserves (linked U) (set_note i k)"
  "preserves (linked U) (mark_all_read now u)" "preserves (linked U) (delete_quota_row q)"
  "preserves (linked U) (usage_increment uid key api day er)" "preserves (linked U) (set_member_role mid rid)"
  "preserves (linked U) (delete_member_row mid)"
  by (auto simp: preserves_def set_token_def revoke_family_def revoke_token_def set_note_def mark_all_read_def
      delete_quota_row_def usage_increment_def set_member_role_def delete_member_row_def prog_simps
      links_ok_alt role_links_def creators_def)

lemma linked_set_user [prog_keeps]: "(\<And>x. u_id (f x) = u_id x) \<Longrightarrow> preserves (linked U) (set_user i f)"
  by (auto simp: preserves_def set_user_def prog_simps links_ok_alt role_links_def creators_def image_update_where)

lemma linked_set_key [prog_keeps]:
  "(\<And>x. k_created_by_user_id (f x) = k_created_by_user_id x) \<Longrightarrow> preserves (linked U) (set_key i f)"
  by (auto simp: preserves_def set_key_def prog_simps links_ok_alt role_links_def creators_def image_update_where)

lemma creators_delete:
  "creators (delete_keys_where P d) \<subseteq> creators d" "creators (delete_apis_where Q d) \<subseteq> creators d"
  "creators (delete_org_row oid d) \<subseteq> creators d"
  by (auto simp: creators_def delete_keys_where_def delete_apis_where_def delete_org_row_def Let_def set_delete_where)

lemma deleted_frame:
  "db_roles (delete_apis_where Q d) = db_roles d" "db_permissions (delete_apis_where Q d) = db_permissions d"
  "db_users (delete_apis_where Q d) = db_users d" "db_roles (delete_org_row oid d) = db_roles d"
  "db_permissions (delete_org_row oid d) = db_permissions d" "db_users (delete_org_row oid d) = db_users d"
  by (simp_all add: delete_keys_where_def delete_apis_where_def delete_org_row_def Let_def)

text \<open>An assignment to a table the links do not read.\<close>

lemma linked_rows:
  "linked U d \<Longrightarrow> linked U (d\<lparr>db_apis := x1\<rparr>)" "linked U d \<Longrightarrow> linked U (d\<lparr>db_versions := x2\<rparr>)"
  "linked U d \<Longrightarrow> linked U (d\<lparr>db_rules := x3\<rparr>)" "linked U d \<Longrightarrow> linked U (d\<lparr>db_daily := x4\<rparr>)"
  "linked U d \<Longrightarrow> linked U (d\<lparr>db_orgs := x5\<rparr>)" "linked U d \<Longrightarrow> linked U (delete_apis_where P d)"
  "linked U d \<Longrightarrow> linked U (delete_org_row oid d)"
  by (erule linked_frame; simp add: creators_def deleted_frame creators_delete [unfolded creators_def])+

section \<open>The services\<close>

lemma linked_accounts [prog_keeps]:
  "preserves (linked U) (authenticate E salt e p)" "preserves (linked U) (issue_tokens E st now raw tid jti u fam)"
  "preserves (linked U) (logout E now raw)" "preserves (linked U) (verify_email E st now tok)"
  "preserves (linked U) (reset_password E st now salt tok pw)"
  unfolding auth_defs Let_def by (intro prog_keeps reads_repo; simp)+

lemma linked_rotate [prog_keeps]: "preserves (linked U) (rotate_refresh E st now raw2 tid jti raw)"
  unfolding rotate_refresh_def by (intro prog_keeps reads_repo)

lemma linked_notes [prog_keeps]:
  "preserves (linked U) (mark_read now i nid)" "preserves (linked U) (create_notification now nid i t1 t2 t3 oid)"
  unfolding sparing_defs Let_def by (intro prog_keeps)+

lemma linked_telemetry [prog_keeps]: "preserves (linked U) (emit isofmt now rid ev)"
  unfolding sparing_defs Let_def by (intro prog_keeps)

lemma linked_records [prog_keeps]:
  "preserves (linked U) (record_audit isofmt now aid eid oid act rt org actor rid ip meta)"
  "preserves (linked U) (record_request isofmt now ids g)"
  unfolding sparing_defs Let_def by (intro prog_keeps)+

lemma linked_orgs [prog_keeps]:
  "preserves (linked U) (create_organization now oid mid owner name slug)"
  "preserves (linked U) (add_member_to_org now mid oid email role)"
  "preserves (linked U) (update_member_role oid mid role)" "preserves (linked U) (remove_member oid mid)"
  unfolding org_service_defs Let_def slug_conflict_def by (intro prog_keeps reads_repo)+

lemma linked_org_rows [prog_keeps]:
  "preserves (linked U) (update_organization oid name)" "preserves (linked U) (delete_organization oid)"
  unfolding update_organization_def delete_organization_def
  by (intro prog_keeps preserves_modifyP linked_rows; assumption)+

lemma linked_catalogue [prog_keeps]:
  "preserves (linked U) (create_api now aid oid name slug desc)"
  "preserves (linked U) (add_version now vid oid aid ver url active)" "preserves (linked U) (set_quotas oid aid wanted)"
  unfolding create_api_def add_version_def set_quotas_def Let_def split_beta by (intro prog_keeps)+

lemma linked_catalogue_rows [prog_keeps]:
  "preserves (linked U) (update_api oid aid nm ds act)" "preserves (linked U) (delete_api oid aid)"
  "preserves (linked U) (delete_version oid aid vid)" "preserves (linked U) (set_rate_limit lid oid aid al n win burst)"
  unfolding update_api_def delete_api_def delete_version_def set_rate_limit_def Let_def
  by (intro prog_keeps preserves_modifyP linked_rows reads_repo(1); (assumption | simp))+

lemma linked_rollup [prog_keeps]: "preserves (linked U) (repo_rollup_daily ids t)"
  unfolding repo_rollup_daily_def
  by (intro preserves_thenP preserves_bindP preserves_mapP preserves_gets preserves_ret linked_add preserves_modifyP linked_rows)

lemma linked_create_key: "u \<in> U \<Longrightarrow> preserves (linked U) (create_key E now kd oid aid name ex (Some u))"
  unfolding create_key_def Let_def by (intro prog_keeps linked_add_key [where u = u]) simp_all

lemma linked_rotate_key: "u \<in> U \<Longrightarrow> preserves (linked U) (rotate_key E t0 now kd oid aid kid grace (Some u))"
  unfolding rotate_key_def
  by (intro preserves_bindP preserves_thenP preserves_raise_if preserves_ret linked_create_key linked_set_key
      reads_preserves [OF reads_get_key]) (simp_all add: retire_def Let_def)

lemma linked_revoke_key [prog_keeps]: "preserves (linked U) (revoke_key now oid aid kid)"
  unfolding revoke_key_def by (intro prog_keeps) simp_all

section \<open>The seeding\<close>

lemma preserves_bindP_post:
  assumes "preserves P m" "\<And>s x s'. P s \<Longrightarrow> P s' \<Longrightarrow> m s = (Inr x, s') \<Longrightarrow> P (snd (k x s'))"
  shows "preserves P (bindP m k)"
proof (rule preservesI)
  fix s assume p: "P s"
  obtain r s' where m: "m s = (r, s')" by fastforce
  have "P s'" using preservesD [OF assms(1) p] m by simp
  then show "P (snd (bindP m k s))" using assms(2) [OF p] m by (cases r) (simp_all add: prog_simps)
qed

lemma mapP_perm_id_Inr:
  "mapP (perm_id_of perms) xs d = (Inr ids, d') \<Longrightarrow>
   d' = d \<and> list_all2 (\<lambda>p i. map_of perms (perm_code p) = Some i) xs ids"
  by (induction xs arbitrary: ids d)
     (auto simp: prog_simps perm_id_of_def split: option.splits sum.splits prod.splits)

lemma looked_up_ids:
  assumes "list_all2 (\<lambda>p i. map_of perms (perm_code p) = Some i) xs ids" "distinct (map snd perms)" "distinct xs"
  shows "distinct ids \<and> set ids \<subseteq> snd ` set perms"
  using assms(1,3)
proof (induction xs ids rule: list_all2_induct)
  case (Cons p xs i ids)
  have "i \<notin> set ids"
  proof
    assume "i \<in> set ids"
    then obtain j where j: "j < length ids" "ids ! j = i" by (auto simp: in_set_conv_nth)
    define q where "q = xs ! j"
    have q: "q \<in> set xs" "map_of perms (perm_code q) = Some i"
      using list_all2_nthD2 [OF Cons.hyps(2) j(1)] list_all2_lengthD [OF Cons.hyps(2)] j by (simp_all add: q_def)
    then have "perm_code q = perm_code p"
      using inj_onD [of snd "set perms", OF _ _ map_of_SomeD [OF q(2)] map_of_SomeD [OF Cons.hyps(1)]] assms(2)
      by (simp add: distinct_map)
    then show False using q(1) Cons.prems perm_code_inj by auto
  qed
  then show ?case using Cons by (force dest: map_of_SomeD)
qed simp

definition seeding :: "permission_row list \<Rightarrow> db \<Rightarrow> bool" where
  "seeding ps d \<longleftrightarrow> db_ok d \<and> links_ok d \<and> db_permissions d = ps"

lemma seeding_add_role: "r_permissions r = [] \<Longrightarrow> preserves (seeding ps) (add_role r)"
  using preservesD [OF db_ok_add(4), of _ r]
  by (auto simp: preserves_def seeding_def add_role_def prog_simps links_ok_alt role_links_def creators_def)

lemma seeding_grant:
  assumes "seeding ps d" "distinct ids" "set ids \<subseteq> p_id ` set ps"
  shows "seeding ps (d\<lparr>db_roles := update_where Q (\<lambda>x. x\<lparr>r_permissions := ids\<rparr>) (db_roles d)\<rparr>)"
proof -
  have "db_ok (d\<lparr>db_roles := update_where Q (\<lambda>x. x\<lparr>r_permissions := ids\<rparr>) (db_roles d)\<rparr>)"
    using assms(1) by (intro db_ok_update_roles) (simp_all add: seeding_def)
  moreover have "role_links (d\<lparr>db_roles := update_where Q (\<lambda>x. x\<lparr>r_permissions := ids\<rparr>) (db_roles d)\<rparr>)"
    using assms by (auto simp: seeding_def links_ok_alt role_links_def set_update_where)
  ultimately show ?thesis using assms(1) by (simp add: seeding_def links_ok_alt creators_def)
qed

lemma seeding_role: "preserves (seeding ps) (seed_role (map (\<lambda>p. (p_code p, p_id p)) ps) existing rid r)"
  unfolding seed_role_def
proof (intro preserves_thenP preserves_if preserves_ret seeding_add_role preserves_bindP_post)
  show "r_permissions (new_role (rid r) r) = []" by (simp add: new_role_def)
  let ?perms = "map (\<lambda>p. (p_code p, p_id p)) ps"
  show "preserves (seeding ps) (mapP (perm_id_of ?perms) (desired_permissions r))"
    by (intro preserves_mapP reads_preserves [OF reads_perm_id])
  fix d ids d'
  assume s: "seeding ps d'" and run: "mapP (perm_id_of ?perms) (desired_permissions r) d = (Inr ids, d')"
  have "distinct (map p_id ps)" using s db_okD(3) [of d'] by (auto simp: seeding_def roles_ok_def)
  then have "distinct (map snd ?perms)" by (simp add: o_def)
  moreover have "distinct (desired_permissions r)" by (simp add: desired_permissions_def distinct_sorted_permissions)
  ultimately have "distinct ids \<and> set ids \<subseteq> snd ` set ?perms"
    using looked_up_ids conjunct2 [OF mapP_perm_id_Inr [OF run]] by blast
  then show "seeding ps (snd (modifyP (\<lambda>d. d\<lparr>db_roles := update_where (\<lambda>x. r_name x = role_code r)
      (\<lambda>x. x\<lparr>r_permissions := ids\<rparr>) (db_roles d)\<rparr>) d'))"
    using seeding_grant [OF s] by (simp add: prog_simps image_image)
qed

lemma linked_add_permission: "preserves (\<lambda>d. db_ok d \<and> links_ok d) (add_permission p)"
proof -
  have "preserves links_ok (add_permission p)"
    unfolding add_permission_def by (rule preserves_insert_row) (auto simp: links_ok_alt role_links_def creators_def)
  then show ?thesis using db_ok_add(3) [of p] by (simp add: preserves_def)
qed

lemma linked_seed: "preserves (\<lambda>d. db_ok d \<and> links_ok d) (seed_rbac pid rid)"
proof -
  let ?P = "\<lambda>d. db_ok d \<and> links_ok d"
  let ?roles = "\<lambda>perms. bindP (gets (\<lambda>d. map r_name (db_roles d))) (\<lambda>existing.
      thenP (mapP (seed_role perms existing rid) all_roles) (ret ()))"
  have roles: "?P (snd (?roles perms d))" if p: "?P d" "gets existing_perms d0 = (Inr perms, d)" for perms d0 d
  proof -
    have s: "seeding (db_permissions d) d" and perms: "perms = map (\<lambda>p. (p_code p, p_id p)) (db_permissions d)"
      using p by (auto simp: seeding_def prog_simps existing_perms_def)
    have "preserves (seeding (db_permissions d)) (?roles perms)"
      unfolding perms by (intro preserves_bindP preserves_thenP preserves_gets preserves_ret preserves_mapP seeding_role)
    from preservesD [OF this s] show ?thesis by (simp add: seeding_def)
  qed
  have all: "preserves ?P (bindP (gets existing_perms) ?roles)"
    by (rule preserves_bindP_post [OF preserves_gets]) (rule roles)
  show ?thesis
    unfolding seed_rbac_def
    by (rule preserves_bindP [OF preserves_gets]) (rule preserves_thenP [OF preserves_mapP [OF linked_add_permission] all])
qed

section \<open>Every step\<close>

lemma current_user_exists:
  assumes "get_current_user E st now cred d = (Inr u, d')"
  shows "u_id u \<in> u_id ` set (db_users d)"
proof -
  have "\<exists>uid. find (\<lambda>x. u_id x = uid) (db_users d) = Some u"
    using assms by (auto simp: get_current_user_def prog_simps split: option.splits if_splits sum.splits)
  then show ?thesis by (auto dest: find_SomeD)
qed

lemma linked_authorized:
  assumes "\<And>u. preserves (linked {u_id u}) (body u)"
  shows "preserves (linked {}) (authorized E st now cred perm oid body)"
  unfolding authorized_def
proof (rule preserves_session_scope, rule preserves_bindP_post)
  show "preserves (linked {}) (get_current_user E st now cred)"
    by (rule reads_preserves [OF reads_get_current_user])
  fix d u d'
  assume l: "linked {} d'" and run: "get_current_user E st now cred d = (Inr u, d')"
  have "d' = d" using reads_run [OF reads_get_current_user run] .
  then have "linked {u_id u} d'" using l current_user_exists [OF run] by simp
  moreover have "preserves (linked {u_id u}) (bindP (require_permission perm oid u) (\<lambda>_. body u))"
    by (intro preserves_bindP assms reads_preserves [OF reads_require_permission])
  ultimately have "linked {u_id u} (snd (bindP (require_permission perm oid u) (\<lambda>_. body u) d'))"
    by (rule preservesD [rotated])
  then show "linked {} (snd (bindP (require_permission perm oid u) (\<lambda>_. body u) d'))" by simp
qed

lemma linked_with_caller:
  "(\<And>u. preserves (linked {}) (body u)) \<Longrightarrow>
   preserves (linked {}) (session_scope (bindP (get_current_user E st now cred) body))"
  by (intro preserves_session_scope preserves_bindP reads_preserves [OF reads_get_current_user])

lemma linked_account_endpoints:
  "preserves (linked {}) (refresh_endpoint E st now raw2 tid jti body ck)"
  "preserves (linked {}) (logout_endpoint E now body ck)" "preserves (linked {}) (verify_email_endpoint E st now tok)"
  "preserves (linked {}) (confirm_reset_endpoint E st now salt tok pw)"
  unfolding refresh_endpoint_def logout_endpoint_def verify_email_endpoint_def confirm_reset_endpoint_def
  by (intro prog_keeps)+

lemma linked_inbox_endpoints:
  "preserves (linked {}) (mark_read_endpoint E st now cred nid)" "preserves (linked {}) (mark_all_read_endpoint E st now cred)"
  "preserves (linked {}) (create_organization_endpoint E st now cred oid mid name slug)"
  unfolding mark_read_endpoint_def mark_all_read_endpoint_def create_organization_endpoint_def
  by (rule linked_with_caller; intro prog_keeps)+

lemma linked_org_endpoints:
  "preserves (linked {}) (update_organization_endpoint E st now cred oid name)"
  "preserves (linked {}) (delete_organization_endpoint E st now cred oid)"
  "preserves (linked {}) (add_member_endpoint E st now cred oid mid nid email role)"
  "preserves (linked {}) (update_member_role_endpoint E st now cred oid mid role)"
  "preserves (linked {}) (remove_member_endpoint E st now cred oid mid)"
  unfolding update_organization_endpoint_def delete_organization_endpoint_def add_member_endpoint_def
    update_member_role_endpoint_def remove_member_endpoint_def
  by (rule linked_authorized; intro prog_keeps)+

lemma linked_api_endpoints:
  "preserves (linked {}) (create_api_endpoint E st now cred aid oid name slug desc)"
  "preserves (linked {}) (update_api_endpoint E st now cred oid aid nm ds act)"
  "preserves (linked {}) (delete_api_endpoint E st now cred oid aid)"
  "preserves (linked {}) (add_version_endpoint E st now cred vid oid aid ver url active)"
  "preserves (linked {}) (delete_version_endpoint E st now cred oid aid vid)"
  "preserves (linked {}) (set_quota_endpoint E st now cred oid aid wanted)"
  "preserves (linked {}) (set_rate_limit_endpoint E st now cred lid oid aid al n win burst)"
  unfolding endpoint_defs by (rule linked_authorized; intro prog_keeps)+

lemma linked_key_endpoints:
  "preserves (linked {}) (create_key_endpoint E st isofmt now cred kd ai ip oid aid name ex)"
  "preserves (linked {}) (rotate_key_endpoint E st isofmt now cred kd ai ip oid aid kid grace)"
  "preserves (linked {}) (revoke_key_endpoint E st isofmt now cred ai ip oid aid kid)"
  unfolding endpoint_defs
  by (rule linked_authorized; intro prog_keeps linked_create_key linked_rotate_key; simp)+

lemmas linked_endpoints = linked_account_endpoints linked_inbox_endpoints linked_org_endpoints linked_api_endpoints
  linked_key_endpoints

lemma linked_rollup_task: "preserves (linked {}) (rollup_daily_usage rids rids' now)"
  unfolding rollup_daily_usage_def by (intro preserves_session_scope preserves_bindP preserves_ret linked_rollup)

lemmas keeps_links = linked_endpoints [simplified] linked_rollup_task [simplified]

lemma linked_world: "keeps_db (linked {}) m \<Longrightarrow> links_ok (w_db w) \<Longrightarrow> links_ok (w_db (snd (m w)))"
  using keeps_db_run [of "linked {}" m w "fst (m w)" "snd (m w)"] by simp

lemma linked_publish: "links_ok (w_db w) \<Longrightarrow> links_ok (w_db (run_publisher sink locked clk w))"
proof -
  assume s: "links_ok (w_db w)"
  let ?P = "\<lambda>s. links_ok (fst s)"
  have touch: "links_ok (touch_rows ids p d) = links_ok d" for ids p d
    by (simp add: touch_rows_def links_ok_alt role_links_def creators_def)
  have drain: "preserves ?P (drain_outbox sink n l now)" for n l now
    by (auto simp: preserves_def drain_outbox_def Let_def touch split: prod.splits sum.splits)
  have loop: "preserves ?P (publish_loop sink locked clk n i acc)" for n i acc
    by (induction n arbitrary: i acc) (simp_all, (intro preserves_bindP preserves_if preserves_ret drain | assumption)+)
  show ?thesis
    using s preservesD [OF loop [of 50 0 0], of "(w_db w, snd (w_redis w))"]
    by (auto simp: run_publisher_def publish_telemetry_def split: prod.splits sum.splits)
qed

lemma linked_step:
  assumes "platform_step w w'" "db_ok (w_db w)" "links_ok (w_db w)"
  shows "links_ok (w_db w')"
  using assms
proof (induction rule: platform_step.induct)
  case (startup w pid rid)
  then show ?case using preservesD [OF preserves_session_scope [OF linked_seed], of "w_db w"] by simp
next
  case (register w E st now uid salt email pw fn)
  show ?case by (rule linked_world [OF _ register(2)]) (intro keeps_auth_endpoints prog_keeps)+
next
  case (login w R ms E st now salt raw tid jti fam ip email pw)
  show ?case by (rule linked_world [OF _ login(2)]) (intro keeps_auth_endpoints prog_keeps)+
next
  case (request_reset w R ms E st now ip email)
  show ?case by (rule linked_world [OF _ request_reset(2)]) (intro keeps_auth_endpoints prog_keeps)+
next
  case (proxied w G isofmt fs clocks tx ids slug version path rq)
  show ?case by (rule linked_world [OF _ proxied(2)]) (intro keeps_proxy prog_keeps)+
next
  case (publish w sink locked clk)
  then show ?case by (simp add: linked_publish)
qed (simp_all add: preservesD keeps_links)

text \<open>C4: every state the platform can reach satisfies the schema its migrations build. Migrating an empty
  database to the head succeeds, and from then on, whatever requests, worker runs and restarts happen, in any
  order, with any arguments, failures and answers of the outside, every primary key, unique constraint, unique
  index and foreign key of that schema holds, the associations of roles with permissions and the creators of
  keys included.\<close>

theorem reachable_states_satisfy_schema:
  assumes "reachable w"
  shows "\<exists>s. do_run_migrations (upgrade_head versions) (None, []) = (Inr (), (Some ''fa5ac4531897'', s)) \<and>
    schema_holds s (dump (w_db w))"
proof -
  from assms have "db_ok (w_db w) \<and> links_ok (w_db w)"
  proof induction
    case (start w)
    then show ?case using db_ok_empty by (simp add: links_ok_def empty_db_def)
  next
    case (step w w')
    have "sound_db (w_db w')" by (rule reachable_sound [OF reachable.step [OF step.hyps(1,2)]])
    moreover have "links_ok (w_db w')" using linked_step [OF step.hyps(2)] step.IH by simp
    ultimately show ?case by (simp add: sound_db_def)
  qed
  moreover have "distinct (map fst metadata)" by code_simp
  ultimately have "schema_holds head_schema (dump (w_db w))"
    using same_schemas_hold [OF head_same] metadata_holds by blast
  then show ?thesis using upgrade_run by (auto simp: do_run_migrations_def)
qed

theorem reachable_states_satisfy_schema_witness:
  "\<exists>s. schema_holds s (dump (w_db first_steps)) \<and> map o_slug (db_orgs (w_db first_steps)) = [''org'']"
proof -
  obtain s where "schema_holds s (dump (w_db first_steps))"
    using reachable_states_satisfy_schema [OF first_steps_reachable] by (elim exE conjE)
  then show ?thesis using first_steps_run by (intro exI [of _ s] conjI)
qed

end
