(* ===== verification/Concurrency.thy ===== *)
theory Concurrency
  imports Organization Gateway
begin

text \<open>
  What happens when requests overlap. PostgreSQL runs at READ COMMITTED and the services take no locks, so
  between the statements of one request the statements of another may run; Redis runs single commands
  atomically, and \<open>services/quota.py\<close> and \<open>services/auth_throttle.py\<close> issue several. The methods are split
  here where the code has separate statements or commands, each split is shown to compose to the method
  of the other theories, and the properties are about schedules of the pieces.
\<close>

section \<open>Two refreshes with one token\<close>

text \<open>\<open>AuthService.rotate\<close> up to the last lookup before it writes, on a token that passes the checks.\<close>

definition rotate_reads :: "env \<Rightarrow> instant \<Rightarrow> string \<Rightarrow> (refresh_token \<times> user) dbprog" where
  "rotate_reads E now raw_refresh =
     bindP (get_by_hash (hash_token E raw_refresh)) (\<lambda>stored. case stored of
       None \<Rightarrow> raise (err AuthenticationError ''Invalid refresh token.'')
     | Some t \<Rightarrow>
         if rt_revoked_at t \<noteq> None
         then thenP (revoke_family now (rt_family_id t))
                (raise (err AuthenticationError ''Refresh token has been revoked.''))
         else if rt_expires_at t \<le> now
         then thenP (revoke_token now t) (raise (err AuthenticationError ''Refresh token has expired.''))
         else bindP (repo_get db_users u_id (rt_user_id t)) (\<lambda>u. case u of
                None \<Rightarrow> raise (err AuthenticationError ''Account is unavailable.'')
              | Some u \<Rightarrow>
                  thenP (raise_if (\<not> u_is_active u) (err AuthenticationError ''Account is unavailable.''))
                  (ret (t, u))))"

text \<open>The rest of it: the successor's INSERT and the UPDATE of the presented token.\<close>

definition rotate_writes ::
  "env \<Rightarrow> settings \<Rightarrow> instant \<Rightarrow> string \<Rightarrow> uuid \<Rightarrow> uuid \<Rightarrow> refresh_token \<times> user \<Rightarrow> issued_tokens dbprog" where
  "rotate_writes E st now raw2 tid jti = (\<lambda>(t, u).
     bindP (issue_tokens E st now raw2 tid jti u (rt_family_id t)) (\<lambda>tokens.
     thenP (set_token (rt_id t) (\<lambda>t. t\<lparr>rt_revoked_at := Some now\<rparr>))
     (bindP (get_by_hash (hash_token E (it_refresh_token tokens))) (\<lambda>successor.
      thenP (set_token (rt_id t) (\<lambda>t. t\<lparr>rt_rotated_to := map_option rt_id successor\<rparr>))
      (ret tokens)))))"

lemma rotate_split:
  "rotate_refresh E st now raw2 tid jti raw =
   bindP (rotate_reads E now raw) (rotate_writes E st now raw2 tid jti)"
  by (auto simp: fun_eq_iff rotate_refresh_def rotate_reads_def rotate_writes_def prog_simps
      split: option.splits prod.splits sum.splits)

text \<open>The writes do what they do whatever another request has written to the token in between.\<close>

lemma rotate_writes_run:
  assumes "db_ok d" "x \<in> set (db_tokens d)" "rt_id x = rt_id t" "u_id u \<in> u_id ` set (db_users d)"
    and "tid \<notin> rt_id ` set (db_tokens d)" "hash_token E raw2 \<notin> rt_token_hash ` set (db_tokens d)"
  shows "\<exists>toks new. rotate_writes E st now raw2 tid jti (t, u) d = (Inr toks,
      d\<lparr>db_tokens := update_where (\<lambda>x. rt_id x = rt_id t)
          (\<lambda>x. x\<lparr>rt_revoked_at := Some now, rt_rotated_to := Some tid\<rparr>) (db_tokens d) @ [new]\<rparr>) \<and>
    it_refresh_token toks = raw2 \<and> rt_id new = tid \<and> rt_family_id new = rt_family_id t \<and>
    rt_token_hash new = hash_token E raw2 \<and> rt_revoked_at new = None \<and> rt_user_id new = u_id u"
proof -
  let ?f = "\<lambda>x. x\<lparr>rt_revoked_at := Some now\<rparr>"
  define new where "new = \<lparr> rt_id = tid, rt_user_id = u_id u, rt_family_id = rt_family_id t,
    rt_token_hash = hash_token E raw2, rt_expires_at = now + s_refresh_token_ttl_seconds st * us_per_second,
    rt_revoked_at = None, rt_rotated_to = None \<rparr>"
  obtain toks d1 where issue: "issue_tokens E st now raw2 tid jti u (rt_family_id t) d = (Inr toks, d1)"
    and d1: "d1 = d\<lparr>db_tokens := db_tokens d @ [new]\<rparr>" and raw: "it_refresh_token toks = raw2"
    using assms(4-6) by (auto simp: issue_tokens_def add_token_def prog_simps Let_def new_def)
  let ?ts = "update_where (\<lambda>x. rt_id x = rt_id t) ?f (db_tokens d)"
  define d2 where "d2 = d1\<lparr>db_tokens := update_where (\<lambda>x. rt_id x = rt_id t) ?f (db_tokens d1)\<rparr>"
  have ne: "tid \<noteq> rt_id t" using assms(2,3,5) by (metis imageI)
  have ts: "db_tokens d2 = ?ts @ [new]" using ne by (simp add: d2_def d1 new_def update_where_def)
  have "db_ok d1" using preservesD [OF db_ok_issue_tokens assms(1)] issue by (metis snd_conv)
  then have ok2: "db_ok d2" unfolding d2_def by (rule db_ok_update_tokens) simp_all
  have "hash_token E raw2 \<notin> rt_token_hash ` set ?ts" using assms(6) by (simp add: image_update_where)
  then have "find (\<lambda>x. rt_token_hash x = hash_token E raw2) ?ts = None" by (subst find_None_iff_key)
  then have "find (\<lambda>x. rt_token_hash x = hash_token E raw2) (db_tokens d2) = Some new"
    unfolding ts find_append by (simp add: new_def)
  then have succ: "get_by_hash (hash_token E raw2) d2 = (Inr (Some new), d2)"
    by (simp add: get_by_hash_run [OF db_okD(2) [OF ok2]])
  have "rotate_writes E st now raw2 tid jti (t, u) d = (Inr toks,
      d2\<lparr>db_tokens := update_where (\<lambda>x. rt_id x = rt_id t) (\<lambda>x. x\<lparr>rt_rotated_to := Some tid\<rparr>) (db_tokens d2)\<rparr>)"
    using succ by (simp add: rotate_writes_def prog_simps issue raw d2_def [symmetric] new_def)
  also have "d2\<lparr>db_tokens := update_where (\<lambda>x. rt_id x = rt_id t) (\<lambda>x. x\<lparr>rt_rotated_to := Some tid\<rparr>) (db_tokens d2)\<rparr> =
      d\<lparr>db_tokens := update_where (\<lambda>x. rt_id x = rt_id t)
          (\<lambda>x. x\<lparr>rt_revoked_at := Some now, rt_rotated_to := Some tid\<rparr>) (db_tokens d) @ [new]\<rparr>"
    using ne unfolding ts by (simp add: d2_def d1 new_def update_where_def)
  finally show ?thesis using raw by (auto simp: new_def)
qed

text \<open>C29: a refresh token can be exchanged twice when two refreshes overlap. The token is read without a lock,
  so both requests find it in force before either revokes it; both succeed and the family ends with two
  tokens in force, which sequential requests never bring about.\<close>

theorem concurrent_refreshes_fork_family:
  assumes "db_ok d" "t \<in> set (db_tokens d)" "rt_token_hash t = hash_token E raw"
    and "rt_revoked_at t = None" "now1 < rt_expires_at t" "now2 < rt_expires_at t"
    and "u \<in> set (db_users d)" "u_id u = rt_user_id t" "u_is_active u"
    and "distinct [tid1, tid2]" "hash_token E raw1 \<noteq> hash_token E raw2"
    and "{tid1, tid2} \<inter> rt_id ` set (db_tokens d) = {}"
    and "{hash_token E raw1, hash_token E raw2} \<inter> rt_token_hash ` set (db_tokens d) = {}"
  shows "\<exists>toks1 toks2 d'. bindP (rotate_reads E now1 raw) (\<lambda>a. bindP (rotate_reads E now2 raw) (\<lambda>b.
      bindP (rotate_writes E st now1 raw1 tid1 jti1 a) (\<lambda>toks1.
      bindP (rotate_writes E st now2 raw2 tid2 jti2 b) (\<lambda>toks2. ret (toks1, toks2))))) d =
        (Inr (toks1, toks2), d') \<and>
    it_refresh_token toks1 = raw1 \<and> it_refresh_token toks2 = raw2 \<and> db_ok d' \<and>
    2 \<le> length (live_in_family (rt_family_id t) (db_tokens d')) \<and> \<not> families_ok d'"
proof -
  have "distinct (map rt_token_hash (db_tokens d))" "distinct (map u_id (db_users d))"
    using db_okD(1,2) [OF assms(1)] by (simp_all add: tokens_ok_def users_ok_def)
  then have finds: "find (\<lambda>x. rt_token_hash x = hash_token E raw) (db_tokens d) = Some t"
    "find (\<lambda>x. u_id x = rt_user_id t) (db_users d) = Some u"
    using assms(2,3,7,8) find_Some_iff_unique [of rt_token_hash "db_tokens d"]
      find_Some_iff_unique [of u_id "db_users d"] by simp_all
  have reads: "rotate_reads E now raw d = (Inr (t, u), d)" if "now < rt_expires_at t" for now
    using that assms(4,9) finds by (simp add: rotate_reads_def get_by_hash_run [OF db_okD(2) [OF assms(1)]] prog_simps)
  have u: "u_id u \<in> u_id ` set (db_users d)" using assms(7) by simp
  let ?f = "\<lambda>now tid x. x\<lparr>rt_revoked_at := Some now, rt_rotated_to := Some tid\<rparr>"
  have "tid1 \<notin> rt_id ` set (db_tokens d)" "hash_token E raw1 \<notin> rt_token_hash ` set (db_tokens d)"
    using assms(12,13) by simp_all
  from rotate_writes_run [OF assms(1,2) refl u this, of st now1 jti1]
  obtain toks1 new1 d1 where one: "rotate_writes E st now1 raw1 tid1 jti1 (t, u) d = (Inr toks1, d1)"
    and d1: "d1 = d\<lparr>db_tokens := update_where (\<lambda>x. rt_id x = rt_id t) (?f now1 tid1) (db_tokens d) @ [new1]\<rparr>"
    and raw1: "it_refresh_token toks1 = raw1"
    and n1: "rt_id new1 = tid1" "rt_family_id new1 = rt_family_id t" "rt_token_hash new1 = hash_token E raw1"
      "rt_revoked_at new1 = None" by blast
  have "rotate_refresh E st now1 raw1 tid1 jti1 raw d = (Inr toks1, d1)"
    by (simp add: rotate_split bindP_run reads [OF assms(5)] one)
  then have ok1: "db_ok d1" using preservesD [OF db_ok_rotate assms(1)] by (metis snd_conv)
  have ids: "rt_id ` set (db_tokens d1) = insert tid1 (rt_id ` set (db_tokens d))"
    "rt_token_hash ` set (db_tokens d1) = insert (hash_token E raw1) (rt_token_hash ` set (db_tokens d))"
    using n1 by (simp_all add: d1 image_update_where)
  have "?f now1 tid1 t \<in> set (db_tokens d1)" using assms(2) by (auto simp: d1 in_update_where)
  moreover have "tid2 \<notin> rt_id ` set (db_tokens d1)" "hash_token E raw2 \<notin> rt_token_hash ` set (db_tokens d1)"
    "u_id u \<in> u_id ` set (db_users d1)"
    using assms(10-13) u by (simp_all add: ids) (simp add: d1)
  ultimately obtain toks2 new2 d2 where two: "rotate_writes E st now2 raw2 tid2 jti2 (t, u) d1 = (Inr toks2, d2)"
    and d2: "d2 = d1\<lparr>db_tokens := update_where (\<lambda>x. rt_id x = rt_id t) (?f now2 tid2) (db_tokens d1) @ [new2]\<rparr>"
    and raw2: "it_refresh_token toks2 = raw2"
    and n2: "rt_family_id new2 = rt_family_id t" "rt_revoked_at new2 = None"
    using rotate_writes_run [OF ok1, of "?f now1 tid1 t" t u tid2 E raw2 st now2 jti2] by auto
  have "rt_id new1 \<noteq> rt_id t" using n1(1) assms(2,12) by auto
  then have "live_in_family (rt_family_id t) (db_tokens d2) =
      live_in_family (rt_family_id t) (update_where (\<lambda>x. rt_id x = rt_id t) (?f now2 tid2)
        (update_where (\<lambda>x. rt_id x = rt_id t) (?f now1 tid1) (db_tokens d))) @ [new1, new2]"
    using n1 n2 by (simp add: d2 d1 live_in_family_def update_where_def)
  then have live: "2 \<le> length (live_in_family (rt_family_id t) (db_tokens d2))" by simp
  then have "\<not> families_ok d2" unfolding families_ok_def by (metis not_less_eq_eq numeral_2_eq_2 One_nat_def)
  moreover have "db_ok d2"
  proof -
    have pres: "preserves db_ok (rotate_writes E st now2 raw2 tid2 jti2 (t, u))"
      unfolding rotate_writes_def prod.case by (intro prog_keeps db_ok_set_token) simp_all
    show ?thesis using preservesD [OF pres ok1] two by simp
  qed
  ultimately show ?thesis
    using live raw1 raw2 by (simp add: bindP_run ret_run reads [OF assms(5)] reads [OF assms(6)] one two)
qed

theorem concurrent_refreshes_fork_family_witness:
  "\<exists>toks1 toks2 d'. bindP (rotate_reads plain_env 0 ''r1'') (\<lambda>a. bindP (rotate_reads plain_env 1 ''r1'') (\<lambda>b.
      bindP (rotate_writes plain_env default_settings 0 ''r2'' 11 12 a) (\<lambda>toks1.
      bindP (rotate_writes plain_env default_settings 1 ''r3'' 13 14 b) (\<lambda>toks2. ret (toks1, toks2))))) auth_db =
        (Inr (toks1, toks2), d') \<and> families_ok auth_db \<and> \<not> families_ok d'"
  using concurrent_refreshes_fork_family [OF auth_db_ok(1), of alice_token plain_env "''r1''" 0 1 alice 11 13
      "''r2''" "''r3''" default_settings 12 14] auth_db_ok(2)
  by (auto simp: auth_db_def alice_token_def alice_def hash_token_def plain_env_def)


section \<open>Requests that share a quota counter\<close>

text \<open>\<open>QuotaEnforcer.consume\<close> is an INCR and, for the request that opens the counter, an EXPIRE.\<close>

definition consume_incr :: "'r redis_api \<Rightarrow> int \<Rightarrow> uuid \<Rightarrow> quota_period \<Rightarrow> datetime \<Rightarrow> 'r \<Rightarrow> int \<times> 'r" where
  "consume_incr R t kid p now s = r_incr R t (quota_key kid p (fst (bucket_and_ttl p now))) s"

definition consume_expire :: "'r redis_api \<Rightarrow> int \<Rightarrow> uuid \<Rightarrow> quota_period \<Rightarrow> datetime \<Rightarrow> 'r \<Rightarrow> 'r" where
  "consume_expire R t kid p now s =
     r_expire R t (quota_key kid p (fst (bucket_and_ttl p now))) (snd (bucket_and_ttl p now)) s"

lemma consume_split:
  "consume R t kid p lmt now s =
    (case consume_incr R t kid p now s of (used, s1) \<Rightarrow>
       (\<lparr>qc_period = p, qc_limit = lmt, qc_used = used\<rparr>, if used = 1 then consume_expire R t kid p now s1 else s1))"
  by (simp add: consume_def consume_incr_def consume_expire_def split_beta Let_def)

text \<open>Where a request stands: \<open>Counted\<close> after the INCR (with the \<open>now\<close> its key was named by and the answer),
  \<open>Answered\<close> when \<open>consume\<close> has returned, \<open>Admitted\<close> when \<open>exceeded\<close> was false (in flight or served),
  \<open>Refused\<close> after the 429 with its unit given back, \<open>Returned\<close> when forwarding failed and the unit was
  given back.\<close>

datatype charge = Idle | Counted datetime int | Answered int | Admitted | Refused | Returned

record 'r quota_run =
  qr_redis :: 'r
  qr_charge :: "nat \<Rightarrow> charge"

definition at_charge :: "nat \<Rightarrow> charge \<Rightarrow> 'r \<Rightarrow> 'r quota_run \<Rightarrow> 'r quota_run" where
  "at_charge i c r s = \<lparr> qr_redis = r, qr_charge = (qr_charge s)(i := c) \<rparr>"

text \<open>One command of one of the requests of a key, \<open>i\<close>; \<open>W t now\<close> restricts the clocks.\<close>

inductive quota_step ::
  "'r redis_api \<Rightarrow> uuid \<Rightarrow> quota_period \<Rightarrow> int \<Rightarrow> (int \<Rightarrow> datetime \<Rightarrow> bool) \<Rightarrow> 'r quota_run \<Rightarrow> 'r quota_run \<Rightarrow> bool"
  for R kid p lmt W where
  incr: "qr_charge s i = Idle \<Longrightarrow> W t now \<Longrightarrow> consume_incr R t kid p now (qr_redis s) = (used, r) \<Longrightarrow>
    quota_step R kid p lmt W s (at_charge i (Counted now used) r s)"
| expire: "qr_charge s i = Counted now 1 \<Longrightarrow> W t now \<Longrightarrow>
    quota_step R kid p lmt W s (at_charge i (Answered 1) (consume_expire R t kid p now (qr_redis s)) s)"
| no_expire: "qr_charge s i = Counted now used \<Longrightarrow> used \<noteq> 1 \<Longrightarrow>
    quota_step R kid p lmt W s (at_charge i (Answered used) (qr_redis s) s)"
| admit: "qr_charge s i = Answered used \<Longrightarrow> \<not> exceeded \<lparr>qc_period = p, qc_limit = lmt, qc_used = used\<rparr> \<Longrightarrow>
    quota_step R kid p lmt W s (at_charge i Admitted (qr_redis s) s)"
| refuse: "qr_charge s i = Answered used \<Longrightarrow> exceeded \<lparr>qc_period = p, qc_limit = lmt, qc_used = used\<rparr> \<Longrightarrow>
    W t now \<Longrightarrow> quota_step R kid p lmt W s (at_charge i Refused (rollback R t kid p now (qr_redis s)) s)"
| give_back: "qr_charge s i = Admitted \<Longrightarrow> W t now \<Longrightarrow>
    quota_step R kid p lmt W s (at_charge i Returned (rollback R t kid p now (qr_redis s)) s)"

text \<open>Clock readings within the day of \<open>a\<close>, between \<open>t0\<close> and \<open>T\<close> on the server, at which a counter opened
  outlives \<open>T\<close>.\<close>

definition day_window :: "quota_period \<Rightarrow> datetime \<Rightarrow> int \<Rightarrow> int \<Rightarrow> int \<Rightarrow> datetime \<Rightarrow> bool" where
  "day_window p a t0 T t now \<longleftrightarrow> valid_datetime now \<and> same_bucket DAILY a now \<and> t0 \<le> t \<and> t \<le> T \<and>
     T < t + 1000 * snd (bucket_and_ttl p now)"

lemma day_window_until:
  assumes "valid_datetime now" "same_bucket DAILY a now" "t0 \<le> t" "t \<le> T" "server_ms now - skew \<le> t"
    and "T + skew + 2000 < bucket_over DAILY a div 1000"
  shows "day_window p a t0 T t now"
  using assms opened_outlives [OF assms(1,2,5,6)] by (simp add: day_window_def)

fun holds_unit :: "charge \<Rightarrow> bool" where
  "holds_unit Idle = False"
| "holds_unit (Counted now used) = True"
| "holds_unit (Answered used) = True"
| "holds_unit Admitted = True"
| "holds_unit Refused = False"
| "holds_unit Returned = False"

text \<open>Holders that were, or will be, let through.\<close>

fun lets_through :: "int \<Rightarrow> charge \<Rightarrow> bool" where
  "lets_through lmt (Counted now used) = (used \<le> lmt)"
| "lets_through lmt (Answered used) = (used \<le> lmt)"
| "lets_through lmt Admitted = True"
| "lets_through lmt c = False"

definition holders :: "'r quota_run \<Rightarrow> nat set" where
  "holders s = {i. holds_unit (qr_charge s i)}"

definition passing :: "int \<Rightarrow> 'r quota_run \<Rightarrow> nat set" where
  "passing lmt s = {i. lets_through lmt (qr_charge s i)}"

definition admitted :: "'r quota_run \<Rightarrow> nat set" where
  "admitted s = {i. qr_charge s i = Admitted}"

definition quota_inv :: "('r \<Rightarrow> store) \<Rightarrow> string \<Rightarrow> int \<Rightarrow> int \<Rightarrow> int \<Rightarrow> 'r quota_run \<Rightarrow> bool" where
  "quota_inv view key t0 T lmt s \<longleftrightarrow> finite (holders s) \<and>
     holds_count t0 T (view (qr_redis s)) key (int (card (holders s))) \<and> int (card (passing lmt s)) \<le> lmt"

lemma through_holds: "lets_through lmt c \<Longrightarrow> holds_unit c"
  by (cases c) simp_all

lemma passing_holders: "passing lmt s \<subseteq> holders s"
  by (auto simp: passing_def holders_def through_holds)

lemma redis_at_charge [simp]: "qr_redis (at_charge i c r s) = r"
  by (simp add: at_charge_def)

lemma holders_at_charge:
  "holders (at_charge i c r s) = (if holds_unit c then insert i (holders s) else holders s - {i})"
  by (auto simp: holders_def at_charge_def)

lemma passing_at_charge:
  "passing lmt (at_charge i c r s) = (if lets_through lmt c then insert i (passing lmt s) else passing lmt s - {i})"
  by (auto simp: passing_def at_charge_def)

lemma in_holders: "i \<in> holders s \<longleftrightarrow> holds_unit (qr_charge s i)"
  by (simp add: holders_def)

lemma in_passing: "i \<in> passing lmt s \<longleftrightarrow> lets_through lmt (qr_charge s i)"
  by (simp add: passing_def)

text \<open>A request that goes on without touching the counter keeps the invariant.\<close>

lemma quota_inv_same:
  assumes "quota_inv view key t0 T lmt s" "holds_unit (qr_charge s i)" "holds_unit c"
    and "lets_through lmt c \<longleftrightarrow> lets_through lmt (qr_charge s i)"
    and "holds_count t0 T (view r) key (int (card (holders s)))"
  shows "quota_inv view key t0 T lmt (at_charge i c r s)"
proof -
  have "insert i (holders s) = holders s" using assms(2) by (auto simp: in_holders)
  moreover have "passing lmt (at_charge i c r s) = passing lmt s"
    using assms(4) by (auto simp: passing_at_charge in_passing)
  ultimately show ?thesis using assms by (simp add: quota_inv_def holders_at_charge)
qed

text \<open>Giving a unit back frees it.\<close>

lemma quota_inv_free:
  assumes "quota_inv view key t0 T lmt s" "holds_unit (qr_charge s i)" "\<not> holds_unit c"
    and "holds_count t0 T (view r) key (int (card (holders s)) - 1)"
  shows "quota_inv view key t0 T lmt (at_charge i c r s)"
proof -
  have i: "i \<in> holders s" and fin: "finite (holders s)" using assms(1,2) by (simp_all add: in_holders quota_inv_def)
  then have "card (holders s) \<noteq> 0" by auto
  then have "int (card (holders s - {i})) = int (card (holders s)) - 1"
    using card_Diff_singleton [OF i] by simp
  moreover have "card (passing lmt s - {i}) \<le> card (passing lmt s)"
    using finite_subset [OF passing_holders fin] by (intro card_mono) auto
  ultimately show ?thesis
    using assms by (auto simp: quota_inv_def holders_at_charge passing_at_charge dest: through_holds)
qed

context redis_server
begin

lemma incr_counts:
  assumes "holds_count t0 T (view s) key n" "0 \<le> n" "t0 \<le> t" "t \<le> T"
    and "key = quota_key kid p (fst (bucket_and_ttl p now))"
  shows "fst (consume_incr R t kid p now s) = n + 1"
    and "holds_count t0 T (view (snd (consume_incr R t kid p now s))) key (n + 1)"
proof -
  note c = holds_count_at [OF assms(1,3,4)]
  show "fst (consume_incr R t kid p now s) = n + 1"
    using incr_val [OF c(2)] c(1) assms(5) by (simp add: consume_incr_def)
  have "case deadline_at (view s) t key of None \<Rightarrow> True | Some e \<Rightarrow> T < e"
  proof (cases "n = 0")
    case False
    then show ?thesis by (rule holds_count_deadline [OF assms(1,3,4)])
  next
    case True
    with assms(1) show ?thesis unfolding holds_count_def
    proof (elim disjE conjE exE)
      assume "live (view s) t0 key = None"
      then show ?thesis using live_dead_later [OF _ assms(3)] by (simp add: deadline_at_def)
    next
      fix d assume "view s key = Some (RInt n, d)" "case d of None \<Rightarrow> True | Some e \<Rightarrow> T < e"
      then show ?thesis using assms(4) by (auto simp: deadline_at_def live_def split: option.splits)
    qed
  qed
  then show "holds_count t0 T (view (snd (consume_incr R t kid p now s))) key (n + 1)"
    using incr_view [OF c(2)] c(1) assms(5) by (simp add: consume_incr_def holds_count_def)
qed

lemma expire_counts:
  assumes "holds_count t0 T (view s) key n" "n \<noteq> 0" "t0 \<le> t" "t \<le> T" "T < t + 1000 * snd (bucket_and_ttl p now)"
    and "key = quota_key kid p (fst (bucket_and_ttl p now))"
  shows "holds_count t0 T (view (consume_expire R t kid p now s)) key n"
proof -
  obtain d where "view s key = Some (RInt n, d)" "live (view s) t key = Some (RInt n, d)"
    using assms(1,2) holds_count_at(3) [OF assms(1,3,4,2)] by (auto simp: holds_count_def)
  then show ?thesis
    using expire_view [of "snd (bucket_and_ttl p now)" t key s] ttl_at_least_one [of p now] assms(5,6)
    by (simp add: consume_expire_def put_expiry_def holds_count_def)
qed

lemma quota_inv_step:
  assumes "quota_step R kid p lmt (day_window p a t0 T) s s'" "valid_datetime a"
    and "quota_inv view (day_key kid a p) t0 T lmt s"
  shows "quota_inv view (day_key kid a p) t0 T lmt s'"
proof -
  let ?key = "day_key kid a p" and ?n = "int (card (holders s))"
  have inv: "finite (holders s)" "holds_count t0 T (view (qr_redis s)) ?key ?n" "int (card (passing lmt s)) \<le> lmt"
    using assms(3) by (simp_all add: quota_inv_def)
  have key: "?key = quota_key kid p (fst (bucket_and_ttl p now))" if "day_window p a t0 T t now" for t now
    using that day_key_of [OF assms(2)] by (simp add: day_window_def)
  have pos: "?n \<noteq> 0" if "holds_unit (qr_charge s i)" for i
    using that inv(1) in_holders [of i s] by auto
  have give: "holds_count t0 T (view (rollback R t kid p now (qr_redis s))) ?key (?n - 1)"
    if "day_window p a t0 T t now" "holds_unit (qr_charge s i)" for t now i
    using rollback_counts(1) [OF inv(2) pos [OF that(2)] _ _ key [OF that(1)]] that(1) by (simp add: day_window_def)
  from assms(1) show ?thesis
  proof cases
    case (incr i t now used r)
    then have win: "t0 \<le> t" "t \<le> T" by (simp_all add: day_window_def)
    have used: "used = ?n + 1" and cnt: "holds_count t0 T (view r) ?key (?n + 1)"
      using incr_counts [OF inv(2) _ win key [OF incr(3)]] incr(4) by simp_all
    have i: "i \<notin> holders s" using incr(2) by (simp add: in_holders)
    then have "i \<notin> passing lmt s" using passing_holders by blast
    moreover have "card (passing lmt s) \<le> card (holders s)" using card_mono [OF inv(1) passing_holders] .
    moreover have "finite (passing lmt s)" using finite_subset [OF passing_holders inv(1)] .
    ultimately show ?thesis
      using inv i cnt used incr(1) by (simp add: quota_inv_def holders_at_charge passing_at_charge add.commute)
  next
    case (expire i now t)
    then show ?thesis
      using expire_counts [OF inv(2) pos [of i] _ _ _ key [OF expire(3)]]
      by (auto simp: day_window_def intro!: quota_inv_same [OF assms(3)])
  next
    case (no_expire i now used)
    then show ?thesis using inv(2) by (auto intro!: quota_inv_same [OF assms(3)])
  next
    case (admit i used)
    then show ?thesis using inv(2) by (auto simp: exceeded_def intro!: quota_inv_same [OF assms(3)])
  next
    case (refuse i used t now)
    then show ?thesis using give [of t now i] by (auto intro!: quota_inv_free [OF assms(3)])
  next
    case (give_back i t now)
    then show ?thesis using give [of t now i] by (auto intro!: quota_inv_free [OF assms(3)])
  qed
qed

lemma quota_inv_steps:
  assumes "(quota_step R kid p lmt (day_window p a t0 T))\<^sup>*\<^sup>* s s'" "valid_datetime a"
    and "quota_inv view (day_key kid a p) t0 T lmt s"
  shows "quota_inv view (day_key kid a p) t0 T lmt s'"
  using assms by (induction rule: rtranclp_induct) (auto intro: quota_inv_step)

end

text \<open>C15: in a stretch of one day in which no counter it opens expires, and that starts without one, the
  quota holds however the commands of concurrent requests of a key interleave: the requests let through and not given back never
  exceed it, and the counter always equals the requests that hold a unit, so no interleaving of refusals
  and failed forwards leaks a unit or frees one twice. The stretch ends at Redis's time \<open>T\<close>, before the
  expiry of any counter opened in it; with Redis's clock at most \<open>skew\<close> behind the application's, any \<open>T\<close> up
  to two seconds and the skew before midnight will do (lemma \<open>day_window_until\<close>). What happens in the
  seconds left out, when a day's counter has expired before the day, is shown in the theory Quota.\<close>

theorem quota_holds_under_interleaving:
  assumes "redis_server R view" "valid_datetime a" "0 \<le> lmt"
    and "live (view r) t0 (quota_key kid p (fst (bucket_and_ttl p a))) = None"
    and "(quota_step R kid p lmt (day_window p a t0 T))\<^sup>*\<^sup>* \<lparr>qr_redis = r, qr_charge = \<lambda>_. Idle\<rparr> s"
    and "t0 \<le> t" "t \<le> T"
  shows "finite (admitted s) \<and> int (card (admitted s)) \<le> lmt \<and>
    counter_at (view (qr_redis s)) t (quota_key kid p (fst (bucket_and_ttl p a))) = int (card (holders s))"
proof -
  let ?s0 = "\<lparr>qr_redis = r, qr_charge = \<lambda>_::nat. Idle\<rparr>"
  have "holders ?s0 = {}" "passing lmt ?s0 = {}" by (simp_all add: holders_def passing_def)
  then have "quota_inv view (day_key kid a p) t0 T lmt ?s0"
    using assms(3,4) by (simp add: quota_inv_def holds_count_def day_key_def)
  from redis_server.quota_inv_steps [OF assms(1,5,2) this]
  have inv: "finite (holders s)" "holds_count t0 T (view (qr_redis s)) (day_key kid a p) (int (card (holders s)))"
    "int (card (passing lmt s)) \<le> lmt"
    by (simp_all add: quota_inv_def)
  have sub: "admitted s \<subseteq> passing lmt s" by (auto simp: admitted_def passing_def)
  have fin: "finite (passing lmt s)" using finite_subset [OF passing_holders inv(1)] .
  show ?thesis
    using holds_count_at(1) [OF inv(2) assms(6,7)] card_mono [OF fin sub] finite_subset [OF sub fin] inv(3)
    by (simp add: day_key_def)
qed


text \<open>With a quota of one: request 0 is let through, 1 counts itself, 0 fails and gives its unit back, 2 counts
  itself, and 1 and 2 are both refused although nobody is being served.\<close>

lemma noon_window: "day_window DAILY noon 0 10 5 noon"
  using ttl_at_least_one [of DAILY noon] noon_facts by (simp add: day_window_def)

lemma step_to:
  "quota_step R kid p lmt W s s1 \<Longrightarrow> s1 = s' \<Longrightarrow> quota_step R kid p lmt W s s'"
  by simp

lemma step_incr:
  "qr_charge s i = Idle \<Longrightarrow> W t now \<Longrightarrow>
   at_charge i (Counted now (fst (consume_incr R t kid p now (qr_redis s))))
     (snd (consume_incr R t kid p now (qr_redis s))) s = s' \<Longrightarrow> quota_step R kid p lmt W s s'"
  using quota_step.incr [OF _ _ surjective_pairing] by blast

theorem quota_holds_under_interleaving_witness:
  "\<exists>s. (quota_step mem_redis 7 DAILY 1 (day_window DAILY noon 0 10))\<^sup>*\<^sup>*
      \<lparr>qr_redis = (\<lambda>_. None), qr_charge = \<lambda>_. Idle\<rparr> s \<and>
    map (qr_charge s) [0, 1, 2] = [Returned, Refused, Refused] \<and> card (admitted s) \<le> 1 \<and>
    counter_at (qr_redis s) 10 (quota_key 7 DAILY (fst (bucket_and_ttl DAILY noon))) = 0"
proof -
  let ?k = "quota_key 7 DAILY (fst (bucket_and_ttl DAILY noon))" and ?D = "5 + 1000 * snd (bucket_and_ttl DAILY noon)"
  let ?st = "\<lambda>n. (\<lambda>_. None)(?k \<mapsto> (RInt n, Some ?D))" and ?step = "quota_step mem_redis 7 DAILY 1 (day_window DAILY noon 0 10)"
  let ?s = "\<lambda>r a b c. \<lparr>qr_redis = r, qr_charge = (\<lambda>_. Idle)(0 := a, 1 := b, 2 := c)\<rparr>"
  let ?go = "\<lambda>s s'. ?step\<^sup>*\<^sup>* s s'"
  have D: "0 < snd (bucket_and_ttl DAILY noon)" "\<not> snd (bucket_and_ttl DAILY noon) \<le> 0" "5 < ?D"
    using ttl_at_least_one [of DAILY noon] by simp_all
  note ev = consume_incr_def consume_expire_def rollback_def mem_redis_def live_defs live_def put_expiry_def
    at_charge_def exceeded_def split_beta Let_def D fun_eq_iff
  have 1: "?step (?s (\<lambda>_. None) Idle Idle Idle) (?s ((\<lambda>_. None)(?k \<mapsto> (RInt 1, None))) (Counted noon 1) Idle Idle)"
    by (rule step_incr [where i = 0 and now = noon and t = 5]) (simp_all add: ev noon_window)
  have 2: "?step \<dots> (?s (?st 1) (Answered 1) Idle Idle)"
    by (rule step_to [OF quota_step.expire [where i = 0 and now = noon and t = 5]]) (simp_all add: ev noon_window)
  have 3: "?step \<dots> (?s (?st 1) Admitted Idle Idle)"
    by (rule step_to [OF quota_step.admit [where i = 0 and used = 1]]) (simp_all add: ev)
  have 4: "?step \<dots> (?s (?st 2) Admitted (Counted noon 2) Idle)"
    by (rule step_incr [where i = 1 and now = noon and t = 5]) (simp_all add: ev noon_window)
  have 5: "?step \<dots> (?s (?st 1) Returned (Counted noon 2) Idle)"
    by (rule step_to [OF quota_step.give_back [where i = 0 and now = noon and t = 5]]) (simp_all add: ev noon_window)
  have 6: "?step \<dots> (?s (?st 2) Returned (Counted noon 2) (Counted noon 2))"
    by (rule step_incr [where i = 2 and now = noon and t = 5]) (simp_all add: ev noon_window)
  have 7: "?step \<dots> (?s (?st 2) Returned (Answered 2) (Counted noon 2))"
    by (rule step_to [OF quota_step.no_expire [where i = 1 and used = 2 and now = noon]]) (simp_all add: ev)
  have 8: "?step \<dots> (?s (?st 1) Returned Refused (Counted noon 2))"
    by (rule step_to [OF quota_step.refuse [where i = 1 and used = 2 and now = noon and t = 5]]) (simp_all add: ev noon_window)
  have 9: "?step \<dots> (?s (?st 1) Returned Refused (Answered 2))"
    by (rule step_to [OF quota_step.no_expire [where i = 2 and used = 2 and now = noon]]) (simp_all add: ev)
  have 10: "?step \<dots> (?s (?st 0) Returned Refused Refused)"
    by (rule step_to [OF quota_step.refuse [where i = 2 and used = 2 and now = noon and t = 5]]) (simp_all add: ev noon_window)
  have all: "?step\<^sup>*\<^sup>* (?s (\<lambda>_. None) Idle Idle Idle) (?s (?st 0) Returned Refused Refused)"
    using 1 2 3 4 5 6 7 8 9 10 by (meson converse_rtranclp_into_rtranclp rtranclp.rtrancl_refl)
  have "(\<lambda>_. Idle)(0 := Idle, 1 := Idle, 2 := Idle) = (\<lambda>_::nat. Idle)" by (simp add: fun_eq_iff)
  with all have run: "?step\<^sup>*\<^sup>* \<lparr>qr_redis = (\<lambda>_. None), qr_charge = \<lambda>_. Idle\<rparr> (?s (?st 0) Returned Refused Refused)"
    by (simp only:)
  have "live (\<lambda>_. None) 0 ?k = None" by (simp add: live_def)
  from quota_holds_under_interleaving [OF mem.redis_server_axioms noon_facts(1) _ this run, of 10]
  have "card (admitted (?s (?st 0) Returned Refused Refused)) \<le> 1" by simp
  then show ?thesis
    using D by (intro exI [of _ "?s (?st 0) Returned Refused Refused"] conjI run) (simp_all add: ev)
qed


section \<open>A throttle whose EXPIRE is lost\<close>

text \<open>\<open>AuthThrottle.check\<close> as far as its INCR, when the connection fails or the process dies before the EXPIRE.\<close>

definition throttle_cut_short :: "'r redis_api \<Rightarrow> int \<Rightarrow> string \<Rightarrow> 'r \<Rightarrow> 'r" where
  "throttle_cut_short R t identity s = snd (r_incr R t (''auth_throttle:'' @ identity) s)"

context redis_server
begin

lemma attempt_no_deadline:
  assumes "view s (''auth_throttle:'' @ identity) = Some (RInt n, None)" "1 \<le> n"
  shows "fst (attempt R lmt identity t s) \<longleftrightarrow> n + 1 \<le> lmt"
    and "view (snd (attempt R lmt identity t s)) (''auth_throttle:'' @ identity) = Some (RInt (n + 1), None)"
proof -
  obtain k where k: "k = ''auth_throttle:'' @ identity" by simp
  obtain c s1 where i: "r_incr R t k s = (c, s1)" by fastforce
  have live: "live (view s) t k = Some (RInt n, None)" using assms(1) by (simp add: live_def k)
  have c: "c = n + 1" "view s1 k = Some (RInt (n + 1), None)"
    using incr_val [of s t k] incr_view [of s t k] live i by (simp_all add: live_defs)
  then show "fst (attempt R lmt identity t s) \<longleftrightarrow> n + 1 \<le> lmt"
    "view (snd (attempt R lmt identity t s)) (''auth_throttle:'' @ identity) = Some (RInt (n + 1), None)"
    using assms(2) i unfolding attempt_def auth_throttle_check_def k [symmetric] by (simp_all add: Let_def)
qed

lemma attempts_no_deadline:
  assumes "view s (''auth_throttle:'' @ identity) = Some (RInt n, None)" "1 \<le> n"
  shows "fst (run (attempt R lmt identity) ts s) = map (\<lambda>i. n + 1 + int i \<le> lmt) [0..<length ts]"
  using assms
proof (induction ts arbitrary: s n)
  case (Cons t ts)
  note one = attempt_no_deadline [OF Cons.prems, of lmt t]
  have "fst (run (attempt R lmt identity) ts (snd (attempt R lmt identity t s))) =
      map (\<lambda>i. n + 1 + 1 + int i \<le> lmt) [0..<length ts]"
    using Cons.prems(2) by (intro Cons.IH [OF one(2)]) simp
  moreover have "map (\<lambda>i. n + 1 + int i \<le> lmt) [0..<length (t # ts)] =
      (n + 1 \<le> lmt) # map (\<lambda>i. n + 1 + 1 + int i \<le> lmt) [0..<length ts]"
    by (simp add: upt_conv_Cons map_Suc_upt [symmetric] algebra_simps del: upt_Suc)
  ultimately show ?case using one(1) by (simp add: run_Cons)
qed simp

end

text \<open>The throttle can lock a client out for good. If the request that opens a window ends between its INCR
  and its EXPIRE, the counter never expires: \<open>limit - 1\<close> more attempts pass, and every later one is refused,
  however far apart they are, although the window is meant to be a minute.\<close>

theorem lost_expire_locks_out:
  assumes "redis_server R view" "view s (''auth_throttle:'' @ identity) = None"
  shows "fst (run (attempt R lmt identity) ts (throttle_cut_short R t identity s)) =
    map (\<lambda>i. int i + 2 \<le> lmt) [0..<length ts]"
proof -
  obtain k where k: "k = ''auth_throttle:'' @ identity" by simp
  have "live (view s) t k = None" using assms(2) by (simp add: live_def k)
  then have "view (throttle_cut_short R t identity s) k = Some (RInt 1, None)"
    using redis_server.incr_view [OF assms(1), of s t k]
    unfolding throttle_cut_short_def k [symmetric] by (simp add: live_defs)
  then have "fst (run (attempt R lmt identity) ts (throttle_cut_short R t identity s)) =
      map (\<lambda>i. 1 + 1 + int i \<le> lmt) [0..<length ts]"
    unfolding k by (rule redis_server.attempts_no_deadline [OF assms(1)]) simp
  also have "\<dots> = map (\<lambda>i. int i + 2 \<le> lmt) [0..<length ts]" by (rule map_cong) auto
  finally show ?thesis .
qed

theorem lost_expire_locks_out_witness:
  "fst (run (attempt mem_redis 2 ''1.2.3.4:a@x'') [100, 200, 86400000, 31536000000]
    (throttle_cut_short mem_redis 0 ''1.2.3.4:a@x'' (\<lambda>_. None))) = [True, False, False, False]"
proof -
  have none: "(\<lambda>_. None) (''auth_throttle:'' @ ''1.2.3.4:a@x'') = None" by simp
  show ?thesis
    unfolding lost_expire_locks_out [where s = "\<lambda>_. None" and view = "\<lambda>s. s", OF mem.redis_server_axioms none]
    by (simp add: upt_rec)
qed

end
