(* ===== verification/Tenancy.thy ===== *)
theory Tenancy
  imports System
begin

text \<open>
  The requests below \<open>/organizations/{org_id}\<close> as one type: which handler of \<open>app/api\<close> serves each, which
  permission its dependency asks for, and what follows for the organizations as tenants of one database: who
  can change anything, and what an answer can depend on (Isolation shows what a request can change).
\<close>

section \<open>Requests and their handlers\<close>

text \<open>One constructor per route, with the path, query and body parameters; ids that the handler draws come
  first.\<close>

datatype tenant_request =
    GetOrg | UpdateOrg string | DeleteOrg | ListMembers
  | AddMember uuid uuid string role_name | UpdateMemberRole uuid role_name | RemoveMember uuid
  | CreateApi uuid string "string option" string | ListApis nat nat | GetApi uuid
  | UpdateApi uuid "string option" "string option" "bool option" | DeleteApi uuid
  | AddVersion uuid uuid string string bool | DeleteVersion uuid uuid
  | SetQuota uuid "(uuid \<times> quota_period \<times> int) list" | GetQuota uuid
  | SetRateLimit uuid uuid rate_limit_algorithm int int "int option" | GetRateLimit uuid
  | CreateKey key_draws audit_ids uuid string "int option" | ListKeys uuid
  | RotateKey key_draws audit_ids uuid uuid int | RevokeKey audit_ids uuid uuid
  | Summary "uuid option" int | TopEndpoints "uuid option" int nat | StatusBreakdown "uuid option" int
  | Timeseries "uuid option" int | TopKeys int nat | DeveloperDashboard int
  | SearchRequestLogs log_filter nat nat | ListAuditLogs nat nat

datatype tenant_response =
    OrganizationR organization | MemberR organization_member | MembersR "organization_member list"
  | ApiR "api \<times> api_version list" | ApisR "(api \<times> api_version list) list \<times> nat" | VersionR api_version
  | QuotasR "(quota_period \<times> int) list" | RateLimitR rate_limit_rule | MaybeRateLimitR "rate_limit_rule option"
  | IssuedKeyR "key_response \<times> string" | KeysR "key_response list" | SummaryR summary_response
  | EndpointsR "(string \<times> int \<times> rat) list" | StatusR "(string \<times> int) list" | SeriesR "series_point list"
  | TopKeysR "(string \<times> int \<times> int) list" | DashboardR dashboard | LogsR "request_log list \<times> nat"
  | AuditR "audit_log list" | NoContent

text \<open>The permission of the route's \<open>require_permission\<close> dependency.\<close>

fun needs :: "tenant_request \<Rightarrow> permission" where
  "needs GetOrg = ORG_READ"
| "needs (UpdateOrg _) = ORG_UPDATE"
| "needs DeleteOrg = ORG_DELETE"
| "needs ListMembers = MEMBER_READ"
| "needs (AddMember _ _ _ _) = MEMBER_INVITE"
| "needs (UpdateMemberRole _ _) = MEMBER_UPDATE_ROLE"
| "needs (RemoveMember _) = MEMBER_REMOVE"
| "needs (CreateApi _ _ _ _) = API_CREATE"
| "needs (ListApis _ _) = API_READ"
| "needs (GetApi _) = API_READ"
| "needs (UpdateApi _ _ _ _) = API_UPDATE"
| "needs (DeleteApi _) = API_DELETE"
| "needs (AddVersion _ _ _ _ _) = API_UPDATE"
| "needs (DeleteVersion _ _) = API_UPDATE"
| "needs (SetQuota _ _) = API_UPDATE"
| "needs (GetQuota _) = API_READ"
| "needs (SetRateLimit _ _ _ _ _ _) = API_UPDATE"
| "needs (GetRateLimit _) = API_READ"
| "needs (CreateKey _ _ _ _ _) = KEY_CREATE"
| "needs (ListKeys _) = KEY_READ"
| "needs (RotateKey _ _ _ _ _) = KEY_ROTATE"
| "needs (RevokeKey _ _ _) = KEY_REVOKE"
| "needs (ListAuditLogs _ _) = AUDIT_READ"
| "needs (Summary _ _) = ANALYTICS_READ"
| "needs (TopEndpoints _ _ _) = ANALYTICS_READ"
| "needs (StatusBreakdown _ _) = ANALYTICS_READ"
| "needs (Timeseries _ _) = ANALYTICS_READ"
| "needs (TopKeys _ _) = ANALYTICS_READ"
| "needs (DeveloperDashboard _) = ANALYTICS_READ"
| "needs (SearchRequestLogs _ _ _) = ANALYTICS_READ"

text \<open>What a request brings besides its parameters: the settings and clocks of the process, the bearer token,
  the client's address.\<close>

record call =
  c_env :: env
  c_settings :: settings
  c_isofmt :: "instant \<Rightarrow> string"
  c_now :: instant
  c_nows :: "nat \<Rightarrow> instant"
  c_cred :: "string option"
  c_ip :: string

definition answer :: "('a \<Rightarrow> tenant_response) \<Rightarrow> 'a dbprog \<Rightarrow> tenant_response dbprog" where
  "answer f m = bindP m (\<lambda>x. ret (f x))"

definition handler :: "call \<Rightarrow> uuid \<Rightarrow> tenant_request \<Rightarrow> tenant_response dbprog" where
  "handler c oid rq = (let E = c_env c; st = c_settings c; isofmt = c_isofmt c; now = c_now c; cred = c_cred c in
     case rq of
       GetOrg \<Rightarrow> answer OrganizationR (get_organization_endpoint E st now cred oid)
     | UpdateOrg name \<Rightarrow> answer OrganizationR (update_organization_endpoint E st now cred oid name)
     | DeleteOrg \<Rightarrow> answer (\<lambda>_. NoContent) (delete_organization_endpoint E st now cred oid)
     | ListMembers \<Rightarrow> answer MembersR (list_members_endpoint E st now cred oid)
     | AddMember mid nid email role \<Rightarrow> answer MemberR (add_member_endpoint E st now cred oid mid nid email role)
     | UpdateMemberRole mid role \<Rightarrow> answer MemberR (update_member_role_endpoint E st now cred oid mid role)
     | RemoveMember mid \<Rightarrow> answer (\<lambda>_. NoContent) (remove_member_endpoint E st now cred oid mid)
     | CreateApi aid name slug description \<Rightarrow>
         answer ApiR (create_api_endpoint E st now cred aid oid name slug description)
     | ListApis lmt off \<Rightarrow> answer ApisR (list_apis_endpoint E st now cred oid lmt off)
     | GetApi aid \<Rightarrow> answer ApiR (get_api_endpoint E st now cred oid aid)
     | UpdateApi aid name description is_active \<Rightarrow>
         answer ApiR (update_api_endpoint E st now cred oid aid name description is_active)
     | DeleteApi aid \<Rightarrow> answer (\<lambda>_. NoContent) (delete_api_endpoint E st now cred oid aid)
     | AddVersion vid aid version url is_active \<Rightarrow>
         answer VersionR (add_version_endpoint E st now cred vid oid aid version url is_active)
     | DeleteVersion aid vid \<Rightarrow> answer (\<lambda>_. NoContent) (delete_version_endpoint E st now cred oid aid vid)
     | SetQuota aid wanted \<Rightarrow> answer QuotasR (set_quota_endpoint E st now cred oid aid wanted)
     | GetQuota aid \<Rightarrow> answer QuotasR (get_quota_endpoint E st now cred oid aid)
     | SetRateLimit lid aid algorithm requests window_seconds burst \<Rightarrow>
         answer RateLimitR (set_rate_limit_endpoint E st now cred lid oid aid algorithm requests window_seconds burst)
     | GetRateLimit aid \<Rightarrow> answer MaybeRateLimitR (get_rate_limit_endpoint E st now cred oid aid)
     | CreateKey kd ai aid name expires_in_days \<Rightarrow>
         answer IssuedKeyR (create_key_endpoint E st isofmt now cred kd ai (c_ip c) oid aid name expires_in_days)
     | ListKeys aid \<Rightarrow> answer KeysR (list_keys_endpoint E st now cred oid aid)
     | RotateKey kd ai aid kid grace_hours \<Rightarrow>
         answer IssuedKeyR (rotate_key_endpoint E st isofmt now cred kd ai (c_ip c) oid aid kid grace_hours)
     | RevokeKey ai aid kid \<Rightarrow>
         answer (\<lambda>_. NoContent) (revoke_key_endpoint E st isofmt now cred ai (c_ip c) oid aid kid)
     | Summary api days \<Rightarrow> answer SummaryR (summary_endpoint E st now cred oid api days)
     | TopEndpoints api days lmt \<Rightarrow> answer EndpointsR (top_endpoints_endpoint E st now cred oid api days lmt)
     | StatusBreakdown api days \<Rightarrow> answer StatusR (status_breakdown_endpoint E st now cred oid api days)
     | Timeseries api days \<Rightarrow> answer SeriesR (timeseries_endpoint E st now cred oid api days)
     | TopKeys days lmt \<Rightarrow> answer TopKeysR (top_keys_endpoint E st now cred oid days lmt)
     | DeveloperDashboard days \<Rightarrow> answer DashboardR (developer_dashboard E st now (c_nows c) cred oid days)
     | SearchRequestLogs f lmt off \<Rightarrow> answer LogsR (search_request_logs_endpoint E st now cred oid f lmt off)
     | ListAuditLogs lmt off \<Rightarrow> answer AuditR (list_audit_logs_endpoint E st now cred oid lmt off))"

text \<open>The routes declared with GET.\<close>

fun is_read :: "tenant_request \<Rightarrow> bool" where
  "is_read GetOrg = True"
| "is_read ListMembers = True"
| "is_read (ListApis _ _) = True"
| "is_read (GetApi _) = True"
| "is_read (GetQuota _) = True"
| "is_read (GetRateLimit _) = True"
| "is_read (ListKeys _) = True"
| "is_read (Summary _ _) = True"
| "is_read (TopEndpoints _ _ _) = True"
| "is_read (StatusBreakdown _ _) = True"
| "is_read (Timeseries _ _) = True"
| "is_read (TopKeys _ _) = True"
| "is_read (DeveloperDashboard _) = True"
| "is_read (SearchRequestLogs _ _ _) = True"
| "is_read (ListAuditLogs _ _) = True"
| "is_read _ = False"

lemma answer_authorized:
  "answer f (authorized E st now cred perm oid body) = authorized E st now cred perm oid (\<lambda>u. answer f (body u))"
  by (auto simp: fun_eq_iff answer_def authorized_def prog_simps session_scope_run split: prod.splits sum.splits)

lemmas read_endpoint_defs =
  get_organization_endpoint_def list_members_endpoint_def list_apis_endpoint_def get_api_endpoint_def
  get_quota_endpoint_def get_rate_limit_endpoint_def list_keys_endpoint_def summary_endpoint_def
  top_endpoints_endpoint_def status_breakdown_endpoint_def timeseries_endpoint_def top_keys_endpoint_def
  developer_dashboard_def search_request_logs_endpoint_def list_audit_logs_endpoint_def

lemmas write_endpoint_defs =
  endpoint_defs update_organization_endpoint_def delete_organization_endpoint_def add_member_endpoint_def
  update_member_role_endpoint_def remove_member_endpoint_def

section \<open>Who can change anything\<close>

lemma handler_guarded:
  "\<exists>body. handler c oid rq = authorized (c_env c) (c_settings c) (c_now c) (c_cred c) (needs rq) oid body"
  by (cases rq) (simp_all add: handler_def Let_def read_endpoint_defs write_endpoint_defs answer_authorized, blast+)

lemma reads_analytics [prog_keeps]:
  "reads (repo_summary oid api since)" "reads (repo_active_keys oid api since)"
  "reads (analytics_summary now oid api days)" "reads (analytics_top_endpoints now oid api days lmt)"
  "reads (analytics_status_breakdown now oid api days)" "reads (analytics_timeseries now oid api days)"
  "reads (analytics_top_keys now oid days lmt)" "reads (search_logs oid f lmt off)" "reads (list_audit_for_org oid lmt off)"
  by (simp_all add: reads_def prog_simps Let_def repo_summary_def repo_active_keys_def analytics_summary_def
      analytics_top_endpoints_def repo_top_endpoints_def analytics_status_breakdown_def repo_status_breakdown_def
      analytics_timeseries_def repo_daily_series_def analytics_top_keys_def repo_top_keys_def search_logs_def
      list_audit_for_org_def)

lemma reads_lists [prog_keeps]:
  "reads (get_organization oid)" "reads (list_members oid)" "reads (list_quotas_for_api aid)"
  "reads (list_keys_for_api aid)"
  by (simp_all add: reads_def prog_simps get_organization_def list_members_def list_quotas_for_api_def
      list_keys_for_api_def split: option.splits)

lemma reads_thenP [prog_keeps]: "reads m \<Longrightarrow> reads k \<Longrightarrow> reads (thenP m k)"
  unfolding thenP_def by (rule reads_bindP)

lemma reads_mapP [prog_keeps]: "(\<And>x. reads (f x)) \<Longrightarrow> reads (mapP f xs)"
  by (induction xs) (simp_all add: reads_ret reads_bindP)

lemma reads_split [prog_keeps]: "(\<And>x y. reads (f x y)) \<Longrightarrow> reads (case p of (x, y) \<Rightarrow> f x y)"
  by (cases p) simp

lemma reads_session_scope [prog_keeps]: "reads m \<Longrightarrow> reads (session_scope m)"
  by (auto simp: reads_def session_scope_run split: prod.splits sum.splits) (metis snd_conv)

lemma reads_authorized: "(\<And>u. reads (body u)) \<Longrightarrow> reads (authorized E st now cred perm oid body)"
  unfolding authorized_def
  by (intro reads_session_scope reads_bindP reads_get_current_user reads_require_permission)

lemma reads_handler:
  assumes "is_read rq"
  shows "reads (handler c oid rq)"
  using assms
  by (cases rq; simp add: handler_def Let_def answer_def read_endpoint_defs get_quotas_def get_rate_limit_def list_keys_def;
      intro reads_bindP reads_authorized prog_keeps)

lemma readers_cannot_write: "\<not> is_read rq \<Longrightarrow> needs rq \<in> role_permissions r \<Longrightarrow> r \<noteq> VIEWER"
  by (cases rq; auto simp: read_only_def)

lemma only_owners_delete: "needs DeleteOrg \<in> role_permissions r \<Longrightarrow> r = OWNER"
  by (cases r) (auto simp: read_only_def developer_permissions_def)

text \<open>C7: only members with a role that allows it change anything in an organization. If a request below
  \<open>/organizations/{org_id}\<close> changed the database at all, then it was not a GET, its caller is an active
  user, a member of that organization, with a role that has the permission of the route; a viewer never
  changes anything, developers never touch the members, and only an owner deletes the organization.\<close>

theorem changes_need_a_role:
  assumes "db_ok d" "snd (handler c oid rq d) \<noteq> d"
  shows "\<exists>u m r. get_current_user (c_env c) (c_settings c) (c_now c) (c_cred c) d = (Inr u, d) \<and> u_is_active u \<and>
    m \<in> set (db_members d) \<and> m_user_id m = u_id u \<and> m_organization_id m = oid \<and>
    role_name_of d (m_role_id m) = role_code r \<and> needs rq \<in> role_permissions r \<and> \<not> is_read rq \<and> r \<noteq> VIEWER \<and>
    (needs rq \<in> {ORG_UPDATE, MEMBER_INVITE, MEMBER_UPDATE_ROLE, MEMBER_REMOVE} \<longrightarrow> r \<in> {OWNER, ADMIN}) \<and>
    (rq = DeleteOrg \<longrightarrow> r = OWNER)"
proof -
  obtain body where h: "handler c oid rq =
      authorized (c_env c) (c_settings c) (c_now c) (c_cred c) (needs rq) oid body"
    using handler_guarded by blast
  have w: "\<not> is_read rq"
    using reads_handler [of rq c oid] assms(2) by (auto simp: reads_def)
  have managers: "r \<in> {OWNER, ADMIN}" if "p \<in> {ORG_UPDATE, MEMBER_INVITE, MEMBER_UPDATE_ROLE, MEMBER_REMOVE}" "p \<in> role_permissions r" for p r
    using that by (cases r) (auto simp: read_only_def developer_permissions_def)
  obtain x d' where "handler c oid rq d = (Inr x, d')"
    using guarded_endpoint_sound [OF assms(1), where perm = "needs rq" and body = body and oid = oid and E = "c_env c" and
        st = "c_settings c" and now = "c_now c" and cred = "c_cred c"] assms(2)
    by (cases "handler c oid rq d") (auto simp: h split: sum.splits)
  then obtain u m r where "get_current_user (c_env c) (c_settings c) (c_now c) (c_cred c) d = (Inr u, d)"
      "u_is_active u" "m \<in> set (db_members d)" "m_user_id m = u_id u" "m_organization_id m = oid"
      "role_name_of d (m_role_id m) = role_code r" and r: "needs rq \<in> role_permissions r"
    using guarded_endpoint_sound [OF assms(1), where perm = "needs rq" and body = body and oid = oid and E = "c_env c" and
        st = "c_settings c" and now = "c_now c" and cred = "c_cred c"] by (auto simp: h)
  moreover have "rq = DeleteOrg \<longrightarrow> r = OWNER" using only_owners_delete r by auto
  ultimately show ?thesis
    using w managers [OF _ r] readers_cannot_write [OF w r] by (intro exI [of _ u] exI [of _ m] exI [of _ r]) auto
qed

text \<open>A call of \<open>alice\<close>.\<close>

definition alice_call :: call where
  "alice_call = \<lparr>c_env = plain_env, c_settings = default_settings, c_isofmt = (\<lambda>_. []), c_now = 5, c_nows = (\<lambda>_. 5),
     c_cred = alice_cred, c_ip = ''::1''\<rparr>"

lemma alice_renames:
  "snd (handler alice_call 7 (UpdateOrg ''new'') (org_db ADMIN OWNER)) =
    (org_db ADMIN OWNER)\<lparr>db_orgs := [\<lparr>o_id = 7, o_name = ''new'', o_slug = ''acme'', o_created_at = 0\<rparr>]\<rparr>"
proof -
  note cred = alice_cred_works [OF org_db_alice, of ADMIN OWNER]
  show ?thesis
    by (simp add: handler_def Let_def alice_call_def answer_def update_organization_endpoint_def authorized_def cred
        prog_simps alice_may role_has_permission_def all_permissions_def update_organization_def org_db_get)
       (simp add: org_db_def update_where_def)
qed

theorem changes_need_a_role_witness:
  "\<exists>m r. m \<in> set (db_members (org_db ADMIN OWNER)) \<and> m_user_id m = 1 \<and>
    role_name_of (org_db ADMIN OWNER) (m_role_id m) = role_code r \<and> r \<in> {OWNER, ADMIN}"
proof -
  have "db_orgs (snd (handler alice_call 7 (UpdateOrg ''new'') (org_db ADMIN OWNER))) \<noteq> db_orgs (org_db ADMIN OWNER)"
    unfolding alice_renames by (simp add: org_db_def)
  then have "snd (handler alice_call 7 (UpdateOrg ''new'') (org_db ADMIN OWNER)) \<noteq> org_db ADMIN OWNER" by auto
  from changes_need_a_role [OF org_db_ok this] show ?thesis
    using alice_cred_works [OF org_db_alice, of ADMIN OWNER] by (auto simp: alice_call_def alice_id)
qed

section \<open>What an answer can depend on\<close>

text \<open>The rows of one organization: itself, its members, its catalogue with the keys, its logs.\<close>

definition tenant_view where
  "tenant_view oid d = (filter (\<lambda>r. o_id r = oid) (db_orgs d), filter (\<lambda>m. m_organization_id m = oid) (db_members d),
     org_view oid d, filter (\<lambda>g. g_organization_id g = oid) (db_logs d),
     filter (\<lambda>u. du_organization_id u = oid) (db_daily d), filter (\<lambda>a. al_organization_id a = Some oid) (db_audit d))"

definition same_for :: "uuid \<Rightarrow> db \<Rightarrow> db \<Rightarrow> bool" where
  "same_for oid d1 d2 \<longleftrightarrow> db_users d1 = db_users d2 \<and> db_roles d1 = db_roles d2 \<and> tenant_view oid d1 = tenant_view oid d2"

text \<open>A program that only reads, and on states in \<open>Q\<close> that \<open>R\<close> relates returns the same.\<close>

definition agree :: "(db \<Rightarrow> db \<Rightarrow> bool) \<Rightarrow> (db \<Rightarrow> bool) \<Rightarrow> 'a dbprog \<Rightarrow> bool" where
  "agree R Q m \<longleftrightarrow> reads m \<and> (\<forall>d1 d2. R d1 d2 \<longrightarrow> Q d1 \<longrightarrow> Q d2 \<longrightarrow> fst (m d1) = fst (m d2))"

text \<open>A program that reads only users, roles and the organization's rows.\<close>

abbreviation own :: "uuid \<Rightarrow> (db \<Rightarrow> bool) \<Rightarrow> 'a dbprog \<Rightarrow> bool" where
  "own oid \<equiv> agree (same_for oid)"

named_theorems agree_intros \<open>programs that agree on related states\<close>

lemma agreeI: "reads m \<Longrightarrow> (\<And>d1 d2. R d1 d2 \<Longrightarrow> Q d1 \<Longrightarrow> Q d2 \<Longrightarrow> fst (m d1) = fst (m d2)) \<Longrightarrow> agree R Q m"
  by (simp add: agree_def)

lemma agree_basic [agree_intros]:
  "agree R Q (ret x)" "agree R Q (raise e)" "agree R Q (raise_if b e)" "agree R Q (ofSum r)"
  by (auto simp: agree_def prog_simps intro: prog_keeps)

lemma agree_gets [agree_intros]: "(\<And>d1 d2. R d1 d2 \<Longrightarrow> Q d1 \<Longrightarrow> Q d2 \<Longrightarrow> f d1 = f d2) \<Longrightarrow> agree R Q (gets f)"
  by (simp add: agree_def prog_simps prog_keeps)

lemma agree_bindP [agree_intros]:
  assumes "agree R Q m" "\<And>x. agree R (\<lambda>d. Q d \<and> m d = (Inr x, d)) (k x)"
  shows "agree R Q (bindP m k)"
proof (rule agreeI)
  show "reads (bindP m k)" using assms by (auto simp: agree_def intro: reads_bindP)
  fix d1 d2 assume eq: "R d1 d2" "Q d1" "Q d2"
  then have same: "fst (m d1) = fst (m d2)" using assms(1) by (simp add: agree_def)
  have st: "snd (m d) = d" for d using assms(1) by (simp add: agree_def reads_def)
  show "fst (bindP m k d1) = fst (bindP m k d2)"
  proof (cases "fst (m d1)")
    case (Inl e)
    then show ?thesis using same by (simp add: bindP_def split_beta)
  next
    case (Inr x)
    then have "m d1 = (Inr x, d1)" "m d2 = (Inr x, d2)" using same st by (simp_all add: prod_eq_iff)
    then show ?thesis using assms(2) [of x] eq by (simp add: bindP_run agree_def)
  qed
qed

lemma agree_thenP [agree_intros]: "agree R Q m \<Longrightarrow> (\<And>x. agree R (\<lambda>d. Q d \<and> m d = (Inr x, d)) k) \<Longrightarrow> agree R Q (thenP m k)"
  unfolding thenP_def by (rule agree_bindP)

lemma agree_cases [agree_intros]:
  "agree R Q m \<Longrightarrow> (\<And>y. agree R Q (k y)) \<Longrightarrow> agree R Q (case x of None \<Rightarrow> m | Some y \<Rightarrow> k y)"
  "agree R Q m \<Longrightarrow> agree R Q n \<Longrightarrow> agree R Q (if b then m else n)"
  by (cases x) simp_all

lemma agree_session_scope: "agree R Q m \<Longrightarrow> agree R Q (session_scope m)"
  by (fastforce simp: agree_def session_scope_run prog_keeps split: prod.splits sum.splits)

lemma agree_weaken: "agree R Q m \<Longrightarrow> (\<And>d. Q' d \<Longrightarrow> Q d) \<Longrightarrow> agree R Q' m"
  by (simp add: agree_def)

lemma same_forD:
  assumes "same_for oid d1 d2"
  shows "db_users d1 = db_users d2" "role_name_of d1 = role_name_of d2"
    and "filter (\<lambda>r. o_id r = oid) (db_orgs d1) = filter (\<lambda>r. o_id r = oid) (db_orgs d2)"
    and "filter (\<lambda>m. m_organization_id m = oid) (db_members d1) = filter (\<lambda>m. m_organization_id m = oid) (db_members d2)"
    and "apis_of_org oid d1 = apis_of_org oid d2" "org_api_ids oid d1 = org_api_ids oid d2" "org_view oid d1 = org_view oid d2"
    and "filter (\<lambda>g. g_organization_id g = oid) (db_logs d1) = filter (\<lambda>g. g_organization_id g = oid) (db_logs d2)"
    and "filter (\<lambda>u. du_organization_id u = oid) (db_daily d1) = filter (\<lambda>u. du_organization_id u = oid) (db_daily d2)"
    and "filter (\<lambda>a. al_organization_id a = Some oid) (db_audit d1) = filter (\<lambda>a. al_organization_id a = Some oid) (db_audit d2)"
  using assms by (auto simp: same_for_def tenant_view_def org_view_def role_name_of_def fun_eq_iff org_api_ids_def)

text \<open>A narrower selection out of the organization's rows is the same on both sides.\<close>

lemma narrower:
  assumes "filter P xs = filter P ys" "\<And>x. R x \<Longrightarrow> P x"
  shows "filter R xs = filter R ys"
proof -
  have "filter R zs = filter R (filter P zs)" for zs using assms(2) by (induction zs) auto
  then show ?thesis using assms(1) by metis
qed

lemma own_current_user [agree_intros]: "own oid Q (get_current_user E st now cred)"
  by (rule agreeI [OF reads_get_current_user]) (metis fst_conv get_current_user_users same_forD(1))

lemma own_require_permission [agree_intros]: "own oid Q (require_permission perm oid u)"
proof -
  have "own oid Q (get_for_user_and_org (u_id u) oid)" for Q
    unfolding get_for_user_and_org_def
    by (rule agreeI [OF reads_select_one])
       (auto simp: select_one_def intro!: arg_cong [where f = scalar_one_or_none] narrower [OF same_forD(4)])
  then show ?thesis
    unfolding require_permission_def
    by (intro agree_intros) (simp_all add: same_forD(2))
qed

lemma own_authorized: "(\<And>u. own oid (\<lambda>_. True) (body u)) \<Longrightarrow> own oid (\<lambda>_. True) (authorized E st now cred perm oid body)"
  unfolding authorized_def
  by (intro agree_session_scope agree_bindP own_current_user own_require_permission) (rule agree_weaken, assumption, simp)


lemma own_get_api [agree_intros]: "own oid Q (get_api oid aid)"
proof -
  have "filter (\<lambda>a. a_id a = aid \<and> a_organization_id a = oid) (db_apis d) = filter (\<lambda>a. a_id a = aid) (apis_of_org oid d)" for d
    by (simp add: apis_of_org_def conj_commute)
  then have "fst (get_api oid aid d1) = fst (get_api oid aid d2)" if "same_for oid d1 d2" for d1 d2
    using same_forD(5) [OF that]
    by (simp add: get_api_def get_in_org_def select_one_def prog_simps split: sum.splits option.splits)
  then show ?thesis by (intro agreeI reads_get_api)
qed

text \<open>What hangs off an API that was found in the organization.\<close>

lemma found_is_own: "get_api oid aid d = (Inr a, d) \<Longrightarrow> aid \<in> org_api_ids oid d \<and> a_id a = aid"
  using get_api_found [of oid aid d a d] by (auto simp: org_api_ids_def apis_of_org_def)

lemma same_children:
  assumes "same_for oid d1 d2" "aid \<in> org_api_ids oid d1"
  shows "filter (\<lambda>v. v_api_id v = aid) (db_versions d1) = filter (\<lambda>v. v_api_id v = aid) (db_versions d2)"
    and "filter (\<lambda>q. q_api_id q = aid) (db_quotas d1) = filter (\<lambda>q. q_api_id q = aid) (db_quotas d2)"
    and "filter (\<lambda>l. l_api_id l = aid) (db_rules d1) = filter (\<lambda>l. l_api_id l = aid) (db_rules d2)"
    and "filter (\<lambda>k. k_api_id k = aid) (db_keys d1) = filter (\<lambda>k. k_api_id k = aid) (db_keys d2)"
  using same_forD(6,7) [OF assms(1)] assms(2)
  by (auto simp: org_view_def intro: narrower [where P = "\<lambda>v. v_api_id v \<in> org_api_ids oid d1"]
      narrower [where P = "\<lambda>q. q_api_id q \<in> org_api_ids oid d1"] narrower [where P = "\<lambda>l. l_api_id l \<in> org_api_ids oid d1"]
      narrower [where P = "\<lambda>k. k_api_id k \<in> org_api_ids oid d1"])

lemma own_after_get_api:
  assumes "\<And>a. own oid (\<lambda>d. aid \<in> org_api_ids oid d \<and> a_id a = aid) (k a)"
  shows "own oid Q (bindP (get_api oid aid) k)"
proof (rule agree_bindP [OF own_get_api])
  fix a
  show "own oid (\<lambda>d. Q d \<and> get_api oid aid d = (Inr a, d)) (k a)"
    by (rule agree_weaken [OF assms]) (use found_is_own in blast)
qed

lemma own_then_get_api: "own oid (\<lambda>d. aid \<in> org_api_ids oid d) k \<Longrightarrow> own oid Q (thenP (get_api oid aid) k)"
  unfolding thenP_def by (rule own_after_get_api) (erule agree_weaken, simp)

lemma own_children:
  "own oid (\<lambda>d. a_id a \<in> org_api_ids oid d) (api_response a)"
  "own oid (\<lambda>d. aid \<in> org_api_ids oid d) (list_quotas_for_api aid)"
  "own oid (\<lambda>d. aid \<in> org_api_ids oid d) (get_rule_for_api aid)"
  "own oid (\<lambda>d. aid \<in> org_api_ids oid d) (list_keys_for_api aid)"
  by (rule agreeI, intro prog_keeps, simp add: api_response_def versions_of_def list_quotas_for_api_def
      get_rule_for_api_def select_one_def list_keys_for_api_def same_children prog_simps)+


lemma own_lists:
  "own oid Q (get_organization oid)" "own oid Q (list_members oid)" "own oid Q (search_logs oid f lmt off)"
  "own oid Q (list_audit_for_org oid lmt off)"
proof -
  show "own oid Q (get_organization oid)"
    unfolding get_organization_def
    by (intro agree_intros agreeI; (intro prog_keeps)?; simp add: repo_get_def find_filter same_forD(3) prog_simps)
  show "own oid Q (list_members oid)"
    unfolding list_members_def by (intro agree_intros) (simp add: same_forD(4))
  have "filter (log_matches oid f) (db_logs d1) = filter (log_matches oid f) (db_logs d2)" if "same_for oid d1 d2" for d1 d2
    by (rule narrower [OF same_forD(8) [OF that]]) (simp add: log_matches_def)
  then show "own oid Q (search_logs oid f lmt off)"
    unfolding search_logs_def by (intro agree_intros) (simp add: Let_def)
  show "own oid Q (list_audit_for_org oid lmt off)"
    unfolding list_audit_for_org_def by (intro agree_intros) (simp add: same_forD(10))
qed

lemma own_analytics:
  "own oid Q (repo_summary oid api since)" "own oid Q (repo_active_keys oid api since)"
  "own oid Q (repo_top_endpoints oid api since lmt)" "own oid Q (repo_status_breakdown oid api since)"
  "own oid Q (repo_daily_series oid api since_date)"
proof -
  have logs: "scoped oid api since d1 = scoped oid api since d2" if "same_for oid d1 d2" for d1 d2 since
    unfolding scoped_def by (rule narrower [OF same_forD(8) [OF that]]) (simp add: in_scope_def)
  have daily: "series_rows oid api since_date d1 = series_rows oid api since_date d2" if "same_for oid d1 d2" for d1 d2
    unfolding series_rows_def by (rule narrower [OF same_forD(9) [OF that]]) simp
  show "own oid Q (repo_summary oid api since)" "own oid Q (repo_active_keys oid api since)"
    "own oid Q (repo_top_endpoints oid api since lmt)" "own oid Q (repo_status_breakdown oid api since)"
    "own oid Q (repo_daily_series oid api since_date)"
    unfolding repo_summary_def repo_active_keys_def repo_top_endpoints_def repo_status_breakdown_def repo_daily_series_def
    by (rule agree_gets, simp only: logs daily)+
qed

lemma own_list_apis:
  "own oid Q (bindP (list_in_org oid lmt off) (\<lambda>(as, n). bindP (mapP api_response as) (\<lambda>items. ret (items, n))))"
proof (rule agree_bindP)
  show "own oid Q (list_in_org oid lmt off)"
    unfolding list_in_org_def by (intro agree_intros) (simp add: same_forD(5))
  fix x :: "api list \<times> nat"
  obtain as n where x: "x = (as, n)" by fastforce
  have run: "mapP api_response bs d = (Inr (map (\<lambda>a. (a, versions_of (a_id a) d)) bs), d)" for bs d
    by (induction bs) (simp_all add: api_response_def prog_simps)
  have sub: "a_id a \<in> org_api_ids oid d" if "list_in_org oid lmt off d = (Inr x, d)" "a \<in> set as" for a d
  proof -
    have "as = page lmt off (order_desc a_created_at (apis_of_org oid d))"
      using that(1) by (simp add: list_in_org_def x prog_simps)
    then have "a \<in> set (apis_of_org oid d)"
      using that(2) set_page by (fastforce simp: table_simps)
    then show ?thesis by (simp add: org_api_ids_def)
  qed
  show "own oid (\<lambda>d. Q d \<and> list_in_org oid lmt off d = (Inr x, d))
      (case x of (as, n) \<Rightarrow> bindP (mapP api_response as) (\<lambda>items. ret (items, n)))"
  proof (rule agreeI)
    show "reads (case x of (as, n) \<Rightarrow> bindP (mapP api_response as) (\<lambda>items. ret (items, n)))"
      by (intro prog_keeps)
    fix d1 d2 assume "same_for oid d1 d2" "Q d1 \<and> list_in_org oid lmt off d1 = (Inr x, d1)"
    then show "fst ((case x of (as, n) \<Rightarrow> bindP (mapP api_response as) (\<lambda>items. ret (items, n))) d1) =
        fst ((case x of (as, n) \<Rightarrow> bindP (mapP api_response as) (\<lambda>items. ret (items, n))) d2)"
      using sub same_children(1) by (simp add: x run prog_simps versions_of_def)
  qed
qed

text \<open>The reads that stay within the organization.\<close>

fun asks_own :: "tenant_request \<Rightarrow> bool" where
  "asks_own (TopKeys _ _) = False"
| "asks_own (DeveloperDashboard _) = False"
| "asks_own rq = is_read rq"

lemma own_answer: "own oid Q m \<Longrightarrow> own oid Q (answer f m)"
  unfolding answer_def by (intro agree_intros)

lemma own_handler:
  assumes "asks_own rq"
  shows "own oid (\<lambda>_. True) (handler c oid rq)"
  using assms
  by (cases rq; simp add: handler_def Let_def read_endpoint_defs get_quotas_def get_rate_limit_def list_keys_def
      analytics_summary_def analytics_top_endpoints_def analytics_status_breakdown_def analytics_timeseries_def;
      intro own_answer own_authorized)
    ((intro own_lists own_analytics own_list_apis own_after_get_api own_then_get_api own_children agree_bindP agree_basic |
      (rule agree_weaken [OF own_children(1)], simp))+)

text \<open>C21: an organization's answers are about its own rows. Two databases that agree on the users, the roles
  and the rows of an organization answer every GET below it alike, errors included, whatever other tenants
  store; the report of the top keys and the dashboard that includes it are the exception.\<close>

theorem answers_depend_on_own_rows:
  assumes "same_for oid d1 d2" "asks_own rq"
  shows "fst (handler c oid rq d1) = fst (handler c oid rq d2)"
  using own_handler [OF assms(2), of oid c] assms(1) by (simp add: agree_def)


theorem answers_depend_on_own_rows_witness:
  "fst (handler alice_call 7 GetOrg ((org_db ADMIN OWNER)\<lparr>db_orgs := db_orgs (org_db ADMIN OWNER) @
      [\<lparr>o_id = 8, o_name = ''other'', o_slug = ''other'', o_created_at = 0\<rparr>], db_apis := [api_row 41 8 ''pay'']\<rparr>)) =
    Inr (OrganizationR \<lparr>o_id = 7, o_name = ''acme'', o_slug = ''acme'', o_created_at = 0\<rparr>)"
    (is "fst (handler _ _ _ ?d) = _")
proof -
  note cred = alice_cred_works [OF org_db_alice, of ADMIN OWNER]
  have "fst (handler alice_call 7 GetOrg (org_db ADMIN OWNER)) =
      Inr (OrganizationR \<lparr>o_id = 7, o_name = ''acme'', o_slug = ''acme'', o_created_at = 0\<rparr>)"
    by (simp add: handler_def Let_def alice_call_def answer_def get_organization_endpoint_def authorized_def cred
        prog_simps alice_may role_has_permission_def all_permissions_def org_db_get)
  moreover have "same_for 7 (org_db ADMIN OWNER) ?d"
    by (simp add: same_for_def tenant_view_def org_view_defs api_row_def org_db_def empty_db_def)
  ultimately show ?thesis using answers_depend_on_own_rows [of 7 "org_db ADMIN OWNER" ?d GetOrg alice_call] by simp
qed

end
