(* ===== verification/Isolation.thy ===== *)
theory Isolation
  imports Tenancy
begin

text \<open>
  What a request to one organization can change. First an invariant of the reachable states that no constraint
  of the database declares (an API key belongs to the organization of its API), then, request by request, that
  nothing of another organization is touched.
\<close>

section \<open>Keys belong to the organization of their API\<close>

definition key_owners :: "db \<Rightarrow> (uuid \<times> uuid) set" where
  "key_owners d = (\<lambda>k. (k_api_id k, k_organization_id k)) ` set (db_keys d)"

definition api_owners :: "db \<Rightarrow> (uuid \<times> uuid) set" where
  "api_owners d = (\<lambda>a. (a_id a, a_organization_id a)) ` set (db_apis d)"

definition keys_agree :: "db \<Rightarrow> bool" where
  "keys_agree d \<longleftrightarrow> key_owners d \<subseteq> api_owners d"

lemmas owner_defs = keys_agree_def key_owners_def api_owners_def

lemma agree_frame: "keys_agree d \<Longrightarrow> key_owners d' \<subseteq> key_owners d \<Longrightarrow> api_owners d \<subseteq> api_owners d' \<Longrightarrow> keys_agree d'"
  unfolding keys_agree_def by blast

lemma agree_add [prog_keeps]:
  "preserves keys_agree (add_user u)" "preserves keys_agree (add_token t)" "preserves keys_agree (add_org g)"
  "preserves keys_agree (add_member m)" "preserves keys_agree (add_api a)" "preserves keys_agree (add_version_row v)"
  "preserves keys_agree (add_quota q)" "preserves keys_agree (add_rule l)" "preserves keys_agree (add_log lg)"
  "preserves keys_agree (add_audit al)" "preserves keys_agree (add_outbox b)" "preserves keys_agree (add_daily du)"
  "preserves keys_agree (add_note n)" "preserves keys_agree (add_permission p)" "preserves keys_agree (add_role r)"
  unfolding add_defs thenP_def
  by (intro preserves_bindP preserves_raise_if preserves_insert_row; erule agree_frame; auto simp: owner_defs)+

lemma agree_sets [prog_keeps]:
  "preserves keys_agree (set_token i g)" "preserves keys_agree (revoke_family now fam)"
  "preserves keys_agree (revoke_token now t)" "preserves keys_agree (set_note i k)" "preserves keys_agree (set_user i f)"
  "preserves keys_agree (mark_all_read now u)" "preserves keys_agree (delete_quota_row q)"
  "preserves keys_agree (usage_increment uid key api day er)" "preserves keys_agree (set_member_role mid rid)"
  "preserves keys_agree (delete_member_row mid)"
  by (auto simp: preserves_def set_token_def revoke_family_def revoke_token_def set_note_def mark_all_read_def set_user_def
      delete_quota_row_def usage_increment_def set_member_role_def delete_member_row_def prog_simps owner_defs)

lemma agree_set_key [prog_keeps]:
  "(\<And>x. k_api_id (f x) = k_api_id x \<and> k_organization_id (f x) = k_organization_id x) \<Longrightarrow> preserves keys_agree (set_key i f)"
  by (auto simp: preserves_def set_key_def prog_simps owner_defs image_update_where)

lemma agree_rows:
  "keys_agree d \<Longrightarrow> keys_agree (d\<lparr>db_versions := x2\<rparr>)" "keys_agree d \<Longrightarrow> keys_agree (d\<lparr>db_rules := x3\<rparr>)"
  "keys_agree d \<Longrightarrow> keys_agree (d\<lparr>db_daily := x4\<rparr>)" "keys_agree d \<Longrightarrow> keys_agree (d\<lparr>db_orgs := x5\<rparr>)"
  "keys_agree d \<Longrightarrow> keys_agree (d\<lparr>db_roles := x6\<rparr>)"
  by (erule agree_frame; simp add: key_owners_def api_owners_def)+

lemma agree_delete_apis: "keys_agree d \<Longrightarrow> keys_agree (delete_apis_where P d)"
  by (auto simp: owner_defs delete_apis_where_def delete_keys_where_def Let_def table_simps image_iff subset_iff) blast

lemma agree_delete_org: "keys_agree d \<Longrightarrow> keys_agree (delete_org_row oid d)"
  using agree_delete_apis [of d "\<lambda>a. a_organization_id a = oid"]
  by (auto simp: owner_defs delete_org_row_def delete_keys_where_def Let_def table_simps)

lemma agree_accounts [prog_keeps]:
  "preserves keys_agree (authenticate E salt e p)" "preserves keys_agree (issue_tokens E st now raw tid jti u fam)"
  "preserves keys_agree (logout E now raw)" "preserves keys_agree (verify_email E st now tok)"
  "preserves keys_agree (reset_password E st now salt tok pw)"
  unfolding auth_defs Let_def by (intro prog_keeps reads_repo)+

lemma agree_rotate [prog_keeps]: "preserves keys_agree (rotate_refresh E st now raw2 tid jti raw)"
  unfolding rotate_refresh_def by (intro prog_keeps reads_repo)

lemma agree_notes [prog_keeps]:
  "preserves keys_agree (mark_read now i nid)" "preserves keys_agree (create_notification now nid i t1 t2 t3 oid)"
  unfolding sparing_defs Let_def by (intro prog_keeps)+

lemma agree_telemetry [prog_keeps]: "preserves keys_agree (emit isofmt now rid ev)"
  unfolding sparing_defs Let_def by (intro prog_keeps)

lemma agree_records [prog_keeps]:
  "preserves keys_agree (record_audit isofmt now aid eid oid act rt org actor rid ip meta)"
  "preserves keys_agree (record_request isofmt now ids g)"
  unfolding sparing_defs Let_def by (intro prog_keeps)+

lemma agree_orgs [prog_keeps]:
  "preserves keys_agree (create_organization now oid mid owner name slug)"
  "preserves keys_agree (add_member_to_org now mid oid email role)"
  "preserves keys_agree (update_member_role oid mid role)" "preserves keys_agree (remove_member oid mid)"
  unfolding org_service_defs Let_def slug_conflict_def by (intro prog_keeps reads_repo)+

lemma agree_org_rows [prog_keeps]:
  "preserves keys_agree (update_organization oid name)" "preserves keys_agree (delete_organization oid)"
  unfolding update_organization_def delete_organization_def
  by (intro prog_keeps preserves_modifyP agree_rows agree_delete_org; assumption)+

lemma agree_catalogue [prog_keeps]:
  "preserves keys_agree (create_api now aid oid name slug desc)"
  "preserves keys_agree (add_version now vid oid aid ver url active)" "preserves keys_agree (set_quotas oid aid wanted)"
  unfolding create_api_def add_version_def set_quotas_def Let_def split_beta by (intro prog_keeps)+

lemma agree_update_api [prog_keeps]: "preserves keys_agree (update_api oid aid nm ds act)"
  unfolding update_api_def Let_def
  by (intro prog_keeps preserves_modifyP) (erule agree_frame, auto simp: key_owners_def api_owners_def image_update_where)

lemma agree_catalogue_rows [prog_keeps]:
  "preserves keys_agree (delete_api oid aid)"
  "preserves keys_agree (delete_version oid aid vid)" "preserves keys_agree (set_rate_limit lid oid aid al n win burst)"
  unfolding delete_api_def delete_version_def set_rate_limit_def Let_def
  by (intro prog_keeps preserves_modifyP agree_rows agree_delete_apis reads_repo(1); assumption)+

lemma agree_rollup [prog_keeps]: "preserves keys_agree (repo_rollup_daily ids t)"
  unfolding repo_rollup_daily_def
  by (intro preserves_thenP preserves_bindP preserves_mapP preserves_gets preserves_ret agree_add preserves_modifyP agree_rows)

lemma agree_create_key [prog_keeps]: "preserves keys_agree (create_key E now kd oid aid name ex cby)"
proof (rule preservesI)
  fix d assume k: "keys_agree d"
  show "keys_agree (snd (create_key E now kd oid aid name ex cby d))"
  proof (cases "get_api oid aid d")
    case (Pair r d')
    then have "d' = d" using reads_run [OF reads_get_api] by blast
    moreover have "(aid, oid) \<in> api_owners d" if "r = Inr a" for a
      using get_api_found [of oid aid d a d'] Pair that by (auto simp: api_owners_def image_iff)
    ultimately show ?thesis
      using k Pair by (cases r) (auto simp: create_key_def add_key_def prog_simps Let_def owner_defs)
  qed
qed

lemma agree_keys [prog_keeps]:
  "preserves keys_agree (revoke_key now oid aid kid)"
  "preserves keys_agree (rotate_key E t0 now kd oid aid kid grace cby)"
  unfolding revoke_key_def rotate_key_def
  by (intro prog_keeps reads_preserves [OF reads_get_key]; simp add: retire_def Let_def)+

lemma agree_seed: "preserves keys_agree (seed_rbac pid rid)"
  unfolding seed_rbac_def seed_role_def
  by (intro preserves_bindP preserves_thenP preserves_mapP preserves_if preserves_ret preserves_gets preserves_modifyP
      agree_rows agree_add reads_preserves [OF reads_perm_id])


lemma agree_caller:
  "(\<And>u. preserves keys_agree (body u)) \<Longrightarrow>
   preserves keys_agree (session_scope (bindP (get_current_user E st now cred) body))"
  by (intro preserves_session_scope preserves_bindP reads_preserves [OF reads_get_current_user])

lemma agree_endpoints:
  "preserves keys_agree (refresh_endpoint E st now raw2 tid jti body ck)"
  "preserves keys_agree (logout_endpoint E now body ck)" "preserves keys_agree (verify_email_endpoint E st now tok)"
  "preserves keys_agree (confirm_reset_endpoint E st now salt tok pw)"
  "preserves keys_agree (mark_read_endpoint E st now cred nid)" "preserves keys_agree (mark_all_read_endpoint E st now cred)"
  "preserves keys_agree (create_organization_endpoint E st now cred oid mid name slug)"
  unfolding refresh_endpoint_def logout_endpoint_def verify_email_endpoint_def confirm_reset_endpoint_def
    mark_read_endpoint_def mark_all_read_endpoint_def create_organization_endpoint_def
  by (intro agree_caller prog_keeps)+

lemma agree_tenant_endpoints:
  "preserves keys_agree (update_organization_endpoint E st now cred oid name)"
  "preserves keys_agree (delete_organization_endpoint E st now cred oid)"
  "preserves keys_agree (add_member_endpoint E st now cred oid mid nid email role)"
  "preserves keys_agree (update_member_role_endpoint E st now cred oid mid role)"
  "preserves keys_agree (remove_member_endpoint E st now cred oid mid)"
  "preserves keys_agree (create_api_endpoint E st now cred aid oid name slug desc)"
  "preserves keys_agree (update_api_endpoint E st now cred oid aid nm ds act)"
  "preserves keys_agree (delete_api_endpoint E st now cred oid aid)"
  "preserves keys_agree (add_version_endpoint E st now cred vid oid aid ver url active)"
  "preserves keys_agree (delete_version_endpoint E st now cred oid aid vid)"
  "preserves keys_agree (set_quota_endpoint E st now cred oid aid wanted)"
  "preserves keys_agree (set_rate_limit_endpoint E st now cred lid oid aid al n win burst)"
  "preserves keys_agree (create_key_endpoint E st isofmt now cred kd ai ip oid aid name' ex)"
  "preserves keys_agree (rotate_key_endpoint E st isofmt now cred kd ai ip oid aid kid grace)"
  "preserves keys_agree (revoke_key_endpoint E st isofmt now cred ai ip oid aid kid)"
  unfolding write_endpoint_defs by (intro preserves_authorized prog_keeps)+

lemma agree_rollup_task: "preserves keys_agree (rollup_daily_usage rids rids' now)"
  unfolding rollup_daily_usage_def by (intro preserves_session_scope preserves_bindP preserves_ret agree_rollup)

lemma agree_publish: "keys_agree (w_db w) \<Longrightarrow> keys_agree (w_db (run_publisher sink locked clk w))"
proof -
  assume s: "keys_agree (w_db w)"
  let ?P = "\<lambda>s. keys_agree (fst s)"
  have touch: "keys_agree (touch_rows ids p d) = keys_agree d" for ids p d
    by (simp add: touch_rows_def owner_defs)
  have drain: "preserves ?P (drain_outbox sink n l now)" for n l now
    by (auto simp: preserves_def drain_outbox_def Let_def touch split: prod.splits sum.splits)
  have loop: "preserves ?P (publish_loop sink locked clk n i acc)" for n i acc
    by (induction n arbitrary: i acc) (simp_all, (intro preserves_bindP preserves_if preserves_ret drain | assumption)+)
  show ?thesis
    using s preservesD [OF loop [of 50 0 0], of "(w_db w, snd (w_redis w))"]
    by (auto simp: run_publisher_def publish_telemetry_def split: prod.splits sum.splits)
qed

lemma agree_world: "keeps_db keys_agree m \<Longrightarrow> keys_agree (w_db w) \<Longrightarrow> keys_agree (w_db (snd (m w)))"
  using keeps_db_run [of keys_agree m w "fst (m w)" "snd (m w)"] by simp

lemma agree_step:
  assumes "platform_step w w'" "keys_agree (w_db w)"
  shows "keys_agree (w_db w')"
  using assms
proof (induction rule: platform_step.induct)
  case (startup w pid rid)
  then show ?case using preservesD [OF preserves_session_scope [OF agree_seed]] by simp
next
  case (register w E st now uid salt email pw fn)
  show ?case by (rule agree_world [OF _ register]) (intro keeps_auth_endpoints prog_keeps)+
next
  case (login w R ms E st now salt raw tid jti fam ip email pw)
  show ?case by (rule agree_world [OF _ login]) (intro keeps_auth_endpoints prog_keeps)+
next
  case (request_reset w R ms E st now ip email)
  show ?case by (rule agree_world [OF _ request_reset]) (intro keeps_auth_endpoints prog_keeps)+
next
  case (proxied w G isofmt fs clocks tx ids slug version path rq)
  show ?case by (rule agree_world [OF _ proxied]) (intro keeps_proxy prog_keeps)+
next
  case (publish w sink locked clk)
  then show ?case by (rule agree_publish)
qed (simp_all add: preservesD agree_endpoints agree_tenant_endpoints agree_rollup_task)

lemma reachable_agree: "reachable w \<Longrightarrow> keys_agree (w_db w)"
proof (induction rule: reachable.induct)
  case (start w)
  then show ?case by (simp add: owner_defs empty_db_def)
qed (use agree_step in blast)

section \<open>What a request can change\<close>

definition tenant_rest where
  "tenant_rest oid d = (filter (\<lambda>r. o_id r = oid) (db_orgs d), filter (\<lambda>m. m_organization_id m = oid) (db_members d),
     filter (\<lambda>g. g_organization_id g = oid) (db_logs d), filter (\<lambda>u. du_organization_id u = oid) (db_daily d),
     filter (\<lambda>a. al_organization_id a = Some oid) (db_audit d))"

lemma tenant_view_iff: "tenant_view oid d' = tenant_view oid d \<longleftrightarrow> tenant_rest oid d' = tenant_rest oid d \<and> org_view oid d' = org_view oid d"
  by (auto simp: tenant_view_def tenant_rest_def)

lemma rest_rows [simp]:
  "tenant_rest oid (d\<lparr>db_apis := x1\<rparr>) = tenant_rest oid d" "tenant_rest oid (d\<lparr>db_versions := x2\<rparr>) = tenant_rest oid d"
  "tenant_rest oid (d\<lparr>db_quotas := x3\<rparr>) = tenant_rest oid d" "tenant_rest oid (d\<lparr>db_rules := x4\<rparr>) = tenant_rest oid d"
  "tenant_rest oid (d\<lparr>db_keys := x5\<rparr>) = tenant_rest oid d" "tenant_rest oid (d\<lparr>db_outbox := x6\<rparr>) = tenant_rest oid d"
  "tenant_rest oid (d\<lparr>db_notes := x7\<rparr>) = tenant_rest oid d" "tenant_rest oid (delete_apis_where P d) = tenant_rest oid d"
  by (simp_all add: tenant_rest_def delete_apis_where_def delete_keys_where_def Let_def)

lemma view_rows [simp]:
  "org_view oid (d\<lparr>db_orgs := x1\<rparr>) = org_view oid d" "org_view oid (d\<lparr>db_members := x2\<rparr>) = org_view oid d"
  "org_view oid (d\<lparr>db_audit := x3\<rparr>) = org_view oid d" "org_view oid (d\<lparr>db_outbox := x4\<rparr>) = org_view oid d"
  "org_view oid (d\<lparr>db_notes := x5\<rparr>) = org_view oid d"
  by (simp_all add: org_view_defs)

lemma rest_add [prog_keeps]:
  "preserves (\<lambda>d. tenant_rest oid d = T) (add_api a)" "preserves (\<lambda>d. tenant_rest oid d = T) (add_version_row v)"
  "preserves (\<lambda>d. tenant_rest oid d = T) (add_quota q)" "preserves (\<lambda>d. tenant_rest oid d = T) (add_rule l)"
  "preserves (\<lambda>d. tenant_rest oid d = T) (add_key k)" "preserves (\<lambda>d. tenant_rest oid d = T) (add_outbox b)"
  "preserves (\<lambda>d. tenant_rest oid d = T) (add_note n)" "preserves (\<lambda>d. tenant_rest oid d = T) (set_key i h)"
  "preserves (\<lambda>d. tenant_rest oid d = T) (delete_quota_row qid)"
  unfolding add_defs thenP_def set_key_def delete_quota_row_def
  by (intro preserves_bindP preserves_raise_if preserves_insert_row preserves_modifyP; simp)+

lemma rest_catalogue:
  "preserves (\<lambda>d. tenant_rest oid' d = T) (create_api now aid oid name slug desc)"
  "preserves (\<lambda>d. tenant_rest oid' d = T) (update_api oid aid nm ds act)"
  "preserves (\<lambda>d. tenant_rest oid' d = T) (delete_api oid aid)"
  "preserves (\<lambda>d. tenant_rest oid' d = T) (add_version now vid oid aid ver url active)"
  "preserves (\<lambda>d. tenant_rest oid' d = T) (delete_version oid aid vid)"
  "preserves (\<lambda>d. tenant_rest oid' d = T) (set_quotas oid aid wanted)"
  "preserves (\<lambda>d. tenant_rest oid' d = T) (set_rate_limit lid oid aid al n win burst)"
  unfolding create_api_def update_api_def delete_api_def add_version_def delete_version_def set_quotas_def
    set_rate_limit_def Let_def split_beta
  by (intro prog_keeps preserves_modifyP reads_repo(1); simp)+

lemma rest_create_key [prog_keeps]: "preserves (\<lambda>d. tenant_rest oid' d = T) (create_key E now kd oid aid name ex cby)"
  unfolding create_key_def Let_def by (intro prog_keeps)

lemma rest_keys [prog_keeps]:
  "preserves (\<lambda>d. tenant_rest oid' d = T) (revoke_key now oid aid kid)"
  "preserves (\<lambda>d. tenant_rest oid' d = T) (rotate_key E t0 now kd oid aid kid grace cby)"
  unfolding revoke_key_def rotate_key_def by (intro prog_keeps reads_preserves [OF reads_get_key])+

lemma apart_audit:
  assumes "oid' \<noteq> oid"
  shows "preserves (\<lambda>d. tenant_rest oid' d = T) (record_audit isofmt now aid eid obid act rt (Some oid) actor rid ip meta)"
    and "preserves (\<lambda>d. org_view oid' d = V) (record_audit isofmt now aid eid obid act rt (Some oid) actor rid ip meta)"
  unfolding record_audit_def emit_def add_defs thenP_def Let_def
  by (intro preserves_bindP preserves_raise_if preserves_insert_row; use assms in \<open>simp add: tenant_rest_def\<close>)+


lemma filter_update_in:
  "(\<And>x. x \<in> set xs \<Longrightarrow> P x \<Longrightarrow> \<not> Q x \<and> \<not> Q (f x)) \<Longrightarrow> filter Q (update_where P f xs) = filter Q xs"
  by (induction xs) (auto simp: update_where_def)

text \<open>Keys.\<close>

lemma view_set_key:
  assumes "db_ok d" "k \<in> set (db_keys d)" "k_api_id k \<notin> org_api_ids oid d" "\<And>x. k_api_id (f x) = k_api_id x"
  shows "org_view oid (snd (set_key (k_id k) f d)) = org_view oid d"
proof -
  have "distinct (map k_id (db_keys d))" using db_okD(10) [OF assms(1)] by (simp add: keys_ok_def)
  then have "x = k" if "x \<in> set (db_keys d)" "k_id x = k_id k" for x
    using unique_row that assms(2) by metis
  then have "filter (\<lambda>x. k_api_id x \<in> org_api_ids oid d) (update_where (\<lambda>x. k_id x = k_id k) f (db_keys d)) =
      filter (\<lambda>x. k_api_id x \<in> org_api_ids oid d) (db_keys d)"
    using assms(3,4) by (intro filter_update_in) auto
  then show ?thesis by (simp add: set_key_def prog_simps org_view_defs)
qed

lemma view_create_key:
  assumes "db_ok d" "oid' \<noteq> oid" "create_key E now kd oid aid name ex cby d = (Inr r, d')"
  shows "org_view oid' d' = org_view oid' d" "\<exists>k. d' = d\<lparr>db_keys := db_keys d @ [k]\<rparr>" "org_api_ids oid' d' = org_api_ids oid' d"
proof -
  obtain a where a: "get_api oid aid d = (Inr a, d)"
    using assms(3) reads_run [OF reads_get_api] by (auto simp: create_key_def thenP_def elim!: bindP_Inr)
  then obtain k where d': "d' = d\<lparr>db_keys := db_keys d @ [k]\<rparr>" "k_api_id k = aid"
    using assms(3) by (auto simp: create_key_def add_key_def prog_simps Let_def split: if_splits)
  have "aid \<notin> org_api_ids oid' d" using get_api_foreign [OF assms(1) a assms(2)] by simp
  then show "org_view oid' d' = org_view oid' d" using d' by (simp add: org_view_defs)
  show "\<exists>k. d' = d\<lparr>db_keys := db_keys d @ [k]\<rparr>" using d'(1) by blast
  show "org_api_ids oid' d' = org_api_ids oid' d" using d' by (simp add: org_view_defs)
qed

lemma foreign_key:
  assumes "db_ok d" "oid' \<noteq> oid" "get_key oid aid kid d = (Inr k, d')"
  shows "d' = d" "k \<in> set (db_keys d)" "k_api_id k \<notin> org_api_ids oid' d"
proof -
  show "d' = d" using reads_run [OF reads_get_key assms(3)] .
  obtain a where a: "get_api oid aid d = (Inr a, d)"
    using assms(3) reads_run [OF reads_get_api] by (auto simp: get_key_def thenP_def elim!: bindP_Inr)
  show "k \<in> set (db_keys d)" "k_api_id k \<notin> org_api_ids oid' d"
    using get_key_found [OF assms(1,3)] get_api_foreign [OF assms(1) a assms(2)] by simp_all
qed

lemma view_revoke_key:
  assumes "db_ok d" "oid' \<noteq> oid" "revoke_key now oid aid kid d = (Inr r, d')"
  shows "org_view oid' d' = org_view oid' d"
proof -
  obtain k d1 where g: "get_key oid aid kid d = (Inr k, d1)"
      and run: "(if k_revoked_at k = None then set_key (k_id k) (\<lambda>k. k\<lparr>k_revoked_at := Some now\<rparr>) else ret ()) d1 = (Inr r, d')"
    using assms(3) unfolding revoke_key_def by (elim bindP_Inr)
  note k = foreign_key [OF assms(1,2) g]
  show ?thesis
    using run view_set_key [OF assms(1) k(2,3), of "\<lambda>k. k\<lparr>k_revoked_at := Some now\<rparr>"] k(1)
    by (auto simp: prog_simps split: if_splits)
qed

lemma view_rotate_key:
  assumes "db_ok d" "oid' \<noteq> oid" "rotate_key E t0 now kd oid aid kid grace cby d = (Inr r, d')"
  shows "org_view oid' d' = org_view oid' d"
proof -
  obtain k where g: "get_key oid aid kid d = (Inr k, d)"
    using assms(3) reads_run [OF reads_get_key] by (auto simp: rotate_key_def elim!: bindP_Inr)
  note k = foreign_key [OF assms(1,2) g]
  obtain i d1 where c: "create_key E t0 kd oid aid (k_name k) None cby d = (Inr i, d1)"
      and s: "d' = snd (set_key (k_id k) (retire now grace (k_id (ik_record i))) d1)"
    using assms(3) by (auto simp: rotate_key_def g prog_simps split: if_splits sum.splits prod.splits)
  have "db_ok d1" using preservesD [OF db_ok_create_key assms(1)] c by (metis snd_conv)
  moreover have "k \<in> set (db_keys d1)" using view_create_key(2) [OF assms(1,2) c] k(2) by auto
  ultimately have "org_view oid' d' = org_view oid' d1"
    unfolding s using k(3) view_create_key(3) [OF assms(1,2) c]
    by (intro view_set_key) (simp_all add: retire_def Let_def)
  then show ?thesis using view_create_key(1) [OF assms(1,2) c] by simp
qed

text \<open>Deleting an organization takes nothing of another's catalogue.\<close>

lemma view_delete_org:
  assumes "db_ok d" "keys_agree d" "oid' \<noteq> oid"
  shows "org_view oid' (delete_org_row oid d) = org_view oid' d"
proof -
  let ?gone = "a_id ` {a \<in> set (db_apis d). a_organization_id a = oid}"
  have dis: "i \<notin> ?gone" if "i \<in> org_api_ids oid' d" for i
    using foreign_api [OF assms(1), where oid = oid'] that assms(3) by auto
  have keyorg: "k_organization_id k \<noteq> oid" if "k \<in> set (db_keys d)" "k_api_id k \<in> org_api_ids oid' d" for k
  proof
    assume "k_organization_id k = oid"
    moreover have "(k_api_id k, k_organization_id k) \<in> api_owners d"
      using assms(2) that(1) by (auto simp: keys_agree_def key_owners_def)
    ultimately obtain a where "a \<in> set (db_apis d)" "a_id a = k_api_id k" "a_organization_id a = oid"
      by (auto simp: api_owners_def)
    then have "k_api_id k \<in> ?gone" by (metis (mono_tags, lifting) image_eqI mem_Collect_eq)
    then show False using dis [OF that(2)] by contradiction
  qed
  have apis: "apis_of_org oid' (delete_org_row oid d) = apis_of_org oid' d"
    using assms(3)
    by (auto simp: apis_of_org_def delete_org_row_def delete_apis_where_def delete_keys_where_def Let_def
        intro!: filter_delete_where)
  have children: "filter (\<lambda>x. f x \<in> org_api_ids oid' d) (delete_where (\<lambda>x. f x \<in> ?gone) xs) =
      filter (\<lambda>x. f x \<in> org_api_ids oid' d) xs" for f :: "'x \<Rightarrow> uuid" and xs
    by (rule filter_delete_where) (use dis in blast)
  have keys: "filter (\<lambda>k. k_api_id k \<in> org_api_ids oid' d) (delete_where (\<lambda>k. k_organization_id k = oid)
      (delete_where (\<lambda>k. k_api_id k \<in> ?gone) (db_keys d))) = filter (\<lambda>k. k_api_id k \<in> org_api_ids oid' d) (db_keys d)"
    by (subst filter_delete_where) (use keyorg in \<open>auto simp: table_simps children\<close>)
  show ?thesis
    unfolding org_view_def org_api_ids_def apis
    unfolding org_api_ids_def [symmetric]
    by (simp add: delete_org_row_def delete_apis_where_def delete_keys_where_def Let_def children keys)
qed

text \<open>Members.\<close>

lemma get_member_found:
  "get_member oid mid d = (Inr m, d') \<Longrightarrow> d' = d \<and> m \<in> set (db_members d) \<and> m_organization_id m = oid"
  by (auto simp: get_member_def prog_simps split: option.splits if_splits dest: find_SomeD)

lemma rest_members:
  assumes "filter (\<lambda>m. m_organization_id m = oid') ms = filter (\<lambda>m. m_organization_id m = oid') (db_members d)"
  shows "tenant_rest oid' (d\<lparr>db_members := ms\<rparr>) = tenant_rest oid' d"
  using assms by (simp add: tenant_rest_def)

lemma rest_one_member:
  assumes "db_ok d" "oid' \<noteq> oid" "m \<in> set (db_members d)" "m_organization_id m = oid"
  shows "tenant_rest oid' (snd (set_member_role (m_id m) rid d)) = tenant_rest oid' d"
    and "tenant_rest oid' (snd (delete_member_row (m_id m) d)) = tenant_rest oid' d"
proof -
  have "distinct (map m_id (db_members d))" using db_okD(5) [OF assms(1)] by (simp add: members_ok_def)
  then have one: "x = m" if "x \<in> set (db_members d)" "m_id x = m_id m" for x
    using unique_row that assms(3) by metis
  show "tenant_rest oid' (snd (set_member_role (m_id m) rid d)) = tenant_rest oid' d"
    using one assms(2,4) by (simp add: set_member_role_def prog_simps) (intro rest_members filter_update_in; auto)
  show "tenant_rest oid' (snd (delete_member_row (m_id m) d)) = tenant_rest oid' d"
    using one assms(2,4) by (simp add: delete_member_row_def prog_simps) (intro rest_members filter_delete_where; auto)
qed

lemma apart_members:
  assumes "db_ok d" "oid' \<noteq> oid"
  shows "update_member_role oid mid role d = (Inr x, d') \<Longrightarrow> tenant_view oid' d' = tenant_view oid' d"
    and "remove_member oid mid d = (Inr y, d') \<Longrightarrow> tenant_view oid' d' = tenant_view oid' d"
    and "add_member_to_org now mid oid email role d = (Inr z, d') \<Longrightarrow> tenant_view oid' d' = tenant_view oid' d"
proof -
  have reads: "reads (get_member oid mid)" "reads (role_id_of r)"
    "reads (if b then bindP (count_with_role oid i) (\<lambda>n. raise_if (n \<le> 1) e) else ret ())" for r i b e
    by (intro prog_keeps)+
  note same = reads_run [OF reads(1)] reads_run [OF reads(2)] reads_run [OF reads(3)]
  show "tenant_view oid' d' = tenant_view oid' d" if "update_member_role oid mid role d = (Inr x, d')"
    using that unfolding update_member_role_def thenP_def
  proof (elim bindP_Inr)
    fix m d1 orid d2 u d3 rid d4 u' d5
    assume g: "get_member oid mid d = (Inr m, d1)" and "role_id_of OWNER d1 = (Inr orid, d2)"
      "(if m_role_id m = orid \<and> role \<noteq> OWNER then bindP (count_with_role oid orid) (\<lambda>owners. raise_if (owners \<le> 1)
        (err ValidationAppError ''Cannot demote the last owner of the organization.'')) else ret ()) d2 = (Inr u, d3)"
      "role_id_of role d3 = (Inr rid, d4)"
      and w: "set_member_role (m_id m) rid d4 = (Inr u', d5)" "ret (m\<lparr>m_role_id := rid\<rparr>) d5 = (Inr x, d')"
    then have "d4 = d" using same(1) same(2) same(3) by blast
    then show ?thesis
      using w rest_one_member(1) [OF assms, of m rid] get_member_found [OF g]
      by (auto simp: tenant_view_iff set_member_role_def prog_simps)
  qed
  show "tenant_view oid' d' = tenant_view oid' d" if "remove_member oid mid d = (Inr y, d')"
    using that unfolding remove_member_def thenP_def
  proof (elim bindP_Inr)
    fix m d1 orid d2 u d3
    assume g: "get_member oid mid d = (Inr m, d1)" and "role_id_of OWNER d1 = (Inr orid, d2)"
      "(if m_role_id m = orid then bindP (count_with_role oid orid) (\<lambda>owners. raise_if (owners \<le> 1)
        (err ValidationAppError ''Cannot remove the last owner of the organization.'')) else ret ()) d2 = (Inr u, d3)"
      and w: "delete_member_row (m_id m) d3 = (Inr y, d')"
    then have "d3 = d" using same(1) same(2) same(3) by blast
    then show ?thesis
      using w rest_one_member(2) [OF assms, of m] get_member_found [OF g]
      by (auto simp: tenant_view_iff delete_member_row_def prog_simps)
  qed
  have "preserves (\<lambda>d. tenant_view oid' d = T) (add_member m)" if "m_organization_id m = oid" for m T
    unfolding add_member_def
    by (rule preserves_insert_row) (use that assms(2) in \<open>simp add: tenant_view_def\<close>)
  then have "preserves (\<lambda>e. tenant_view oid' e = tenant_view oid' d) (add_member_to_org now mid oid email role)"
    unfolding add_member_to_org_def Let_def
    by (intro preserves_bindP preserves_case_option preserves_thenP preserves_raise preserves_raise_if preserves_ret
        reads_preserves [OF reads(2)] reads_preserves [OF reads_lookups(1)] reads_preserves [OF reads_org(4)]) simp
  then show "tenant_view oid' d' = tenant_view oid' d" if "add_member_to_org now mid oid email role d = (Inr z, d')"
    using that preservesD by fastforce
qed


lemma answer_state [simp]: "snd (answer f m d) = snd (m d)"
  by (auto simp: answer_def prog_simps split: prod.splits sum.splits)

lemma apart_catalogue:
  assumes "db_ok d" "oid' \<noteq> oid"
  shows "tenant_view oid' (snd (create_api_endpoint E st now cred aid oid name slug desc d)) = tenant_view oid' d"
    and "tenant_view oid' (snd (update_api_endpoint E st now cred oid aid nm ds act d)) = tenant_view oid' d"
    and "tenant_view oid' (snd (delete_api_endpoint E st now cred oid aid d)) = tenant_view oid' d"
    and "tenant_view oid' (snd (add_version_endpoint E st now cred vid oid aid ver url b d)) = tenant_view oid' d"
    and "tenant_view oid' (snd (delete_version_endpoint E st now cred oid aid vid d)) = tenant_view oid' d"
    and "tenant_view oid' (snd (set_quota_endpoint E st now cred oid aid wanted d)) = tenant_view oid' d"
    and "tenant_view oid' (snd (set_rate_limit_endpoint E st now cred lid oid aid al n w burst d)) = tenant_view oid' d"
proof -
  have rest: "tenant_rest oid' (snd (authorized E st now cred perm oid body d)) = tenant_rest oid' d"
    if "\<And>u. preserves (\<lambda>e. tenant_rest oid' e = tenant_rest oid' d) (body u)" for perm and body :: "user \<Rightarrow> 'x dbprog"
    by (rule preservesD [OF preserves_authorized]) (use that in auto)
  have rests: "tenant_rest oid' (snd (create_api_endpoint E st now cred aid oid name slug desc d)) = tenant_rest oid' d"
    "tenant_rest oid' (snd (update_api_endpoint E st now cred oid aid nm ds act d)) = tenant_rest oid' d"
    "tenant_rest oid' (snd (delete_api_endpoint E st now cred oid aid d)) = tenant_rest oid' d"
    "tenant_rest oid' (snd (add_version_endpoint E st now cred vid oid aid ver url b d)) = tenant_rest oid' d"
    "tenant_rest oid' (snd (delete_version_endpoint E st now cred oid aid vid d)) = tenant_rest oid' d"
    "tenant_rest oid' (snd (set_quota_endpoint E st now cred oid aid wanted d)) = tenant_rest oid' d"
    "tenant_rest oid' (snd (set_rate_limit_endpoint E st now cred lid oid aid al n w burst d)) = tenant_rest oid' d"
    unfolding endpoint_defs by (intro rest preserves_bindP preserves_ret rest_catalogue reads_preserves [OF reads_catalog(8)])+
  show "tenant_view oid' (snd (create_api_endpoint E st now cred aid oid name slug desc d)) = tenant_view oid' d"
    by (simp add: tenant_view_iff rests tenants_isolated [OF assms])
  show "tenant_view oid' (snd (update_api_endpoint E st now cred oid aid nm ds act d)) = tenant_view oid' d"
    by (simp add: tenant_view_iff rests tenants_isolated [OF assms])
  show "tenant_view oid' (snd (delete_api_endpoint E st now cred oid aid d)) = tenant_view oid' d"
    by (simp add: tenant_view_iff rests tenants_isolated [OF assms])
  show "tenant_view oid' (snd (add_version_endpoint E st now cred vid oid aid ver url b d)) = tenant_view oid' d"
    by (simp add: tenant_view_iff rests tenants_isolated [OF assms])
  show "tenant_view oid' (snd (delete_version_endpoint E st now cred oid aid vid d)) = tenant_view oid' d"
    by (simp add: tenant_view_iff rests tenants_isolated [OF assms])
  show "tenant_view oid' (snd (set_quota_endpoint E st now cred oid aid wanted d)) = tenant_view oid' d"
    by (simp add: tenant_view_iff rests tenants_isolated [OF assms])
  show "tenant_view oid' (snd (set_rate_limit_endpoint E st now cred lid oid aid al n w burst d)) = tenant_view oid' d"
    by (simp add: tenant_view_iff rests tenants_isolated [OF assms])
qed

lemma apart_then_audit:
  assumes "oid' \<noteq> oid" "tenant_view oid' d1 = V"
    and "record_audit isofmt now aid eid obid act rt (Some oid) actor rid ip meta d1 = (Inr u, d2)"
  shows "tenant_view oid' d2 = V"
proof -
  let ?m = "record_audit isofmt now aid eid obid act rt (Some oid) actor rid ip meta"
  have "tenant_rest oid' (snd (?m d1)) = tenant_rest oid' d1" by (rule preservesD [OF apart_audit(1) [OF assms(1)] refl])
  moreover have "org_view oid' (snd (?m d1)) = org_view oid' d1" by (rule preservesD [OF apart_audit(2) [OF assms(1)] refl])
  ultimately show ?thesis using assms(2,3) tenant_view_iff [of oid' d2 d1] by simp
qed

lemma apart_keys:
  assumes "db_ok d" "oid' \<noteq> oid"
  shows "tenant_view oid' (snd (create_key_endpoint E st isofmt now cred kd ai ip oid aid name ex d)) = tenant_view oid' d"
    and "tenant_view oid' (snd (rotate_key_endpoint E st isofmt now cred kd ai ip oid aid kid grace d)) = tenant_view oid' d"
    and "tenant_view oid' (snd (revoke_key_endpoint E st isofmt now cred ai ip oid aid kid d)) = tenant_view oid' d"
proof -
  let ?P = "\<lambda>e. tenant_view oid' e = tenant_view oid' d"
  have rest: "tenant_rest oid' d' = tenant_rest oid' d"
    if "m d = (Inr x, d')" "preserves (\<lambda>e. tenant_rest oid' e = tenant_rest oid' d) m" for m :: "'y dbprog" and x d'
    using preservesD [OF that(2) refl] that(1) by simp
  show "?P (snd (create_key_endpoint E st isofmt now cred kd ai ip oid aid name ex d))"
    unfolding create_key_endpoint_def
  proof (rule authorized_invariant [where P = ?P, OF refl], unfold thenP_def, elim bindP_Inr)
    fix u x d' i d1 v d2
    assume c: "create_key E now kd oid aid name ex (Some (u_id u)) d = (Inr i, d1)"
      and a: "record_audit isofmt now (ai_row ai) (ai_event ai) (ai_outbox ai) ''api_key.create'' ''api_key''
        (Some oid) (Some (u_id u)) (Some (k_id (ik_record i))) (Some ip) (Some [(''api_id'', JStr (uuid_str aid))]) d1 = (Inr v, d2)"
      and "ret (key_response_of (ik_record i), ik_full_key i) d2 = (Inr x, d')"
    moreover have "?P d1"
      using rest [OF c rest_create_key] view_create_key(1) [OF assms c] by (simp add: tenant_view_iff)
    ultimately show "?P d'" using apart_then_audit [OF assms(2) _ a] by (simp add: prog_simps)
  qed
  show "?P (snd (rotate_key_endpoint E st isofmt now cred kd ai ip oid aid kid grace d))"
    unfolding rotate_key_endpoint_def
  proof (rule authorized_invariant [where P = ?P, OF refl], unfold thenP_def, elim bindP_Inr)
    fix u x d' i d1 v d2
    assume c: "rotate_key E now now kd oid aid kid grace (Some (u_id u)) d = (Inr i, d1)"
      and a: "record_audit isofmt now (ai_row ai) (ai_event ai) (ai_outbox ai) ''api_key.rotate'' ''api_key''
        (Some oid) (Some (u_id u)) (Some kid) (Some ip) (Some [(''new_key_id'', JStr (uuid_str (k_id (ik_record i))))]) d1 = (Inr v, d2)"
      and "ret (key_response_of (ik_record i), ik_full_key i) d2 = (Inr x, d')"
    moreover have "?P d1"
      using rest [OF c rest_keys(2)] view_rotate_key [OF assms c] by (simp add: tenant_view_iff)
    ultimately show "?P d'" using apart_then_audit [OF assms(2) _ a] by (simp add: prog_simps)
  qed
  show "?P (snd (revoke_key_endpoint E st isofmt now cred ai ip oid aid kid d))"
    unfolding revoke_key_endpoint_def
  proof (rule authorized_invariant [where P = ?P, OF refl], unfold thenP_def, elim bindP_Inr)
    fix u x d' i d1
    assume c: "revoke_key now oid aid kid d = (Inr i, d1)"
      and a: "record_audit isofmt now (ai_row ai) (ai_event ai) (ai_outbox ai) ''api_key.revoke'' ''api_key''
        (Some oid) (Some (u_id u)) (Some kid) (Some ip) None d1 = (Inr x, d')"
    have "?P d1" using rest [OF c rest_keys(1)] view_revoke_key [OF assms c] by (simp add: tenant_view_iff)
    then show "?P d'" using apart_then_audit [OF assms(2) _ a] by simp
  qed
qed

lemma apart_organizations:
  assumes "db_ok d" "keys_agree d" "oid' \<noteq> oid"
  shows "tenant_view oid' (snd (update_organization_endpoint E st now cred oid name d)) = tenant_view oid' d"
    and "tenant_view oid' (snd (delete_organization_endpoint E st now cred oid d)) = tenant_view oid' d"
    and "tenant_view oid' (snd (add_member_endpoint E st now cred oid mid nid email role d)) = tenant_view oid' d"
    and "tenant_view oid' (snd (update_member_role_endpoint E st now cred oid mid role d)) = tenant_view oid' d"
    and "tenant_view oid' (snd (remove_member_endpoint E st now cred oid mid d)) = tenant_view oid' d"
proof -
  let ?P = "\<lambda>e. tenant_view oid' e = tenant_view oid' d"
  note members = apart_members [OF assms(1,3)]
  have rename: "filter (\<lambda>r. o_id r = oid') (update_where (\<lambda>x. o_id x = i) f xs) = filter (\<lambda>r. o_id r = oid') xs"
    if "oid' \<noteq> i" "\<And>x. o_id (f x) = o_id x" for f xs i
    by (rule filter_update_in) (use that in auto)
  have drop: "filter (\<lambda>r. g r = oid') (delete_where (\<lambda>r. g r = oid) xs) = filter (\<lambda>r. g r = oid') xs" for g :: "'x \<Rightarrow> uuid" and xs
    by (rule filter_delete_where) (use assms(3) in auto)
  show "?P (snd (update_organization_endpoint E st now cred oid name d))"
    unfolding update_organization_endpoint_def
    by (rule authorized_invariant [where P = ?P, OF refl])
       (use assms(3) in \<open>auto simp: update_organization_def get_organization_def prog_simps tenant_view_iff tenant_rest_def rename
         split: option.splits dest!: find_SomeD\<close>)
  have gone: "?P (delete_org_row oid d)"
    unfolding tenant_view_iff
    by (intro conjI view_delete_org [OF assms])
       (simp add: tenant_rest_def delete_org_row_def delete_apis_where_def delete_keys_where_def Let_def drop)
  have "d' = delete_org_row oid d" if "delete_organization oid d = (Inr x, d')" for x d'
    using that by (auto simp: delete_organization_def get_organization_def prog_simps split: option.splits dest!: find_SomeD)
  then show "?P (snd (delete_organization_endpoint E st now cred oid d))"
    unfolding delete_organization_endpoint_def
    by (intro authorized_invariant [where P = ?P, OF refl]) (use gone in blast)
  have noted: "preserves ?P (create_notification now nid i t1 t2 t3 org)" for i t1 t2 t3 org
    unfolding create_notification_def add_note_def Let_def
    by (intro preserves_bindP preserves_thenP preserves_ret preserves_insert_row) (simp_all add: tenant_view_iff)
  show "?P (snd (add_member_endpoint E st now cred oid mid nid email role d))"
    unfolding add_member_endpoint_def
  proof (rule authorized_invariant [where P = ?P, OF refl], elim bindP_Inr)
    fix u x d' and m :: organization_member and d1 nm d2
    let ?n = "create_notification now nid (m_user_id m) ''member.added'' ''You were added to an organization''
      (''You now have the '' @ [CHR 39] @ nm @ [CHR 39] @ '' role.'') (Some oid)"
    assume a: "add_member_to_org now mid oid email role d = (Inr m, d1)" "gets (\<lambda>d. role_name_of d (m_role_id m)) d1 = (Inr nm, d2)"
      "thenP ?n (ret m) d2 = (Inr x, d')"
    have "?P d2" using members(3) [OF a(1)] a(2) by (simp add: prog_simps)
    then show "?P d'" using preservesD [OF preserves_thenP [OF noted preserves_ret]] a(3) by (metis snd_conv)
  qed
  show "?P (snd (update_member_role_endpoint E st now cred oid mid role d))"
    unfolding update_member_role_endpoint_def
    by (rule authorized_invariant [where P = ?P, OF refl]) (rule members(1))
  show "?P (snd (remove_member_endpoint E st now cred oid mid d))"
    unfolding remove_member_endpoint_def
    by (rule authorized_invariant [where P = ?P, OF refl]) (rule members(2))
qed

text \<open>C6: no request to one organization changes another. In every state the platform can reach, a request
  below \<open>/organizations/{org_id}\<close>, whoever sends it and whatever ids it names (of APIs, versions, keys,
  members), leaves every other organization's row, members, catalogue, keys, logs, rollups and audit trail
  as they were, also when it deletes the organization with all that hangs off it.\<close>

theorem requests_stay_in_their_tenant:
  assumes "reachable w" "oid' \<noteq> oid"
  shows "tenant_view oid' (snd (handler c oid rq (w_db w))) = tenant_view oid' (w_db w)"
proof (cases "is_read rq")
  case True
  then have "snd (handler c oid rq (w_db w)) = w_db w" using reads_handler by (simp add: reads_def)
  then show ?thesis by simp
next
  case False
  have ok: "db_ok (w_db w)" using reachable_sound [OF assms(1)] by (simp add: sound_db_def)
  note apart = apart_catalogue [OF ok assms(2)] apart_keys [OF ok assms(2)]
    apart_organizations [OF ok reachable_agree [OF assms(1)] assms(2)]
  show ?thesis using False by (cases rq) (simp_all add: handler_def Let_def apart)
qed


text \<open>After \<open>first_steps\<close>, a second organization of the same user.\<close>

definition open_call :: call where
  "open_call = \<lparr>c_env = plain_env\<lparr>e_jwt_decode := (\<lambda>_ _ _ _ _. Inr [(''sub'', JStr (uuid_str 1)), (''type'', JStr ''access'')])\<rparr>,
     c_settings = default_settings, c_isofmt = (\<lambda>_. []), c_now = 0, c_nows = (\<lambda>_. 0), c_cred = Some ''t'', c_ip = ''::1''\<rparr>"

definition two_orgs :: "(unit, unit) platform" where
  "two_orgs = after_db (create_organization_endpoint (c_env open_call) default_settings 0 (Some ''t'') 9 10 ''Two'' None) first_steps"

lemma two_orgs_reachable: "reachable two_orgs"
  unfolding two_orgs_def by (rule reachable.step [OF first_steps_reachable create_org])

lemma two_orgs_run:
  "map o_slug (db_orgs (snd (handler open_call 9 DeleteOrg (w_db two_orgs)))) = [''org''] \<and>
   map o_slug (db_orgs (w_db two_orgs)) = [''org'', ''two'']"
  by code_simp

theorem requests_stay_in_their_tenant_witness:
  "tenant_view 7 (snd (handler open_call 9 DeleteOrg (w_db two_orgs))) = tenant_view 7 (w_db two_orgs) \<and>
    map o_slug (db_orgs (snd (handler open_call 9 DeleteOrg (w_db two_orgs)))) = [''org'']"
  using requests_stay_in_their_tenant [OF two_orgs_reachable, of 7 9 open_call DeleteOrg] two_orgs_run by simp

end
