(* ===== verification/Routing.thy ===== *)
theory Routing
  imports Slug "HOL-Library.Multiset"
begin

text \<open>
  \<open>main.py\<close> and \<open>api/router.py\<close>: the route table, from the decorators of the modules under \<open>app/api\<close>, in the
  order the application includes them, and the dispatch of Starlette over it (documented behaviour of the
  framework: the first route whose path and method match; a 405 when only a path matches; a redirect when the
  path with or without its trailing slash would; else a 404). The documentation pages FastAPI adds by itself
  are left out.
\<close>

section \<open>Paths\<close>

text \<open>\<open>{name}\<close> matches one piece, \<open>{name:path}\<close> the rest of the path.\<close>

datatype segment = Lit string | Param string | PathParam string

definition segments_of :: "string \<Rightarrow> string list" where
  "segments_of path = tl (split_on CHR ''/'' path)"

definition parse_segment :: "string \<Rightarrow> segment" where
  "parse_segment s =
     (if s \<noteq> [] \<and> hd s = CHR 123
      then (let name = butlast (tl s)
            in case split_on CHR '':'' name of [n, c] \<Rightarrow> PathParam n | _ \<Rightarrow> Param name)
      else Lit s)"

definition parse_template :: "string \<Rightarrow> segment list" where
  "parse_template t = map parse_segment (segments_of t)"

fun path_matches :: "segment list \<Rightarrow> string list \<Rightarrow> bool" where
  "path_matches [] [] \<longleftrightarrow> True"
| "path_matches [PathParam n] (s # ss) \<longleftrightarrow> True"
| "path_matches (Lit l # ps) (s # ss) \<longleftrightarrow> l = s \<and> path_matches ps ss"
| "path_matches (Param n # ps) (s # ss) \<longleftrightarrow> s \<noteq> [] \<and> path_matches ps ss"
| "path_matches _ _ \<longleftrightarrow> False"

section \<open>Routers\<close>

record route =
  rt_methods :: "string list"
  rt_path :: "segment list"
  rt_endpoint :: string

text \<open>A router: its prefix, and method, path and function of each decorator.\<close>

type_synonym router = "string \<times> (string list \<times> string \<times> string) list"

definition compiled :: "router \<Rightarrow> route list" where
  "compiled r = map (\<lambda>(ms, p, f). \<lparr>rt_methods = ms, rt_path = parse_template (fst r @ p), rt_endpoint = f\<rparr>) (snd r)"

definition brace :: "string \<Rightarrow> string" where
  "brace s = CHR 123 # s @ [CHR 125]"

definition health_router :: router where
  "health_router = ('''',
     [([''GET''], ''/health/live'', ''live''), ([''GET''], ''/health/ready'', ''ready''), ([''GET''], ''/health'', ''health'')])"

definition metrics_router :: router where
  "metrics_router = ('''', [([''GET''], ''/metrics'', ''metrics'')])"

definition auth_router :: router where
  "auth_router = (''/auth'',
     [([''POST''], ''/register'', ''register''), ([''POST''], ''/login'', ''login''), ([''POST''], ''/refresh'', ''refresh''),
      ([''POST''], ''/logout'', ''logout''), ([''GET''], ''/me'', ''me''), ([''POST''], ''/verify-email'', ''verify_email''),
      ([''POST''], ''/password-reset'', ''request_password_reset''),
      ([''POST''], ''/password-reset/confirm'', ''confirm_password_reset'')])"

definition organizations_router :: router where
  "organizations_router = (''/organizations'',
     [([''POST''], '''', ''create_organization''), ([''GET''], '''', ''list_organizations''),
      ([''GET''], ''/'' @ brace ''org_id'', ''get_organization''),
      ([''PATCH''], ''/'' @ brace ''org_id'', ''update_organization''),
      ([''DELETE''], ''/'' @ brace ''org_id'', ''delete_organization''),
      ([''GET''], ''/'' @ brace ''org_id'' @ ''/members'', ''list_members''),
      ([''POST''], ''/'' @ brace ''org_id'' @ ''/members'', ''add_member''),
      ([''PATCH''], ''/'' @ brace ''org_id'' @ ''/members/'' @ brace ''member_id'', ''update_member_role''),
      ([''DELETE''], ''/'' @ brace ''org_id'' @ ''/members/'' @ brace ''member_id'', ''remove_member'')])"

definition apis_router :: router where
  "apis_router = (''/organizations/'' @ brace ''org_id'' @ ''/apis'',
     [([''POST''], '''', ''create_api''), ([''GET''], '''', ''list_apis''),
      ([''GET''], ''/'' @ brace ''api_id'', ''get_api''), ([''PATCH''], ''/'' @ brace ''api_id'', ''update_api''),
      ([''DELETE''], ''/'' @ brace ''api_id'', ''delete_api''),
      ([''POST''], ''/'' @ brace ''api_id'' @ ''/versions'', ''add_version''),
      ([''DELETE''], ''/'' @ brace ''api_id'' @ ''/versions/'' @ brace ''version_id'', ''delete_version''),
      ([''PUT''], ''/'' @ brace ''api_id'' @ ''/quota'', ''set_quota''),
      ([''GET''], ''/'' @ brace ''api_id'' @ ''/quota'', ''get_quota''),
      ([''PUT''], ''/'' @ brace ''api_id'' @ ''/rate-limit'', ''set_rate_limit''),
      ([''GET''], ''/'' @ brace ''api_id'' @ ''/rate-limit'', ''get_rate_limit'')])"

definition api_keys_router :: router where
  "api_keys_router = (''/organizations/'' @ brace ''org_id'' @ ''/apis/'' @ brace ''api_id'' @ ''/keys'',
     [([''POST''], '''', ''create_key''), ([''GET''], '''', ''list_keys''),
      ([''POST''], ''/'' @ brace ''key_id'' @ ''/rotate'', ''rotate_key''),
      ([''DELETE''], ''/'' @ brace ''key_id'', ''revoke_key'')])"

definition audit_router :: router where
  "audit_router = (''/organizations/'' @ brace ''org_id'' @ ''/audit-logs'', [([''GET''], '''', ''list_audit_logs'')])"

definition analytics_router :: router where
  "analytics_router = (''/organizations/'' @ brace ''org_id'' @ ''/analytics'',
     [([''GET''], ''/summary'', ''summary''), ([''GET''], ''/top-endpoints'', ''top_endpoints''),
      ([''GET''], ''/status-breakdown'', ''status_breakdown''), ([''GET''], ''/timeseries'', ''timeseries''),
      ([''GET''], ''/top-keys'', ''top_keys'')])"

definition dashboard_router :: router where
  "dashboard_router = ('''',
     [([''GET''], ''/organizations/'' @ brace ''org_id'' @ ''/dashboard'', ''developer_dashboard''),
      ([''GET''], ''/admin/overview'', ''admin_overview'')])"

definition notifications_router :: router where
  "notifications_router = (''/notifications'',
     [([''GET''], '''', ''list_notifications''), ([''POST''], ''/'' @ brace ''notification_id'' @ ''/read'', ''mark_read''),
      ([''POST''], ''/read-all'', ''mark_all_read'')])"

definition request_logs_router :: router where
  "request_logs_router = (''/organizations/'' @ brace ''org_id'' @ ''/request-logs'',
     [([''GET''], '''', ''search_request_logs'')])"

definition gateway_router :: router where
  "gateway_router = (''/gw'',
     [([''GET'', ''POST'', ''PUT'', ''PATCH'', ''DELETE'', ''HEAD'', ''OPTIONS''],
       ''/'' @ brace ''api_slug'' @ ''/'' @ brace ''version'' @ ''/'' @ brace ''upstream_path:path'', ''proxy'')])"

text \<open>\<open>api_router\<close>, and the application with the root it declares after including it.\<close>

definition api_router :: "route list" where
  "api_router = concat (map compiled [health_router, metrics_router, auth_router, organizations_router, apis_router,
     api_keys_router, audit_router, analytics_router, dashboard_router, notifications_router, request_logs_router,
     gateway_router])"

definition app_routes :: "route list" where
  "app_routes = api_router @ compiled ('''', [([''GET''], ''/'', ''root'')])"

section \<open>Dispatch\<close>

datatype dispatched = Found string | MethodNotAllowed | Redirect string | Unknown

definition fully_matches :: "string \<Rightarrow> string \<Rightarrow> route \<Rightarrow> bool" where
  "fully_matches meth path r \<longleftrightarrow> path_matches (rt_path r) (segments_of path) \<and> meth \<in> set (rt_methods r)"

definition other_slash :: "string \<Rightarrow> string" where
  "other_slash path = (if path \<noteq> [] \<and> last path = CHR ''/'' then rstrip_by (\<lambda>c. c = CHR ''/'') path else path @ ''/'')"

definition dispatch :: "route list \<Rightarrow> string \<Rightarrow> string \<Rightarrow> dispatched" where
  "dispatch rs meth path =
     (case find (fully_matches meth path) rs of
        Some r \<Rightarrow> Found (rt_endpoint r)
      | None \<Rightarrow>
          if list_ex (\<lambda>r. path_matches (rt_path r) (segments_of path)) rs then MethodNotAllowed
          else if path \<noteq> ''/'' \<and> list_ex (\<lambda>r. path_matches (rt_path r) (segments_of (other_slash path))) rs
          then Redirect (other_slash path)
          else Unknown)"

section \<open>No path is claimed twice\<close>

text \<open>Whether some path matches both templates.\<close>

fun overlap :: "segment list \<Rightarrow> segment list \<Rightarrow> bool" where
  "overlap [] [] \<longleftrightarrow> True"
| "overlap (PathParam n # ps) (q # qs) \<longleftrightarrow> True"
| "overlap (p # ps) (PathParam n # qs) \<longleftrightarrow> True"
| "overlap (Lit a # ps) (Lit b # qs) \<longleftrightarrow> a = b \<and> overlap ps qs"
| "overlap (Lit a # ps) (Param n # qs) \<longleftrightarrow> a \<noteq> [] \<and> overlap ps qs"
| "overlap (Param n # ps) (Lit b # qs) \<longleftrightarrow> b \<noteq> [] \<and> overlap ps qs"
| "overlap (Param n # ps) (Param k # qs) \<longleftrightarrow> overlap ps qs"
| "overlap _ _ \<longleftrightarrow> False"

lemma overlap_if: "path_matches ps ss \<Longrightarrow> path_matches qs ss \<Longrightarrow> overlap ps qs"
  by (induction ps qs arbitrary: ss rule: overlap.induct) (auto elim: path_matches.elims)

definition clash :: "route \<Rightarrow> route \<Rightarrow> bool" where
  "clash r q \<longleftrightarrow> overlap (rt_path r) (rt_path q) \<and> list_ex (\<lambda>m. m \<in> set (rt_methods q)) (rt_methods r)"

fun clash_free :: "route list \<Rightarrow> bool" where
  "clash_free [] \<longleftrightarrow> True"
| "clash_free (r # rs) \<longleftrightarrow> \<not> list_ex (clash r) rs \<and> clash_free rs"

lemma clash_free_app: "clash_free app_routes"
  by code_simp

lemma one_match:
  "clash_free rs \<Longrightarrow> r \<in> set rs \<Longrightarrow> q \<in> set rs \<Longrightarrow> fully_matches m p r \<Longrightarrow> fully_matches m p q \<Longrightarrow> r = q"
proof (induction rs)
  case (Cons x rs)
  have "clash r q" if "fully_matches m p r" "fully_matches m p q" for r q
    using that overlap_if [of "rt_path r" "segments_of p" "rt_path q"]
    by (auto simp: fully_matches_def clash_def list_ex_iff)
  then show ?case using Cons by (auto simp: list_ex_iff)
qed simp

lemma find_only:
  assumes "r \<in> set rs" "P r" "\<And>q. q \<in> set rs \<Longrightarrow> P q \<Longrightarrow> q = r"
  shows "find P rs = Some r"
proof (cases "find P rs")
  case None
  then show ?thesis using assms(1,2) by (simp add: find_None_iff)
next
  case (Some q)
  then show ?thesis using assms(3) find_SomeD [OF Some] by simp
qed

lemma dispatch_found: "r \<in> set app_routes \<Longrightarrow> fully_matches m p r \<Longrightarrow> dispatch app_routes m p = Found (rt_endpoint r)"
proof -
  assume r: "r \<in> set app_routes" "fully_matches m p r"
  have "find (fully_matches m p) app_routes = Some r"
    by (rule find_only [where P = "fully_matches m p", OF r]) (rule one_match [OF clash_free_app _ r(1) _ r(2)])
  then show ?thesis by (simp add: dispatch_def)
qed

text \<open>The order in which the routers are included does not matter. However the routes are ordered, every
  request is dispatched the same way, because no method and path belong to two of them; in particular no
  route with a parameter shadows a fixed one, and the gateway's catch-all takes nothing from the API.\<close>

theorem include_order_irrelevant:
  assumes "mset rs = mset app_routes"
  shows "dispatch rs meth path = dispatch app_routes meth path"
proof -
  have same: "set rs = set app_routes" by (rule mset_eq_setD [OF assms])
  have "find (fully_matches meth path) rs = find (fully_matches meth path) app_routes"
  proof (cases "find (fully_matches meth path) app_routes")
    case None
    then have "find (fully_matches meth path) rs = None" using same by (simp add: find_None_iff)
    then show ?thesis using None by simp
  next
    case (Some r)
    then have r: "r \<in> set app_routes" "fully_matches meth path r" using find_SomeD by fastforce+
    have "find (fully_matches meth path) rs = Some r"
    proof (rule find_only)
      show "r \<in> set rs" "fully_matches meth path r" using r same by simp_all
      show "q = r" if "q \<in> set rs" "fully_matches meth path q" for q
        by (rule one_match [OF clash_free_app _ r(1) that(2) r(2)]) (use that(1) same in simp)
    qed
    then show ?thesis using Some by simp
  qed
  moreover have "list_ex P rs = list_ex P app_routes" for P using same by (simp add: list_ex_iff)
  ultimately show ?thesis by (simp only: dispatch_def)
qed

theorem include_order_irrelevant_witness:
  "dispatch (rev app_routes) ''POST'' ''/notifications/read-all'' = Found ''mark_all_read'' \<and>
   dispatch (rev app_routes) ''PUT'' ''/auth/login'' = MethodNotAllowed \<and>
   dispatch (rev app_routes) ''GET'' ''/health/'' = Redirect ''/health''"
proof -
  have "dispatch app_routes ''POST'' ''/notifications/read-all'' = Found ''mark_all_read'' \<and>
    dispatch app_routes ''PUT'' ''/auth/login'' = MethodNotAllowed \<and>
    dispatch app_routes ''GET'' ''/health/'' = Redirect ''/health''"
    by code_simp
  then show ?thesis using include_order_irrelevant [of "rev app_routes"] by simp
qed

section \<open>Every route is reached\<close>

text \<open>The path of a route with its parameters filled in.\<close>

fun url :: "segment list \<Rightarrow> string list \<Rightarrow> string" where
  "url (Lit l # ps) as = CHR ''/'' # l @ url ps as"
| "url (Param n # ps) (a # as) = CHR ''/'' # a @ url ps as"
| "url (PathParam n # ps) (a # as) = CHR ''/'' # a @ url ps as"
| "url _ _ = []"

fun fills :: "segment list \<Rightarrow> string list \<Rightarrow> bool" where
  "fills [] as \<longleftrightarrow> as = []"
| "fills (Lit l # ps) as \<longleftrightarrow> fills ps as"
| "fills (Param n # ps) (a # as) \<longleftrightarrow> a \<noteq> [] \<and> CHR ''/'' \<notin> set a \<and> fills ps as"
| "fills (PathParam n # ps) (a # as) \<longleftrightarrow> fills ps as"
| "fills _ _ \<longleftrightarrow> False"

text \<open>Fixed pieces have no slash, and a path parameter comes last.\<close>

fun well_shaped :: "segment list \<Rightarrow> bool" where
  "well_shaped [] \<longleftrightarrow> True"
| "well_shaped (Lit l # ps) \<longleftrightarrow> list_all (\<lambda>c. c \<noteq> CHR ''/'') l \<and> well_shaped ps"
| "well_shaped (Param n # ps) \<longleftrightarrow> well_shaped ps"
| "well_shaped (PathParam n # ps) \<longleftrightarrow> ps = []"

lemma shapes: "list_all (\<lambda>r. rt_path r \<noteq> [] \<and> well_shaped (rt_path r)) app_routes"
  by code_simp

lemma split_piece: "CHR ''/'' \<notin> set a \<Longrightarrow> split_on CHR ''/'' (a @ CHR ''/'' # s) = a # split_on CHR ''/'' s"
  by (simp add: split_on_append split_on_none)

lemma split_nonempty: "split_on d s \<noteq> []"
  by (induction s) (auto split: list.splits)

lemma url_starts: "url ps as \<noteq> [] \<Longrightarrow> \<exists>s. url ps as = CHR ''/'' # s"
  by (cases "(ps, as)" rule: url.cases) auto

lemma split_then_url:
  assumes "CHR ''/'' \<notin> set a"
  shows "split_on CHR ''/'' (a @ url ps as) = a # segments_of (url ps as)"
proof (cases "url ps as = []")
  case True
  then show ?thesis using assms by (simp add: split_on_none segments_of_def)
next
  case False
  then obtain s where "url ps as = CHR ''/'' # s" using url_starts by blast
  then show ?thesis using assms by (simp add: split_piece segments_of_def)
qed

lemma url_matches: "well_shaped ps \<Longrightarrow> fills ps as \<Longrightarrow> path_matches ps (segments_of (url ps as))"
proof (induction ps as rule: fills.induct)
  case (1 as)
  then show ?case by (simp add: segments_of_def)
next
  case (2 l ps as)
  then have "CHR ''/'' \<notin> set l" by (auto simp: list_all_iff)
  then show ?case using 2 split_then_url [of l ps as] by (simp add: segments_of_def)
next
  case (3 n ps a as)
  then show ?case using split_then_url [of a ps as] by (simp add: segments_of_def)
next
  case (4 n ps a as)
  obtain w ws where "split_on CHR ''/'' a = w # ws" using split_nonempty by (cases "split_on CHR ''/'' a") auto
  then show ?case using 4 by (simp add: segments_of_def)
qed simp_all

text \<open>C24: every declared route is reached. A request with one of the route's methods, to its path with the
  parameters filled in (no slash in them, except in what the gateway forwards), is dispatched to the route's
  own function.\<close>

theorem routes_reached:
  assumes "r \<in> set app_routes" "meth \<in> set (rt_methods r)" "fills (rt_path r) as"
  shows "dispatch app_routes meth (url (rt_path r) as) = Found (rt_endpoint r)"
proof -
  have "well_shaped (rt_path r)" using shapes assms(1) by (simp add: list_all_iff)
  then have "fully_matches meth (url (rt_path r) as) r"
    using url_matches assms(2,3) by (simp add: fully_matches_def)
  then show ?thesis by (rule dispatch_found [OF assms(1)])
qed

theorem routes_reached_witness:
  "dispatch app_routes ''PATCH'' ''/gw/pay/v1/charges/17/refund'' = Found ''proxy''"
proof -
  let ?r = "\<lparr>rt_methods = [''GET'', ''POST'', ''PUT'', ''PATCH'', ''DELETE'', ''HEAD'', ''OPTIONS''],
    rt_path = [Lit ''gw'', Param ''api_slug'', Param ''version'', PathParam ''upstream_path''], rt_endpoint = ''proxy''\<rparr>"
  have "list_ex (\<lambda>r. r = ?r) app_routes" by code_simp
  then have "?r \<in> set app_routes" by (auto simp: list_ex_iff)
  from routes_reached [OF this, of "''PATCH''" "[''pay'', ''v1'', ''charges/17/refund'']"] show ?thesis by simp
qed

end
