(* ===== verification/Schemas.thy ===== *)
theory Schemas
  imports Organization ApiCatalog Migrations
begin

text \<open>
  The request bodies (\<open>schemas/auth.py\<close>, \<open>organization.py\<close>, \<open>api.py\<close>, \<open>api_key.py\<close>): for each class its fields
  with the constraints Pydantic checks, as \<open>Field(...)\<close> declares them, and the regular expressions of the
  patterns with a matcher by derivatives. Values are those of the declared Python types, after Pydantic's
  conversions; what an e-mail address and a URL are is a parameter. Shown: the slug pattern is the form
  \<open>slugify\<close> produces, so a slug the client chooses is stored unchanged, and which accepted fields fit the
  columns of the models they are stored in.
\<close>

section \<open>Regular expressions\<close>

text \<open>A character class is a list of ranges; the patterns are anchored at both ends.\<close>

datatype regex = Nothing | Eps | Chars "(char \<times> char) list" | Alt regex regex | Seq regex regex | Many regex

definition Many1 :: "regex \<Rightarrow> regex" where
  "Many1 r = Seq r (Many r)"

definition in_range :: "char \<Rightarrow> char \<times> char \<Rightarrow> bool" where
  "in_range c r \<longleftrightarrow> (of_char (fst r) :: nat) \<le> of_char c \<and> (of_char c :: nat) \<le> of_char (snd r)"

fun accepts_empty :: "regex \<Rightarrow> bool" where
  "accepts_empty Nothing \<longleftrightarrow> False"
| "accepts_empty Eps \<longleftrightarrow> True"
| "accepts_empty (Chars cs) \<longleftrightarrow> False"
| "accepts_empty (Alt r s) \<longleftrightarrow> accepts_empty r \<or> accepts_empty s"
| "accepts_empty (Seq r s) \<longleftrightarrow> accepts_empty r \<and> accepts_empty s"
| "accepts_empty (Many r) \<longleftrightarrow> True"

fun deriv :: "char \<Rightarrow> regex \<Rightarrow> regex" where
  "deriv c Nothing = Nothing"
| "deriv c Eps = Nothing"
| "deriv c (Chars cs) = (if list_ex (in_range c) cs then Eps else Nothing)"
| "deriv c (Alt r s) = Alt (deriv c r) (deriv c s)"
| "deriv c (Seq r s) =
     (if accepts_empty r then Alt (Seq (deriv c r) s) (deriv c s) else Seq (deriv c r) s)"
| "deriv c (Many r) = Seq (deriv c r) (Many r)"

fun matches :: "regex \<Rightarrow> string \<Rightarrow> bool" where
  "matches r [] \<longleftrightarrow> accepts_empty r"
| "matches r (c # s) \<longleftrightarrow> matches (deriv c r) s"

subsection \<open>The matcher decides the language\<close>

inductive in_lang :: "regex \<Rightarrow> string \<Rightarrow> bool" where
  Eps: "in_lang Eps []"
| Chars: "list_ex (in_range c) cs \<Longrightarrow> in_lang (Chars cs) [c]"
| Alt1: "in_lang r a \<Longrightarrow> in_lang (Alt r s) a"
| Alt2: "in_lang s a \<Longrightarrow> in_lang (Alt r s) a"
| Seq: "in_lang r a \<Longrightarrow> in_lang s b \<Longrightarrow> in_lang (Seq r s) (a @ b)"
| Many0: "in_lang (Many r) []"
| Many: "in_lang r a \<Longrightarrow> in_lang (Many r) b \<Longrightarrow> in_lang (Many r) (a @ b)"

inductive_simps in_lang_simps [simp]:
  "in_lang Nothing a" "in_lang Eps a" "in_lang (Chars cs) a" "in_lang (Alt r s) a"

inductive_cases in_lang_SeqE: "in_lang (Seq r s) a"

lemma accepts_empty_lang: "accepts_empty r \<longleftrightarrow> in_lang r []"
proof (induction r)
  case (Seq r s)
  then show ?case using in_lang.Seq [of r "[]" s "[]"] by (auto elim: in_lang_SeqE)
qed (auto intro: in_lang.intros)

text \<open>A nonempty word of a repetition starts with a nonempty word of what is repeated.\<close>

lemma Many_first:
  "in_lang q w \<Longrightarrow> q = Many r \<Longrightarrow> w = c # s \<Longrightarrow> \<exists>a b. s = a @ b \<and> in_lang r (c # a) \<and> in_lang (Many r) b"
proof (induction arbitrary: s rule: in_lang.induct)
  case (Many r' a b)
  then show ?case by (cases a) auto
qed simp_all

lemma deriv_lang: "in_lang (deriv c r) s \<longleftrightarrow> in_lang r (c # s)"
proof (induction r arbitrary: s)
  case (Seq r q)
  have split: "in_lang (Seq r q) (c # s) \<longleftrightarrow>
      in_lang r [] \<and> in_lang q (c # s) \<or> in_lang (Seq (deriv c r) q) s"
  proof
    assume "in_lang (Seq r q) (c # s)"
    then obtain a b where ab: "c # s = a @ b" "in_lang r a" "in_lang q b" by (auto elim: in_lang_SeqE)
    then show "in_lang r [] \<and> in_lang q (c # s) \<or> in_lang (Seq (deriv c r) q) s"
      using Seq.IH(1) by (cases a) (auto intro: in_lang.Seq)
  next
    assume "in_lang r [] \<and> in_lang q (c # s) \<or> in_lang (Seq (deriv c r) q) s"
    then show "in_lang (Seq r q) (c # s)"
    proof
      assume "in_lang r [] \<and> in_lang q (c # s)"
      then show ?thesis using in_lang.Seq [of r "[]" q "c # s"] by simp
    next
      assume "in_lang (Seq (deriv c r) q) s"
      then obtain a b where "s = a @ b" "in_lang r (c # a)" "in_lang q b"
        using Seq.IH(1) by (auto elim: in_lang_SeqE)
      then show ?thesis using in_lang.Seq [of r "c # a" q b] by simp
    qed
  qed
  then show ?case using Seq.IH(2) accepts_empty_lang by auto
next
  case (Many r)
  have "in_lang (Seq (deriv c r) (Many r)) s" if "in_lang (Many r) (c # s)"
    using Many_first [OF that refl refl] Many.IH in_lang.Seq by blast
  moreover have "in_lang (Many r) (c # s)" if l: "in_lang (Seq (deriv c r) (Many r)) s"
  proof -
    obtain a b where "s = a @ b" "in_lang r (c # a)" "in_lang (Many r) b"
      using l Many.IH by (auto elim: in_lang_SeqE)
    then show ?thesis using in_lang.Many [of r "c # a" b] by simp
  qed
  ultimately show ?case by auto
qed auto

lemma matches_lang: "matches r s \<longleftrightarrow> in_lang r s"
  by (induction r s rule: matches.induct) (simp_all add: accepts_empty_lang deriv_lang)

lemma lang_Many: "in_lang (Many r) s \<longleftrightarrow> (\<exists>ws. s = concat ws \<and> (\<forall>w \<in> set ws. in_lang r w))"
proof
  show "\<exists>ws. s = concat ws \<and> (\<forall>w \<in> set ws. in_lang r w)" if "in_lang (Many r) s"
  proof -
    have "in_lang q s \<Longrightarrow> q = Many r \<Longrightarrow> \<exists>ws. s = concat ws \<and> (\<forall>w \<in> set ws. in_lang r w)" for q
    proof (induction rule: in_lang.induct)
      case (Many0 r')
      show ?case by (rule exI [of _ "[]"]) simp
    next
      case (Many r' a b)
      then obtain ws where "b = concat ws" "\<forall>w \<in> set ws. in_lang r w" by blast
      then show ?case using Many by (intro exI [of _ "a # ws"]) auto
    qed simp_all
    then show ?thesis using that by blast
  qed
  have "in_lang (Many r) (concat ws)" if "\<forall>w \<in> set ws. in_lang r w" for ws
    using that by (induction ws) (auto intro: in_lang.intros)
  then show "\<exists>ws. s = concat ws \<and> (\<forall>w \<in> set ws. in_lang r w) \<Longrightarrow> in_lang (Many r) s" by blast
qed

lemma lang_Chars1: "in_lang (Many1 (Chars cs)) s \<longleftrightarrow> s \<noteq> [] \<and> list_all (\<lambda>c. list_ex (in_range c) cs) s"
proof -
  have many: "in_lang (Many (Chars cs)) s \<longleftrightarrow> list_all (\<lambda>c. list_ex (in_range c) cs) s" for s
  proof
    show "in_lang (Many (Chars cs)) s \<Longrightarrow> list_all (\<lambda>c. list_ex (in_range c) cs) s"
      by (fastforce simp: lang_Many list_all_iff)
    show "list_all (\<lambda>c. list_ex (in_range c) cs) s \<Longrightarrow> in_lang (Many (Chars cs)) s"
      unfolding lang_Many by (rule exI [of _ "map (\<lambda>c. [c]) s"]) (auto simp: list_all_iff)
  qed
  show ?thesis
  proof
    show "in_lang (Many1 (Chars cs)) s \<Longrightarrow> s \<noteq> [] \<and> list_all (\<lambda>c. list_ex (in_range c) cs) s"
      unfolding Many1_def by (auto elim!: in_lang_SeqE simp: many)
    show "s \<noteq> [] \<and> list_all (\<lambda>c. list_ex (in_range c) cs) s \<Longrightarrow> in_lang (Many1 (Chars cs)) s"
      using in_lang.Seq [of "Chars cs" "[hd s]" "Many (Chars cs)" "tl s"]
      by (cases s) (auto simp: Many1_def many)
  qed
qed

section \<open>The patterns\<close>

text \<open>\<open>^[a-z0-9]+(?:-[a-z0-9]+)*$\<close> and \<open>^[A-Za-z0-9._-]+$\<close>.\<close>

definition slug_pattern :: regex where
  "slug_pattern = (let w = Many1 (Chars [(CHR ''a'', CHR ''z''), (CHR ''0'', CHR ''9'')])
     in Seq w (Many (Seq (Chars [(CHR ''-'', CHR ''-'')]) w)))"

definition version_pattern :: regex where
  "version_pattern = Many1 (Chars [(CHR ''A'', CHR ''Z''), (CHR ''a'', CHR ''z''), (CHR ''0'', CHR ''9''),
     (CHR ''.'', CHR ''.''), (CHR ''_'', CHR ''_''), (CHR ''-'', CHR ''-'')])"

lemma slug_class: "list_ex (in_range c) [(CHR ''a'', CHR ''z''), (CHR ''0'', CHR ''9'')] \<longleftrightarrow> is_slug_char c"
  by (simp add: in_range_def is_slug_char_def is_lower_ascii_def is_digit_ascii_def)

lemma hyphen_class: "list_ex (in_range c) [(CHR ''-'', CHR ''-'')] \<longleftrightarrow> c = CHR ''-''"
proof -
  have "in_range c (CHR ''-'', CHR ''-'') \<longleftrightarrow> (of_char c :: nat) = of_char CHR ''-''"
    unfolding in_range_def by auto
  then show ?thesis by (simp del: of_char_Char)
qed

text \<open>Words joined by hyphens.\<close>

definition slug_word :: "string \<Rightarrow> bool" where
  "slug_word w \<longleftrightarrow> w \<noteq> [] \<and> list_all is_slug_char w"

definition joined :: "string \<Rightarrow> string list \<Rightarrow> string" where
  "joined w us = w @ concat (map (\<lambda>u. CHR ''-'' # u) us)"

abbreviation word_regex :: regex where
  "word_regex \<equiv> Many1 (Chars [(CHR ''a'', CHR ''z''), (CHR ''0'', CHR ''9'')])"

abbreviation tail_regex :: regex where
  "tail_regex \<equiv> Seq (Chars [(CHR ''-'', CHR ''-'')]) word_regex"

lemma word_lang: "in_lang word_regex s \<longleftrightarrow> slug_word s"
  by (simp only: lang_Chars1 slug_class slug_word_def)

lemma tail_lang: "in_lang tail_regex s \<longleftrightarrow> (\<exists>u. s = CHR ''-'' # u \<and> slug_word u)"
proof
  assume "in_lang tail_regex s"
  then obtain a b where "s = a @ b" "in_lang (Chars [(CHR ''-'', CHR ''-'')]) a" "in_lang word_regex b"
    by (rule in_lang_SeqE)
  then show "\<exists>u. s = CHR ''-'' # u \<and> slug_word u"
    by (auto simp only: in_lang_simps hyphen_class append.simps word_lang)
next
  assume "\<exists>u. s = CHR ''-'' # u \<and> slug_word u"
  then obtain u where u: "s = CHR ''-'' # u" "in_lang word_regex u" using word_lang by blast
  have "in_lang (Chars [(CHR ''-'', CHR ''-'')]) [CHR ''-'']" by (rule in_lang.Chars) (simp only: hyphen_class)
  from in_lang.Seq [OF this u(2)] show "in_lang tail_regex s" by (simp only: u(1) append.simps)
qed

lemma tails_lang: "in_lang (Many tail_regex) s \<longleftrightarrow> (\<exists>us. s = concat (map (\<lambda>u. CHR ''-'' # u) us) \<and> list_all slug_word us)"
proof
  assume "in_lang (Many tail_regex) s"
  then obtain vs where s: "s = concat vs" and vs: "\<forall>v \<in> set vs. \<exists>u. v = CHR ''-'' # u \<and> slug_word u"
    using lang_Many tail_lang by metis
  from vs have "\<exists>us. vs = map (\<lambda>u. CHR ''-'' # u) us \<and> list_all slug_word us"
  proof (induction vs)
    case (Cons v vs)
    then obtain u us where "v = CHR ''-'' # u" "slug_word u" "vs = map (\<lambda>u. CHR ''-'' # u) us" "list_all slug_word us"
      by auto
    then show ?case by (intro exI [of _ "u # us"]) simp
  qed simp
  then show "\<exists>us. s = concat (map (\<lambda>u. CHR ''-'' # u) us) \<and> list_all slug_word us" using s by blast
next
  assume "\<exists>us. s = concat (map (\<lambda>u. CHR ''-'' # u) us) \<and> list_all slug_word us"
  then obtain us where us: "s = concat (map (\<lambda>u. CHR ''-'' # u) us)" "list_all slug_word us" by blast
  show "in_lang (Many tail_regex) s" unfolding lang_Many
    by (rule exI [of _ "map (\<lambda>u. CHR ''-'' # u) us"]) (use us tail_lang in \<open>auto simp only: list_all_iff set_map\<close>)
qed

lemma slug_pattern_words: "matches slug_pattern s \<longleftrightarrow> (\<exists>w us. s = joined w us \<and> list_all slug_word (w # us))"
proof -
  have "matches slug_pattern s \<longleftrightarrow> in_lang (Seq word_regex (Many tail_regex)) s"
    by (simp only: matches_lang slug_pattern_def Let_def)
  also have "\<dots> \<longleftrightarrow> (\<exists>w b. s = w @ b \<and> in_lang word_regex w \<and> in_lang (Many tail_regex) b)"
    using in_lang.Seq by (blast elim: in_lang_SeqE)
  also have "\<dots> \<longleftrightarrow> (\<exists>w us. s = joined w us \<and> list_all slug_word (w # us))"
    unfolding word_lang tails_lang joined_def by (auto simp only: list.pred_inject)
  finally show ?thesis .
qed

lemma slug_word_no_hyphen: "slug_word w \<Longrightarrow> CHR ''-'' \<notin> set w"
  by (auto simp: slug_word_def list_all_iff is_slug_char_def is_lower_ascii_def is_digit_ascii_def)

lemma split_on_joined: "list_all slug_word (w # us) \<Longrightarrow> split_on CHR ''-'' (joined w us) = w # us"
proof (induction us arbitrary: w)
  case (Cons u us)
  have "joined w (u # us) = w @ CHR ''-'' # joined u us" by (simp add: joined_def)
  then show ?case using Cons slug_word_no_hyphen [of w] by (simp add: split_on_append split_on_none)
qed (simp add: joined_def split_on_none slug_word_no_hyphen)

lemma split_on_parts: "\<exists>v us. split_on CHR ''-'' s = v # us \<and> s = joined v us"
proof (induction s)
  case (Cons c s)
  then obtain v us where "split_on CHR ''-'' s = v # us" "s = joined v us" by blast
  then show ?case by (cases "c = CHR ''-''") (auto simp: joined_def)
qed (simp add: joined_def)

text \<open>The pattern accepts exactly the documented form of a slug.\<close>

lemma slug_pattern_format: "matches slug_pattern s \<longleftrightarrow> slug_format s"
proof
  show "slug_format s" if m: "matches slug_pattern s"
  proof -
    obtain w us where s: "s = joined w us" "list_all slug_word (w # us)" using m slug_pattern_words by blast
    show ?thesis using s(2) unfolding slug_format_def s(1) split_on_joined [OF s(2)] by (simp add: list_all_iff slug_word_def)
  qed
  show "matches slug_pattern s" if "slug_format s"
  proof -
    obtain v us where v: "split_on CHR ''-'' s = v # us" "s = joined v us" using split_on_parts by blast
    then have "list_all slug_word (v # us)" using that unfolding slug_format_def by (simp add: list_all_iff slug_word_def)
    then show ?thesis using v(2) slug_pattern_words by blast
  qed
qed

section \<open>A chosen slug is kept\<close>

lemma hyphens_single_word: "CHR ''-'' \<notin> set v \<Longrightarrow> hyphens_single t \<Longrightarrow> hyphens_single (v @ t)"
  by (induction v) (auto simp: hyphens_single_Cons)

lemma joined_Cons: "joined w (u # us) = w @ CHR ''-'' # joined u us"
  by (simp add: joined_def)

lemma joined_shape:
  "list_all slug_word (w # us) \<Longrightarrow> slug_alphabet (joined w us) \<and> hyphens_single (joined w us) \<and> joined w us \<noteq> [] \<and>
     hd (joined w us) \<noteq> CHR ''-'' \<and> last (joined w us) \<noteq> CHR ''-''"
proof (induction us arbitrary: w)
  case Nil
  then have w: "w \<noteq> []" "CHR ''-'' \<notin> set w" "list_all is_slug_char w" using slug_word_no_hyphen by (auto simp: slug_word_def)
  moreover have "hyphens_single w" using hyphens_single_word [of w "[]"] w(2) by simp
  moreover have "hd w \<noteq> CHR ''-''" "last w \<noteq> CHR ''-''" using w hd_in_set last_in_set by metis+
  ultimately show ?case by (simp add: joined_def slug_alphabet_def list_all_iff)
next
  case (Cons u us)
  then have w: "w \<noteq> []" "CHR ''-'' \<notin> set w" "list_all is_slug_char w" using slug_word_no_hyphen by (auto simp: slug_word_def)
  have rest: "slug_alphabet (joined u us)" "hyphens_single (joined u us)" "joined u us \<noteq> []"
    "hd (joined u us) \<noteq> CHR ''-''" "last (joined u us) \<noteq> CHR ''-''" using Cons by auto
  have "hyphens_single (CHR ''-'' # joined u us)" using rest by (auto simp: hyphens_single_Cons)
  then have "hyphens_single (w @ CHR ''-'' # joined u us)" by (rule hyphens_single_word [OF w(2)])
  moreover have "hd w \<noteq> CHR ''-''" using w hd_in_set by metis
  ultimately show ?case using w rest by (auto simp: joined_Cons slug_alphabet_def list_all_iff)
qed

lemma sub_keeps: "slug_alphabet s \<Longrightarrow> hyphens_single s \<Longrightarrow> slug_strip_sub s = s"
proof (induction s)
  case (Cons c s)
  have s: "slug_strip_sub s = s" using Cons by (simp add: slug_alphabet_def hyphens_single_Cons)
  show ?case
  proof (cases "is_slug_char c")
    case False
    then have "c = CHR ''-''" using Cons.prems(1) by (auto simp: slug_alphabet_def)
    then have "dropWhile (\<lambda>c. \<not> is_slug_char c) s = s"
      using Cons.prems by (cases s) (auto simp: slug_alphabet_def)
    then show ?thesis using False s \<open>c = CHR ''-''\<close> by simp
  qed (use s in simp)
qed simp

lemma lower_keeps: "slug_alphabet s \<Longrightarrow> str_lower s = s"
  by (induction s) (auto simp: slug_alphabet_def str_lower_def lower_char_def is_upper_ascii_def is_slug_char_def
      is_lower_ascii_def is_digit_ascii_def)

lemma slugify_keeps: "slug_format s \<Longrightarrow> slugify s = s"
proof -
  assume "slug_format s"
  then obtain w us where "s = joined w us" "list_all slug_word (w # us)"
    using slug_pattern_format slug_pattern_words by blast
  then have s: "slug_alphabet s" "hyphens_single s" "s \<noteq> []" "hd s \<noteq> CHR ''-''" "last s \<noteq> CHR ''-''"
    using joined_shape by auto
  have "strip_by (\<lambda>c. c = CHR ''-'') s = s"
  proof -
    have "lstrip_by (\<lambda>c. c = CHR ''-'') s = s" using s(3,4) by (cases s) (simp_all add: lstrip_by_def)
    moreover have "rstrip_by (\<lambda>c. c = CHR ''-'') s = s"
      using s(3,5) by (cases s rule: rev_cases) (simp_all add: rstrip_by_def)
    ultimately show ?thesis by (simp add: strip_by_def)
  qed
  then show ?thesis using s(1,2,3) by (simp add: slugify_def sub_keeps lower_keeps or_str_def)
qed

lemma unique_slug_form: "slug_format (unique_slug_of slugs desired)"
  using slug_search_first [of slugs "slugify desired" 2 "slugify desired"] slugify_format slug_format_suffix
  by (auto simp: unique_slug_of_def Let_def)

lemma select_none:
  "fst (bindP (select_one tab P) (\<lambda>r. raise_if (r \<noteq> None) e) d) = Inr () \<Longrightarrow> filter P (tab d) = []"
  by (cases "filter P (tab d)" rule: scalar_one_or_none.cases) (simp_all add: select_one_def prog_simps)

text \<open>C26: the slug of a new organization always matches the published pattern, and the slug a client chooses,
  which the schema lets through only when it matches, is stored as it is: \<open>slugify\<close> and the search for a free
  suffix change nothing in it (a slug in use is refused with a conflict before).\<close>

theorem chosen_slug_kept:
  assumes "create_organization now oid mid u name slug d = (Inr org, d')"
  shows "matches slug_pattern (o_slug org) \<and> (\<forall>s. slug = Some s \<and> matches slug_pattern s \<longrightarrow> o_slug org = s)"
proof -
  obtain r where r: "slug_conflict slug d = (r, d)"
    using preservesD [OF preserves_slug_conflict, of "\<lambda>x. x = d" d slug] by (cases "slug_conflict slug d") simp
  then obtain q where q: "r = Inr q"
    using assms by (cases r) (auto simp: create_organization_def prog_simps)
  have free: "fst (slug_conflict slug d) = Inr ()" using r q by simp
  have slug: "o_slug org = unique_slug_of (map o_slug (db_orgs d)) (slug_or_name slug name)"
    using assms r q unfolding create_organization_def
    by (auto elim!: bindP_Inr simp: prog_simps unique_org_slug_def Let_def split: prod.splits sum.splits)
  have "o_slug org = s" if s: "slug = Some s" "matches slug_pattern s" for s
  proof -
    have f: "slug_format s" using s(2) slug_pattern_format by blast
    have "s \<noteq> []" using f by (auto simp: slug_format_def)
    then have "slugify (slug_or_name slug name) = s" using f slugify_keeps by (simp add: slug_or_name_def s(1) or_str_def)
    moreover have "s \<notin> set (map o_slug (db_orgs d))"
      using select_none [of db_orgs _ _ d] free unfolding s(1) slug_conflict_def get_by_slug_def option.case
      by (fastforce simp: filter_empty_conv)
    ultimately show ?thesis using slug by (subst (asm) unique_slug_of_def) (simp add: slug_search.simps)
  qed
  moreover have "matches slug_pattern (o_slug org)"
    using unique_slug_form slug slug_pattern_format by simp
  ultimately show ?thesis by blast
qed

theorem chosen_slug_kept_witness:
  "\<exists>org d'. create_organization 5 8 30 (alice) ''Acme, Inc.'' (Some ''acme-2'') (org_db ADMIN OWNER) = (Inr org, d') \<and>
     o_slug org = ''acme-2''"
proof -
  let ?run = "create_organization 5 8 30 (alice) ''Acme, Inc.'' (Some ''acme-2'') (org_db ADMIN OWNER)"
  have "isl (fst ?run) = False" by code_simp
  then obtain org d' where run: "?run = (Inr org, d')" by (cases ?run; cases "fst ?run") auto
  have "matches slug_pattern ''acme-2''" by code_simp
  then show ?thesis using chosen_slug_kept [OF run] run by blast
qed

section \<open>The bodies\<close>

text \<open>Values after Pydantic's conversions. \<open>Str\<close> has its minimum and maximum length and its pattern, \<open>PyInt\<close> its
  \<open>gt\<close>, \<open>ge\<close> and \<open>le\<close>.\<close>

datatype pvalue = PNone | PStr string | PInt int | PBool bool

datatype rule = Str nat "nat option" "regex option" | EmailStr | AnyHttpUrl
  | PyInt "int option" "int option" "int option" | Bool | Enum "string list"

text \<open>A field: its constraint, whether it is declared \<open>| None\<close>, its default, and its \<open>field_validator\<close>, which sees
  the fields before it that were accepted.\<close>

record body_field =
  fd_name :: string
  fd_rule :: rule
  fd_nullable :: bool
  fd_default :: "pvalue option"
  fd_validator :: "(string \<times> pvalue) list \<Rightarrow> pvalue \<Rightarrow> bool"

definition required :: "string \<Rightarrow> rule \<Rightarrow> body_field" where
  "required n r = \<lparr>fd_name = n, fd_rule = r, fd_nullable = False, fd_default = None, fd_validator = (\<lambda>_ _. True)\<rparr>"

definition defaulting :: "string \<Rightarrow> rule \<Rightarrow> pvalue \<Rightarrow> body_field" where
  "defaulting n r v = (required n r)\<lparr>fd_default := Some v\<rparr>"

definition optional :: "string \<Rightarrow> rule \<Rightarrow> body_field" where
  "optional n r = (required n r)\<lparr>fd_nullable := True, fd_default := Some PNone\<rparr>"

definition RegisterRequest :: "body_field list" where
  "RegisterRequest = [required ''email'' EmailStr, required ''password'' (Str 8 (Some 128) None),
     optional ''full_name'' (Str 0 (Some 200) None)]"

definition LoginRequest :: "body_field list" where
  "LoginRequest = [required ''email'' EmailStr, required ''password'' (Str 1 (Some 128) None)]"

definition RefreshRequest :: "body_field list" where
  "RefreshRequest = [optional ''refresh_token'' (Str 0 None None)]"

definition EmailVerificationRequest :: "body_field list" where
  "EmailVerificationRequest = [required ''token'' (Str 0 None None)]"

definition PasswordResetRequest :: "body_field list" where
  "PasswordResetRequest = [required ''email'' EmailStr]"

definition PasswordResetConfirm :: "body_field list" where
  "PasswordResetConfirm = [required ''token'' (Str 0 None None), required ''new_password'' (Str 8 (Some 128) None)]"

definition OrganizationCreate :: "body_field list" where
  "OrganizationCreate = [required ''name'' (Str 1 (Some 200) None), optional ''slug'' (Str 0 (Some 120) (Some slug_pattern))]"

definition OrganizationUpdate :: "body_field list" where
  "OrganizationUpdate = [required ''name'' (Str 1 (Some 200) None)]"

definition RoleName :: rule where
  "RoleName = Enum (map role_code [OWNER, ADMIN, DEVELOPER, VIEWER])"

definition AddMemberRequest :: "body_field list" where
  "AddMemberRequest = [required ''email'' EmailStr, defaulting ''role'' RoleName (PStr (role_code DEVELOPER))]"

definition UpdateMemberRoleRequest :: "body_field list" where
  "UpdateMemberRoleRequest = [required ''role'' RoleName]"

definition ApiVersionCreate :: "body_field list" where
  "ApiVersionCreate = [required ''version'' (Str 1 (Some 40) (Some version_pattern)),
     required ''upstream_base_url'' AnyHttpUrl, defaulting ''is_active'' Bool (PBool True)]"

definition ApiCreate :: "body_field list" where
  "ApiCreate = [required ''name'' (Str 1 (Some 200) None), optional ''slug'' (Str 0 (Some 120) (Some slug_pattern)),
     defaulting ''description'' (Str 0 (Some 1000) None) (PStr [])]"

definition ApiUpdate :: "body_field list" where
  "ApiUpdate = [optional ''name'' (Str 1 (Some 200) None), optional ''description'' (Str 0 (Some 1000) None),
     optional ''is_active'' Bool]"

definition QuotaItem :: "body_field list" where
  "QuotaItem = [required ''period'' (Enum (map period_str [DAILY, MONTHLY])),
     required ''max_requests'' (PyInt (Some 0) None None)]"

text \<open>\<open>_burst_only_for_token_bucket\<close>.\<close>

definition burst_only_for_token_bucket :: "(string \<times> pvalue) list \<Rightarrow> pvalue \<Rightarrow> bool" where
  "burst_only_for_token_bucket data v \<longleftrightarrow>
     v = PNone \<or> map_of data ''algorithm'' = Some (PStr (algorithm_str TOKEN_BUCKET))"

definition RateLimitConfig :: "body_field list" where
  "RateLimitConfig = [required ''algorithm'' (Enum (map algorithm_str [TOKEN_BUCKET, SLIDING_WINDOW, FIXED_WINDOW])),
     required ''requests'' (PyInt (Some 0) None None),
     required ''window_seconds'' (PyInt (Some 0) None (Some 86400)),
     (optional ''burst'' (PyInt (Some 0) None None))\<lparr>fd_validator := burst_only_for_token_bucket\<rparr>]"

definition ApiKeyCreate :: "body_field list" where
  "ApiKeyCreate = [defaulting ''name'' (Str 0 (Some 200) None) (PStr []),
     optional ''expires_in_days'' (PyInt (Some 0) None (Some 3650))]"

definition ApiKeyRotateRequest :: "body_field list" where
  "ApiKeyRotateRequest = [defaulting ''grace_period_hours'' (PyInt None (Some 0) (Some 720)) (PInt 24)]"

section \<open>Validation\<close>

text \<open>The type of Pydantic's error for a value, if it has one; the constraints in the order Pydantic tries them.\<close>

fun rule_error :: "(string \<Rightarrow> bool) \<Rightarrow> (string \<Rightarrow> bool) \<Rightarrow> rule \<Rightarrow> pvalue \<Rightarrow> string option" where
  "rule_error is_email is_url (Str lo hi pat) (PStr s) =
     (if length s < lo then Some ''string_too_short''
      else if (case hi of None \<Rightarrow> False | Some n \<Rightarrow> n < length s) then Some ''string_too_long''
      else if (case pat of None \<Rightarrow> False | Some r \<Rightarrow> \<not> matches r s) then Some ''string_pattern_mismatch''
      else None)"
| "rule_error is_email is_url EmailStr (PStr s) = (if is_email s then None else Some ''value_error'')"
| "rule_error is_email is_url AnyHttpUrl (PStr s) = (if is_url s then None else Some ''url_parsing'')"
| "rule_error is_email is_url (PyInt gt ge le) (PInt i) =
     (if (case le of None \<Rightarrow> False | Some n \<Rightarrow> n < i) then Some ''less_than_equal''
      else if (case ge of None \<Rightarrow> False | Some n \<Rightarrow> i < n) then Some ''greater_than_equal''
      else if (case gt of None \<Rightarrow> False | Some n \<Rightarrow> i \<le> n) then Some ''greater_than''
      else None)"
| "rule_error is_email is_url Bool (PBool b) = None"
| "rule_error is_email is_url (Enum vs) (PStr s) = (if s \<in> set vs then None else Some ''enum'')"
| "rule_error is_email is_url (Str lo hi pat) v = Some ''string_type''"
| "rule_error is_email is_url EmailStr v = Some ''string_type''"
| "rule_error is_email is_url AnyHttpUrl v = Some ''url_type''"
| "rule_error is_email is_url (PyInt gt ge le) v = Some ''int_type''"
| "rule_error is_email is_url Bool v = Some ''bool_type''"
| "rule_error is_email is_url (Enum vs) v = Some ''enum''"

text \<open>A field that is absent takes its default, which is not validated.\<close>

definition field_value ::
  "(string \<Rightarrow> bool) \<Rightarrow> (string \<Rightarrow> bool) \<Rightarrow> (string \<times> pvalue) list \<Rightarrow> (string \<times> pvalue) list \<Rightarrow> body_field \<Rightarrow> string + pvalue" where
  "field_value is_email is_url body data f = (case map_of body (fd_name f) of
     None \<Rightarrow> (case fd_default f of Some v \<Rightarrow> Inr v | None \<Rightarrow> Inl ''missing'')
   | Some v \<Rightarrow>
       (case if v = PNone \<and> fd_nullable f then None else rule_error is_email is_url (fd_rule f) v of
          Some e \<Rightarrow> Inl e
        | None \<Rightarrow> if fd_validator f data v then Inr v else Inl ''value_error''))"

fun run_fields ::
  "(string \<Rightarrow> bool) \<Rightarrow> (string \<Rightarrow> bool) \<Rightarrow> (string \<times> pvalue) list \<Rightarrow> body_field list \<Rightarrow> (string \<times> pvalue) list
    \<Rightarrow> (string \<times> string) list \<times> (string \<times> pvalue) list" where
  "run_fields is_email is_url body [] data = ([], data)"
| "run_fields is_email is_url body (f # fs) data = (case field_value is_email is_url body data f of
     Inl e \<Rightarrow> (let (es, data') = run_fields is_email is_url body fs data in ((fd_name f, e) # es, data'))
   | Inr v \<Rightarrow> run_fields is_email is_url body fs (data @ [(fd_name f, v)]))"

definition validate ::
  "(string \<Rightarrow> bool) \<Rightarrow> (string \<Rightarrow> bool) \<Rightarrow> body_field list \<Rightarrow> (string \<times> pvalue) list
    \<Rightarrow> (string \<times> string) list + (string \<times> pvalue) list" where
  "validate is_email is_url cls body = (let (es, data) = run_fields is_email is_url body cls [] in
     if es = [] then Inr data else Inl es)"

lemma run_fields_values:
  "run_fields ie iu body fs data = ([], data') \<Longrightarrow>
   \<exists>vals. data' = data @ vals \<and> list_all2 (\<lambda>f (n, v). n = fd_name f \<and> (\<exists>seen. field_value ie iu body seen f = Inr v)) fs vals"
proof (induction fs arbitrary: data)
  case (Cons f fs)
  from Cons.prems obtain v where v: "field_value ie iu body data f = Inr v"
    "run_fields ie iu body fs (data @ [(fd_name f, v)]) = ([], data')"
    by (auto split: sum.splits prod.splits)
  from Cons.IH [OF v(2)] obtain vals where "data' = data @ (fd_name f, v) # vals"
    "list_all2 (\<lambda>f (n, v). n = fd_name f \<and> (\<exists>seen. field_value ie iu body seen f = Inr v)) fs vals"
    by auto
  then show ?case using v(1) by (intro exI [of _ "(fd_name f, v) # vals"]) auto
qed simp

lemma field_value_ok:
  assumes "field_value ie iu body data f = Inr v"
  shows "fd_default f = Some v \<or> v = PNone \<and> fd_nullable f \<or> rule_error ie iu (fd_rule f) v = None"
proof (cases "map_of body (fd_name f)")
  case None
  then show ?thesis using assms by (simp add: field_value_def split: option.splits)
next
  case (Some w)
  let ?e = "if w = PNone \<and> fd_nullable f then None else rule_error ie iu (fd_rule f) w"
  have "?e = None \<and> w = v" using assms Some by (cases ?e) (simp_all add: field_value_def split: if_splits)
  then show ?thesis by (metis option.distinct(1))
qed

text \<open>What an accepted body gives: its fields, each with a value its constraint accepts, \<open>None\<close> where that is
  declared, or the default.\<close>

lemma validated_values:
  assumes "validate ie iu cls body = Inr vals" "map_of vals n = Some v"
  shows "\<exists>f \<in> set cls. fd_name f = n \<and>
    (fd_default f = Some v \<or> v = PNone \<and> fd_nullable f \<or> rule_error ie iu (fd_rule f) v = None)"
proof -
  have "run_fields ie iu body cls [] = ([], vals)"
    using assms(1) by (auto simp: validate_def split: prod.splits if_splits)
  then have l: "list_all2 (\<lambda>f (n, v). n = fd_name f \<and> (\<exists>seen. field_value ie iu body seen f = Inr v)) cls vals"
    using run_fields_values by fastforce
  have "(n, v) \<in> set vals" by (rule map_of_SomeD [OF assms(2)])
  then obtain i where i: "i < length vals" "vals ! i = (n, v)" by (auto simp: in_set_conv_nth)
  then have f: "fd_name (cls ! i) = n" "\<exists>seen. field_value ie iu body seen (cls ! i) = Inr v"
    using list_all2_nthD2 [OF l i(1)] by simp_all
  have mem: "cls ! i \<in> set cls" using i(1) list_all2_lengthD [OF l] by simp
  from f(2) obtain seen where "field_value ie iu body seen (cls ! i) = Inr v" by blast
  from field_value_ok [OF this] show ?thesis by (intro bexI [OF _ mem] conjI f(1))
qed

lemmas body_defs = required_def optional_def defaulting_def validate_def field_value_def
  burst_only_for_token_bucket_def

text \<open>The classes with numbers accept what the API catalogue asks of them.\<close>

lemma rate_limit_body:
  "(\<exists>vals. validate ie iu RateLimitConfig [(''algorithm'', PStr (algorithm_str al)), (''requests'', PInt n),
      (''window_seconds'', PInt w), (''burst'', case b of None \<Rightarrow> PNone | Some k \<Rightarrow> PInt k)] = Inr vals) \<longleftrightarrow>
   rate_limit_config_ok al n w b"
  by (cases al; cases b) (auto simp: RateLimitConfig_def body_defs rate_limit_config_ok_def split: if_splits)

lemma quota_body:
  "(\<exists>vals. validate ie iu QuotaItem [(''period'', PStr (period_str p)), (''max_requests'', PInt n)] = Inr vals) \<longleftrightarrow>
   quota_config_ok [(p, n)]"
  by (cases p) (auto simp: QuotaItem_def body_defs quota_config_ok_def split: if_splits)

section \<open>Columns\<close>

text \<open>Which column of which model the services store a field in, as it is (an \<open>email\<close> in lower case).\<close>

definition stored_columns :: "(body_field list \<times> string \<times> orm_class \<times> string) list" where
  "stored_columns =
     [(RegisterRequest, ''email'', User_class, ''email''), (RegisterRequest, ''full_name'', User_class, ''full_name''),
      (OrganizationCreate, ''name'', Organization_class, ''name''),
      (OrganizationCreate, ''slug'', Organization_class, ''slug''),
      (OrganizationUpdate, ''name'', Organization_class, ''name''),
      (ApiCreate, ''name'', Api_class, ''name''), (ApiCreate, ''slug'', Api_class, ''slug''),
      (ApiCreate, ''description'', Api_class, ''description''),
      (ApiUpdate, ''name'', Api_class, ''name''), (ApiUpdate, ''description'', Api_class, ''description''),
      (ApiUpdate, ''is_active'', Api_class, ''is_active''),
      (ApiVersionCreate, ''version'', ApiVersion_class, ''version''),
      (ApiVersionCreate, ''upstream_base_url'', ApiVersion_class, ''upstream_base_url''),
      (ApiVersionCreate, ''is_active'', ApiVersion_class, ''is_active''),
      (QuotaItem, ''period'', Quota_class, ''period''), (QuotaItem, ''max_requests'', Quota_class, ''max_requests''),
      (RateLimitConfig, ''algorithm'', RateLimitRule_class, ''algorithm''),
      (RateLimitConfig, ''requests'', RateLimitRule_class, ''requests''),
      (RateLimitConfig, ''window_seconds'', RateLimitRule_class, ''window_seconds''),
      (RateLimitConfig, ''burst'', RateLimitRule_class, ''burst''),
      (ApiKeyCreate, ''name'', ApiKey_class, ''name'')]"

definition column_sql :: "orm_class \<Rightarrow> string \<Rightarrow> sql_type option" where
  "column_sql cl c = map_option oc_type (find (\<lambda>x. oc_name x = c) (cl_columns cl))"

text \<open>What Postgres can store. A \<open>None\<close> is a NULL, or nothing is stored.\<close>

fun fits :: "sql_type option \<Rightarrow> pvalue \<Rightarrow> bool" where
  "fits _ PNone \<longleftrightarrow> True"
| "fits (Some (SqlString n)) (PStr s) \<longleftrightarrow> length s \<le> n"
| "fits (Some SqlInteger) (PInt i) \<longleftrightarrow> int32 i"
| "fits (Some SqlBoolean) (PBool b) \<longleftrightarrow> True"
| "fits _ _ \<longleftrightarrow> False"

text \<open>A constraint that lets through only what fits.\<close>

fun rule_fits_column :: "rule \<Rightarrow> sql_type option \<Rightarrow> bool" where
  "rule_fits_column (Str lo (Some hi) pat) (Some (SqlString n)) \<longleftrightarrow> hi \<le> n"
| "rule_fits_column EmailStr (Some (SqlString n)) \<longleftrightarrow> 254 \<le> n"
| "rule_fits_column (PyInt (Some gt) ge (Some le)) (Some SqlInteger) \<longleftrightarrow> int32 gt \<and> int32 le"
| "rule_fits_column Bool (Some SqlBoolean) \<longleftrightarrow> True"
| "rule_fits_column (Enum vs) (Some (SqlString n)) \<longleftrightarrow> list_all (\<lambda>v. length v \<le> n) vs"
| "rule_fits_column _ _ \<longleftrightarrow> False"

lemma rule_fits_column_sound:
  assumes "\<And>s. is_email s \<Longrightarrow> length s \<le> 254"
  shows "rule_fits_column r t \<Longrightarrow> rule_error is_email is_url r v = None \<Longrightarrow> fits t v"
proof (induction r t rule: rule_fits_column.induct)
  case (1 lo hi pat n)
  then show ?case by (cases v) (auto split: if_splits)
next
  case (2 n)
  then show ?case using assms by (cases v) (fastforce split: if_splits)+
next
  case (3 gt ge le)
  then show ?case by (cases v) (auto simp: int32_def split: if_splits)
next
  case 4
  then show ?case by (cases v) auto
next
  case (5 vs n)
  then show ?case by (cases v) (auto simp: list_all_iff split: if_splits)
qed simp_all

definition field_of :: "body_field list \<Rightarrow> string \<Rightarrow> body_field" where
  "field_of cls n = the (find (\<lambda>f. fd_name f = n) cls)"

lemma field_of_unique: "distinct (map fd_name cls) \<Longrightarrow> f \<in> set cls \<Longrightarrow> field_of cls (fd_name f) = f"
proof (induction cls)
  case (Cons g cls)
  then show ?case by (cases "g = f") (auto simp: field_of_def)
qed simp

lemma accepted_fits:
  assumes email: "\<And>s. is_email s \<Longrightarrow> length s \<le> 254"
    and cls: "distinct (map fd_name cls)"
    and safe: "rule_fits_column (fd_rule (field_of cls n)) t"
      "case fd_default (field_of cls n) of None \<Rightarrow> True | Some v \<Rightarrow> fits t v"
    and v: "validate is_email is_url cls body = Inr vals" "map_of vals n = Some v"
  shows "fits t v"
proof -
  obtain f where f: "f \<in> set cls" "fd_name f = n"
    "fd_default f = Some v \<or> v = PNone \<and> fd_nullable f \<or> rule_error is_email is_url (fd_rule f) v = None"
    using validated_values [OF v] by blast
  have "field_of cls n = f" using field_of_unique [OF cls f(1)] f(2) by simp
  then show ?thesis using f(3) safe rule_fits_column_sound [OF email] by auto
qed

lemma bounded_columns:
  "list_all (\<lambda>(cls, n, cl, c). c \<in> {''upstream_base_url'', ''max_requests'', ''requests'', ''burst''} \<or>
     distinct (map fd_name cls) \<and> rule_fits_column (fd_rule (field_of cls n)) (column_sql cl c) \<and>
     (case fd_default (field_of cls n) of None \<Rightarrow> True | Some v \<Rightarrow> fits (column_sql cl c) v)) stored_columns"
  by code_simp


lemma column_types:
  "column_sql ApiVersion_class ''upstream_base_url'' = Some (SqlString 2048)"
  "column_sql Quota_class ''max_requests'' = Some SqlInteger"
  "column_sql RateLimitRule_class ''requests'' = Some SqlInteger"
  "column_sql RateLimitRule_class ''burst'' = Some SqlInteger"
  by code_simp+

lemma too_large_accepted:
  "is_url s \<Longrightarrow> 2048 < length s \<Longrightarrow>
   \<exists>body vals v. validate is_email is_url ApiVersionCreate body = Inr vals \<and>
     map_of vals ''upstream_base_url'' = Some v \<and> \<not> fits (column_sql ApiVersion_class ''upstream_base_url'') v"
  "\<exists>body vals v. validate is_email is_url QuotaItem body = Inr vals \<and>
     map_of vals ''max_requests'' = Some v \<and> \<not> fits (column_sql Quota_class ''max_requests'') v"
  "\<exists>body vals v. validate is_email is_url RateLimitConfig body = Inr vals \<and>
     map_of vals ''requests'' = Some v \<and> \<not> fits (column_sql RateLimitRule_class ''requests'') v"
  "\<exists>body vals v. validate is_email is_url RateLimitConfig body = Inr vals \<and>
     map_of vals ''burst'' = Some v \<and> \<not> fits (column_sql RateLimitRule_class ''burst'') v"
proof -
  have "matches version_pattern ''v1''" by code_simp
  then have v: "matches version_pattern ''v1'' = True" by simp
  show "\<exists>body vals v. validate is_email is_url ApiVersionCreate body = Inr vals \<and>
       map_of vals ''upstream_base_url'' = Some v \<and> \<not> fits (column_sql ApiVersion_class ''upstream_base_url'') v"
    if "is_url s" "2048 < length s"
    by (rule exI [of _ "[(''version'', PStr ''v1''), (''upstream_base_url'', PStr s)]"])
       (use that v in \<open>simp add: ApiVersionCreate_def body_defs column_types del: matches.simps\<close>)
  show "\<exists>body vals v. validate is_email is_url QuotaItem body = Inr vals \<and>
     map_of vals ''max_requests'' = Some v \<and> \<not> fits (column_sql Quota_class ''max_requests'') v"
    by (rule exI [of _ "[(''period'', PStr ''daily''), (''max_requests'', PInt (2 ^ 31))]"])
       (simp add: QuotaItem_def body_defs column_types int32_def)
  show "\<exists>body vals v. validate is_email is_url RateLimitConfig body = Inr vals \<and>
     map_of vals ''requests'' = Some v \<and> \<not> fits (column_sql RateLimitRule_class ''requests'') v"
    by (rule exI [of _ "[(''algorithm'', PStr ''fixed_window''), (''requests'', PInt (2 ^ 31)),
         (''window_seconds'', PInt 60)]"])
       (simp add: RateLimitConfig_def body_defs column_types int32_def)
  show "\<exists>body vals v. validate is_email is_url RateLimitConfig body = Inr vals \<and>
     map_of vals ''burst'' = Some v \<and> \<not> fits (column_sql RateLimitRule_class ''burst'') v"
    by (rule exI [of _ "[(''algorithm'', PStr ''token_bucket''), (''requests'', PInt 10),
         (''window_seconds'', PInt 60), (''burst'', PInt (2 ^ 31))]"])
       (simp add: RateLimitConfig_def body_defs column_types int32_def)
qed

lemma unbounded_entries:
  "(cls, n, cl, c) \<in> set stored_columns \<Longrightarrow> c \<in> {''upstream_base_url'', ''max_requests'', ''requests'', ''burst''} \<Longrightarrow>
   (cls, n, cl, c) \<in> {(ApiVersionCreate, ''upstream_base_url'', ApiVersion_class, ''upstream_base_url''),
     (QuotaItem, ''max_requests'', Quota_class, ''max_requests''),
     (RateLimitConfig, ''requests'', RateLimitRule_class, ''requests''),
     (RateLimitConfig, ''burst'', RateLimitRule_class, ''burst'')}"
  unfolding stored_columns_def by auto

text \<open>C18: what the schemas accept fits the database. In every body that is accepted, each field that is stored
  fits its column (text no longer than the column, integers of 32 bits), with exactly four exceptions: the
  URL of an upstream, the quota, and the requests and burst of a rate limit have no upper bound in the
  schema, and an accepted body can hold a value the INSERT then fails on.\<close>

theorem accepted_bodies_fit_columns:
  assumes "\<forall>s. is_email s \<longrightarrow> length s \<le> 254" "is_url u" "2048 < length u"
    and "(cls, n, cl, c) \<in> set stored_columns"
  shows "(\<forall>body vals v. validate is_email is_url cls body = Inr vals \<longrightarrow> map_of vals n = Some v \<longrightarrow>
       fits (column_sql cl c) v) \<longleftrightarrow>
     c \<notin> {''upstream_base_url'', ''max_requests'', ''requests'', ''burst''}" (is "?all \<longleftrightarrow> c \<notin> ?open")
proof
  assume "c \<notin> ?open"
  then have "distinct (map fd_name cls)" "rule_fits_column (fd_rule (field_of cls n)) (column_sql cl c)"
    "case fd_default (field_of cls n) of None \<Rightarrow> True | Some v \<Rightarrow> fits (column_sql cl c) v"
    using bounded_columns assms(4) unfolding list_all_iff by fastforce+
  then show ?all using accepted_fits [of is_email] assms(1) by blast
next
  assume all: ?all
  show "c \<notin> ?open"
  proof
    assume "c \<in> ?open"
    from unbounded_entries [OF assms(4) this] show False
      using all too_large_accepted(1) [of is_url u is_email, OF assms(2,3)]
        too_large_accepted(2-4) [of is_email is_url] by blast
  qed
qed

theorem accepted_bodies_fit_columns_witness:
  "\<exists>body vals v. validate (\<lambda>s. s = ''a@b.io'') (\<lambda>s. take 7 s = ''http://'') ApiVersionCreate body = Inr vals \<and>
     map_of vals ''upstream_base_url'' = Some v \<and> \<not> fits (column_sql ApiVersion_class ''upstream_base_url'') v"
proof -
  let ?u = "''http://'' @ replicate 2048 CHR ''a''"
  have url: "take 7 ?u = ''http://''" "2048 < length ?u" by simp_all
  have email: "\<forall>s. s = ''a@b.io'' \<longrightarrow> length s \<le> 254" by simp
  have "(ApiVersionCreate, ''upstream_base_url'', ApiVersion_class, ''upstream_base_url'') \<in> set stored_columns"
    unfolding stored_columns_def by simp
  from accepted_bodies_fit_columns [where is_email = "\<lambda>s. s = ''a@b.io''" and
      is_url = "\<lambda>s. take 7 s = ''http://''", OF email url this]
  show ?thesis by simp
qed

end
