(* ===== verification/Application.thy ===== *)
theory Application
  imports Web Routing
begin

text \<open>
  \<open>create_app\<close> of \<open>main.py\<close>: the application as the composition of its layers, from the outside in:
  Starlette's \<open>ServerErrorMiddleware\<close>, CORS when origins are configured, the request context, Starlette's
  \<open>ExceptionMiddleware\<close>, the router over the route table. The two layers of Starlette are modelled by their
  documented behaviour (the handler for \<open>Exception\<close> runs in the outer one, the others in the inner one); what
  CORS answers a preflight and which headers it adds is a parameter, and so is what a route's function does.
\<close>

section \<open>The layers\<close>

text \<open>A route's function with its dependencies: what it raises, or its response.\<close>

type_synonym endpoints = "string \<Rightarrow> scope \<Rightarrow> exn + http_response"

text \<open>The router, with what Starlette raises and answers by itself.\<close>

definition redirect_to :: "string \<Rightarrow> http_response" where
  "redirect_to path = \<lparr>hr_status = 307, hr_headers = [(''location'', path)], hr_body = JStr []\<rparr>"

definition route_request :: "endpoints \<Rightarrow> string \<Rightarrow> string \<Rightarrow> scope \<Rightarrow> exn + http_response" where
  "route_request ep meth path sc = (case dispatch app_routes meth path of
     Found f \<Rightarrow> ep f sc
   | MethodNotAllowed \<Rightarrow> Inl (HttpExc 405 ''Method Not Allowed'')
   | Redirect p \<Rightarrow> Inr (redirect_to p)
   | Unknown \<Rightarrow> Inl (HttpExc 404 ''Not Found''))"

definition router_app :: "endpoints \<Rightarrow> string \<Rightarrow> string \<Rightarrow> asgi_app" where
  "router_app ep meth path sc = (case route_request ep meth path sc of
     Inl e \<Rightarrow> ([], Some e)
   | Inr r \<Rightarrow> (response_messages r, None))"

text \<open>Whether a handler other than the one for \<open>Exception\<close> is registered for it.\<close>

fun has_handler :: "exn \<Rightarrow> bool" where
  "has_handler (PyExc _) = False"
| "has_handler _ = True"

definition exception_middleware :: "asgi_app \<Rightarrow> asgi_app" where
  "exception_middleware app sc = (case app sc of
     (ms, Some e) \<Rightarrow>
       if has_handler e \<and> ms = [] then (response_messages (handle_exn (sc_request_id sc) e), None) else (ms, Some e)
   | (ms, None) \<Rightarrow> (ms, None))"

text \<open>CORS: a preflight is answered without the application; other responses get headers more.\<close>

record cors =
  co_preflight :: "scope \<Rightarrow> http_response"
  co_headers :: "scope \<Rightarrow> (string \<times> string) list"

definition has_header :: "string \<Rightarrow> scope \<Rightarrow> bool" where
  "has_header k sc \<longleftrightarrow> k \<in> fst ` set (sc_headers sc)"

definition is_preflight :: "string \<Rightarrow> scope \<Rightarrow> bool" where
  "is_preflight meth sc \<longleftrightarrow> meth = ''OPTIONS'' \<and> has_header ''origin'' sc \<and> has_header ''access-control-request-method'' sc"

fun add_headers :: "(string \<times> string) list \<Rightarrow> asgi_message \<Rightarrow> asgi_message" where
  "add_headers extra (ResponseStart st hs) = ResponseStart st (hs @ extra)"
| "add_headers extra m = m"

definition cors_middleware :: "cors \<Rightarrow> string \<Rightarrow> asgi_app \<Rightarrow> asgi_app" where
  "cors_middleware c meth app sc =
     (if sc_type sc \<noteq> ''http'' \<or> \<not> has_header ''origin'' sc then app sc
      else if is_preflight meth sc then (response_messages (co_preflight c sc), None)
      else (case app sc of (ms, failure) \<Rightarrow> (map (add_headers (co_headers c sc)) ms, failure)))"

text \<open>The outermost layer answers what escaped, then raises it again for the server's log. The scope is one
  object, so it sees the request id when the request context has set it.\<close>

definition visible_id :: "uuid \<Rightarrow> scope \<Rightarrow> string option" where
  "visible_id u sc = (case decode_utf8 (case map_of (rev (sc_headers sc)) ''x-correlation-id'' of None \<Rightarrow> [] | Some v \<Rightarrow> v) of
     Inl _ \<Rightarrow> None | Inr _ \<Rightarrow> Some (uuid_str u))"

definition server_error_middleware :: "uuid \<Rightarrow> asgi_app \<Rightarrow> asgi_app" where
  "server_error_middleware u app sc = (case app sc of
     (ms, Some e) \<Rightarrow>
       ((if \<exists>st hs. ResponseStart st hs \<in> set ms then ms else ms @ response_messages (handle_exn (visible_id u sc) e)), Some e)
   | (ms, None) \<Rightarrow> (ms, None))"

section \<open>The application\<close>

text \<open>\<open>add_middleware\<close> puts the new layer outside those added before.\<close>

definition add_middleware :: "(asgi_app \<Rightarrow> asgi_app) \<Rightarrow> (asgi_app \<Rightarrow> asgi_app) list \<Rightarrow> (asgi_app \<Rightarrow> asgi_app) list" where
  "add_middleware m ms = m # ms"

definition user_middleware :: "string list \<Rightarrow> cors \<Rightarrow> string \<Rightarrow> uuid \<Rightarrow> (asgi_app \<Rightarrow> asgi_app) list" where
  "user_middleware cors_origins c meth u =
     (let ms = add_middleware (\<lambda>app sc. fst (request_context u app sc)) []
      in if cors_origins \<noteq> [] then add_middleware (cors_middleware c meth) ms else ms)"

definition create_app :: "string list \<Rightarrow> cors \<Rightarrow> endpoints \<Rightarrow> uuid \<Rightarrow> string \<Rightarrow> string \<Rightarrow> asgi_app" where
  "create_app cors_origins c ep u meth path =
     server_error_middleware u (foldr (\<lambda>m app. m app) (user_middleware cors_origins c meth u)
       (exception_middleware (router_app ep meth path)))"

definition root :: "string \<Rightarrow> string \<Rightarrow> http_response" where
  "root app_name version = \<lparr>hr_status = 200, hr_headers = [],
     hr_body = JObj [(''service'', JStr app_name), (''version'', JStr version), (''docs'', JStr ''/docs'')]\<rparr>"

section \<open>Every request is answered once\<close>

text \<open>The scope the routes see: the request's, with its ids.\<close>

definition correlation :: "uuid \<Rightarrow> scope \<Rightarrow> string" where
  "correlation u sc = (let v = (case map_of (rev (sc_headers sc)) ''x-correlation-id'' of None \<Rightarrow> [] | Some v \<Rightarrow> v)
     in if v = [] then uuid_str u else v)"

definition with_ids :: "uuid \<Rightarrow> scope \<Rightarrow> scope" where
  "with_ids u sc = sc\<lparr>sc_request_id := Some (uuid_str u), sc_correlation_id := Some (correlation u sc)\<rparr>"

text \<open>The response the client should get for what the route does.\<close>

definition rendered :: "uuid \<Rightarrow> exn + http_response \<Rightarrow> http_response" where
  "rendered u r = (case r of Inl e \<Rightarrow> handle_exn (Some (uuid_str u)) e | Inr resp \<Rightarrow> resp)"

fun unexpected :: "exn + http_response \<Rightarrow> bool" where
  "unexpected (Inl (PyExc _)) = True"
| "unexpected _ = False"

definition id_headers :: "uuid \<Rightarrow> scope \<Rightarrow> (string \<times> string) list" where
  "id_headers u sc = [(''x-request-id'', uuid_str u), (''x-correlation-id'', correlation u sc)]"

text \<open>The headers CORS adds to a response that passes through it.\<close>

definition cors_added :: "string list \<Rightarrow> cors \<Rightarrow> scope \<Rightarrow> (string \<times> string) list" where
  "cors_added origins c sc = (if origins \<noteq> [] \<and> has_header ''origin'' sc then co_headers c sc else [])"

lemma inner_app:
  assumes "sc_type sc = ''http''" "visible_id u sc = Some i"
  shows "fst (request_context u (exception_middleware (router_app ep meth path)) sc) =
    (case route_request ep meth path (with_ids u sc) of
       Inl (PyExc n) \<Rightarrow> ([], Some (PyExc n))
     | r \<Rightarrow> ([ResponseStart (hr_status (rendered u r)) (hr_headers (rendered u r) @ id_headers u sc),
              ResponseBody (hr_body (rendered u r))], None))"
proof -
  let ?v = "case map_of (rev (sc_headers sc)) ''x-correlation-id'' of None \<Rightarrow> [] | Some v \<Rightarrow> v"
  obtain t where t: "decode_utf8 ?v = Inr t" using assms(2) by (cases "decode_utf8 ?v") (auto simp: visible_id_def)
  then have "t = ?v" by (simp add: decode_utf8_def split: if_splits)
  then have c: "(if t = [] then uuid_str u else t) = correlation u sc" by (simp add: correlation_def Let_def)
  have run: "request_context u app sc =
      (let (ms, failure) = app (with_ids u sc); sent = map (stamp (uuid_str u) (correlation u sc)) ms
       in ((sent, failure), Some (logged_status 500 sent)))" for app
    using assms(1) t c by (simp add: request_context_def with_ids_def Let_def)
  have rid: "sc_request_id (with_ids u sc) = Some (uuid_str u)" by (simp add: with_ids_def)
  show ?thesis unfolding run
    by (cases "route_request ep meth path (with_ids u sc)" rule: unexpected.cases)
       (simp_all add: exception_middleware_def router_app_def response_messages_def rendered_def id_headers_def rid Let_def)
qed

lemma undecodable: "visible_id u sc = None \<Longrightarrow> sc_type sc = ''http'' \<Longrightarrow>
   fst (request_context u app sc) = ([], Some (PyExc ''UnicodeDecodeError''))"
  by (auto simp: visible_id_def request_context_def decode_utf8_def Let_def split: sum.splits if_splits)

text \<open>C12: what the client gets, for every request. A preflight of a browser is answered by CORS. Otherwise
  there is exactly one response: what the route's function returned or, if it raised, the envelope of the
  error, or the 404, 405 or redirect of the router, and it leaves with the request's id and correlation id in
  its headers. Two kinds of response have no id headers: the 500 for an unexpected exception (its envelope
  names the id) and the 500 for a correlation header that is not UTF-8 (which has no id at all). Only in these
  two cases does an exception reach the server.\<close>

theorem application_response:
  assumes "sc_type sc = ''http''"
  shows "create_app origins c ep u meth path sc =
    (if origins \<noteq> [] \<and> is_preflight meth sc then (response_messages (co_preflight c sc), None)
     else case visible_id u sc of
       None \<Rightarrow> (response_messages (handle_exn None (PyExc ''UnicodeDecodeError'')), Some (PyExc ''UnicodeDecodeError''))
     | Some i \<Rightarrow>
         (let r = route_request ep meth path (with_ids u sc); resp = rendered u r
          in case r of
            Inl (PyExc n) \<Rightarrow> (response_messages resp, Some (PyExc n))
          | _ \<Rightarrow> ([ResponseStart (hr_status resp) (hr_headers resp @ id_headers u sc @ cors_added origins c sc),
                  ResponseBody (hr_body resp)], None)))"
proof -
  let ?inner = "\<lambda>sc. fst (request_context u (exception_middleware (router_app ep meth path)) sc)"
  let ?cors = "\<lambda>(ms, failure). (map (add_headers (cors_added origins c sc)) ms, failure)"
  have "add_headers [] m = m" for m by (cases m) simp_all
  then have add_none: "map (add_headers []) ms = ms" for ms by (simp add: map_idI)
  have layers: "create_app origins c ep u meth path sc = server_error_middleware u
      (\<lambda>sc. if origins \<noteq> [] then cors_middleware c meth ?inner sc else ?inner sc) sc"
    by (simp add: create_app_def user_middleware_def add_middleware_def Let_def server_error_middleware_def)
  have mid: "(if origins \<noteq> [] then cors_middleware c meth ?inner sc else ?inner sc) =
      (if origins \<noteq> [] \<and> is_preflight meth sc then (response_messages (co_preflight c sc), None) else ?cors (?inner sc))"
    using assms by (cases "?inner sc") (auto simp: cors_middleware_def cors_added_def is_preflight_def add_none)
  show ?thesis
  proof (cases "origins \<noteq> [] \<and> is_preflight meth sc")
    case True
    then show ?thesis unfolding layers server_error_middleware_def mid by simp
  next
    case np: False
    show ?thesis
    proof (cases "visible_id u sc")
      case None
      then show ?thesis
        using np undecodable [OF None assms] unfolding layers server_error_middleware_def mid by simp
    next
      case (Some i)
      have i: "i = uuid_str u" using Some by (simp add: visible_id_def split: sum.splits)
      show ?thesis
        unfolding layers server_error_middleware_def mid unfolding inner_app [OF assms Some]
        unfolding if_not_P [OF np] using Some i
        by (cases "route_request ep meth path (with_ids u sc)" rule: unexpected.cases)
           (simp_all add: rendered_def Let_def)
    qed
  qed
qed

theorem application_response_witness:
  "create_app [''https://portal''] \<lparr>co_preflight = \<lambda>_. redirect_to ''/'', co_headers = \<lambda>_. [(''vary'', ''Origin'')]\<rparr>
     (\<lambda>f sc. Inr (root f ''1'')) 7 ''GET'' ''/no/such/page''
     \<lparr>sc_type = ''http'', sc_headers = [(''origin'', ''https://portal'')], sc_request_id = None, sc_correlation_id = None\<rparr> =
   ([ResponseStart 404 [(''x-request-id'', uuid_str 7), (''x-correlation-id'', uuid_str 7), (''vary'', ''Origin'')],
     ResponseBody (envelope ''http_error'' ''Not Found'' [] (Some (uuid_str 7)))], None)"
proof -
  let ?sc = "\<lparr>sc_type = ''http'', sc_headers = [(''origin'', ''https://portal'')], sc_request_id = None, sc_correlation_id = None\<rparr>"
  have "dispatch app_routes ''GET'' ''/no/such/page'' = Unknown" by code_simp
  then have r: "route_request ep ''GET'' ''/no/such/page'' sc = Inl (HttpExc 404 ''Not Found'')" for ep sc
    by (simp add: route_request_def)
  have http: "sc_type ?sc = ''http''" by simp
  show ?thesis unfolding application_response [OF http] r
    by (simp add: is_preflight_def visible_id_def decode_utf8_def rendered_def handle_exn_def id_headers_def correlation_def
        cors_added_def has_header_def Let_def)
qed

end
