(* ===== verification/Runtime.thy ===== *)
theory Runtime
  imports Session Seed
begin

text \<open>
  The process around the application: the clients it creates on first use and keeps in module variables
  (\<open>core/redis.py\<close>, \<open>core/http_client.py\<close>, the engine and the session maker of \<open>db/session.py\<close>), the
  \<open>lifespan\<close> of \<open>main.py\<close> that seeds the roles and closes them, and the schedule of \<open>workers/celery_app.py\<close>.
  Which closings raise is a parameter. Shown: in every state a process can reach, each open client is the one
  its variable holds, so nothing leaks and nobody gets a closed one, and what a shutdown leaves open.
\<close>

section \<open>Clients created on first use\<close>

datatype handle = HttpClient nat | AsyncEngine nat | RedisClient nat

text \<open>The module variables, and the handles created and not closed. The session maker is the engine it is
  bound to.\<close>

record process =
  pr_http_client :: "handle option"
  pr_engine :: "handle option"
  pr_sessionmaker :: "handle option"
  pr_redis_client :: "handle option"
  pr_created :: nat
  pr_open :: "handle set"

definition new_process :: process where
  "new_process = \<lparr>pr_http_client = None, pr_engine = None, pr_sessionmaker = None, pr_redis_client = None,
     pr_created = 0, pr_open = {}\<rparr>"

type_synonym 'a runtime = "(process, exn, 'a) prog"

definition create :: "(nat \<Rightarrow> handle) \<Rightarrow> handle runtime" where
  "create mk = bindP (gets (\<lambda>p. mk (pr_created p))) (\<lambda>h.
     thenP (modifyP (\<lambda>p. p\<lparr>pr_created := Suc (pr_created p), pr_open := insert h (pr_open p)\<rparr>)) (ret h))"

text \<open>A closing that raises is taken to leave its client open. (httpx marks a client closed before it
  closes its connections, so after a failed closing its client may refuse requests as well.)\<close>

definition aclose :: "(handle \<Rightarrow> bool) \<Rightarrow> handle \<Rightarrow> unit runtime" where
  "aclose fails h = thenP (raise_if (fails h) (PyExc ''ConnectionError''))
     (modifyP (\<lambda>p. p\<lparr>pr_open := pr_open p - {h}\<rparr>))"

definition get_http_client :: "handle runtime" where
  "get_http_client = bindP (gets pr_http_client) (\<lambda>c. case c of
     Some h \<Rightarrow> ret h
   | None \<Rightarrow> bindP (create HttpClient) (\<lambda>h. thenP (modifyP (\<lambda>p. p\<lparr>pr_http_client := Some h\<rparr>)) (ret h)))"

definition close_http_client :: "(handle \<Rightarrow> bool) \<Rightarrow> unit runtime" where
  "close_http_client fails = thenP
     (bindP (gets pr_http_client) (\<lambda>c. case c of Some h \<Rightarrow> aclose fails h | None \<Rightarrow> ret ()))
     (modifyP (\<lambda>p. p\<lparr>pr_http_client := None\<rparr>))"

definition get_redis :: "handle runtime" where
  "get_redis = bindP (gets pr_redis_client) (\<lambda>c. case c of
     Some h \<Rightarrow> ret h
   | None \<Rightarrow> bindP (create RedisClient) (\<lambda>h. thenP (modifyP (\<lambda>p. p\<lparr>pr_redis_client := Some h\<rparr>)) (ret h)))"

definition close_redis :: "(handle \<Rightarrow> bool) \<Rightarrow> unit runtime" where
  "close_redis fails = thenP
     (bindP (gets pr_redis_client) (\<lambda>c. case c of Some h \<Rightarrow> aclose fails h | None \<Rightarrow> ret ()))
     (modifyP (\<lambda>p. p\<lparr>pr_redis_client := None\<rparr>))"

definition get_engine :: "handle runtime" where
  "get_engine = bindP (gets pr_engine) (\<lambda>c. case c of
     Some h \<Rightarrow> ret h
   | None \<Rightarrow> bindP (create AsyncEngine) (\<lambda>h. thenP (modifyP (\<lambda>p. p\<lparr>pr_engine := Some h\<rparr>)) (ret h)))"

definition get_sessionmaker :: "handle runtime" where
  "get_sessionmaker = bindP (gets pr_sessionmaker) (\<lambda>c. case c of
     Some h \<Rightarrow> ret h
   | None \<Rightarrow> bindP get_engine (\<lambda>h. thenP (modifyP (\<lambda>p. p\<lparr>pr_sessionmaker := Some h\<rparr>)) (ret h)))"

definition dispose_engine :: "(handle \<Rightarrow> bool) \<Rightarrow> unit runtime" where
  "dispose_engine fails = thenP
     (bindP (gets pr_engine) (\<lambda>c. case c of Some h \<Rightarrow> aclose fails h | None \<Rightarrow> ret ()))
     (modifyP (\<lambda>p. p\<lparr>pr_engine := None, pr_sessionmaker := None\<rparr>))"

section \<open>Startup and shutdown\<close>

text \<open>\<open>lifespan\<close> before its \<open>yield\<close>: the seeding in a session of its own, whose failure is only logged.\<close>

definition lifespan_startup :: "(permission \<Rightarrow> uuid) \<Rightarrow> (role_name \<Rightarrow> uuid) \<Rightarrow> unit dbprog" where
  "lifespan_startup pid rid d = (Inr (), snd (session_scope (seed_rbac pid rid) d))"

text \<open>And after it.\<close>

definition lifespan_shutdown :: "(handle \<Rightarrow> bool) \<Rightarrow> unit runtime" where
  "lifespan_shutdown fails = thenP (close_http_client fails) (thenP (dispose_engine fails) (close_redis fails))"

text \<open>A failed seeding leaves the database as it was, and the application starts all the same.\<close>

lemma startup_best_effort:
  "fst (lifespan_startup pid rid d) = Inr () \<and>
   (\<forall>e. fst (seed_rbac pid rid d) = Inl e \<longrightarrow> snd (lifespan_startup pid rid d) = d)"
  by (auto simp: lifespan_startup_def session_scope_run split: prod.splits sum.splits)

section \<open>The schedule\<close>

text \<open>Name, task and period in seconds of each entry, and the names the tasks are registered under.\<close>

definition beat_schedule :: "(string \<times> string \<times> rat) list" where
  "beat_schedule = [(''publish-telemetry'', ''telemetry.publish'', 10), (''rollup-daily-usage'', ''analytics.rollup_daily'', 900)]"

definition registered_tasks :: "string list" where
  "registered_tasks = [''telemetry.publish'', ''analytics.rollup_daily'']"

lemma scheduled_tasks_exist: "map (fst \<circ> snd) beat_schedule = registered_tasks"
  by (simp add: beat_schedule_def registered_tasks_def)

section \<open>The reachable processes\<close>

text \<open>A process uses its clients in any order and may shut down and start again, with any closing failing.\<close>

inductive runtime_step :: "process \<Rightarrow> process \<Rightarrow> bool" where
  http: "runtime_step p (snd (get_http_client p))"
| redis: "runtime_step p (snd (get_redis p))"
| session: "runtime_step p (snd (get_sessionmaker p))"
| shutdown: "runtime_step p (snd (lifespan_shutdown fails p))"

inductive reached :: "process \<Rightarrow> bool" where
  start: "reached new_process"
| step: "reached p \<Longrightarrow> runtime_step p q \<Longrightarrow> reached q"

text \<open>The handles the module variables hold, in the order a shutdown closes them.\<close>

definition held :: "process \<Rightarrow> handle list" where
  "held p = concat (map (\<lambda>c. case c of None \<Rightarrow> [] | Some h \<Rightarrow> [h]) [pr_http_client p, pr_engine p, pr_redis_client p])"

definition runtime_ok :: "process \<Rightarrow> bool" where
  "runtime_ok p \<longleftrightarrow> pr_open p = set (held p) \<and>
     pr_http_client p \<in> insert None (Some ` range HttpClient) \<and>
     pr_engine p \<in> insert None (Some ` range AsyncEngine) \<and>
     pr_redis_client p \<in> insert None (Some ` range RedisClient) \<and>
     (pr_sessionmaker p = None \<or> pr_sessionmaker p = pr_engine p)"

lemma runtime_ok_new: "runtime_ok new_process"
  by (simp add: runtime_ok_def new_process_def held_def)

lemma runtime_ok_http: "runtime_ok p \<Longrightarrow> runtime_ok (snd (get_http_client p)) \<and>
   (\<exists>h. fst (get_http_client p) = Inr h \<and> h \<in> pr_open (snd (get_http_client p)))"
  by (cases "pr_http_client p") (simp_all add: runtime_ok_def held_def get_http_client_def create_def prog_simps)

lemma runtime_ok_redis: "runtime_ok p \<Longrightarrow> runtime_ok (snd (get_redis p)) \<and>
   (\<exists>h. fst (get_redis p) = Inr h \<and> h \<in> pr_open (snd (get_redis p)))"
  by (cases "pr_redis_client p") (simp_all add: runtime_ok_def held_def get_redis_def create_def prog_simps)

lemma runtime_ok_session: "runtime_ok p \<Longrightarrow> runtime_ok (snd (get_sessionmaker p)) \<and>
   (\<exists>h. fst (get_sessionmaker p) = Inr h \<and> h \<in> pr_open (snd (get_sessionmaker p)))"
  by (cases "pr_sessionmaker p"; cases "pr_engine p")
     (simp_all add: runtime_ok_def held_def get_sessionmaker_def get_engine_def create_def prog_simps)

lemmas closing_defs = close_http_client_def dispose_engine_def close_redis_def aclose_def

lemma close_http_run:
  "close_http_client fails p = (case pr_http_client p of
     None \<Rightarrow> (Inr (), p\<lparr>pr_http_client := None\<rparr>)
   | Some h \<Rightarrow> if fails h then (Inl (PyExc ''ConnectionError''), p)
       else (Inr (), p\<lparr>pr_http_client := None, pr_open := pr_open p - {h}\<rparr>))"
  by (cases "pr_http_client p") (simp_all add: closing_defs prog_simps)

lemma dispose_run:
  "dispose_engine fails p = (case pr_engine p of
     None \<Rightarrow> (Inr (), p\<lparr>pr_engine := None, pr_sessionmaker := None\<rparr>)
   | Some h \<Rightarrow> if fails h then (Inl (PyExc ''ConnectionError''), p)
       else (Inr (), p\<lparr>pr_engine := None, pr_sessionmaker := None, pr_open := pr_open p - {h}\<rparr>))"
  by (cases "pr_engine p") (simp_all add: closing_defs prog_simps)

lemma close_redis_run:
  "close_redis fails p = (case pr_redis_client p of
     None \<Rightarrow> (Inr (), p\<lparr>pr_redis_client := None\<rparr>)
   | Some h \<Rightarrow> if fails h then (Inl (PyExc ''ConnectionError''), p)
       else (Inr (), p\<lparr>pr_redis_client := None, pr_open := pr_open p - {h}\<rparr>))"
  by (cases "pr_redis_client p") (simp_all add: closing_defs prog_simps)

lemma runtime_ok_close_http: "runtime_ok p \<Longrightarrow> runtime_ok (snd (close_http_client fails p))"
  unfolding close_http_run
  by (cases "pr_http_client p"; cases "pr_engine p"; cases "pr_redis_client p") (auto simp: runtime_ok_def held_def)

lemma runtime_ok_dispose: "runtime_ok p \<Longrightarrow> runtime_ok (snd (dispose_engine fails p))"
  unfolding dispose_run
  by (cases "pr_http_client p"; cases "pr_engine p"; cases "pr_redis_client p") (auto simp: runtime_ok_def held_def)

lemma runtime_ok_close_redis: "runtime_ok p \<Longrightarrow> runtime_ok (snd (close_redis fails p))"
  unfolding close_redis_run
  by (cases "pr_http_client p"; cases "pr_engine p"; cases "pr_redis_client p") (auto simp: runtime_ok_def held_def)

lemma snd_thenP_keeps: "P (snd (m s)) \<Longrightarrow> (\<And>s. P s \<Longrightarrow> P (snd (k s))) \<Longrightarrow> P (snd (thenP m k s))"
  by (auto simp: thenP_def bindP_def split: prod.splits sum.splits)

lemma runtime_ok_shutdown: "runtime_ok p \<Longrightarrow> runtime_ok (snd (lifespan_shutdown fails p))"
  unfolding lifespan_shutdown_def
  using runtime_ok_close_http runtime_ok_dispose runtime_ok_close_redis
  by (simp add: snd_thenP_keeps [where P = runtime_ok])

lemma reached_ok: "reached p \<Longrightarrow> runtime_ok p"
proof (induction rule: reached.induct)
  case (step p q)
  from step.hyps(2) step.IH show ?case
    by (cases rule: runtime_step.cases)
       (simp_all add: runtime_ok_http runtime_ok_redis runtime_ok_session runtime_ok_shutdown)
qed (rule runtime_ok_new)

text \<open>What a shutdown leaves open: nothing before the first closing that fails.\<close>

lemma shutdown_leaves:
  assumes "runtime_ok p"
  shows "pr_open (snd (lifespan_shutdown fails p)) = set (dropWhile (\<lambda>h. \<not> fails h) (held p)) \<and>
    held (snd (lifespan_shutdown fails p)) = dropWhile (\<lambda>h. \<not> fails h) (held p)"
proof -
  have "runtime_ok (snd (lifespan_shutdown fails p))" by (rule runtime_ok_shutdown [OF assms])
  moreover have "held (snd (lifespan_shutdown fails p)) = dropWhile (\<lambda>h. \<not> fails h) (held p)"
    unfolding lifespan_shutdown_def thenP_run close_http_run dispose_run close_redis_run
    by (cases "pr_http_client p"; cases "pr_engine p"; cases "pr_redis_client p") (simp_all add: held_def)
  ultimately show ?thesis by (simp add: runtime_ok_def)
qed

text \<open>C25: no client leaks and no request gets a closed one. In every state a process can reach, through any
  use of its clients and any shutdowns, complete or not, the open clients are exactly those its variables
  hold, one of each kind at most; what \<open>get_http_client\<close>, \<open>get_redis\<close> and \<open>get_sessionmaker\<close> return is open;
  and a shutdown closes all of them, or, when a closing raises (which is taken to leave its client open),
  those in front of it: the rest stay open.\<close>

theorem clients_not_leaked:
  assumes "reached p"
  shows "pr_open p = set (held p) \<and>
    (\<forall>get \<in> {get_http_client, get_redis, get_sessionmaker}. \<exists>h. fst (get p) = Inr h \<and> h \<in> pr_open (snd (get p))) \<and>
    pr_open (snd (lifespan_shutdown fails p)) = set (dropWhile (\<lambda>h. \<not> fails h) (held p)) \<and>
    (fst (lifespan_shutdown fails p) = Inr () \<longleftrightarrow> pr_open (snd (lifespan_shutdown fails p)) = {})"
proof -
  have ok: "runtime_ok p" by (rule reached_ok [OF assms])
  have "fst (lifespan_shutdown fails p) = Inr () \<longleftrightarrow> dropWhile (\<lambda>h. \<not> fails h) (held p) = []"
    unfolding lifespan_shutdown_def thenP_run close_http_run dispose_run close_redis_run
    by (cases "pr_http_client p"; cases "pr_engine p"; cases "pr_redis_client p") (simp_all add: held_def)
  moreover have "pr_open p = set (held p)" using ok by (simp add: runtime_ok_def)
  moreover have "\<forall>get \<in> {get_http_client, get_redis, get_sessionmaker}. \<exists>h. fst (get p) = Inr h \<and> h \<in> pr_open (snd (get p))"
    using runtime_ok_http [OF ok] runtime_ok_redis [OF ok] runtime_ok_session [OF ok] by blast
  ultimately show ?thesis using shutdown_leaves [OF ok, of fails] by simp
qed

theorem clients_not_leaked_witness:
  "\<exists>p. reached p \<and> held p = [AsyncEngine 0, RedisClient 1] \<and>
     pr_open (snd (lifespan_shutdown (\<lambda>h. h = AsyncEngine 0) p)) = {AsyncEngine 0, RedisClient 1} \<and>
     pr_open (snd (lifespan_shutdown (\<lambda>h. False) p)) = {}"
proof -
  let ?p = "snd (get_redis (snd (get_sessionmaker new_process)))"
  have r: "reached ?p"
    by (rule reached.step [OF reached.step [OF reached.start runtime_step.session] runtime_step.redis])
  have h: "held ?p = [AsyncEngine 0, RedisClient 1]"
    by (simp add: held_def get_redis_def get_sessionmaker_def get_engine_def create_def new_process_def prog_simps)
  show ?thesis
    using r h clients_not_leaked [OF r, of "\<lambda>h. h = AsyncEngine 0"] clients_not_leaked [OF r, of "\<lambda>h. False"]
    by (intro exI [of _ ?p]) simp
qed

end
