(* ===== verification/Responses.thy ===== *)
theory Responses
  imports Isolation Notifications
begin

text \<open>
  The response models of \<open>schemas\<close> and of the routers: the JSON each turns a result into, field by field, and
  the body of every answer below \<open>/organizations/{org_id}\<close>. The texts of a datetime and of a date are
  parameters; numbers are exact. Shown: no GET reveals anything about a stored secret.
\<close>

section \<open>Response models\<close>

record texts =
  tx_instant :: "instant \<Rightarrow> string"
  tx_date :: "date \<Rightarrow> string"

definition uuid_json :: "uuid \<Rightarrow> json" where
  "uuid_json u = JStr (uuid_str u)"

definition nullable_json :: "('a \<Rightarrow> json) \<Rightarrow> 'a option \<Rightarrow> json" where
  "nullable_json f x = (case x of None \<Rightarrow> JNull | Some y \<Rightarrow> f y)"

definition time_json :: "texts \<Rightarrow> instant \<Rightarrow> json" where
  "time_json tx t = JStr (tx_instant tx t)"

definition user_json :: "texts \<Rightarrow> user \<Rightarrow> json" where
  "user_json tx u = JObj [(''id'', uuid_json (u_id u)), (''email'', JStr (u_email u)),
     (''full_name'', nullable_json JStr (u_full_name u)), (''is_active'', JBool (u_is_active u)),
     (''is_email_verified'', JBool (u_is_email_verified u)), (''created_at'', time_json tx (u_created_at u))]"

definition token_json :: "issued_tokens \<Rightarrow> json" where
  "token_json t = JObj [(''access_token'', JStr (it_access_token t)), (''token_type'', JStr ''bearer''),
     (''expires_in'', JInt (it_expires_in t)), (''refresh_token'', JStr (it_refresh_token t))]"

definition message_json :: "string \<Rightarrow> json" where
  "message_json m = JObj [(''message'', JStr m)]"

definition organization_json :: "texts \<Rightarrow> organization \<Rightarrow> json" where
  "organization_json tx r = JObj [(''id'', uuid_json (o_id r)), (''name'', JStr (o_name r)), (''slug'', JStr (o_slug r)),
     (''created_at'', time_json tx (o_created_at r))]"

text \<open>\<open>_member_response\<close>, over the user and the role of the member, which its foreign keys give.\<close>

definition member_json :: "texts \<Rightarrow> db \<Rightarrow> organization_member \<Rightarrow> json" where
  "member_json tx d m = (let u = find (\<lambda>u. u_id u = m_user_id m) (db_users d)
     in JObj [(''id'', uuid_json (m_id m)), (''user_id'', uuid_json (m_user_id m)),
       (''email'', nullable_json (\<lambda>u. JStr (u_email u)) u),
       (''full_name'', nullable_json (\<lambda>u. nullable_json JStr (u_full_name u)) u),
       (''role'', JStr (role_name_of d (m_role_id m))), (''created_at'', time_json tx (m_created_at m))])"

definition version_json :: "texts \<Rightarrow> api_version \<Rightarrow> json" where
  "version_json tx v = JObj [(''id'', uuid_json (v_id v)), (''version'', JStr (v_version v)),
     (''upstream_base_url'', JStr (v_upstream_base_url v)), (''is_active'', JBool (v_is_active v)),
     (''created_at'', time_json tx (v_created_at v))]"

definition api_json :: "texts \<Rightarrow> api \<times> api_version list \<Rightarrow> json" where
  "api_json tx = (\<lambda>(a, vs). JObj [(''id'', uuid_json (a_id a)), (''organization_id'', uuid_json (a_organization_id a)),
     (''name'', JStr (a_name a)), (''slug'', JStr (a_slug a)), (''description'', JStr (a_description a)),
     (''is_active'', JBool (a_is_active a)), (''created_at'', time_json tx (a_created_at a)),
     (''versions'', JList (map (version_json tx) vs))])"

definition quota_json :: "quota_period \<times> int \<Rightarrow> json" where
  "quota_json = (\<lambda>(p, n). JObj [(''period'', JStr (period_str p)), (''max_requests'', JInt n)])"

definition rate_limit_json :: "rate_limit_rule \<Rightarrow> json" where
  "rate_limit_json l = JObj [(''algorithm'', JStr (algorithm_str (l_algorithm l))), (''requests'', JInt (l_requests l)),
     (''window_seconds'', JInt (l_window_seconds l)), (''burst'', nullable_json JInt (l_burst l))]"

definition key_fields :: "texts \<Rightarrow> key_response \<Rightarrow> (string \<times> json) list" where
  "key_fields tx k = [(''id'', uuid_json (kr_id k)), (''api_id'', uuid_json (kr_api_id k)), (''name'', JStr (kr_name k)),
     (''prefix'', JStr (kr_prefix k)), (''last_four'', JStr (kr_last_four k)),
     (''expires_at'', nullable_json (time_json tx) (kr_expires_at k)),
     (''revoked_at'', nullable_json (time_json tx) (kr_revoked_at k)), (''created_at'', time_json tx (kr_created_at k))]"

definition key_json :: "texts \<Rightarrow> key_response \<Rightarrow> json" where
  "key_json tx k = JObj (key_fields tx k)"

definition key_created_json :: "texts \<Rightarrow> key_response \<times> string \<Rightarrow> json" where
  "key_created_json tx = (\<lambda>(k, full). JObj (key_fields tx k @ [(''api_key'', JStr full)]))"

definition notification_json :: "texts \<Rightarrow> notification \<Rightarrow> json" where
  "notification_json tx n = JObj [(''id'', uuid_json (n_id n)), (''type'', JStr (n_type n)), (''title'', JStr (n_title n)),
     (''body'', JStr (n_body n)), (''organization_id'', nullable_json uuid_json (n_organization_id n)),
     (''read_at'', nullable_json (time_json tx) (n_read_at n)), (''created_at'', time_json tx (n_created_at n))]"

definition audit_json :: "texts \<Rightarrow> audit_log \<Rightarrow> json" where
  "audit_json tx a = JObj [(''id'', uuid_json (al_id a)), (''action'', JStr (al_action a)),
     (''resource_type'', JStr (al_resource_type a)), (''resource_id'', nullable_json uuid_json (al_resource_id a)),
     (''actor_user_id'', nullable_json uuid_json (al_actor_user_id a)), (''ip'', nullable_json JStr (al_ip a)),
     (''metadata'', JObj (al_metadata a)), (''created_at'', time_json tx (al_created_at a))]"

definition request_log_json :: "texts \<Rightarrow> request_log \<Rightarrow> json" where
  "request_log_json tx g = JObj [(''id'', uuid_json (g_id g)), (''api_id'', uuid_json (g_api_id g)),
     (''api_version_id'', uuid_json (g_api_version_id g)), (''api_key_id'', nullable_json uuid_json (g_api_key_id g)),
     (''method'', JStr (g_method g)), (''path'', JStr (g_path g)), (''status_code'', JInt (g_status_code g)),
     (''latency_ms'', JNum (g_latency_ms g)), (''request_bytes'', JInt (g_request_bytes g)),
     (''response_bytes'', JInt (g_response_bytes g)), (''client_ip'', JStr (g_client_ip g)),
     (''created_at'', time_json tx (g_created_at g))]"

definition summary_json :: "summary_response \<Rightarrow> json" where
  "summary_json s = JObj [(''request_count'', JInt (sr_request_count s)), (''error_count'', JInt (sr_error_count s)),
     (''error_rate'', JNum (sr_error_rate s)), (''avg_latency_ms'', JNum (sr_avg_latency_ms s)),
     (''p95_latency_ms'', JNum (sr_p95_latency_ms s)), (''active_keys'', JInt (sr_active_keys s)),
     (''window_days'', JInt (sr_window_days s))]"

definition endpoint_stat_json :: "string \<times> int \<times> rat \<Rightarrow> json" where
  "endpoint_stat_json = (\<lambda>(p, n, a). JObj [(''path'', JStr p), (''request_count'', JInt n), (''avg_latency_ms'', JNum a)])"

definition point_json :: "texts \<Rightarrow> series_point \<Rightarrow> json" where
  "point_json tx s = JObj [(''date'', JStr (tx_date tx (sp_date s))), (''request_count'', JInt (sp_request_count s)),
     (''error_count'', JInt (sp_error_count s)), (''avg_latency_ms'', JNum (sp_avg_latency_ms s))]"

definition key_stat_json :: "string \<times> int \<times> int \<Rightarrow> json" where
  "key_stat_json = (\<lambda>(k, n, e). JObj [(''api_key_id'', JStr k), (''request_count'', JInt n), (''error_count'', JInt e)])"

definition counts_json :: "(string \<times> int) list \<Rightarrow> json" where
  "counts_json cs = JObj (map (\<lambda>(c, n). (c, JInt n)) cs)"

definition dashboard_json :: "dashboard \<Rightarrow> json" where
  "dashboard_json b = JObj [(''summary'', summary_json (da_summary b)),
     (''top_endpoints'', JList (map endpoint_stat_json (da_top_endpoints b))),
     (''status_breakdown'', counts_json (da_status_breakdown b)),
     (''top_keys'', JList (map key_stat_json (da_top_keys b))), (''api_count'', JInt (da_api_count b))]"

definition page_json :: "('a \<Rightarrow> json) \<Rightarrow> 'a list \<Rightarrow> nat \<Rightarrow> nat \<Rightarrow> nat \<Rightarrow> json" where
  "page_json f items n lmt off = JObj [(''items'', JList (map f items)), (''total'', JInt (int n)),
     (''limit'', JInt (int lmt)), (''offset'', JInt (int off))]"

section \<open>The body of an answer\<close>

fun paging :: "tenant_request \<Rightarrow> nat \<times> nat" where
  "paging (ListApis lmt off) = (lmt, off)"
| "paging (SearchRequestLogs _ lmt off) = (lmt, off)"
| "paging _ = (0, 0)"

fun body_json :: "texts \<Rightarrow> db \<Rightarrow> nat \<times> nat \<Rightarrow> tenant_response \<Rightarrow> json option" where
  "body_json tx d pg (OrganizationR r) = Some (organization_json tx r)"
| "body_json tx d pg (MemberR m) = Some (member_json tx d m)"
| "body_json tx d pg (MembersR ms) = Some (JList (map (member_json tx d) ms))"
| "body_json tx d pg (ApiR a) = Some (api_json tx a)"
| "body_json tx d (lmt, off) (ApisR p) = Some (page_json (api_json tx) (fst p) (snd p) lmt off)"
| "body_json tx d pg (VersionR v) = Some (version_json tx v)"
| "body_json tx d pg (QuotasR qs) = Some (JList (map quota_json qs))"
| "body_json tx d pg (RateLimitR l) = Some (rate_limit_json l)"
| "body_json tx d pg (MaybeRateLimitR l) = Some (nullable_json rate_limit_json l)"
| "body_json tx d pg (IssuedKeyR k) = Some (key_created_json tx k)"
| "body_json tx d pg (KeysR ks) = Some (JList (map (key_json tx) ks))"
| "body_json tx d pg (SummaryR s) = Some (summary_json s)"
| "body_json tx d pg (EndpointsR es) = Some (JList (map endpoint_stat_json es))"
| "body_json tx d pg (StatusR cs) = Some (counts_json cs)"
| "body_json tx d pg (SeriesR ps) = Some (JList (map (point_json tx) ps))"
| "body_json tx d pg (TopKeysR ks) = Some (JList (map key_stat_json ks))"
| "body_json tx d pg (DashboardR b) = Some (dashboard_json b)"
| "body_json tx d (lmt, off) (LogsR p) = Some (page_json (request_log_json tx) (fst p) (snd p) lmt off)"
| "body_json tx d pg (AuditR as) = Some (JList (map (audit_json tx) as))"
| "body_json tx d pg NoContent = None"

text \<open>A request below an organization, down to its body; and the reads a user has outside of them.\<close>

definition served :: "texts \<Rightarrow> call \<Rightarrow> uuid \<Rightarrow> tenant_request \<Rightarrow> json option dbprog" where
  "served tx c oid rq = bindP (handler c oid rq) (\<lambda>r. gets (\<lambda>d. body_json tx d (paging rq) r))"

datatype user_request = Me | ListOrganizations nat nat | ListNotifications bool nat nat

definition me :: "env \<Rightarrow> settings \<Rightarrow> instant \<Rightarrow> string option \<Rightarrow> user dbprog" where
  "me E st now cred = session_scope (bindP (get_current_user E st now cred) ret)"

definition served_user :: "texts \<Rightarrow> call \<Rightarrow> user_request \<Rightarrow> json dbprog" where
  "served_user tx c rq = (let E = c_env c; st = c_settings c; now = c_now c; cred = c_cred c in case rq of
     Me \<Rightarrow> bindP (me E st now cred) (\<lambda>u. ret (user_json tx u))
   | ListOrganizations lmt off \<Rightarrow> bindP (list_organizations_endpoint E st now cred lmt off) (\<lambda>(rs, n).
       ret (page_json (organization_json tx) rs n lmt off))
   | ListNotifications unread_only lmt off \<Rightarrow> bindP (list_notifications_endpoint E st now cred unread_only lmt off) (\<lambda>ns.
       ret (JList (map (notification_json tx) ns))))"

section \<open>Secrets stay in the database\<close>

text \<open>The database with every stored password hash, token hash and key hash replaced.\<close>

definition hide_user :: "(user \<Rightarrow> string) \<Rightarrow> user \<Rightarrow> user" where
  "hide_user f u = u\<lparr>u_password_hash := f u\<rparr>"

definition blind :: "(user \<Rightarrow> string) \<Rightarrow> (refresh_token \<Rightarrow> string) \<Rightarrow> (api_key \<Rightarrow> string) \<Rightarrow> db \<Rightarrow> db" where
  "blind f g h d = d\<lparr>db_users := map (hide_user f) (db_users d),
     db_tokens := map (\<lambda>t. t\<lparr>rt_token_hash := g t\<rparr>) (db_tokens d),
     db_keys := map (\<lambda>k. k\<lparr>k_key_hash := h k\<rparr>) (db_keys d)\<rparr>"

lemma blind_fields [simp]:
  "db_roles (blind f g h d) = db_roles d" "db_orgs (blind f g h d) = db_orgs d" "db_members (blind f g h d) = db_members d"
  "db_apis (blind f g h d) = db_apis d" "db_versions (blind f g h d) = db_versions d" "db_quotas (blind f g h d) = db_quotas d"
  "db_rules (blind f g h d) = db_rules d" "db_logs (blind f g h d) = db_logs d" "db_usage (blind f g h d) = db_usage d"
  "db_audit (blind f g h d) = db_audit d" "db_daily (blind f g h d) = db_daily d" "db_notes (blind f g h d) = db_notes d"
  "db_users (blind f g h d) = map (hide_user f) (db_users d)"
  "db_keys (blind f g h d) = map (\<lambda>k. k\<lparr>k_key_hash := h k\<rparr>) (db_keys d)"
  by (simp_all add: blind_def)

lemma hide_user_fields [simp]:
  "u_id (hide_user f u) = u_id u" "u_email (hide_user f u) = u_email u" "u_full_name (hide_user f u) = u_full_name u"
  "u_is_active (hide_user f u) = u_is_active u" "u_is_superuser (hide_user f u) = u_is_superuser u"
  "user_json tx (hide_user f u) = user_json tx u"
  by (simp_all add: hide_user_def user_json_def)

lemma find_map_hidden: "(\<And>x. P (t x) = P x) \<Longrightarrow> find P (map t xs) = map_option t (find P xs)"
  by (induction xs) auto

definition blinded :: "(user \<Rightarrow> string) \<Rightarrow> (refresh_token \<Rightarrow> string) \<Rightarrow> (api_key \<Rightarrow> string) \<Rightarrow> db \<Rightarrow> db \<Rightarrow> bool" where
  "blinded f g h d1 d2 \<longleftrightarrow> d2 = blind f g h d1"

lemma current_user_blind:
  "get_current_user E st now cred (blind f g h d) =
   (map_sum id (hide_user f) (fst (get_current_user E st now cred d)), blind f g h d)"
proof -
  have "find (\<lambda>x. u_id x = i) (db_users (blind f g h d)) = map_option (hide_user f) (find (\<lambda>x. u_id x = i) (db_users d))" for i
    by (simp add: find_map_hidden)
  then show ?thesis
    by (auto simp: get_current_user_def prog_simps repo_get_def split: option.splits sum.splits prod.splits)
qed

lemma agree_select_one [agree_intros]:
  "(\<And>d1 d2. R d1 d2 \<Longrightarrow> tab d1 = tab d2) \<Longrightarrow> agree R Q (select_one tab P)"
  by (rule agreeI [OF reads_select_one]) (simp add: select_one_def)

lemma agree_mapP: "(\<And>x Q. agree R Q (f x)) \<Longrightarrow> agree R Q (mapP f xs)"
  by (induction xs arbitrary: Q) (auto intro!: agree_intros)

lemma role_name_blind: "role_name_of (blind f g h d) = role_name_of d"
  by (simp add: role_name_of_def fun_eq_iff)

lemma blind_require_permission: "agree (blinded f g h) Q (require_permission perm oid u)"
  unfolding require_permission_def get_for_user_and_org_def
  by (intro agree_intros) (simp_all add: blinded_def role_name_blind)

text \<open>A request that runs as its caller, when the caller's password hash does not matter to the rest.\<close>

lemma blind_as_user:
  assumes "\<And>u. k (hide_user f u) = k u" "\<And>u. agree (blinded f g h) (\<lambda>_. True) (k u)"
  shows "agree (blinded f g h) (\<lambda>_. True) (session_scope (bindP (get_current_user E st now cred) k))"
proof (rule agree_session_scope, rule agreeI)
  show "reads (bindP (get_current_user E st now cred) k)"
    using assms(2) by (intro reads_bindP reads_get_current_user) (simp add: agree_def)
  fix d1 d2 assume "blinded f g h d1 d2"
  then have d2: "d2 = blind f g h d1" by (simp add: blinded_def)
  have st: "snd (get_current_user E st now cred d1) = d1"
    using reads_get_current_user by (simp add: reads_def)
  show "fst (bindP (get_current_user E st now cred) k d1) = fst (bindP (get_current_user E st now cred) k d2)"
  proof (cases "fst (get_current_user E st now cred d1)")
    case (Inl e)
    then show ?thesis by (simp add: bindP_def split_beta current_user_blind d2)
  next
    case (Inr u)
    then have "bindP (get_current_user E st now cred) k d1 = k u d1"
      "bindP (get_current_user E st now cred) k d2 = k u d2"
      using st by (simp_all add: bindP_def split_beta current_user_blind d2 assms(1))
    then show ?thesis using assms(2) [of u] by (simp add: agree_def blinded_def d2)
  qed
qed

lemma blind_authorized:
  assumes "agree (blinded f g h) (\<lambda>_. True) b"
  shows "agree (blinded f g h) (\<lambda>_. True) (authorized E st now cred perm oid (\<lambda>_. b))"
  unfolding authorized_def
proof (rule blind_as_user)
  fix u
  show "bindP (require_permission perm oid (hide_user f u)) (\<lambda>_. b) = bindP (require_permission perm oid u) (\<lambda>_. b)"
    by (simp add: require_permission_def)
  show "agree (blinded f g h) (\<lambda>_. True) (bindP (require_permission perm oid u) (\<lambda>_. b))"
    by (rule agree_bindP [OF blind_require_permission]) (rule agree_weaken [OF assms], simp)
qed

lemma blind_reads:
  "agree (blinded f g h) Q (get_api oid aid)" "agree (blinded f g h) Q (get_organization oid)"
  "agree (blinded f g h) Q (list_members oid)" "agree (blinded f g h) Q (list_in_org oid lmt off)"
  "agree (blinded f g h) Q (api_response a)" "agree (blinded f g h) Q (list_quotas_for_api aid)"
  "agree (blinded f g h) Q (get_rule_for_api aid)" "agree (blinded f g h) Q (search_logs oid lf lmt off)"
  "agree (blinded f g h) Q (list_audit_for_org oid lmt off)" "agree (blinded f g h) Q (list_orgs_for_user uid lmt off)"
  "agree (blinded f g h) Q (list_notifications uid unread_only lmt off)"
  unfolding get_api_def get_in_org_def get_organization_def repo_get_def list_members_def list_in_org_def api_response_def
    list_quotas_for_api_def get_rule_for_api_def search_logs_def list_audit_for_org_def list_orgs_for_user_def
    list_notifications_def
  by (intro agree_intros; simp add: blinded_def apis_of_org_def versions_of_def orgs_of_user_def)+

lemma blind_scoped: "blinded f g h d1 d2 \<Longrightarrow> scoped oid api since d1 = scoped oid api since d2"
  "blinded f g h d1 d2 \<Longrightarrow> series_rows oid api since_date d1 = series_rows oid api since_date d2"
  by (simp_all add: blinded_def scoped_def series_rows_def)

lemma blind_analytics:
  "agree (blinded f g h) Q (repo_summary oid api since)" "agree (blinded f g h) Q (repo_active_keys oid api since)"
  "agree (blinded f g h) Q (repo_top_endpoints oid api since lmt)" "agree (blinded f g h) Q (repo_status_breakdown oid api since)"
  "agree (blinded f g h) Q (repo_daily_series oid api since_date)" "agree (blinded f g h) Q (repo_top_keys oid since_date lmt)"
  unfolding repo_summary_def repo_active_keys_def repo_top_endpoints_def repo_status_breakdown_def repo_daily_series_def
  by (rule agree_gets, simp only: blind_scoped)+
     (unfold repo_top_keys_def, rule agree_gets, simp add: blinded_def)

text \<open>A key's answer does not hold its hash.\<close>

lemma sort_map: "(\<And>x. k (t x) = k x) \<Longrightarrow> sort_key k (map t xs) = map t (sort_key k xs)"
proof -
  assume k: "\<And>x. k (t x) = k x"
  have "insort_key k (t x) (map t ys) = map t (insort_key k x ys)" for x ys by (induction ys) (simp_all add: k)
  then show ?thesis by (induction xs) simp_all
qed

lemma blind_keys: "agree (blinded f g h) Q (bindP (list_keys oid aid) (\<lambda>ks. ret (map key_response_of ks)))"
proof -
  have "map key_response_of (order_desc k_created_at (filter (\<lambda>k. k_api_id k = aid) (db_keys (blind f g h d)))) =
      map key_response_of (order_desc k_created_at (filter (\<lambda>k. k_api_id k = aid) (db_keys d)))" for d
    by (simp add: filter_map comp_def order_desc_def sort_map key_response_of_def)
  then have "agree (blinded f g h) Q (gets (\<lambda>d. map key_response_of (order_desc k_created_at
      (filter (\<lambda>k. k_api_id k = aid) (db_keys d)))))" for Q
    by (intro agree_gets) (simp add: blinded_def)
  moreover have "bindP (list_keys oid aid) (\<lambda>ks. ret (map key_response_of ks)) = thenP (get_api oid aid)
      (gets (\<lambda>d. map key_response_of (order_desc k_created_at (filter (\<lambda>k. k_api_id k = aid) (db_keys d)))))"
    by (auto simp: fun_eq_iff list_keys_def list_keys_for_api_def prog_simps split: sum.splits prod.splits)
  ultimately show ?thesis by (simp add: agree_thenP blind_reads)
qed

lemma blind_answer: "agree (blinded f g h) Q m \<Longrightarrow> agree (blinded f g h) Q (answer j m)"
  unfolding answer_def by (intro agree_intros)

lemma agree_split [agree_intros]: "(\<And>x y. agree R Q (k x y)) \<Longrightarrow> agree R Q (case p of (x, y) \<Rightarrow> k x y)"
  by (cases p) simp

lemma blind_count: "agree (blinded f g h) Q (gets (\<lambda>d. count_where (\<lambda>a. a_organization_id a = oid) (db_apis d)))"
  by (rule agree_gets) (simp add: blinded_def)

lemma blind_handler:
  assumes "is_read rq"
  shows "agree (blinded f g h) (\<lambda>_. True) (handler c oid rq)"
  using assms
  by (cases rq; simp add: handler_def Let_def read_endpoint_defs get_quotas_def get_rate_limit_def
      analytics_summary_def analytics_top_endpoints_def analytics_status_breakdown_def analytics_timeseries_def
      analytics_top_keys_def;
      intro blind_answer blind_authorized)
    (intro blind_reads blind_analytics blind_keys blind_count agree_bindP agree_thenP agree_split agree_mapP agree_basic)+

lemma blind_member_json: "member_json tx (blind f g h d) m = member_json tx d m"
  by (simp add: member_json_def find_map_hidden role_name_blind nullable_json_def split: option.splits)

lemma blind_body_json: "body_json tx (blind f g h d) pg r = body_json tx d pg r"
  by (cases r; cases pg) (simp_all add: blind_member_json)

lemma blind_served: "is_read rq \<Longrightarrow> agree (blinded f g h) (\<lambda>_. True) (served tx c oid rq)"
  unfolding served_def
  by (rule agree_bindP [OF blind_handler]) (auto intro!: agree_gets simp: blinded_def blind_body_json)

text \<open>The reads of a user. What \<open>me\<close> returns holds the hash; the response model drops it.\<close>

lemma me_json: "bindP (me E st now cred) (\<lambda>u. ret (user_json tx u)) =
   session_scope (bindP (get_current_user E st now cred) (\<lambda>u. ret (user_json tx u)))"
  by (auto simp: fun_eq_iff me_def prog_simps session_scope_run split: prod.splits sum.splits)

lemma blind_served_user: "agree (blinded f g h) (\<lambda>_. True) (served_user tx c rq)"
proof (cases rq)
  case Me
  show ?thesis unfolding served_user_def Let_def Me user_request.case me_json
    by (rule blind_as_user) (simp_all add: agree_basic)
next
  case (ListOrganizations lmt off)
  have "agree (blinded f g h) (\<lambda>_. True) (session_scope (bindP (get_current_user (c_env c) (c_settings c) (c_now c) (c_cred c))
      (\<lambda>u. list_orgs_for_user (u_id u) lmt off)))"
    by (rule blind_as_user, simp only: hide_user_fields, rule blind_reads)
  then show ?thesis unfolding served_user_def Let_def ListOrganizations user_request.case list_organizations_endpoint_def
    by (rule agree_bindP) (intro agree_split agree_basic)
next
  case (ListNotifications unread_only lmt off)
  have "agree (blinded f g h) (\<lambda>_. True) (session_scope (bindP (get_current_user (c_env c) (c_settings c) (c_now c) (c_cred c))
      (\<lambda>u. list_notifications (u_id u) unread_only lmt off)))"
    by (rule blind_as_user, simp only: hide_user_fields, rule blind_reads)
  then show ?thesis unfolding served_user_def Let_def ListNotifications user_request.case list_notifications_endpoint_def
    by (rule agree_bindP) (rule agree_basic)
qed

lemma agree_blind: "agree (blinded f g h) (\<lambda>_. True) m \<Longrightarrow> fst (m (blind f g h d)) = fst (m d)"
  unfolding agree_def blinded_def by simp

text \<open>C8: the responses hide the stored secrets. Replace every password hash, refresh-token hash and key hash
  in the database by anything at all: every GET, of an organization or of a user, with any bearer token, gets
  the same body or the same error as before. So no response reveals anything about them.\<close>

theorem responses_hide_secrets:
  "(is_read rq \<longrightarrow> fst (served tx c oid rq (blind f g h d)) = fst (served tx c oid rq d)) \<and>
   fst (served_user tx c urq (blind f g h d)) = fst (served_user tx c urq d)"
  by (intro conjI impI agree_blind blind_served blind_served_user)

theorem responses_hide_secrets_witness:
  "fst (served_user (texts.make (\<lambda>_. ''now'') (\<lambda>_. ''today'')) alice_call Me
      (blind (\<lambda>_. ''other'') (\<lambda>_. []) (\<lambda>_. []) (org_db ADMIN OWNER))) =
   Inr (user_json (texts.make (\<lambda>_. ''now'') (\<lambda>_. ''today'')) alice) \<and>
   blind (\<lambda>_. ''other'') (\<lambda>_. []) (\<lambda>_. []) (org_db ADMIN OWNER) \<noteq> org_db ADMIN OWNER \<and>
   fst (served (texts.make (\<lambda>_. ''now'') (\<lambda>_. ''today'')) alice_call 7 GetOrg
      (blind (\<lambda>_. ''other'') (\<lambda>_. []) (\<lambda>_. []) (org_db ADMIN OWNER))) =
   fst (served (texts.make (\<lambda>_. ''now'') (\<lambda>_. ''today'')) alice_call 7 GetOrg (org_db ADMIN OWNER))"
proof -
  let ?tx = "texts.make (\<lambda>_. ''now'') (\<lambda>_. ''today'')"
  let ?b = "blind (\<lambda>_. ''other'') (\<lambda>_. []) (\<lambda>_. []) (org_db ADMIN OWNER)"
  note cred = alice_cred_works [OF org_db_alice, of ADMIN OWNER]
  have "fst (served_user ?tx alice_call Me (org_db ADMIN OWNER)) = Inr (user_json ?tx alice)"
    by (simp add: served_user_def Let_def me_def alice_call_def cred prog_simps session_scope_run)
  moreover have "db_users ?b \<noteq> db_users (org_db ADMIN OWNER)"
    by (simp add: blind_def hide_user_def org_db_def alice_def)
  then have "?b \<noteq> org_db ADMIN OWNER" by metis
  moreover have "is_read GetOrg" by simp
  ultimately show ?thesis
    using responses_hide_secrets [of GetOrg ?tx alice_call 7 "\<lambda>_. ''other''" "\<lambda>_. []" "\<lambda>_. []" "org_db ADMIN OWNER" Me]
    by simp
qed

end
