(* ===== verification/Journey.thy ===== *)
theory Journey
  imports Gateway
begin

text \<open>
  The way through the whole platform that \<open>scripts/seed_traffic.py\<close> walks: a user with an organization publishes
  APIs (each with a version and a key, by the requests the script sends) and sends traffic through them. Shown:
  on any well-formed database every step succeeds, and every published key then serves the API it was issued
  for, through the gateway, until the upstream fails.
\<close>

section \<open>Publishing\<close>

text \<open>What the requests for one API draw, with the clock at each of the three.\<close>

record api_draws =
  ad_api :: uuid
  ad_version :: uuid
  ad_key :: key_draws
  ad_audit :: audit_ids
  ad_created :: instant
  ad_versioned :: instant
  ad_keyed :: instant

text \<open>A response nobody looks at.\<close>

definition ignoring :: "'a dbprog \<Rightarrow> unit dbprog" where
  "ignoring m = (\<lambda>d. (Inr (), snd (m d)))"

definition publish_api ::
  "env \<Rightarrow> settings \<Rightarrow> (instant \<Rightarrow> string) \<Rightarrow> string option \<Rightarrow> string \<Rightarrow> uuid \<Rightarrow> string \<Rightarrow> api_draws \<times> string
    \<Rightarrow> (string \<times> string) dbprog" where
  "publish_api E st isofmt cred ip oid upstream = (\<lambda>(dr, name).
     bindP (create_api_endpoint E st (ad_created dr) cred (ad_api dr) oid name None []) (\<lambda>(a, vs).
     thenP (ignoring (add_version_endpoint E st (ad_versioned dr) cred (ad_version dr) oid (a_id a) ''v1'' upstream True))
     (bindP (create_key_endpoint E st isofmt (ad_keyed dr) cred (ad_key dr) (ad_audit dr) ip oid (a_id a) [] None) (\<lambda>(k, full).
      ret (a_slug a, full)))))"

section \<open>The owner's requests\<close>

text \<open>A user whose token is accepted at the times in \<open>T\<close> and who owns the organization.\<close>

definition acts_as_owner :: "env \<Rightarrow> settings \<Rightarrow> string option \<Rightarrow> instant set \<Rightarrow> user \<Rightarrow> uuid \<Rightarrow> db \<Rightarrow> bool" where
  "acts_as_owner E st cred T u oid d \<longleftrightarrow> (\<forall>t \<in> T. get_current_user E st t cred d = (Inr u, d)) \<and>
     (\<exists>m. find (\<lambda>m. m_user_id m = u_id u \<and> m_organization_id m = oid) (db_members d) = Some m \<and>
       role_name_of d (m_role_id m) = role_code OWNER)"

lemma owner_may_everything: "role_has_permission OWNER p"
  by (cases p) (simp_all add: role_has_permission_def all_permissions_def)

lemma owner_runs:
  assumes "acts_as_owner E st cred T u oid d" "db_ok d" "now \<in> T"
  shows "authorized E st now cred perm oid body d = session_scope (body u) d"
proof -
  obtain m where m: "find (\<lambda>m. m_user_id m = u_id u \<and> m_organization_id m = oid) (db_members d) = Some m"
    "role_name_of d (m_role_id m) = role_code OWNER"
    using assms(1) by (auto simp: acts_as_owner_def)
  show ?thesis
    using assms(1,3) require_permission_run [OF assms(2) m, of perm]
    by (simp add: authorized_def acts_as_owner_def prog_simps owner_may_everything)
qed

text \<open>The tables that say who may do what.\<close>

definition access_tables where
  "access_tables d = (db_users d, db_members d, db_roles d, db_orgs d, db_rules d, db_quotas d)"

lemma acts_as_owner_same:
  "access_tables d' = access_tables d \<Longrightarrow> acts_as_owner E st cred T u oid d \<Longrightarrow> acts_as_owner E st cred T u oid d'"
  using get_current_user_users [of d' d]
  by (auto simp: access_tables_def acts_as_owner_def role_name_of_def)

lemma owns_existing_org:
  assumes "acts_as_owner E st cred T u oid d" "db_ok d"
  shows "oid \<in> o_id ` set (db_orgs d)"
proof -
  obtain m where "find (\<lambda>m. m_user_id m = u_id u \<and> m_organization_id m = oid) (db_members d) = Some m"
    using assms(1) by (auto simp: acts_as_owner_def)
  then have "m \<in> set (db_members d)" "m_organization_id m = oid" by (auto simp: find_Some_iff)
  then show ?thesis using db_okD(5) [OF assms(2)] by (auto simp: members_ok_def)
qed

section \<open>One API\<close>

text \<open>The ids and the key one API draws are new.\<close>

definition fresh_draws :: "env \<Rightarrow> api_draws \<Rightarrow> db \<Rightarrow> bool" where
  "fresh_draws E dr d \<longleftrightarrow> ad_api dr \<notin> a_id ` set (db_apis d) \<and> ad_version dr \<notin> v_id ` set (db_versions d) \<and>
     kd_id (ad_key dr) \<notin> k_id ` set (db_keys d) \<and>
     gk_key_hash (generate_api_key E (kd_public_id (ad_key dr)) (kd_secret (ad_key dr))) \<notin> k_key_hash ` set (db_keys d) \<and>
     ai_row (ad_audit dr) \<notin> al_id ` set (db_audit d) \<and> ai_outbox (ad_audit dr) \<notin> ob_id ` set (db_outbox d)"

text \<open>What publishing has to leave behind for a key to serve: the rows the gateway looks up.\<close>

definition serves :: "env \<Rightarrow> uuid \<Rightarrow> string \<Rightarrow> string \<Rightarrow> string \<Rightarrow> db \<Rightarrow> bool" where
  "serves E oid upstream slug full d \<longleftrightarrow> full \<noteq> [] \<and>
     (\<exists>k \<in> set (db_keys d). \<exists>a \<in> set (db_apis d). \<exists>v \<in> set (db_versions d).
        k_key_hash k = hash_token E full \<and> k_revoked_at k = None \<and> k_expires_at k = None \<and>
        k_organization_id k = oid \<and> a_id a = k_api_id k \<and> a_is_active a \<and> a_slug a = slug \<and>
        v_api_id v = a_id a \<and> v_version v = ''v1'' \<and> v_is_active v \<and> v_upstream_base_url v = upstream \<and>
        a_id a \<notin> l_api_id ` set (db_rules d) \<and> a_id a \<notin> q_api_id ` set (db_quotas d))"

text \<open>Rows are only added.\<close>

definition grows :: "db \<Rightarrow> db \<Rightarrow> bool" where
  "grows d d' \<longleftrightarrow> access_tables d' = access_tables d \<and> set (db_keys d) \<subseteq> set (db_keys d') \<and>
     set (db_apis d) \<subseteq> set (db_apis d') \<and> set (db_versions d) \<subseteq> set (db_versions d')"

lemma serves_grows: "serves E oid upstream slug full d \<Longrightarrow> grows d d' \<Longrightarrow> serves E oid upstream slug full d'"
  unfolding serves_def grows_def access_tables_def by (simp, blast)

lemma find_new_id: "i \<notin> a_id ` set xs \<Longrightarrow> a_id x = i \<Longrightarrow> Q x \<Longrightarrow> find (\<lambda>a. a_id a = i \<and> Q a) (xs @ [x]) = Some x"
  by (rule find_snoc_new) (metis imageI, blast)

lemma create_api_run:
  assumes "db_ok d" "aid \<notin> a_id ` set (db_apis d)" "oid \<in> o_id ` set (db_orgs d)"
    and "slugify name \<notin> a_slug ` set (apis_of_org oid d)" "length (slugify name) \<le> SLUG_LENGTH"
  shows "create_api now aid oid name None desc d =
    (Inr \<lparr>a_id = aid, a_organization_id = oid, a_name = name, a_slug = slugify name, a_description = desc,
        a_is_active = True, a_created_at = now\<rparr>,
     d\<lparr>db_apis := db_apis d @ [\<lparr>a_id = aid, a_organization_id = oid, a_name = name, a_slug = slugify name,
        a_description = desc, a_is_active = True, a_created_at = now\<rparr>]\<rparr>)"
proof -
  let ?a = "\<lparr>a_id = aid, a_organization_id = oid, a_name = name, a_slug = slugify name, a_description = desc,
     a_is_active = True, a_created_at = now\<rparr>"
  let ?d = "d\<lparr>db_apis := db_apis d @ [?a]\<rparr>"
  have slug: "unique_slug_of (map a_slug (apis_of_org oid d)) name = slugify name"
    using assms(4) by (simp add: unique_slug_of_def slug_search.simps)
  have new: "(slugify name, oid) \<notin> (\<lambda>a. (a_slug a, a_organization_id a)) ` set (db_apis d)"
    using assms(4) by (auto simp: apis_of_org_def)
  have add: "add_api ?a d = (Inr (), ?d)" using assms new by (simp add: add_api_def prog_simps)
  then have ok: "db_ok ?d" using preservesD [OF db_ok_add(7) assms(1), of ?a] by simp
  have "find (\<lambda>a. a_id a = aid \<and> a_organization_id a = oid) (db_apis ?d) = Some ?a"
    using assms(2) by (simp add: find_new_id)
  then have "get_api oid aid ?d = (Inr ?a, ?d)" using get_api_run [OF ok] by simp
  then show ?thesis
    using add by (simp add: create_api_def api_slug_conflict_def slug_or_name_def unique_api_slug_def slug prog_simps)
qed

lemma new_api_unused:
  assumes "db_ok d" "aid \<notin> a_id ` set (db_apis d)"
  shows "aid \<notin> v_api_id ` set (db_versions d)" "aid \<notin> l_api_id ` set (db_rules d)" "aid \<notin> q_api_id ` set (db_quotas d)"
  using assms db_okD(7,8,9) [OF assms(1)] by (auto simp: versions_ok_def rules_ok_def quotas_ok_def)

lemma add_version_run:
  assumes "db_ok d" "get_api oid aid d = (Inr a, d)" "aid \<notin> v_api_id ` set (db_versions d)"
    and "vid \<notin> v_id ` set (db_versions d)" "length url \<le> 2048"
  shows "add_version now vid oid aid ver url act d =
    (let v = \<lparr>v_id = vid, v_api_id = aid, v_version = ver, v_upstream_base_url = url, v_is_active = act, v_created_at = now\<rparr>
     in (Inr v, d\<lparr>db_versions := db_versions d @ [v]\<rparr>))"
proof -
  have "find (\<lambda>v. v_api_id v = aid \<and> v_version v = ver) (db_versions d) = None"
    using assms(3) by (auto simp: find_None_iff)
  moreover have "aid \<in> a_id ` set (db_apis d)" using get_api_found [OF assms(2)] by auto
  ultimately show ?thesis
    using assms get_active_run [OF assms(1), of aid ver]
    by (auto simp: add_version_def prog_simps add_version_row_def Let_def)
qed

lemma record_audit_run:
  assumes "ar \<notin> al_id ` set (db_audit d)" "ob \<notin> ob_id ` set (db_outbox d)" "length act \<le> 100" "length rtype \<le> 64" "length ip \<le> 64"
  shows "\<exists>al b. record_audit isofmt now ar ev ob act rtype org actor rid (Some ip) md d =
    (Inr (), d\<lparr>db_audit := db_audit d @ [al], db_outbox := db_outbox d @ [b]\<rparr>) \<and> al_id al = ar \<and> ob_id b = ob"
  using assms
  by (simp add: record_audit_def emit_def prog_simps add_audit_def add_outbox_def audit_fits_def Let_def)
    (intro exI conjI, rule refl, simp_all)

lemma publish_api_run:
  assumes ok: "db_ok d" and owner: "acts_as_owner E st cred T u oid d"
    and times: "ad_created dr \<in> T" "ad_versioned dr \<in> T" "ad_keyed dr \<in> T"
    and fresh: "fresh_draws E dr d"
    and slug: "slugify name \<notin> a_slug ` set (apis_of_org oid d)" "length (slugify name) \<le> SLUG_LENGTH"
    and lens: "length upstream \<le> 2048" "length ip \<le> 64"
  shows "\<exists>full d' a v k al b. publish_api E st isofmt cred ip oid upstream (dr, name) d = (Inr (slugify name, full), d') \<and>
    d' = d\<lparr>db_apis := db_apis d @ [a], db_versions := db_versions d @ [v], db_keys := db_keys d @ [k],
      db_audit := db_audit d @ [al], db_outbox := db_outbox d @ [b]\<rparr> \<and>
    a_id a = ad_api dr \<and> a_slug a = slugify name \<and> a_organization_id a = oid \<and> v_id v = ad_version dr \<and>
    k_id k = kd_id (ad_key dr) \<and> al_id al = ai_row (ad_audit dr) \<and> ob_id b = ai_outbox (ad_audit dr) \<and>
    k_key_hash k = gk_key_hash (generate_api_key E (kd_public_id (ad_key dr)) (kd_secret (ad_key dr))) \<and>
    db_ok d' \<and> grows d d' \<and> serves E oid upstream (slugify name) full d'"
proof -
  let ?aid = "ad_api dr" and ?a = "\<lparr>a_id = ad_api dr, a_organization_id = oid, a_name = name, a_slug = slugify name,
    a_description = [], a_is_active = True, a_created_at = ad_created dr\<rparr>"
  let ?v = "\<lparr>v_id = ad_version dr, v_api_id = ad_api dr, v_version = ''v1'', v_upstream_base_url = upstream,
    v_is_active = True, v_created_at = ad_versioned dr\<rparr>"
  let ?g = "generate_api_key E (kd_public_id (ad_key dr)) (kd_secret (ad_key dr))"
  define d1 where "d1 = d\<lparr>db_apis := db_apis d @ [?a]\<rparr>"
  define d2 where "d2 = d1\<lparr>db_versions := db_versions d @ [?v]\<rparr>"
  have fr: "?aid \<notin> a_id ` set (db_apis d)" "ad_version dr \<notin> v_id ` set (db_versions d)" using fresh by (auto simp: fresh_draws_def)
  note unused = new_api_unused [OF ok fr(1)]
  have c1: "create_api (ad_created dr) ?aid oid name None [] d = (Inr ?a, d1)"
    unfolding d1_def by (rule create_api_run [OF ok fr(1) owns_existing_org [OF owner ok] slug])
  have ok1: "db_ok d1" using preservesD [OF db_ok_create_api ok, of "ad_created dr" ?aid oid name None "[]"] c1 by simp
  have own1: "acts_as_owner E st cred T u oid d1"
    by (rule acts_as_owner_same [OF _ owner]) (simp add: d1_def access_tables_def)
  have find1: "find (\<lambda>a. a_id a = ?aid \<and> a_organization_id a = oid) (db_apis d1) = Some ?a"
    using fr(1) by (simp add: d1_def find_new_id)
  then have get1: "get_api oid ?aid d1 = (Inr ?a, d1)" using get_api_run [OF ok1] by simp
  have c2: "add_version (ad_versioned dr) (ad_version dr) oid ?aid ''v1'' upstream True d1 = (Inr ?v, d2)"
    using add_version_run [OF ok1 get1 _ _ lens(1), of "ad_version dr"] unused(1) fr(2) by (simp add: d1_def d2_def Let_def)
  have ok2: "db_ok d2" using preservesD [OF db_ok_add_version ok1, of "ad_versioned dr" "ad_version dr" oid ?aid "''v1''" upstream True] c2 by simp
  have own2: "acts_as_owner E st cred T u oid d2"
    by (rule acts_as_owner_same [OF _ own1]) (simp add: d1_def d2_def access_tables_def)
  have get2: "get_api oid ?aid d2 = (Inr ?a, d2)" using find1 get_api_run [OF ok2] by (simp add: d2_def)
  obtain k where k: "create_key E (ad_keyed dr) (ad_key dr) oid ?aid [] None (Some (u_id u)) d2 =
      (Inr \<lparr>ik_record = k, ik_full_key = gk_full_key ?g\<rparr>, d2\<lparr>db_keys := db_keys d2 @ [k]\<rparr>)"
    and kf: "k_id k = kd_id (ad_key dr)" "k_key_hash k = gk_key_hash ?g" "k_revoked_at k = None" "k_expires_at k = None"
      "k_api_id k = ?aid" "k_organization_id k = oid"
    using fresh create_key_ok [OF ok2 get2, of "ad_key dr" E "ad_keyed dr" "[]" None "Some (u_id u)"]
    by (auto simp: fresh_draws_def d1_def d2_def)
  define d3 where "d3 = d2\<lparr>db_keys := db_keys d @ [k]\<rparr>"
  obtain al b where audit: "record_audit isofmt (ad_keyed dr) (ai_row (ad_audit dr)) (ai_event (ad_audit dr)) (ai_outbox (ad_audit dr))
      ''api_key.create'' ''api_key'' (Some oid) (Some (u_id u)) (Some (k_id k)) (Some ip) (Some [(''api_id'', JStr (uuid_str ?aid))]) d3 =
      (Inr (), d3\<lparr>db_audit := db_audit d3 @ [al], db_outbox := db_outbox d3 @ [b]\<rparr>)"
    and ids: "al_id al = ai_row (ad_audit dr)" "ob_id b = ai_outbox (ad_audit dr)"
  proof -
    have "ai_row (ad_audit dr) \<notin> al_id ` set (db_audit d3)" "ai_outbox (ad_audit dr) \<notin> ob_id ` set (db_outbox d3)"
      using fresh by (simp_all add: fresh_draws_def d1_def d2_def d3_def)
    moreover have "length ''api_key.create'' \<le> 100" "length ''api_key'' \<le> 64" by simp_all
    ultimately show thesis using record_audit_run [OF _ _ _ _ lens(2)] that by blast
  qed
  define d4 where "d4 = d3\<lparr>db_audit := db_audit d @ [al], db_outbox := db_outbox d @ [b]\<rparr>"
  have e1: "create_api_endpoint E st (ad_created dr) cred ?aid oid name None [] d = (Inr (?a, versions_of ?aid d1), d1)"
    by (simp add: create_api_endpoint_def owner_runs [OF owner ok times(1)] c1 prog_simps api_response_def)
  have e2: "snd (add_version_endpoint E st (ad_versioned dr) cred (ad_version dr) oid ?aid ''v1'' upstream True d1) = d2"
    by (simp add: add_version_endpoint_def owner_runs [OF own1 ok1 times(2)] c2 prog_simps)
  have d2d: "db_keys d2 = db_keys d" "db_audit d3 = db_audit d" "db_outbox d3 = db_outbox d"
    by (simp_all add: d1_def d2_def d3_def)
  have e3: "create_key_endpoint E st isofmt (ad_keyed dr) cred (ad_key dr) (ad_audit dr) ip oid ?aid [] None d2 =
      (Inr (key_response_of k, gk_full_key ?g), d4)"
    using k audit by (simp add: create_key_endpoint_def owner_runs [OF own2 ok2 times(3)] prog_simps d2d d3_def [symmetric] d4_def)
  have run: "publish_api E st isofmt cred ip oid upstream (dr, name) d = (Inr (slugify name, gk_full_key ?g), d4)"
    by (simp add: publish_api_def prog_simps e1 e2 e3 ignoring_def)
  have d4: "d4 = d\<lparr>db_apis := db_apis d @ [?a], db_versions := db_versions d @ [?v], db_keys := db_keys d @ [k],
      db_audit := db_audit d @ [al], db_outbox := db_outbox d @ [b]\<rparr>"
    by (simp add: d1_def d2_def d3_def d4_def)
  have ok4: "db_ok d4"
    using preservesD [OF db_ok_create_key ok2, of E "ad_keyed dr" "ad_key dr" oid ?aid "[]" None "Some (u_id u)"] k
      preservesD [OF db_ok_record_audit, of d3] audit by (simp add: d2d d3_def [symmetric] d4_def) (metis snd_conv)
  have full: "gk_full_key ?g \<noteq> []" "k_key_hash k = hash_token E (gk_full_key ?g)"
    using kf(2) by (simp_all add: generate_api_key_def Let_def)
  have s: "serves E oid upstream (slugify name) (gk_full_key ?g) d4"
    unfolding serves_def d4 using full kf unused by auto
  have g: "grows d d4" unfolding d4 grows_def access_tables_def by auto
  show ?thesis
    by (intro exI conjI, rule run, rule d4, simp, simp, simp, simp)
      (rule kf(1), rule ids(1), rule ids(2), rule kf(2), rule ok4, rule g, rule s)
qed

section \<open>All of them\<close>

definition publish_all where
  "publish_all E st isofmt cred ip oid upstream = mapP (publish_api E st isofmt cred ip oid upstream)"

text \<open>No two of the APIs draw the same.\<close>

definition draws_apart :: "env \<Rightarrow> api_draws list \<Rightarrow> bool" where
  "draws_apart E drs \<longleftrightarrow> distinct (map ad_api drs) \<and> distinct (map ad_version drs) \<and>
     distinct (map (\<lambda>dr. kd_id (ad_key dr)) drs) \<and>
     distinct (map (\<lambda>dr. gk_key_hash (generate_api_key E (kd_public_id (ad_key dr)) (kd_secret (ad_key dr)))) drs) \<and>
     distinct (map (\<lambda>dr. ai_row (ad_audit dr)) drs) \<and> distinct (map (\<lambda>dr. ai_outbox (ad_audit dr)) drs)"

text \<open>What the gateway writes, and the outbox row the audit of one key takes.\<close>

definition records_of :: "db \<Rightarrow> request_log list \<times> api_key_usage list" where
  "records_of d = (db_logs d, db_usage d)"

definition announced :: "api_draws \<times> string \<Rightarrow> uuid" where
  "announced i = ai_outbox (ad_audit (fst i))"

text \<open>What the program is given: times the token is accepted at, new ids, a slug that fits.\<close>

definition publishable :: "env \<Rightarrow> instant set \<Rightarrow> db \<Rightarrow> api_draws \<times> string \<Rightarrow> bool" where
  "publishable E T d = (\<lambda>(dr, name). {ad_created dr, ad_versioned dr, ad_keyed dr} \<subseteq> T \<and> fresh_draws E dr d \<and>
     length (slugify name) \<le> SLUG_LENGTH)"

definition item_slug :: "api_draws \<times> string \<Rightarrow> string" where
  "item_slug = (\<lambda>(dr, name). slugify name)"

lemma publish_all_run:
  assumes "db_ok d" "acts_as_owner E st cred T u oid d" "\<forall>i \<in> set items. publishable E T d i"
    and "draws_apart E (map fst items)" "distinct (map item_slug items)"
    and "\<forall>i \<in> set items. item_slug i \<notin> a_slug ` set (apis_of_org oid d)"
    and lens: "length upstream \<le> 2048" "length ip \<le> 64"
  shows "\<exists>ks d'. publish_all E st isofmt cred ip oid upstream items d = (Inr ks, d') \<and> db_ok d' \<and> grows d d' \<and>
    map fst ks = map item_slug items \<and> (\<forall>(slug, full) \<in> set ks. serves E oid upstream slug full d') \<and>
    records_of d' = records_of d \<and> ob_id ` set (db_outbox d') = ob_id ` set (db_outbox d) \<union> announced ` set items"
  using assms(1-6)
proof (induction items arbitrary: d)
  case Nil
  then show ?case by (intro exI [of _ "[]"] exI [of _ d]) (simp add: publish_all_def prog_simps grows_def)
next
  case (Cons i items)
  obtain dr name where i: "i = (dr, name)" by fastforce
  have first: "publishable E T d (dr, name)" "slugify name \<notin> a_slug ` set (apis_of_org oid d)"
    using Cons.prems(3,6) by (auto simp: i item_slug_def)
  obtain full d1 a v k al b where run: "publish_api E st isofmt cred ip oid upstream (dr, name) d = (Inr (slugify name, full), d1)"
    and d1: "d1 = d\<lparr>db_apis := db_apis d @ [a], db_versions := db_versions d @ [v], db_keys := db_keys d @ [k],
      db_audit := db_audit d @ [al], db_outbox := db_outbox d @ [b]\<rparr>"
    and new: "a_id a = ad_api dr" "a_slug a = slugify name" "v_id v = ad_version dr" "k_id k = kd_id (ad_key dr)"
      "al_id al = ai_row (ad_audit dr)" "ob_id b = ai_outbox (ad_audit dr)"
      "k_key_hash k = gk_key_hash (generate_api_key E (kd_public_id (ad_key dr)) (kd_secret (ad_key dr)))"
    and ok1: "db_ok d1" and g1: "grows d d1" and s1: "serves E oid upstream (slugify name) full d1"
  proof -
    have c: "ad_created dr \<in> T" "ad_versioned dr \<in> T" "ad_keyed dr \<in> T" "fresh_draws E dr d"
      "length (slugify name) \<le> SLUG_LENGTH"
      using first(1) by (simp_all add: publishable_def)
    show thesis
      using publish_api_run [where isofmt = isofmt, OF Cons.prems(1,2) c(1-4) first(2) c(5) lens] that by blast
  qed
  have own1: "acts_as_owner E st cred T u oid d1"
    by (rule acts_as_owner_same [OF _ Cons.prems(2)]) (use g1 in \<open>simp add: grows_def\<close>)
  have still: "publishable E T d1 j" if j: "j \<in> set items" for j
  proof -
    obtain dr' name' where j': "j = (dr', name')" by fastforce
    have old: "publishable E T d (dr', name')" using Cons.prems(3) j by (simp add: j')
    have "dr' \<in> fst ` set items" using j by (force simp: j')
    then have "ad_api dr' \<noteq> ad_api dr" "ad_version dr' \<noteq> ad_version dr" "kd_id (ad_key dr') \<noteq> kd_id (ad_key dr)"
      "gk_key_hash (generate_api_key E (kd_public_id (ad_key dr')) (kd_secret (ad_key dr'))) \<noteq>
        gk_key_hash (generate_api_key E (kd_public_id (ad_key dr)) (kd_secret (ad_key dr)))"
      "ai_row (ad_audit dr') \<noteq> ai_row (ad_audit dr)" "ai_outbox (ad_audit dr') \<noteq> ai_outbox (ad_audit dr)"
      using Cons.prems(4) unfolding draws_apart_def i by (force simp: image_iff)+
    then show ?thesis using old new unfolding d1 j' by (simp add: publishable_def fresh_draws_def)
  qed
  have slugs: "item_slug j \<notin> a_slug ` set (apis_of_org oid d1)" if j: "j \<in> set items" for j
  proof -
    have "item_slug j \<noteq> slugify name" using Cons.prems(5) j by (auto simp: i item_slug_def image_iff)
    moreover have "item_slug j \<notin> a_slug ` set (apis_of_org oid d)" using Cons.prems(6) j by simp
    ultimately show ?thesis using new(2) by (auto simp: d1 apis_of_org_def)
  qed
  have "draws_apart E (map fst items)" using Cons.prems(4) by (simp add: draws_apart_def)
  moreover have "distinct (map item_slug items)" using Cons.prems(5) by simp
  ultimately obtain ks d' where rest: "publish_all E st isofmt cred ip oid upstream items d1 = (Inr ks, d')" "db_ok d'" "grows d1 d'"
    "map fst ks = map item_slug items" "\<forall>(slug, full) \<in> set ks. serves E oid upstream slug full d'"
    and left: "records_of d' = records_of d1" "ob_id ` set (db_outbox d') = ob_id ` set (db_outbox d1) \<union> announced ` set items"
    using Cons.IH [OF ok1 own1] still slugs by blast
  have "publish_all E st isofmt cred ip oid upstream (i # items) d = (Inr ((slugify name, full) # ks), d')"
    using run rest(1) by (simp add: publish_all_def i prog_simps)
  moreover have "grows d d'" using g1 rest(3) unfolding grows_def by auto
  moreover have "serves E oid upstream (slugify name) full d'" by (rule serves_grows [OF s1 rest(3)])
  moreover have "records_of d' = records_of d" using left(1) by (simp add: d1 records_of_def)
  moreover have "ob_id ` set (db_outbox d') = ob_id ` set (db_outbox d) \<union> announced ` set (i # items)"
    using left(2) new(6) by (simp add: d1 i announced_def)
  ultimately show ?case using rest(2,4,5)
    by (intro exI [of _ "(slugify name, full) # ks"] exI [of _ d']) (simp add: i item_slug_def)
qed

section \<open>Traffic\<close>

lemma find_member: "distinct (map f xs) \<Longrightarrow> x \<in> set xs \<Longrightarrow> find (\<lambda>y. f y = f x) xs = Some x"
  by (induction xs) (auto simp: image_iff)

lemma serves_request:
  assumes "db_ok (w_db w)" "serves (gw_env G) oid upstream slug full (w_db w)"
    and "gw_http G (upstream_request_of upstream req) (snd (w_redis w)) = (Answered r, h')"
    and "ir_api_slug req = slug" "ir_version req = ''v1''"
  shows "\<exists>g. handle_request G ck req (Some full) w = (Inr g, w\<lparr>w_redis := (fst (w_redis w), h')\<rparr>) \<and>
    go_api_key_id g \<in> k_id ` set (db_keys (w_db w)) \<and> go_status_code g = up_status_code r \<and>
    go_response g = \<lparr>gr_status_code = up_status_code r, gr_headers = end_to_end (up_headers r), gr_content = up_content r\<rparr> \<and>
    go_method g = ir_method req \<and> go_path g = ir_upstream_path req \<and> go_client_ip g = ir_client_ip req \<and>
    go_upstream_url g = upstream \<and> go_request_bytes g = int (length (ir_body req)) \<and>
    go_response_bytes g = int (length (up_content r)) \<and> go_organization_id g = oid"
proof -
  let ?d = "w_db w"
  obtain k a v where k: "k \<in> set (db_keys ?d)" "k_key_hash k = hash_token (gw_env G) full" "k_revoked_at k = None" "k_expires_at k = None"
      "k_organization_id k = oid"
    and a: "a \<in> set (db_apis ?d)" "a_id a = k_api_id k" "a_is_active a" "a_slug a = slug"
    and v: "v \<in> set (db_versions ?d)" "v_api_id v = a_id a" "v_version v = ''v1''" "v_is_active v" "v_upstream_base_url v = upstream"
    and none: "a_id a \<notin> l_api_id ` set (db_rules ?d)" "a_id a \<notin> q_api_id ` set (db_quotas ?d)" and full: "full \<noteq> []"
    using assms(2) unfolding serves_def by blast
  have fk: "get_key_by_hash (hash_token (gw_env G) full) ?d = (Inr (Some k), ?d)"
    using db_okD(10) [OF assms(1)] find_member [of k_key_hash "db_keys ?d" k] k(1,2)
    by (simp add: key_by_hash_run [OF assms(1)] keys_ok_def)
  have fa: "find (\<lambda>x. a_id x = k_api_id k) (db_apis ?d) = Some a"
    using db_okD(6) [OF assms(1)] find_member [of a_id "db_apis ?d" a] a(1,2) by (simp add: apis_ok_def)
  have "find (\<lambda>x. (v_api_id x, v_version x) = (v_api_id v, v_version v)) (db_versions ?d) = Some v"
    by (rule find_member [OF _ v(1)]) (use db_okD(7) [OF assms(1)] in \<open>simp add: versions_ok_def\<close>)
  then have fv: "get_active (a_id a) ''v1'' ?d = (Inr (Some v), ?d)"
    using v(2,3) by (simp add: get_active_run [OF assms(1)])
  have valid: "is_valid_at k t" for t using k(3,4) by (simp add: is_valid_at_def)
  have auth: "gw_authenticate (gw_env G) (gc_now ck) (Some full) ?d = (Inr (k, a), ?d)"
    using full fk fa valid a(3) by (simp add: gw_authenticate_def prog_simps repo_get_def)
  have "find (\<lambda>l. l_api_id l = a_id a) (db_rules ?d) = None" using none(1) by (auto simp: find_None_iff image_iff)
  then have rate: "enforce_rate_limit G (gc_tick ck) (a_id a) (k_id k) w = (Inr [], w)"
    by (simp add: enforce_rate_limit_def prog_simps on_db_run get_rule_run [OF assms(1)])
  have "filter (\<lambda>q. q_api_id q = a_id a) (db_quotas ?d) = []" using none(2) by (auto simp: filter_empty_conv image_iff)
  then have quota: "enforce_quota G ck (a_id a) (k_id k) w = (Inr [], w)"
    by (cases w; cases "w_redis w") (simp add: enforce_quota_def list_quotas_for_api_def prog_simps on_db_run on_cache_run)
  have fwd: "forward G (gc_elapsed ck) upstream req w = (Inr (\<lparr>gr_status_code = up_status_code r,
      gr_headers = end_to_end (up_headers r), gr_content = up_content r\<rparr>, int (length (ir_body req)),
      py_round 2 (gc_elapsed ck * 1000)), w\<lparr>w_redis := (fst (w_redis w), h')\<rparr>)"
    using assms(3) by (cases "w_redis w") (simp add: forward_def on_redis_run)
  have served: "charge_and_forward G ck (a_id a) (k_id k) upstream req w = (Inr (\<lparr>gr_status_code = up_status_code r,
      gr_headers = end_to_end (up_headers r), gr_content = up_content r\<rparr>, int (length (ir_body req)),
      py_round 2 (gc_elapsed ck * 1000)), w\<lparr>w_redis := (fst (w_redis w), h')\<rparr>)"
    by (simp add: charge_and_forward_def prog_simps quota fwd)
  show ?thesis
    using k(1) by (simp add: handle_request_def prog_simps on_db_run auth fv rate served assms(4,5) a(4) v(4,5) k(5) outcome_of_def)
qed

lemma record_request_run:
  assumes "ri_log ids \<notin> g_id ` set (db_logs d)" "ri_usage ids \<notin> ku_id ` set (db_usage d)"
    and "ri_outbox ids \<notin> ob_id ` set (db_outbox d)" "go_api_key_id g \<in> k_id ` set (db_keys d)"
    and "log_fits (log_row now (ri_log ids) g)"
  shows "fst (record_request isofmt now ids g d) = Inr ()"
  using assms
  by (simp add: record_request_def prog_simps add_log_def usage_increment_def emit_def add_outbox_def log_row_def)

text \<open>A request one can send with a key: the key in its header, and values that fit the request log.\<close>

definition sendable :: "string \<Rightarrow> raw_request \<Rightarrow> string \<Rightarrow> upstream_response \<Rightarrow> bool" where
  "sendable full rq path a \<longleftrightarrow> map_of (rq_headers rq) ''authorization'' = None \<and>
     map_of (rq_headers rq) ''x-api-key'' = Some full \<and> length (rq_method rq) \<le> 10 \<and> length path \<le> 2048 \<and>
     length (client_ip (map_of (rq_headers rq) ''x-forwarded-for'') (rq_peer rq)) \<le> 64 \<and>
     int32 (int (length (rq_body rq))) \<and> int32 (up_status_code a) \<and> int32 (int (length (up_content a)))"

definition new_record_ids :: "record_ids \<Rightarrow> db \<Rightarrow> bool" where
  "new_record_ids ids d \<longleftrightarrow> ri_log ids \<notin> g_id ` set (db_logs d) \<and> ri_usage ids \<notin> ku_id ` set (db_usage d) \<and>
     ri_outbox ids \<notin> ob_id ` set (db_outbox d)"

lemma serves_proxy:
  assumes "db_ok (w_db w)" "serves (gw_env G) oid upstream slug full (w_db w)" "length upstream \<le> 2048"
    and "gw_http G (upstream_request_of upstream (incoming slug ''v1'' path rq)) (snd (w_redis w)) = (Answered r, h')"
    and "sendable full rq path r" "new_record_ids ids (w_db w)"
  shows "\<exists>resp w' g. proxy G isofmt fs ck tx ids slug ''v1'' path rq w = (Inr resp, w') \<and>
    gr_status_code resp = up_status_code r \<and> gr_content resp = up_content r \<and>
    record_request isofmt tx ids g (w_db w) = (Inr (), w_db w') \<and> go_status_code g = up_status_code r \<and>
    go_organization_id g = oid"
proof -
  let ?req = "incoming slug ''v1'' path rq"
  have req: "ir_api_slug ?req = slug" "ir_version ?req = ''v1''" by (simp_all add: incoming_def)
  obtain g where g: "handle_request G ck ?req (Some full) w = (Inr g, w\<lparr>w_redis := (fst (w_redis w), h')\<rparr>)"
    "go_api_key_id g \<in> k_id ` set (db_keys (w_db w))" "go_status_code g = up_status_code r"
    "go_response g = \<lparr>gr_status_code = up_status_code r, gr_headers = end_to_end (up_headers r), gr_content = up_content r\<rparr>"
    "go_method g = ir_method ?req" "go_path g = ir_upstream_path ?req" "go_client_ip g = ir_client_ip ?req"
    "go_upstream_url g = upstream" "go_request_bytes g = int (length (ir_body ?req))"
    "go_response_bytes g = int (length (up_content r))" "go_organization_id g = oid"
    using serves_request [where ck = ck, OF assms(1,2,4) req] by blast
  have fits: "log_fits (log_row tx (ri_log ids) g)"
    using assms(3,5) by (simp add: log_fits_def log_row_def g(3,5-10) sendable_def incoming_def)
  have rec: "fst (record_request isofmt tx ids g (w_db w)) = Inr ()"
    using record_request_run [OF _ _ _ g(2) fits] assms(6) by (simp add: new_record_ids_def)
  have key: "extract_api_key (rq_headers rq) = Some full" using assms(5) by (simp add: sendable_def extract_api_key_def)
  show ?thesis
    using rec
    by (intro exI [of _ "proxy_response fs g"] exI [of _ "(w\<lparr>w_redis := (fst (w_redis w), h')\<rparr>)\<lparr>w_db :=
          snd (record_request isofmt tx ids g (w_db w))\<rparr>"] exI [of _ g])
      (simp add: proxy_def get_session_def prog_simps key g(1,3,4,11) proxy_response_def Let_def prod_eq_iff)
qed

text \<open>C11: what is published is served. On any well-formed database, when the owner of an organization
  publishes APIs by the requests \<open>scripts/seed_traffic.py\<close> sends (each with a first version and a key, under names
  whose slugs are new and fit), every step succeeds and the slugs are the ones asked for; and from the
  database that leaves, a request through the gateway with any one of the issued keys, for the API it was issued for,
  succeeds whenever the upstream answers: the caller gets the upstream's status and content, and one request log with that
  status is added, in the organization.\<close>

theorem published_keys_serve:
  assumes "db_ok d" "acts_as_owner E st cred T u oid d" "\<forall>i \<in> set items. publishable E T d i"
    and "draws_apart E (map fst items)" "distinct (map item_slug items)"
    and "\<forall>i \<in> set items. item_slug i \<notin> a_slug ` set (apis_of_org oid d)"
    and "length upstream \<le> 2048" "length ip \<le> 64"
  shows "\<exists>ks d'. publish_all E st isofmt cred ip oid upstream items d = (Inr ks, d') \<and> map fst ks = map item_slug items \<and>
    (\<forall>(slug, full) \<in> set ks. \<forall>G w path rq r h' ids ck tx.
       gw_env G = E \<and> w_db w = d' \<and> sendable full rq path r \<and> new_record_ids ids d \<and> ri_outbox ids \<notin> announced ` set items \<and>
       gw_http G (upstream_request_of upstream (incoming slug ''v1'' path rq)) (snd (w_redis w)) = (Answered r, h') \<longrightarrow>
       (\<exists>resp w' g. proxy G isofmt fs ck tx ids slug ''v1'' path rq w = (Inr resp, w') \<and>
          gr_status_code resp = up_status_code r \<and> gr_content resp = up_content r \<and>
          db_logs (w_db w') = db_logs d @ [g] \<and> g_status_code g = up_status_code r \<and> g_organization_id g = oid))"
proof -
  obtain ks d' where run: "publish_all E st isofmt cred ip oid upstream items d = (Inr ks, d')" "db_ok d'"
    "map fst ks = map item_slug items" "\<forall>(slug, full) \<in> set ks. serves E oid upstream slug full d'"
    "records_of d' = records_of d" "ob_id ` set (db_outbox d') = ob_id ` set (db_outbox d) \<union> announced ` set items"
    using publish_all_run [OF assms] by blast
  show ?thesis
  proof (intro exI [of _ ks] exI [of _ d'] conjI run(1,3) ballI, clarify)
    fix slug full
    assume "(slug, full) \<in> set ks"
    then have s: "serves E oid upstream slug full d'" using run(4) by auto
    show "\<exists>resp w' g. proxy G isofmt fs ck tx ids slug ''v1'' path rq w = (Inr resp, w') \<and>
        gr_status_code resp = up_status_code r \<and> gr_content resp = up_content r \<and>
        db_logs (w_db w') = db_logs d @ [g] \<and> g_status_code g = up_status_code r \<and> g_organization_id g = oid"
      if "E = gw_env G" "d' = w_db w" "sendable full rq path r" "new_record_ids ids d" "ri_outbox ids \<notin> announced ` set items"
        "gw_http G (upstream_request_of upstream (incoming slug ''v1'' path rq)) (snd (w_redis w)) = (Answered r, h')"
      for G w path rq r h' ids ck tx
    proof -
      note given = that
      have "new_record_ids ids (w_db w)"
        using given(2,4,5) run(5,6) by (simp add: new_record_ids_def records_of_def)
      then obtain resp w' g where p: "proxy G isofmt fs ck tx ids slug ''v1'' path rq w = (Inr resp, w')"
        "gr_status_code resp = up_status_code r" "gr_content resp = up_content r"
        "record_request isofmt tx ids g (w_db w) = (Inr (), w_db w')" "go_status_code g = up_status_code r" "go_organization_id g = oid"
        using serves_proxy [where oid = oid and ids = ids and isofmt = isofmt and fs = fs and ck = ck and tx = tx, OF _ _ assms(7) given(6,3)] s run(2) given(1,2) by auto
      then have "db_logs (w_db w') = db_logs d @ [log_row tx (ri_log ids) g]"
        using record_request_logs [of isofmt tx ids g "w_db w"] run(5) given(2) by (simp add: records_of_def)
      then show ?thesis using p by (auto simp: log_row_def)
    qed
  qed
qed

text \<open>Two APIs of one organization, published and reached.\<close>

definition demo_draws :: "uuid \<Rightarrow> string \<Rightarrow> api_draws" where
  "demo_draws n secret = \<lparr>ad_api = 100 + n, ad_version = 200 + n, ad_key = \<lparr>kd_id = 300 + n, kd_public_id = ''pk'', kd_secret = secret\<rparr>,
     ad_audit = \<lparr>ai_row = 400 + n, ai_event = 500 + n, ai_outbox = 600 + n\<rparr>, ad_created = 5, ad_versioned = 5, ad_keyed = 5\<rparr>"

theorem published_keys_serve_witness:
  "\<exists>key1 key2 d' resp w'.
     publish_all plain_env default_settings (\<lambda>_. []) alice_cred ''1.2.3.4'' 7 ''http://u/''
       [(demo_draws 1 ''s1'', ''Orders''), (demo_draws 2 ''s2'', ''Payments'')] (org_db OWNER OWNER) =
       (Inr [(''orders'', key1), (''payments'', key2)], d') \<and>
     proxy (sample_gateway sample_answer) (\<lambda>_. []) (\<lambda>_. ''1'') sample_clock 7 \<lparr>ri_log = 1, ri_usage = 2, ri_event = 3, ri_outbox = 4\<rparr>
       ''payments'' ''v1'' ''x'' (sample_raw\<lparr>rq_headers := [(''x-api-key'', key2)]\<rparr>) (sample_world d') = (Inr resp, w') \<and>
     gr_status_code resp = 200 \<and> gr_content resp = ''ok''"
proof -
  let ?items = "[(demo_draws 1 ''s1'', ''Orders''), (demo_draws 2 ''s2'', ''Payments'')]" and ?d = "org_db OWNER OWNER"
  let ?ids = "\<lparr>ri_log = 1, ri_usage = 2, ri_event = 3, ri_outbox = 4\<rparr>"
  let ?u = "\<lparr>up_status_code = 200, up_headers = [(''content-type'', ''json''), (''connection'', ''close'')], up_content = ''ok''\<rparr>"
  have slugs: "map item_slug ?items = [''orders'', ''payments'']" by (simp add: item_slug_def) code_simp
  have orders: "slugify ''Orders'' = ''orders''" "slugify ''Payments'' = ''payments''"
    using slugs by (simp_all add: item_slug_def)
  have tables: "db_apis ?d = []" "db_versions ?d = []" "db_keys ?d = []" "db_audit ?d = []" "db_outbox ?d = []"
    "db_logs ?d = []" "db_usage ?d = []"
    by (simp_all add: org_db_def empty_db_def)
  have owner: "acts_as_owner plain_env default_settings alice_cred {5} alice 7 ?d"
    using alice_cred_works [OF org_db_alice] org_db_role [of OWNER OWNER]
    by (simp add: acts_as_owner_def alice_def) (simp add: org_db_def role_name_of_def role_row_def member_row_def)
  have items: "\<forall>i \<in> set ?items. publishable plain_env {5} ?d i"
    by (simp add: publishable_def demo_draws_def fresh_draws_def tables orders SLUG_LENGTH_def)
  have apart: "draws_apart plain_env (map fst ?items)"
    by (simp add: draws_apart_def demo_draws_def generate_api_key_def hash_token_def plain_env_def Let_def)
  have new: "distinct (map item_slug ?items)" "\<forall>i \<in> set ?items. item_slug i \<notin> a_slug ` set (apis_of_org 7 ?d)"
    using slugs by (simp_all add: apis_of_org_def tables)
  have lens: "length ''http://u/'' \<le> 2048" "length ''1.2.3.4'' \<le> 64" by simp_all
  have "\<exists>ks d'. publish_all plain_env default_settings (\<lambda>_. []) alice_cred ''1.2.3.4'' 7 ''http://u/'' ?items ?d = (Inr ks, d') \<and>
    map fst ks = map item_slug ?items \<and>
    (\<forall>(slug, full) \<in> set ks. \<forall>(G :: (store, nat) gateway) w path rq r h' ids ck tx.
       gw_env G = plain_env \<and> w_db w = d' \<and> sendable full rq path r \<and> new_record_ids ids ?d \<and>
       ri_outbox ids \<notin> announced ` set ?items \<and>
       gw_http G (upstream_request_of ''http://u/'' (incoming slug ''v1'' path rq)) (snd (w_redis w)) = (Answered r, h') \<longrightarrow>
       (\<exists>resp w' g. proxy G (\<lambda>_. []) (\<lambda>_. ''1'') ck tx ids slug ''v1'' path rq w = (Inr resp, w') \<and>
          gr_status_code resp = up_status_code r \<and> gr_content resp = up_content r \<and>
          db_logs (w_db w') = db_logs ?d @ [g] \<and> g_status_code g = up_status_code r \<and> g_organization_id g = 7))"
    by (rule published_keys_serve [OF org_db_ok owner items apart new lens])
  then obtain ks d' where run: "publish_all plain_env default_settings (\<lambda>_. []) alice_cred ''1.2.3.4'' 7 ''http://u/'' ?items ?d = (Inr ks, d')"
    "map fst ks = map item_slug ?items"
    and use: "\<forall>(slug, full) \<in> set ks. \<forall>(G :: (store, nat) gateway) w path rq r h' ids ck tx.
       gw_env G = plain_env \<and> w_db w = d' \<and> sendable full rq path r \<and> new_record_ids ids ?d \<and>
       ri_outbox ids \<notin> announced ` set ?items \<and>
       gw_http G (upstream_request_of ''http://u/'' (incoming slug ''v1'' path rq)) (snd (w_redis w)) = (Answered r, h') \<longrightarrow>
       (\<exists>resp w' g. proxy G (\<lambda>_. []) (\<lambda>_. ''1'') ck tx ids slug ''v1'' path rq w = (Inr resp, w') \<and>
          gr_status_code resp = up_status_code r \<and> gr_content resp = up_content r \<and>
          db_logs (w_db w') = db_logs ?d @ [g] \<and> g_status_code g = up_status_code r \<and> g_organization_id g = 7)"
    by (elim exE conjE) (rule that)
  obtain key1 key2 where ks: "ks = [(''orders'', key1), (''payments'', key2)]"
    using run(2) slugs by (auto simp: map_eq_Cons_conv)
  let ?rq = "sample_raw\<lparr>rq_headers := [(''x-api-key'', key2)]\<rparr>"
  have pre: "gw_env (sample_gateway sample_answer) = plain_env \<and> w_db (sample_world d') = d' \<and> sendable key2 ?rq ''x'' ?u \<and>
      new_record_ids ?ids ?d \<and> ri_outbox ?ids \<notin> announced ` set ?items \<and>
      gw_http (sample_gateway sample_answer) (upstream_request_of ''http://u/'' (incoming ''payments'' ''v1'' ''x'' ?rq))
        (snd (w_redis (sample_world d'))) = (Answered ?u, Suc 0)"
    by (simp add: sendable_def sample_raw_def client_ip_def int32_def new_record_ids_def tables announced_def demo_draws_def
      sample_gateway_def sample_answer_def sample_world_def)
  have "\<exists>resp w' g. proxy (sample_gateway sample_answer) (\<lambda>_. []) (\<lambda>_. ''1'') sample_clock 7 ?ids ''payments'' ''v1'' ''x'' ?rq
      (sample_world d') = (Inr resp, w') \<and> gr_status_code resp = up_status_code ?u \<and> gr_content resp = up_content ?u \<and>
      db_logs (w_db w') = db_logs ?d @ [g] \<and> g_status_code g = up_status_code ?u \<and> g_organization_id g = 7"
    by (rule bspec [OF use, of "(''payments'', key2)", unfolded prod.case, rule_format, OF _ pre]) (simp add: ks)
  then show ?thesis using run(1) by (auto simp: ks)
qed

end
