(* ===== verification/Traffic.thy ===== *)
theory Traffic
  imports Journey
begin

text \<open>
  \<open>scripts/seed_traffic.py\<close> from its first request to its last: the sign-up, the publishing of theory Journey, and
  the loop that sends traffic.
\<close>

section \<open>Signing up\<close>

record sign_up_draws =
  su_uid :: uuid
  su_salt :: string
  su_registered :: instant
  su_ms :: int
  su_login :: instant
  su_rehash_salt :: string
  su_raw :: string
  su_tid :: uuid
  su_jti :: uuid
  su_family :: uuid
  su_oid :: uuid
  su_mid :: uuid
  su_created :: instant

text \<open>What registering answers is not looked at; a login or a creation that fails ends the script.\<close>

definition sign_up ::
  "'r redis_api \<Rightarrow> env \<Rightarrow> settings \<Rightarrow> string \<Rightarrow> sign_up_draws \<Rightarrow> string \<Rightarrow> string \<Rightarrow> ('r, string \<times> uuid) wprog" where
  "sign_up R E st ip dr email password = (\<lambda>w.
     bindP (login_endpoint R (su_ms dr) E st (su_login dr) (su_rehash_salt dr) (su_raw dr) (su_tid dr) (su_jti dr)
        (su_family dr) ip email password) (\<lambda>(tokens, _).
     bindP (on_db (create_organization_endpoint E st (su_created dr) (Some (it_access_token tokens)) (su_oid dr) (su_mid dr)
        ''Demo Org'' None)) (\<lambda>org.
     ret (it_access_token tokens, o_id org)))
     (snd (register_endpoint E st (su_registered dr) (su_uid dr) (su_salt dr) email password (Some ''Demo User'') w)))"

definition lifetime :: "settings \<Rightarrow> instant \<Rightarrow> instant set" where
  "lifetime st t0 = {t. t0 \<le> t \<and> timestamp t < timestamp (t0 + s_access_token_ttl_seconds st * us_per_second)}"

definition fresh_sign_up :: "env \<Rightarrow> sign_up_draws \<Rightarrow> string \<Rightarrow> db \<Rightarrow> bool" where
  "fresh_sign_up E dr email d \<longleftrightarrow> su_uid dr \<notin> u_id ` set (db_users d) \<and> str_lower email \<notin> u_email ` set (db_users d) \<and>
     su_tid dr \<notin> rt_id ` set (db_tokens d) \<and> hash_token E (su_raw dr) \<notin> rt_token_hash ` set (db_tokens d) \<and>
     su_oid dr \<notin> o_id ` set (db_orgs d) \<and> su_mid dr \<notin> m_id ` set (db_members d)"

text \<open>The tables a sign-up leaves alone.\<close>

definition traffic_tables where
  "traffic_tables d = (db_apis d, db_versions d, db_keys d, db_audit d, db_outbox d, db_logs d, db_usage d, db_roles d)"

lemma register_new:
  assumes "db_ok (w_db w)" "uid \<notin> u_id ` set (db_users (w_db w))" "str_lower email \<notin> u_email ` set (db_users (w_db w))"
  shows "\<exists>u w'. register_endpoint E st now uid salt email pw fn w = (Inr u, w') \<and> u_id u = uid \<and> u_email u = str_lower email \<and>
    u_is_active u \<and> u_password_hash u = hash_password E salt pw \<and>
    w_db w' = (w_db w)\<lparr>db_users := db_users (w_db w) @ [u]\<rparr> \<and> w_redis w' = w_redis w"
proof -
  have "find (\<lambda>x. u_email x = str_lower email) (db_users (w_db w)) = None"
    using assms(3) by (auto simp: find_None_iff image_iff)
  then show ?thesis
    using assms(2,3)
    by (simp add: register_endpoint_def register_def get_session_def send_verification_email_def send_email_def add_user_def
        prog_simps Let_def get_by_email_run [OF db_okD(1) [OF assms(1)]])
qed

lemma authenticate_registered:
  assumes "crypto E" "db_ok d" "u \<in> set (db_users d)" "u_email u = str_lower email" "u_is_active u"
    and "u_password_hash u = hash_password E salt pw"
  shows "\<exists>u' us. authenticate E salt2 email pw d = (Inr u', d\<lparr>db_users := us\<rparr>) \<and> u_id u' = u_id u \<and> u_is_active u' \<and>
    u_id ` set us = u_id ` set (db_users d) \<and> find (\<lambda>x. u_id x = u_id u) us = Some u'"
proof -
  have ok: "distinct (map u_id (db_users d))" "distinct (map u_email (db_users d))"
    using db_okD(1) [OF assms(2)] by (simp_all add: users_ok_def)
  have by_email: "find (\<lambda>x. u_email x = str_lower email) (db_users d) = Some u"
    using find_Some_iff_unique [OF ok(2) assms(3,4)] .
  have by_id: "find (\<lambda>x. u_id x = u_id u) (db_users d) = Some u" by (rule find_Some_iff_unique [OF ok(1) assms(3) refl])
  have mail: "get_by_email (str_lower email) d = (Inr (Some u), d)"
    by (simp add: get_by_email_run [OF db_okD(1) [OF assms(2)]] by_email)
  show ?thesis
  proof (cases "password_needs_rehash E (u_password_hash u)")
    case False
    then show ?thesis
      using assms(5,6) crypto.password_roundtrip [OF assms(1), of pw salt]
      by (intro exI [of _ u] exI [of _ "db_users d"]) (simp add: authenticate_def mail prog_simps by_id)
  next
    case True
    let ?f = "\<lambda>u. u\<lparr>u_password_hash := hash_password E salt2 pw\<rparr>"
    have "find (\<lambda>x. u_id x = u_id u) (update_where (\<lambda>x. u_id x = u_id u) ?f (db_users d)) = Some (?f u)"
      by (subst find_update_where) (simp_all add: by_id)
    moreover have "u_id ` set (update_where (\<lambda>x. u_id x = u_id u) ?f (db_users d)) = u_id ` set (db_users d)"
      unfolding set_map [symmetric] by (rule arg_cong [of _ _ set]) (simp add: update_where_def)
    ultimately show ?thesis
      using True assms(5,6) crypto.password_roundtrip [OF assms(1), of pw salt]
      by (intro exI [of _ "?f u"] exI [of _ "update_where (\<lambda>x. u_id x = u_id u) ?f (db_users d)"])
        (simp add: authenticate_def mail prog_simps)
  qed
qed

text \<open>The owner role is seeded.\<close>

definition seeded_owner :: "role list \<Rightarrow> bool" where
  "seeded_owner rs \<longleftrightarrow> role_code OWNER \<in> r_name ` set rs"

lemma create_first_org:
  assumes "db_ok d" "oid \<notin> o_id ` set (db_orgs d)" "mid \<notin> m_id ` set (db_members d)"
    and "u_id u \<in> u_id ` set (db_users d)" "seeded_owner (db_roles d)"
    and "length (unique_slug_of (map o_slug (db_orgs d)) name) \<le> SLUG_LENGTH"
  shows "\<exists>og m. create_organization now oid mid u name None d =
      (Inr og, d\<lparr>db_orgs := db_orgs d @ [og], db_members := db_members d @ [m]\<rparr>) \<and> o_id og = oid \<and>
    m_user_id m = u_id u \<and> m_organization_id m = oid \<and> role_name_of d (m_role_id m) = role_code OWNER"
proof -
  let ?s = "unique_slug_of (map o_slug (db_orgs d)) name"
  let ?o = "\<lparr>o_id = oid, o_name = name, o_slug = ?s, o_created_at = now\<rparr>" and ?d = "\<lambda>r. d\<lparr>db_orgs := db_orgs d @ [r]\<rparr>"
  have new: "?s \<notin> o_slug ` set (db_orgs d)"
    using slug_search_free [of "map o_slug (db_orgs d)"] by (simp add: unique_slug_of_def Let_def)
  have add: "add_org ?o d = (Inr (), ?d ?o)" using assms(2,6) new by (simp add: add_org_def prog_simps)
  then have ok: "db_ok (?d ?o)" using preservesD [OF db_ok_add(5) assms(1), of ?o] by simp
  obtain row where row: "find (\<lambda>x. r_name x = role_code OWNER) (db_roles d) = Some row"
    using assms(5) by (cases "find (\<lambda>x. r_name x = role_code OWNER) (db_roles d)") (auto simp: seeded_owner_def find_None_iff)
  have role: "role_id_of OWNER (?d ?o) = (Inr (r_id row), ?d ?o)"
    using row by (simp add: role_id_of_def get_by_name_run [OF db_okD(3) [OF ok]] prog_simps)
  have "(u_id u, oid) \<notin> (\<lambda>m. (m_user_id m, m_organization_id m)) ` set (db_members d)"
    using db_okD(5) [OF assms(1)] assms(2) by (auto simp: members_ok_def)
  moreover have "r_id row \<in> r_id ` set (db_roles d)" using row by (auto simp: find_Some_iff)
  ultimately have member: "add_member \<lparr>m_id = mid, m_organization_id = oid, m_user_id = u_id u, m_role_id = r_id row,
      m_created_at = now\<rparr> (?d ?o) = (Inr (), (?d ?o)\<lparr>db_members := db_members d @ [\<lparr>m_id = mid, m_organization_id = oid,
      m_user_id = u_id u, m_role_id = r_id row, m_created_at = now\<rparr>]\<rparr>)"
    using assms(3,4) by (simp add: add_member_def prog_simps)
  have owner: "role_name_of d (r_id row) = role_code OWNER" using role_name_owner [OF assms(1) row] by simp
  show ?thesis
    by (rule exI [of _ ?o], rule exI [of _ "\<lparr>m_id = mid, m_organization_id = oid, m_user_id = u_id u, m_role_id = r_id row,
        m_created_at = now\<rparr>"])
      (simp add: create_organization_def slug_conflict_def slug_or_name_def unique_org_slug_def prog_simps add role member owner Let_def)
qed

lemma sign_up_run:
  assumes "crypto E" "db_ok (w_db w)" "fresh_sign_up E dr email (w_db w)" "seeded_owner (db_roles (w_db w))"
    and "length (unique_slug_of (map o_slug (db_orgs (w_db w))) ''Demo Org'') \<le> SLUG_LENGTH"
    and "fst (auth_throttle_check R (s_auth_rate_limit_per_minute st) (su_ms dr) (ip @ '':'' @ str_lower email) (w_redis w)) = Inr ()"
    and "su_created dr \<in> lifetime st (su_login dr)"
  shows "\<exists>tok u w'. sign_up R E st ip dr email password w = (Inr (tok, su_oid dr), w') \<and> db_ok (w_db w') \<and>
    acts_as_owner E st (Some tok) (lifetime st (su_login dr)) u (su_oid dr) (w_db w') \<and>
    traffic_tables (w_db w') = traffic_tables (w_db w)"
proof -
  let ?d = "w_db w"
  obtain u w1 where reg: "register_endpoint E st (su_registered dr) (su_uid dr) (su_salt dr) email password (Some ''Demo User'') w = (Inr u, w1)"
    and u: "u_id u = su_uid dr" "u_email u = str_lower email" "u_is_active u" "u_password_hash u = hash_password E (su_salt dr) password"
    and w1: "w_db w1 = ?d\<lparr>db_users := db_users ?d @ [u]\<rparr>" "w_redis w1 = w_redis w"
    using register_new [OF assms(2), of "su_uid dr" email] assms(3) by (auto simp: fresh_sign_up_def) metis
  have ok1: "db_ok (w_db w1)"
    using preservesD [OF db_ok_add(1) assms(2), of u] assms(3) u(1,2) w1(1)
    by (simp add: add_user_def prog_simps fresh_sign_up_def)
  obtain u' us where auth: "authenticate E (su_rehash_salt dr) email password (w_db w1) = (Inr u', (w_db w1)\<lparr>db_users := us\<rparr>)"
    and u': "u_id u' = su_uid dr" "u_is_active u'" "u_id ` set us = u_id ` set (db_users (w_db w1))" "find (\<lambda>x. u_id x = su_uid dr) us = Some u'"
    using authenticate_registered [OF assms(1) ok1 _ u(2,3,4), of "su_rehash_salt dr"] w1(1) u(1) by auto
  define d2 where "d2 = (w_db w1)\<lparr>db_users := us\<rparr>"
  have ok2: "db_ok d2" using preservesD [OF db_ok_authenticate ok1, of E "su_rehash_salt dr" email password] auth by (simp add: d2_def)
  have tables2: "db_tokens d2 = db_tokens ?d" "db_orgs d2 = db_orgs ?d" "db_members d2 = db_members ?d" "db_roles d2 = db_roles ?d"
    "db_users d2 = us" "traffic_tables d2 = traffic_tables ?d"
    by (simp_all add: d2_def w1 traffic_tables_def)
  have known: "su_uid dr \<in> u_id ` set us" using find_SomeD [OF u'(4)] by force
  obtain toks d3 where tok: "issue_tokens E st (su_login dr) (su_raw dr) (su_tid dr) (su_jti dr) u' (su_family dr) d2 = (Inr toks, d3)"
    using assms(3) known u'(1)
    by (auto simp: issue_tokens_def add_token_def prog_simps Let_def fresh_sign_up_def tables2)
  have ok3: "db_ok d3" using preservesD [OF db_ok_issue_tokens ok2] tok by (metis snd_conv)
  obtain new where "d3 = d2\<lparr>db_tokens := db_tokens d2 @ [new]\<rparr>" using issue_tokens_success [OF tok] by blast
  then have tables3: "db_orgs d3 = db_orgs ?d" "db_members d3 = db_members ?d" "db_roles d3 = db_roles ?d"
    "db_users d3 = us" "traffic_tables d3 = traffic_tables ?d"
    using tables2 by (simp_all add: traffic_tables_def)
  have accepted: "get_current_user E st t (Some (it_access_token toks)) d = (Inr u', d)"
    if "t \<in> lifetime st (su_login dr)" "db_users d = us" for t d
    using issued_token_accepted [OF assms(1) _ u'(2) _ _ tok refl, of d t] that u'(1,4) by (simp add: lifetime_def)
  have login: "login_endpoint R (su_ms dr) E st (su_login dr) (su_rehash_salt dr) (su_raw dr) (su_tid dr) (su_jti dr)
      (su_family dr) ip email password w1 = (Inr (token_response st toks), w1\<lparr>w_db := d3, w_redis := snd (auth_throttle_check R
        (s_auth_rate_limit_per_minute st) (su_ms dr) (ip @ '':'' @ str_lower email) (w_redis w))\<rparr>)"
    using assms(6) auth tok
    by (simp add: login_endpoint_def get_session_def prog_simps on_redis_run w1(2) d2_def)
  let ?w3 = "w1\<lparr>w_db := d3, w_redis := snd (auth_throttle_check R
        (s_auth_rate_limit_per_minute st) (su_ms dr) (ip @ '':'' @ str_lower email) (w_redis w))\<rparr>"
  have free: "su_oid dr \<notin> o_id ` set (db_orgs d3)" "su_mid dr \<notin> m_id ` set (db_members d3)" "u_id u' \<in> u_id ` set (db_users d3)"
    "seeded_owner (db_roles d3)" "length (unique_slug_of (map o_slug (db_orgs d3)) ''Demo Org'') \<le> SLUG_LENGTH"
    using assms(3-5) known by (simp_all add: fresh_sign_up_def tables3 u'(1))
  obtain og m where org: "create_organization (su_created dr) (su_oid dr) (su_mid dr) u' ''Demo Org'' None d3 =
      (Inr og, d3\<lparr>db_orgs := db_orgs d3 @ [og], db_members := db_members d3 @ [m]\<rparr>)" "o_id og = su_oid dr"
    and m: "m_user_id m = u_id u'" "m_organization_id m = su_oid dr" "role_name_of d3 (m_role_id m) = role_code OWNER"
    using create_first_org [OF ok3 free, of "su_created dr"] by blast
  define d4 where "d4 = d3\<lparr>db_orgs := db_orgs d3 @ [og], db_members := db_members d3 @ [m]\<rparr>"
  have ok4: "db_ok d4"
    using preservesD [OF db_ok_create_organization ok3, of "su_created dr" "su_oid dr" "su_mid dr" u' "''Demo Org''" None] org(1)
    by (simp add: d4_def)
  have run: "sign_up R E st ip dr email password w = (Inr (it_access_token toks, su_oid dr), ?w3\<lparr>w_db := d4\<rparr>)"
    using accepted [OF assms(7) tables3(4)] org
    by (simp add: sign_up_def reg login token_response_def create_organization_endpoint_def prog_simps d4_def)
  have member: "find (\<lambda>m. m_user_id m = u_id u' \<and> m_organization_id m = su_oid dr) (db_members d4) = Some m"
  proof -
    have "\<not> (m_user_id y = u_id u' \<and> m_organization_id y = su_oid dr)" if "y \<in> set (db_members d3)" for y
    proof -
      have "m_organization_id y \<in> o_id ` set (db_orgs d3)"
        using db_okD(5) [OF ok3] imageI [OF that, of m_organization_id] by (auto simp: members_ok_def)
      then show ?thesis using free(1) by auto
    qed
    then show ?thesis using m(1,2) by (simp add: d4_def find_snoc_new)
  qed
  have "acts_as_owner E st (Some (it_access_token toks)) (lifetime st (su_login dr)) u' (su_oid dr) d4"
    using accepted tables3(4) member m(3) by (simp add: acts_as_owner_def) (simp add: d4_def role_name_of_def tables3(4))
  moreover have "traffic_tables d4 = traffic_tables ?d" using tables3(5) by (simp add: d4_def traffic_tables_def)
  ultimately show ?thesis using run ok4 by (intro exI conjI) (assumption | simp)+
qed

section \<open>The loop\<close>

definition APIS :: "string list" where "APIS = [''Orders'', ''Payments'', ''Users'']"

definition GOOD_PATHS :: "string list" where
  "GOOD_PATHS = [''health'', ''openapi.json'', ''docs'', ''health/ready'', ''health/live'']"

definition BAD_PATHS :: "string list" where
  "BAD_PATHS = [''orders/missing'', ''v2/legacy'', ''admin/secret'', ''users/999999'', ''checkout/expired'']"

text \<open>\<open>random.choice\<close>, of the number drawn.\<close>

definition choice :: "'a list \<Rightarrow> nat \<Rightarrow> 'a" where
  "choice xs n = xs ! (n mod length xs)"

text \<open>One turn: the clock at the loop's test, what is drawn, and what the platform draws to answer.\<close>

record visit =
  vs_clock :: rat
  vs_api :: nat
  vs_luck :: rat
  vs_path :: nat
  vs_method :: nat
  vs_gateway :: gw_clock
  vs_logged :: instant
  vs_ids :: record_ids

definition visit_path :: "visit \<Rightarrow> string" where
  "visit_path v = choice (if vs_luck v < 4 / 5 then GOOD_PATHS else BAD_PATHS) (vs_path v)"

text \<open>\<open>hs\<close> are the headers httpx sends with every request.\<close>

definition visit_request :: "(string \<times> string) list \<Rightarrow> string option \<Rightarrow> string \<Rightarrow> visit \<Rightarrow> raw_request" where
  "visit_request hs peer key v = \<lparr>rq_method = choice [''GET'', ''GET'', ''GET'', ''POST''] (vs_method v), rq_query = [],
     rq_headers = (''x-api-key'', key) # hs, rq_body = [], rq_peer = peer\<rparr>"

text \<open>\<open>max(args.rate, 0.1)\<close>, and the time slept.\<close>

definition interval :: "rat \<Rightarrow> rat" where
  "interval rate = 1 / max rate (1 / 10)"

text \<open>The turns a run takes end with a clock past the duration, or where the list ends: at the interrupt from the
  keyboard. What a request answers or raises is not looked at.\<close>

fun stream_traffic ::
  "('r, 'h) gateway \<Rightarrow> (instant \<Rightarrow> string) \<Rightarrow> (rat \<Rightarrow> string) \<Rightarrow> (string \<times> string) list \<Rightarrow> string option \<Rightarrow>
   (string \<times> string) list \<Rightarrow> bool \<Rightarrow> rat \<Rightarrow> rat \<Rightarrow> visit list \<Rightarrow> nat \<times> ('r \<times> 'h) world \<Rightarrow> nat \<times> ('r \<times> 'h) world" where
  "stream_traffic G isofmt fs hs peer published forever start duration [] s = s"
| "stream_traffic G isofmt fs hs peer published forever start duration (v # vs) (sent, w) =
     (if forever \<or> vs_clock v - start < duration
      then (let (slug, key) = choice published (vs_api v)
            in stream_traffic G isofmt fs hs peer published forever start duration vs
                 (sent + 1, snd (proxy G isofmt fs (vs_gateway v) (vs_logged v) (vs_ids v) slug ''v1'' (visit_path v)
                    (visit_request hs peer key v) w)))
      else (sent, w))"

definition turns :: "bool \<Rightarrow> rat \<Rightarrow> rat \<Rightarrow> visit list \<Rightarrow> visit list" where
  "turns forever start duration = takeWhile (\<lambda>v. forever \<or> vs_clock v - start < duration)"

lemma stream_traffic_sent:
  "fst (stream_traffic G isofmt fs hs peer published forever start duration vs (n, w)) =
   n + length (turns forever start duration vs)"
proof (induction vs arbitrary: n w)
  case (Cons v vs)
  then show ?case by (cases forever) (simp_all add: turns_def split_beta)
qed (simp add: turns_def)

section \<open>Its pace\<close>

text \<open>The clock a turn reads is at least the slept interval after the one before.\<close>

definition paced :: "rat \<Rightarrow> rat \<Rightarrow> visit list \<Rightarrow> bool" where
  "paced start gap vs \<longleftrightarrow> (\<forall>v \<in> set (take 1 vs). start \<le> vs_clock v) \<and>
     successively (\<lambda>u v. vs_clock u + gap \<le> vs_clock v) vs"

lemma paced_clock:
  assumes "paced start gap vs" "i < length vs"
  shows "start + of_nat i * gap \<le> vs_clock (vs ! i)"
  using assms(2)
proof (induction i)
  case 0
  then show ?case using assms(1) by (cases vs) (simp_all add: paced_def)
next
  case (Suc i)
  have "vs_clock (vs ! i) + gap \<le> vs_clock (vs ! Suc i)"
    using assms(1) Suc.prems by (simp add: paced_def successively_conv_nth)
  then show ?case using Suc by (simp add: algebra_simps)
qed

lemma interval_pos: "0 < interval rate"
  by (simp add: interval_def)

text \<open>The loop ends and does not overrun its rate. Without \<open>--forever\<close>, when every turn starts at least the slept
  interval after the one before, fewer than \<open>duration * rate + 1\<close> requests are sent (with a rate below a tenth counted as a tenth),
  however long the loop would be allowed to go on.\<close>

theorem traffic_rate_bounded:
  assumes "paced start (interval rate) vs" "0 \<le> duration"
  shows "of_nat (fst (stream_traffic G isofmt fs hs peer published False start duration vs (0, w))) < duration * max rate (1 / 10) + 1"
proof -
  let ?ts = "turns False start duration vs" and ?k = "length (turns False start duration vs)" and ?r = "max rate (1 / 10)"
  have r: "0 < ?r" by (simp add: max_def)
  have "of_nat ?k < duration * ?r + 1"
  proof (cases "?k = 0")
    case True
    then show ?thesis using mult_nonneg_nonneg [OF assms(2) less_imp_le [OF r]] by simp
  next
    case False
    let ?i = "?k - 1"
    have "?k \<le> length vs" by (simp add: turns_def length_takeWhile_le)
    then have i: "?i < length vs" using False by linarith
    have "?ts ! ?i \<in> set ?ts" using False by simp
    then have "vs_clock (?ts ! ?i) - start < duration" by (auto simp: turns_def dest: set_takeWhileD)
    moreover have "?ts ! ?i = vs ! ?i" using False by (simp add: turns_def takeWhile_nth)
    ultimately have "of_nat ?i * interval rate < duration" using paced_clock [OF assms(1) i] by simp
    then have "of_nat ?i < duration * ?r" by (simp add: interval_def field_simps)
    then show ?thesis using False by (simp add: of_nat_diff)
  qed
  then show ?thesis by (simp add: stream_traffic_sent)
qed

text \<open>Turns at the given times, of the record ids \<open>n\<close> onwards.\<close>

fun demo_visits :: "uuid \<Rightarrow> rat list \<Rightarrow> visit list" where
  "demo_visits n [] = []"
| "demo_visits n (t # ts) = \<lparr>vs_clock = t, vs_api = 1, vs_luck = 1 / 2, vs_path = 0, vs_method = 3, vs_gateway = sample_clock,
     vs_logged = 7, vs_ids = \<lparr>ri_log = n, ri_usage = n, ri_event = n, ri_outbox = n\<rparr>\<rparr> # demo_visits (n + 1) ts"

theorem traffic_rate_bounded_witness:
  "of_nat (fst (stream_traffic (sample_gateway sample_answer) (\<lambda>_. []) (\<lambda>_. ''1'') [] None [(''pay'', ''hash'')] False 0 2
      (demo_visits 1 [0, 1, 2, 3]) (0, sample_world (key_db None)))) < 2 * max 1 (1 / 10) + (1 :: rat)"
  by (rule traffic_rate_bounded) (simp_all add: paced_def interval_def max_def)

section \<open>What it leaves\<close>

text \<open>The ids the turns' records draw are new and differ.\<close>

definition fresh_visits :: "visit list \<Rightarrow> db \<Rightarrow> bool" where
  "fresh_visits vs d \<longleftrightarrow> (\<forall>v \<in> set vs. new_record_ids (vs_ids v) d) \<and> distinct (map (\<lambda>v. ri_log (vs_ids v)) vs) \<and>
     distinct (map (\<lambda>v. ri_usage (vs_ids v)) vs) \<and> distinct (map (\<lambda>v. ri_outbox (vs_ids v)) vs)"

lemma record_request_writes:
  assumes "record_request isofmt tx ids g d = (Inr (), d')"
  shows "grows d d'" "g_id ` set (db_logs d') = insert (ri_log ids) (g_id ` set (db_logs d))"
    "ku_id ` set (db_usage d') \<subseteq> insert (ri_usage ids) (ku_id ` set (db_usage d))"
    "ob_id ` set (db_outbox d') = insert (ri_outbox ids) (ob_id ` set (db_outbox d))"
  using assms
  by (auto simp: record_request_def prog_simps add_log_def usage_increment_def emit_def add_outbox_def log_row_def
        grows_def access_tables_def update_where_def split: if_splits sum.splits prod.splits)

lemma fresh_visits_step:
  assumes "fresh_visits (v # vs) d" "record_request isofmt tx (vs_ids v) g d = (Inr (), d')"
  shows "fresh_visits vs d'"
  using assms(1) record_request_writes(2,4) [OF assms(2)] record_request_writes(3) [OF assms(2)]
  by (auto simp: fresh_visits_def new_record_ids_def image_iff subset_iff) metis+

text \<open>An upstream that is there, and what the script's own connection sends.\<close>

definition always_answers :: "('r, 'h) gateway \<Rightarrow> bool" where
  "always_answers G \<longleftrightarrow> (\<forall>q h. \<exists>r h'. gw_http G q h = (Answered r, h') \<and> int32 (up_status_code r) \<and>
     int32 (int (length (up_content r))))"

definition plain_client :: "(string \<times> string) list \<Rightarrow> string option \<Rightarrow> bool" where
  "plain_client hs peer \<longleftrightarrow> map_of hs ''authorization'' = None \<and> length (client_ip (map_of hs ''x-forwarded-for'') peer) \<le> 64"

lemma visit_path_length: "length (visit_path v) \<le> 2048"
proof -
  have "choice xs n \<in> set xs" if "xs \<noteq> []" for xs :: "string list" and n using that by (simp add: choice_def)
  from this [of GOOD_PATHS "vs_path v"] this [of BAD_PATHS "vs_path v"]
  have "visit_path v \<in> set (GOOD_PATHS @ BAD_PATHS)" by (cases "vs_luck v < 4 / 5") (auto simp: visit_path_def GOOD_PATHS_def BAD_PATHS_def)
  moreover have "\<forall>p \<in> set (GOOD_PATHS @ BAD_PATHS). length p \<le> 2048" by (simp add: GOOD_PATHS_def BAD_PATHS_def)
  ultimately show ?thesis by blast
qed

lemma visit_sendable:
  assumes "plain_client hs peer" "int32 (up_status_code r)" "int32 (int (length (up_content r)))"
  shows "sendable key (visit_request hs peer key v) (visit_path v) r"
proof -
  have "choice [''GET'', ''GET'', ''GET'', ''POST''] (vs_method v) \<in> set [''GET'', ''GET'', ''GET'', ''POST'']"
    unfolding choice_def by (rule nth_mem) simp
  then have "length (choice [''GET'', ''GET'', ''GET'', ''POST''] (vs_method v)) \<le> 10" by auto
  then show ?thesis
    using assms visit_path_length [of v] by (simp add: sendable_def visit_request_def plain_client_def int32_def)
qed

lemma traffic_recorded:
  assumes "db_ok (w_db w)" "\<forall>(slug, full) \<in> set ks. serves (gw_env G) oid upstream slug full (w_db w)" "ks \<noteq> []"
    and "fresh_visits vs (w_db w)"
    and always: "always_answers G" "plain_client hs peer" "length upstream \<le> 2048"
  shows "\<exists>w' ls. stream_traffic G isofmt fs hs peer ks forever start duration vs (n, w) =
      (n + length (turns forever start duration vs), w') \<and> db_logs (w_db w') = db_logs (w_db w) @ ls \<and>
    length ls = length (turns forever start duration vs) \<and> (\<forall>g \<in> set ls. g_organization_id g = oid)"
  using assms(1,2,4)
proof (induction vs arbitrary: w n)
  case Nil
  show ?case by (intro exI [of _ w] exI [of _ "[]"]) (simp add: turns_def)
next
  case (Cons v vs)
  show ?case
  proof (cases "forever \<or> vs_clock v - start < duration")
    case False
    then show ?thesis by (intro exI [of _ w] exI [of _ "[]"]) (auto simp: turns_def)
  next
    case True
    obtain slug key where c: "choice ks (vs_api v) = (slug, key)" by fastforce
    have "choice ks (vs_api v) \<in> set ks" using assms(3) by (simp add: choice_def)
    then have s: "serves (gw_env G) oid upstream slug key (w_db w)" using Cons.prems(2) by (auto simp: c)
    let ?rq = "visit_request hs peer key v"
    obtain r h' where r: "gw_http G (upstream_request_of upstream (incoming slug ''v1'' (visit_path v) ?rq)) (snd (w_redis w)) =
        (Answered r, h')" "int32 (up_status_code r)" "int32 (int (length (up_content r)))"
      using always(1) by (auto simp: always_answers_def) blast
    obtain resp w1 g where p: "proxy G isofmt fs (vs_gateway v) (vs_logged v) (vs_ids v) slug ''v1'' (visit_path v) ?rq w = (Inr resp, w1)"
      and rec: "record_request isofmt (vs_logged v) (vs_ids v) g (w_db w) = (Inr (), w_db w1)" and og: "go_organization_id g = oid"
    proof -
      have new: "new_record_ids (vs_ids v) (w_db w)" using Cons.prems(3) by (simp add: fresh_visits_def)
      show thesis
        using serves_proxy [OF Cons.prems(1) s always(3) r(1) visit_sendable [OF always(2) r(2,3)] new] that by blast
    qed
    have ok1: "db_ok (w_db w1)" using preservesD [OF db_ok_record_request Cons.prems(1)] rec by (metis snd_conv)
    have s1: "\<forall>(slug, full) \<in> set ks. serves (gw_env G) oid upstream slug full (w_db w1)"
      using Cons.prems(2) serves_grows [OF _ record_request_writes(1) [OF rec]] by fastforce
    have l1: "db_logs (w_db w1) = db_logs (w_db w) @ [log_row (vs_logged v) (ri_log (vs_ids v)) g]"
      using record_request_logs [of isofmt "vs_logged v" "vs_ids v" g "w_db w"] rec by simp
    obtain w' ls where rest: "stream_traffic G isofmt fs hs peer ks forever start duration vs (n + 1, w1) =
        (n + 1 + length (turns forever start duration vs), w')" "db_logs (w_db w') = db_logs (w_db w1) @ ls"
        "length ls = length (turns forever start duration vs)" "\<forall>g \<in> set ls. g_organization_id g = oid"
      using Cons.IH [OF ok1 s1 fresh_visits_step [OF Cons.prems(3) rec]] by blast
    have "turns forever start duration (v # vs) = v # turns forever start duration vs" using True by (auto simp: turns_def)
    then show ?thesis
      using True rest l1 p by (intro exI [of _ w'] exI [of _ "log_row (vs_logged v) (ri_log (vs_ids v)) g # ls"]) (auto simp: c og log_row_def)
  qed
qed

section \<open>The script\<close>

text \<open>\<open>healthy\<close>: the platform answered the first request. The result is the number of requests sent, or nothing when the
  script ends before its loop.\<close>

text \<open>The login counts its attempt on the same Redis as the gateway.\<close>

definition beside :: "'r redis_api \<Rightarrow> ('r \<times> 'h) redis_api" where
  "beside R = \<lparr>
     r_incr = (\<lambda>t k s. map_prod id (\<lambda>r. (r, snd s)) (r_incr R t k (fst s))),
     r_decr = (\<lambda>t k s. map_prod id (\<lambda>r. (r, snd s)) (r_decr R t k (fst s))),
     r_pexpire = (\<lambda>t k n s. (r_pexpire R t k n (fst s), snd s)),
     r_expire = (\<lambda>t k n s. (r_expire R t k n (fst s), snd s)),
     r_pttl = (\<lambda>t k s. r_pttl R t k (fst s)),
     r_ttl = (\<lambda>t k s. r_ttl R t k (fst s)),
     r_zremrangebyscore = (\<lambda>t k lo hi s. (r_zremrangebyscore R t k lo hi (fst s), snd s)),
     r_zcard = (\<lambda>t k s. r_zcard R t k (fst s)),
     r_zadd = (\<lambda>t k sc m s. (r_zadd R t k sc m (fst s), snd s)),
     r_zfirst = (\<lambda>t k s. r_zfirst R t k (fst s)),
     r_hget = (\<lambda>t k f s. r_hget R t k f (fst s)),
     r_hset = (\<lambda>t k fs s. (r_hset R t k fs (fst s), snd s))\<rparr>"

definition demo_email :: "string \<Rightarrow> string" where
  "demo_email hex = ''demo+'' @ hex @ ''@acme.io''"

definition seed_traffic ::
  "('r, 'h) gateway \<Rightarrow> settings \<Rightarrow> (instant \<Rightarrow> string) \<Rightarrow> (rat \<Rightarrow> string) \<Rightarrow> (string \<times> string) list \<Rightarrow>
   string option \<Rightarrow> string \<Rightarrow> bool \<Rightarrow> string \<Rightarrow> string \<Rightarrow> sign_up_draws \<Rightarrow> api_draws list \<Rightarrow> bool \<Rightarrow> rat \<Rightarrow> rat \<Rightarrow> visit list \<Rightarrow>
   ('r \<times> 'h) world \<Rightarrow> nat option \<times> ('r \<times> 'h) world" where
  "seed_traffic G st isofmt fs hs peer ip healthy hex upstream dr drs forever start duration vs w =
     (if \<not> healthy then (None, w) else
      case bindP (sign_up (beside (gw_redis G)) (gw_env G) st ip dr (demo_email hex) ''password123'') (\<lambda>(token, org).
             on_db (publish_all (gw_env G) st isofmt (Some token) ip org upstream (zip drs APIS))) w of
        (Inl _, w') \<Rightarrow> (None, w')
      | (Inr published, w') \<Rightarrow>
          (case stream_traffic G isofmt fs hs peer published forever start duration vs (0, w') of (sent, w'') \<Rightarrow> (Some sent, w'')))"

text \<open>What the script and the platform draw is new, and the session outlives the publishing.\<close>

definition demo_ready :: "env \<Rightarrow> settings \<Rightarrow> string \<Rightarrow> sign_up_draws \<Rightarrow> api_draws list \<Rightarrow> visit list \<Rightarrow> db \<Rightarrow> bool" where
  "demo_ready E st hex dr drs vs d \<longleftrightarrow> fresh_sign_up E dr (demo_email hex) d \<and> seeded_owner (db_roles d) \<and>
     length (unique_slug_of (map o_slug (db_orgs d)) ''Demo Org'') \<le> SLUG_LENGTH \<and>
     su_created dr \<in> lifetime st (su_login dr) \<and> length drs = length APIS \<and> draws_apart E drs \<and>
     (\<forall>x \<in> set drs. fresh_draws E x d \<and> {ad_created x, ad_versioned x, ad_keyed x} \<subseteq> lifetime st (su_login dr)) \<and>
     fresh_visits vs d \<and> (\<forall>v \<in> set vs. ri_outbox (vs_ids v) \<notin> (\<lambda>x. ai_outbox (ad_audit x)) ` set drs)"

lemma demo_items:
  assumes "length drs = length APIS"
  shows "map fst (zip drs APIS) = drs" "map item_slug (zip drs APIS) = [''orders'', ''payments'', ''users'']"
    "announced ` set (zip drs APIS) = (\<lambda>x. ai_outbox (ad_audit x)) ` set drs"
proof -
  show z: "map fst (zip drs APIS) = drs" using assms by simp
  have "map item_slug (zip drs APIS) = map slugify (map snd (zip drs APIS))" by (simp add: item_slug_def split_beta)
  also have "\<dots> = map slugify APIS" using assms by simp
  also have "\<dots> = [''orders'', ''payments'', ''users'']" by code_simp
  finally show "map item_slug (zip drs APIS) = [''orders'', ''payments'', ''users'']" .
  have "announced ` set (zip drs APIS) = (\<lambda>x. ai_outbox (ad_audit x)) ` set (map fst (zip drs APIS))"
    by (simp add: announced_def image_image)
  then show "announced ` set (zip drs APIS) = (\<lambda>x. ai_outbox (ad_audit x)) ` set drs" unfolding z .
qed

text \<open>Sign-up and publishing succeed, and leave the tables of the traffic as they were.\<close>

lemma demo_published:
  assumes "crypto (gw_env G)" "db_ok (w_db w)" "demo_ready (gw_env G) st hex dr drs vs (w_db w)"
    and "fst (auth_throttle_check (beside (gw_redis G)) (s_auth_rate_limit_per_minute st) (su_ms dr)
      (ip @ '':'' @ str_lower (demo_email hex)) (w_redis w)) = Inr ()"
    and lens: "length upstream \<le> 2048" "length ip \<le> 64"
  shows "\<exists>ks w2. bindP (sign_up (beside (gw_redis G)) (gw_env G) st ip dr (demo_email hex) ''password123'') (\<lambda>(token, org).
      on_db (publish_all (gw_env G) st isofmt (Some token) ip org upstream (zip drs APIS))) w = (Inr ks, w2) \<and>
    ks \<noteq> [] \<and> db_ok (w_db w2) \<and> (\<forall>(slug, full) \<in> set ks. serves (gw_env G) (su_oid dr) upstream slug full (w_db w2)) \<and>
    db_logs (w_db w2) = db_logs (w_db w) \<and> fresh_visits vs (w_db w2)"
proof -
  let ?E = "gw_env G" and ?d = "w_db w" and ?T = "lifetime st (su_login dr)" and ?items = "zip drs APIS"
  have r: "fresh_sign_up ?E dr (demo_email hex) ?d" "seeded_owner (db_roles ?d)"
    "length (unique_slug_of (map o_slug (db_orgs ?d)) ''Demo Org'') \<le> SLUG_LENGTH" "su_created dr \<in> ?T"
    "length drs = length APIS" "draws_apart ?E drs"
    "\<forall>x \<in> set drs. fresh_draws ?E x ?d \<and> {ad_created x, ad_versioned x, ad_keyed x} \<subseteq> ?T"
    "fresh_visits vs ?d" "\<forall>v \<in> set vs. ri_outbox (vs_ids v) \<notin> (\<lambda>x. ai_outbox (ad_audit x)) ` set drs"
    using assms(3) by (simp_all add: demo_ready_def)
  note items = demo_items [OF r(5)]
  obtain tok u w1 where up: "sign_up (beside (gw_redis G)) ?E st ip dr (demo_email hex) ''password123'' w = (Inr (tok, su_oid dr), w1)"
    and ok1: "db_ok (w_db w1)" and owner: "acts_as_owner ?E st (Some tok) ?T u (su_oid dr) (w_db w1)"
    and same: "traffic_tables (w_db w1) = traffic_tables ?d"
    using sign_up_run [OF assms(1,2) r(1-3) assms(4) r(4)] by blast
  have slugs: "length (item_slug i) \<le> SLUG_LENGTH" if "i \<in> set ?items" for i
  proof -
    have "item_slug i \<in> set (map item_slug ?items)" using that by simp
    then show ?thesis unfolding items(2) by (auto simp: SLUG_LENGTH_def)
  qed
  have publishable: "\<forall>i \<in> set ?items. publishable ?E ?T (w_db w1) i"
  proof
    fix i
    assume i: "i \<in> set ?items"
    obtain x nm where x: "i = (x, nm)" by fastforce
    have "x \<in> set drs" using i set_zip_leftD by (fastforce simp: x)
    then have "fresh_draws ?E x ?d" "{ad_created x, ad_versioned x, ad_keyed x} \<subseteq> ?T" using r(7) by auto
    then show "publishable ?E ?T (w_db w1) i"
      using slugs [OF i] same by (simp add: x publishable_def fresh_draws_def traffic_tables_def item_slug_def)
  qed
  have "su_oid dr \<notin> a_organization_id ` set (db_apis ?d)"
    using db_okD(6) [OF assms(2)] r(1) by (auto simp: apis_ok_def fresh_sign_up_def)
  then have none: "apis_of_org (su_oid dr) (w_db w1) = []"
    using same by (auto simp: apis_of_org_def filter_empty_conv traffic_tables_def image_iff)
  have distinct: "distinct (map item_slug ?items)" unfolding items(2) by simp
  obtain ks d2 where pub: "publish_all ?E st isofmt (Some tok) ip (su_oid dr) upstream ?items (w_db w1) = (Inr ks, d2)" "db_ok d2"
    "map fst ks = map item_slug ?items" "\<forall>(slug, full) \<in> set ks. serves ?E (su_oid dr) upstream slug full d2"
    "records_of d2 = records_of (w_db w1)" "ob_id ` set (db_outbox d2) = ob_id ` set (db_outbox (w_db w1)) \<union> announced ` set ?items"
    using publish_all_run [where isofmt = isofmt, OF ok1 owner publishable _ distinct _ lens] r(6) items(1) none by auto
  have logs: "db_logs d2 = db_logs ?d" "db_usage d2 = db_usage ?d" "db_outbox (w_db w1) = db_outbox ?d"
    using pub(5) same by (simp_all add: records_of_def traffic_tables_def)
  have fresh: "fresh_visits vs d2"
    using r(8,9) pub(6) by (simp add: fresh_visits_def new_record_ids_def logs items(3))
  have ks: "ks \<noteq> []" using pub(3) unfolding items(2) by auto
  show ?thesis
    using up pub(1,2,4) ks logs(1) fresh by (intro exI [of _ ks] exI [of _ "w1\<lparr>w_db := d2\<rparr>"]) (simp add: prog_simps)
qed

text \<open>C5: the script does what it is for. Run against a seeded platform in any well-formed state, with its first login not
  throttled and an upstream that answers, it signs up, publishes its three APIs and sends every turn of its loop; and each request
  sent has left exactly one request log, in the organization it created, which is what the dashboards are filled from.\<close>

theorem seed_traffic_fills_logs:
  assumes "crypto (gw_env G)" "db_ok (w_db w)" "demo_ready (gw_env G) st hex dr drs vs (w_db w)"
    and "fst (auth_throttle_check (beside (gw_redis G)) (s_auth_rate_limit_per_minute st) (su_ms dr)
      (ip @ '':'' @ str_lower (demo_email hex)) (w_redis w)) = Inr ()"
    and "always_answers G" "plain_client hs peer" "length upstream \<le> 2048" "length ip \<le> 64"
  shows "\<exists>w' ls. seed_traffic G st isofmt fs hs peer ip True hex upstream dr drs forever start duration vs w =
      (Some (length (turns forever start duration vs)), w') \<and> db_logs (w_db w') = db_logs (w_db w) @ ls \<and>
    length ls = length (turns forever start duration vs) \<and> (\<forall>g \<in> set ls. g_organization_id g = su_oid dr)"
proof -
  obtain ks w2 where pub: "bindP (sign_up (beside (gw_redis G)) (gw_env G) st ip dr (demo_email hex) ''password123'') (\<lambda>(token, org).
      on_db (publish_all (gw_env G) st isofmt (Some token) ip org upstream (zip drs APIS))) w = (Inr ks, w2)"
    "ks \<noteq> []" "db_ok (w_db w2)" "\<forall>(slug, full) \<in> set ks. serves (gw_env G) (su_oid dr) upstream slug full (w_db w2)"
    "db_logs (w_db w2) = db_logs (w_db w)" "fresh_visits vs (w_db w2)"
    using demo_published [where isofmt = isofmt, OF assms(1-4,7,8)] by blast
  obtain w' ls where "stream_traffic G isofmt fs hs peer ks forever start duration vs (0, w2) =
      (length (turns forever start duration vs), w')" "db_logs (w_db w') = db_logs (w_db w2) @ ls"
      "length ls = length (turns forever start duration vs)" "\<forall>g \<in> set ls. g_organization_id g = su_oid dr"
    using traffic_recorded [where n = 0 and isofmt = isofmt and fs = fs and forever = forever and start = start and duration = duration,
      OF pub(3,4,2,6) assms(5-7)] by auto
  then show ?thesis using pub(1,5) by (simp add: seed_traffic_def)
qed

definition demo_sign_up :: sign_up_draws where
  "demo_sign_up = \<lparr>su_uid = 3, su_salt = ''s'', su_registered = 0, su_ms = 0, su_login = 0, su_rehash_salt = ''t'', su_raw = ''r'',
     su_tid = 1, su_jti = 2, su_family = 3, su_oid = 9, su_mid = 50, su_created = 5\<rparr>"

theorem seed_traffic_fills_logs_witness:
  "\<exists>w' ls. seed_traffic (sample_gateway sample_answer) default_settings (\<lambda>_. []) (\<lambda>_. ''1'') [] None ''1.2.3.4'' True ''ab'' ''http://u/''
      demo_sign_up [demo_draws 1 ''s1'', demo_draws 2 ''s2'', demo_draws 3 ''s3''] False 0 120 (demo_visits 1 [0, 1, 500])
      (sample_world (org_db OWNER OWNER)) = (Some 2, w') \<and>
    db_logs (w_db w') = ls \<and> length ls = 2 \<and> map g_organization_id ls = [9, 9]"
proof -
  let ?G = "sample_gateway sample_answer" and ?w = "sample_world (org_db OWNER OWNER)" and ?d = "org_db OWNER OWNER"
  let ?drs = "[demo_draws 1 ''s1'', demo_draws 2 ''s2'', demo_draws 3 ''s3'']" and ?vs = "demo_visits 1 [0, 1, 500]"
  have E: "gw_env ?G = plain_env" "gw_redis ?G = mem_redis" by (simp_all add: sample_gateway_def)
  have email: "str_lower (demo_email ''ab'') = ''demo+ab@acme.io''" by code_simp
  have slug: "unique_slug_of [''acme''] ''Demo Org'' = ''demo-org''" by code_simp
  have tables: "db_apis ?d = []" "db_versions ?d = []" "db_keys ?d = []" "db_audit ?d = []" "db_outbox ?d = []" "db_logs ?d = []"
    "db_usage ?d = []" "db_tokens ?d = []" "map o_slug (db_orgs ?d) = [''acme'']" "o_id ` set (db_orgs ?d) = {7}"
    "m_id ` set (db_members ?d) = {21, 22}" "u_id ` set (db_users ?d) = {1, 2}" "u_email ` set (db_users ?d) = {u_email alice, ''b@x''}"
    by (simp_all add: org_db_def empty_db_def member_row_def alice_def)
  have ready: "demo_ready plain_env default_settings ''ab'' demo_sign_up ?drs ?vs ?d"
  proof -
    have "fresh_sign_up plain_env demo_sign_up (demo_email ''ab'') ?d"
      by (simp add: fresh_sign_up_def tables email demo_sign_up_def alice_def)
    moreover have "seeded_owner (db_roles ?d)" by (simp add: seeded_owner_def org_db_def role_row_def)
    moreover have "draws_apart plain_env ?drs"
      by (simp add: draws_apart_def demo_draws_def generate_api_key_def hash_token_def plain_env_def Let_def)
    moreover have "\<forall>x \<in> set ?drs. fresh_draws plain_env x ?d \<and> {ad_created x, ad_versioned x, ad_keyed x} \<subseteq> lifetime default_settings 0"
      by (simp add: fresh_draws_def tables demo_draws_def lifetime_def default_settings_def timestamp_def us_per_second_def)
    moreover have "fresh_visits ?vs ?d" by (simp add: fresh_visits_def new_record_ids_def tables)
    ultimately show ?thesis
      by (simp add: demo_ready_def tables slug SLUG_LENGTH_def APIS_def demo_sign_up_def demo_draws_def lifetime_def
          default_settings_def timestamp_def us_per_second_def)
  qed
  have throttle: "fst (auth_throttle_check (beside mem_redis) (s_auth_rate_limit_per_minute default_settings) (su_ms demo_sign_up)
      (''1.2.3.4'' @ '':'' @ str_lower (demo_email ''ab'')) (w_redis ?w)) = Inr ()"
    by (simp add: auth_throttle_check_def beside_def mem_redis_def counter_at_def live_def sample_world_def default_settings_def Let_def)
  have answers: "always_answers ?G" "plain_client [] None"
    by (simp_all add: always_answers_def sample_gateway_def sample_answer_def int32_def plain_client_def client_ip_def)
  have short: "length ''http://u/'' \<le> 2048" "length ''1.2.3.4'' \<le> 64" by simp_all
  have ok: "db_ok (w_db ?w)" by (simp add: sample_world_def org_db_ok)
  have two: "length (turns False 0 120 ?vs) = 2" by (simp add: turns_def)
  obtain w' ls where "seed_traffic ?G default_settings (\<lambda>_. []) (\<lambda>_. ''1'') [] None ''1.2.3.4'' True ''ab'' ''http://u/''
      demo_sign_up ?drs False 0 120 ?vs ?w = (Some 2, w')" "db_logs (w_db w') = db_logs (w_db ?w) @ ls" "length ls = 2"
      "\<forall>g \<in> set ls. g_organization_id g = su_oid demo_sign_up"
    using seed_traffic_fills_logs [where isofmt = "\<lambda>_. []" and fs = "\<lambda>_. ''1''" and forever = False and start = 0 and duration = 120,
      OF _ ok _ _ answers short, of default_settings "''ab''" demo_sign_up ?drs ?vs] plain.crypto_axioms ready throttle
    unfolding E two by (auto simp: sample_world_def)
  then show ?thesis
    by (auto simp: sample_world_def tables demo_sign_up_def length_Suc_conv numeral_2_eq_2 eval_nat_numeral)
qed

end
