(* ===== verification/Wiring.thy ===== *)
theory Wiring
  imports Runtime Routing Security
begin

text \<open>
  How a request gets its objects: the providers of \<open>api/deps.py\<close>, the constructors of the services and the
  repositories they build, and what each endpoint declares. FastAPI's part is a parameter: the order in which the providers
  of one request run, of which its documentation says that a provider runs once in a request, after those it
  depends on. Shown: whatever that order, all objects of one request work on one session, opened once, and on
  open clients of the process; and which routes ask for which role.
\<close>

section \<open>Repositories and services\<close>

datatype db_session = DbSession nat handle

datatype repository_class = UserRepository | RefreshTokenRepository | MembershipRepository | OrganizationRepository
  | RoleRepository | ApiRepository | ApiVersionRepository | QuotaRepository | RateLimitRuleRepository
  | ApiKeyRepository | AnalyticsRepository

text \<open>\<open>BaseRepository.__init__\<close>.\<close>

record repository_object =
  ro_class :: repository_class
  ro_session :: db_session

definition repository_of :: "repository_class \<Rightarrow> db_session \<Rightarrow> repository_object" where
  "repository_of c s = \<lparr>ro_class = c, ro_session = s\<rparr>"

datatype email_sender = ConsoleEmailSender

record auth_service =
  as_users :: repository_object
  as_refresh_tokens :: repository_object
  as_email_sender :: email_sender
  as_memberships :: "repository_object option"
  as_settings :: settings

text \<open>\<open>settings or get_settings()\<close>; \<open>st\<close> is what \<open>get_settings\<close> keeps.\<close>

definition AuthService_init ::
  "settings \<Rightarrow> repository_object \<Rightarrow> repository_object \<Rightarrow> email_sender \<Rightarrow> repository_object option \<Rightarrow> settings option \<Rightarrow> auth_service" where
  "AuthService_init st users refresh_tokens sender memberships given = \<lparr>as_users = users, as_refresh_tokens = refresh_tokens,
     as_email_sender = sender, as_memberships = memberships, as_settings = (case given of Some s \<Rightarrow> s | None \<Rightarrow> st)\<rparr>"

record throttle_service =
  th_redis :: handle
  th_limit :: int

definition AuthThrottle_init :: "settings \<Rightarrow> handle \<Rightarrow> throttle_service" where
  "AuthThrottle_init st client = \<lparr>th_redis = client, th_limit = s_auth_rate_limit_per_minute st\<rparr>"

record catalog_service =
  cs_apis :: repository_object
  cs_versions :: repository_object
  cs_quotas :: repository_object
  cs_rate_limits :: repository_object

definition ApiCatalogService_init ::
  "repository_object \<Rightarrow> repository_object \<Rightarrow> repository_object \<Rightarrow> repository_object \<Rightarrow> catalog_service" where
  "ApiCatalogService_init apis versions quotas rate_limits =
     \<lparr>cs_apis = apis, cs_versions = versions, cs_quotas = quotas, cs_rate_limits = rate_limits\<rparr>"

record api_key_service =
  ks_keys :: repository_object
  ks_catalog :: catalog_service

definition ApiKeyService_init :: "repository_object \<Rightarrow> catalog_service \<Rightarrow> api_key_service" where
  "ApiKeyService_init keys catalog = \<lparr>ks_keys = keys, ks_catalog = catalog\<rparr>"

record gateway_service =
  gs_api_keys :: repository_object
  gs_versions :: repository_object
  gs_rate_limits :: repository_object
  gs_quotas :: repository_object
  gs_redis :: handle
  gs_http :: handle
  gs_settings :: settings

definition GatewayService_init ::
  "settings \<Rightarrow> repository_object \<Rightarrow> repository_object \<Rightarrow> repository_object \<Rightarrow> repository_object \<Rightarrow> handle \<Rightarrow> handle \<Rightarrow>
   settings option \<Rightarrow> gateway_service" where
  "GatewayService_init st api_keys versions rate_limits quotas redis_client http_client given =
     \<lparr>gs_api_keys = api_keys, gs_versions = versions, gs_rate_limits = rate_limits, gs_quotas = quotas,
      gs_redis = redis_client, gs_http = http_client, gs_settings = (case given of Some s \<Rightarrow> s | None \<Rightarrow> st)\<rparr>"

record org_service =
  os_organizations :: repository_object
  os_members :: repository_object
  os_roles :: repository_object
  os_users :: repository_object

definition OrganizationService_init ::
  "repository_object \<Rightarrow> repository_object \<Rightarrow> repository_object \<Rightarrow> repository_object \<Rightarrow> org_service" where
  "OrganizationService_init organizations members roles users =
     \<lparr>os_organizations = organizations, os_members = members, os_roles = roles, os_users = users\<rparr>"

section \<open>Providers\<close>

datatype provider = GetSession | GetEmailSender | Bearer | GetAuthService | GetAuthThrottle | GetCurrentUser | GetCurrentSuperuser
  | GetApiCatalogService | GetApiKeyService | GetGatewayService | GetOrgService | RequirePermission permission

text \<open>The parameters with a \<open>Depends\<close>.\<close>

fun requires :: "provider \<Rightarrow> provider list" where
  "requires GetSession = []"
| "requires GetEmailSender = []"
| "requires Bearer = []"
| "requires GetAuthService = [GetSession, GetEmailSender]"
| "requires GetAuthThrottle = []"
| "requires GetCurrentUser = [GetSession, Bearer]"
| "requires GetCurrentSuperuser = [GetCurrentUser]"
| "requires GetApiCatalogService = [GetSession]"
| "requires GetApiKeyService = [GetSession]"
| "requires GetGatewayService = [GetSession]"
| "requires GetOrgService = [GetSession]"
| "requires (RequirePermission p) = [GetCurrentUser, GetSession]"

text \<open>What a provider returns; of a user or a membership, the session it was read through.\<close>

datatype injected = TheSession db_session | TheSender email_sender | TheCredentials | TheAuthService auth_service
  | TheThrottle throttle_service | TheUser db_session | TheCatalog catalog_service | TheKeys api_key_service
  | TheGateway gateway_service | TheOrgs org_service | TheMember db_session

text \<open>The process, and the number of sessions opened.\<close>

type_synonym 'a wiring = "(process \<times> nat, exn, 'a) prog"

definition on_process :: "'a runtime \<Rightarrow> 'a wiring" where
  "on_process m = (\<lambda>(p, n). case m p of (r, p') \<Rightarrow> (r, (p', n)))"

definition open_session :: "db_session wiring" where
  "open_session = bindP (on_process get_sessionmaker) (\<lambda>h. \<lambda>(p, n). (Inr (DbSession n h), (p, Suc n)))"

definition session_in :: "(provider \<Rightarrow> injected option) \<Rightarrow> db_session wiring" where
  "session_in env = (case env GetSession of Some (TheSession s) \<Rightarrow> ret s | _ \<Rightarrow> raise (PyExc ''KeyError''))"

definition get_api_catalog_service :: "db_session \<Rightarrow> catalog_service" where
  "get_api_catalog_service s = ApiCatalogService_init (repository_of ApiRepository s) (repository_of ApiVersionRepository s)
     (repository_of QuotaRepository s) (repository_of RateLimitRuleRepository s)"

definition get_auth_service :: "settings \<Rightarrow> db_session \<Rightarrow> email_sender \<Rightarrow> auth_service" where
  "get_auth_service st s sender = AuthService_init st (repository_of UserRepository s) (repository_of RefreshTokenRepository s)
     sender (Some (repository_of MembershipRepository s)) None"

definition get_auth_throttle :: "settings \<Rightarrow> throttle_service wiring" where
  "get_auth_throttle st = bindP (on_process get_redis) (\<lambda>c. ret (AuthThrottle_init st c))"

definition get_api_key_service :: "db_session \<Rightarrow> api_key_service" where
  "get_api_key_service s = ApiKeyService_init (repository_of ApiKeyRepository s) (get_api_catalog_service s)"

definition get_gateway_service :: "settings \<Rightarrow> db_session \<Rightarrow> gateway_service wiring" where
  "get_gateway_service st s = bindP (on_process get_redis) (\<lambda>r. bindP (on_process get_http_client) (\<lambda>h.
     ret (GatewayService_init st (repository_of ApiKeyRepository s) (repository_of ApiVersionRepository s)
       (repository_of RateLimitRuleRepository s) (repository_of QuotaRepository s) r h None)))"

definition get_org_service :: "db_session \<Rightarrow> org_service" where
  "get_org_service s = OrganizationService_init (repository_of OrganizationRepository s) (repository_of MembershipRepository s)
     (repository_of RoleRepository s) (repository_of UserRepository s)"

text \<open>\<open>refuses\<close>: the error of a provider that raises (no user, no permission).\<close>

fun provide :: "settings \<Rightarrow> (provider \<Rightarrow> exn option) \<Rightarrow> (provider \<Rightarrow> injected option) \<Rightarrow> provider \<Rightarrow> injected wiring" where
  "provide st refuses env GetSession = bindP open_session (\<lambda>s. ret (TheSession s))"
| "provide st refuses env GetEmailSender = ret (TheSender ConsoleEmailSender)"
| "provide st refuses env Bearer = ret TheCredentials"
| "provide st refuses env GetAuthService = bindP (session_in env) (\<lambda>s. case env GetEmailSender of
     Some (TheSender e) \<Rightarrow> ret (TheAuthService (get_auth_service st s e)) | _ \<Rightarrow> raise (PyExc ''KeyError''))"
| "provide st refuses env GetAuthThrottle = bindP (get_auth_throttle st) (\<lambda>t. ret (TheThrottle t))"
| "provide st refuses env GetCurrentUser = bindP (session_in env) (\<lambda>s.
     case refuses GetCurrentUser of Some e \<Rightarrow> raise e | None \<Rightarrow> ret (TheUser s))"
| "provide st refuses env GetCurrentSuperuser = (case env GetCurrentUser of
     Some u \<Rightarrow> (case refuses GetCurrentSuperuser of Some e \<Rightarrow> raise e | None \<Rightarrow> ret u) | None \<Rightarrow> raise (PyExc ''KeyError''))"
| "provide st refuses env GetApiCatalogService = bindP (session_in env) (\<lambda>s. ret (TheCatalog (get_api_catalog_service s)))"
| "provide st refuses env GetApiKeyService = bindP (session_in env) (\<lambda>s. ret (TheKeys (get_api_key_service s)))"
| "provide st refuses env GetGatewayService = bindP (session_in env) (\<lambda>s.
     bindP (get_gateway_service st s) (\<lambda>g. ret (TheGateway g)))"
| "provide st refuses env GetOrgService = bindP (session_in env) (\<lambda>s. ret (TheOrgs (get_org_service s)))"
| "provide st refuses env (RequirePermission p) = bindP (session_in env) (\<lambda>s.
     case refuses (RequirePermission p) of Some e \<Rightarrow> raise e | None \<Rightarrow> ret (TheMember s))"

text \<open>The providers of a request, run in the order \<open>ps\<close>.\<close>

fun inject ::
  "settings \<Rightarrow> (provider \<Rightarrow> exn option) \<Rightarrow> provider list \<Rightarrow> (provider \<Rightarrow> injected option) \<Rightarrow> (provider \<Rightarrow> injected option) wiring" where
  "inject st refuses [] env = ret env"
| "inject st refuses (p # ps) env = bindP (provide st refuses env p) (\<lambda>x. inject st refuses ps (env(p \<mapsto> x)))"

text \<open>Each once, after what it depends on.\<close>

fun in_order :: "provider list \<Rightarrow> provider list \<Rightarrow> bool" where
  "in_order past [] \<longleftrightarrow> True"
| "in_order past (p # ps) \<longleftrightarrow> p \<notin> set past \<and> set (requires p) \<subseteq> set past \<and> in_order (p # past) ps"

section \<open>One session, open clients\<close>

fun catalog_repositories :: "catalog_service \<Rightarrow> repository_object list" where
  "catalog_repositories c = [cs_apis c, cs_versions c, cs_quotas c, cs_rate_limits c]"

text \<open>The sessions an object reaches, and the clients it holds.\<close>

fun sessions_of :: "injected \<Rightarrow> db_session list" where
  "sessions_of (TheSession s) = [s]"
| "sessions_of (TheSender e) = []"
| "sessions_of TheCredentials = []"
| "sessions_of (TheAuthService a) = map ro_session ([as_users a, as_refresh_tokens a] @
     (case as_memberships a of Some r \<Rightarrow> [r] | None \<Rightarrow> []))"
| "sessions_of (TheThrottle t) = []"
| "sessions_of (TheUser s) = [s]"
| "sessions_of (TheCatalog c) = map ro_session (catalog_repositories c)"
| "sessions_of (TheKeys k) = map ro_session (ks_keys k # catalog_repositories (ks_catalog k))"
| "sessions_of (TheGateway g) = map ro_session [gs_api_keys g, gs_versions g, gs_rate_limits g, gs_quotas g]"
| "sessions_of (TheOrgs g) = map ro_session [os_organizations g, os_members g, os_roles g, os_users g]"
| "sessions_of (TheMember s) = [s]"

fun clients_of :: "injected \<Rightarrow> handle list" where
  "clients_of (TheThrottle t) = [th_redis t]"
| "clients_of (TheGateway g) = [gs_redis g, gs_http g]"
| "clients_of (TheSession (DbSession n h)) = [h]"
| "clients_of x = []"

text \<open>What is kept while the providers run: the session is there from its provider on, every object works on it and
  holds open clients, and the emails go to the sender of the process.\<close>

fun fits :: "provider \<Rightarrow> injected \<Rightarrow> bool" where
  "fits GetEmailSender x \<longleftrightarrow> x = TheSender ConsoleEmailSender"
| "fits GetCurrentUser x \<longleftrightarrow> (\<exists>s. x = TheUser s)"
| "fits _ x \<longleftrightarrow> True"

definition wired :: "nat \<Rightarrow> provider list \<Rightarrow> (provider \<Rightarrow> injected option) \<Rightarrow> process \<times> nat \<Rightarrow> bool" where
  "wired n past env s \<longleftrightarrow> runtime_ok (fst s) \<and> dom env = set past \<and> snd s = n + (if GetSession \<in> set past then 1 else 0) \<and>
     (GetSession \<in> set past \<longrightarrow> (\<exists>h. env GetSession = Some (TheSession (DbSession n h)))) \<and>
     (\<forall>q x. env q = Some x \<longrightarrow> fits q x \<and> (\<forall>t \<in> set (sessions_of x). env GetSession = Some (TheSession t)) \<and>
        set (clients_of x) \<subseteq> pr_open (fst s))"

lemma runtime_grows:
  "runtime_ok p \<Longrightarrow> pr_open p \<subseteq> pr_open (snd (get_http_client p))"
  "runtime_ok p \<Longrightarrow> pr_open p \<subseteq> pr_open (snd (get_redis p))"
  "runtime_ok p \<Longrightarrow> pr_open p \<subseteq> pr_open (snd (get_sessionmaker p))"
  by (auto simp: get_http_client_def get_redis_def get_sessionmaker_def get_engine_def create_def prog_simps
      split: option.splits)

lemma wiredD:
  assumes "wired n past env s" "env q = Some x"
  shows "fits q x" "\<forall>t \<in> set (sessions_of x). env GetSession = Some (TheSession t)" "set (clients_of x) \<subseteq> pr_open (fst s)"
  using assms unfolding wired_def by blast+

text \<open>A provider adds its own object and no session but its own.\<close>

lemma wired_add:
  assumes "wired n past env s" "p \<notin> set past" "runtime_ok (fst s')" "pr_open (fst s) \<subseteq> pr_open (fst s')"
    and "snd s' = snd s + (if p = GetSession then 1 else 0)"
    and "p = GetSession \<longrightarrow> (\<exists>h. x = TheSession (DbSession n h))" "fits p x"
    and "\<forall>t \<in> set (sessions_of x). (env(p \<mapsto> x)) GetSession = Some (TheSession t)" "set (clients_of x) \<subseteq> pr_open (fst s')"
  shows "wired n (p # past) (env(p \<mapsto> x)) s'"
proof -
  have w: "dom env = set past" "snd s = n + (if GetSession \<in> set past then 1 else 0)"
    "GetSession \<in> set past \<longrightarrow> (\<exists>h. env GetSession = Some (TheSession (DbSession n h)))"
    and each: "\<And>q y. env q = Some y \<Longrightarrow> fits q y \<and> (\<forall>t \<in> set (sessions_of y). env GetSession = Some (TheSession t)) \<and>
        set (clients_of y) \<subseteq> pr_open (fst s)"
    using assms(1) by (simp_all add: wired_def)
  have old: "fits q y \<and> (\<forall>t \<in> set (sessions_of y). (env(p \<mapsto> x)) GetSession = Some (TheSession t)) \<and> set (clients_of y) \<subseteq> pr_open (fst s')"
    if y: "(env(p \<mapsto> x)) q = Some y" for q y
  proof (cases "q = p")
    case True
    then show ?thesis using y assms(7-9) by simp
  next
    case False
    then have e: "env q = Some y" using y by simp
    have "p \<noteq> GetSession" if "env GetSession = Some z" for z
      using assms(2) w(1) that by auto
    then show ?thesis using each [OF e] assms(4) by (auto simp del: fun_upd_apply simp: fun_upd_other)
  qed
  have "dom (env(p \<mapsto> x)) = set (p # past)" using w(1) by simp
  moreover have "snd s' = n + (if GetSession \<in> set (p # past) then 1 else 0)" using w(2) assms(2,5) by auto
  moreover have "GetSession \<in> set (p # past) \<longrightarrow> (\<exists>h. (env(p \<mapsto> x)) GetSession = Some (TheSession (DbSession n h)))"
    using w(3) assms(6) by auto
  ultimately show ?thesis unfolding wired_def using assms(3) old by blast
qed

lemmas wiring_defs = get_auth_service_def get_api_catalog_service_def get_api_key_service_def get_org_service_def
  AuthService_init_def ApiCatalogService_init_def ApiKeyService_init_def OrganizationService_init_def repository_of_def

lemma session_in_run:
  assumes "wired n past env s" "GetSession \<in> set past"
  obtains h where "env GetSession = Some (TheSession (DbSession n h))" "session_in env s = (Inr (DbSession n h), s)"
  using assms by (auto simp: wired_def session_in_def prog_simps)

lemma on_process_run:
  "on_process m s = (fst (m (fst s)), (snd (m (fst s)), snd s))"
  by (cases s; cases "m (fst s)") (simp add: on_process_def)

text \<open>A provider that opens or takes clients leaves the process sound and its own clients open.\<close>

definition serves_clients :: "process \<times> nat \<Rightarrow> injected wiring \<Rightarrow> bool" where
  "serves_clients s m \<longleftrightarrow> (\<exists>x p'. m s = (Inr x, (p', snd s)) \<and> runtime_ok p' \<and> pr_open (fst s) \<subseteq> pr_open p' \<and>
     set (clients_of x) \<subseteq> pr_open p')"

lemma open_session_run:
  assumes "runtime_ok (fst s)"
  shows "\<exists>h p'. open_session s = (Inr (DbSession (snd s) h), (p', Suc (snd s))) \<and> runtime_ok p' \<and>
    pr_open (fst s) \<subseteq> pr_open p' \<and> h \<in> pr_open p'"
  using runtime_ok_session [OF assms] runtime_grows(3) [OF assms]
  by (auto simp: open_session_def prog_simps on_process_run)

lemma throttle_run:
  assumes "runtime_ok (fst s)"
  shows "\<exists>t p'. get_auth_throttle st s = (Inr t, (p', snd s)) \<and> runtime_ok p' \<and> pr_open (fst s) \<subseteq> pr_open p' \<and>
    th_redis t \<in> pr_open p'"
  using runtime_ok_redis [OF assms] runtime_grows(2) [OF assms]
  by (auto simp: get_auth_throttle_def AuthThrottle_init_def prog_simps on_process_run)

lemma gateway_service_run:
  assumes "runtime_ok (fst s)"
  shows "\<exists>g p'. get_gateway_service st d s = (Inr g, (p', snd s)) \<and> runtime_ok p' \<and> pr_open (fst s) \<subseteq> pr_open p' \<and>
    {gs_redis g, gs_http g} \<subseteq> pr_open p' \<and> set (sessions_of (TheGateway g)) = {d}"
proof -
  obtain r where r: "fst (get_redis (fst s)) = Inr r" "r \<in> pr_open (snd (get_redis (fst s)))" "runtime_ok (snd (get_redis (fst s)))"
    using runtime_ok_redis [OF assms] by blast
  let ?p = "snd (get_redis (fst s))"
  obtain h where h: "fst (get_http_client ?p) = Inr h" "h \<in> pr_open (snd (get_http_client ?p))" "runtime_ok (snd (get_http_client ?p))"
    using runtime_ok_http [OF r(3)] by blast
  show ?thesis
    using r h runtime_grows(2) [OF assms] runtime_grows(1) [OF r(3)]
    by (auto simp: get_gateway_service_def GatewayService_init_def repository_of_def prog_simps on_process_run)
qed

text \<open>A provider that only reads: what it returns works on the session that is there.\<close>

lemma wired_plain:
  assumes "wired n past env s" "p \<notin> set past" "p \<noteq> GetSession" "fits p x"
    and "\<forall>t \<in> set (sessions_of x). env GetSession = Some (TheSession t)" "clients_of x = []"
  shows "wired n (p # past) (env(p \<mapsto> x)) s"
  by (rule wired_add [OF assms(1,2)]) (use assms in \<open>simp_all add: wired_def\<close>)

lemma provide_wired:
  assumes "wired n past env s" "p \<notin> set past" "set (requires p) \<subseteq> set past" "provide st refuses env p s = (r, s')"
  shows "case r of Inl e \<Rightarrow> runtime_ok (fst s') \<and> snd s' \<le> Suc n \<and> (\<exists>q. refuses q = Some e)
    | Inr x \<Rightarrow> wired n (p # past) (env(p \<mapsto> x)) s'"
proof -
  note plain = wired_plain [OF assms(1,2)]
  have ok: "runtime_ok (fst s)" "snd s \<le> Suc n" using assms(1) by (auto simp: wired_def)
  have ses: "\<exists>h. env GetSession = Some (TheSession (DbSession n h)) \<and> session_in env s = (Inr (DbSession n h), s)"
    if "GetSession \<in> set (requires p)"
    using session_in_run [OF assms(1)] assms(3) that by blast
  show ?thesis
  proof (cases p)
    case GetSession
    obtain h p' where run: "open_session s = (Inr (DbSession (snd s) h), (p', Suc (snd s)))" "runtime_ok p'"
      "pr_open (fst s) \<subseteq> pr_open p'" "h \<in> pr_open p'"
      using open_session_run [OF ok(1)] by blast
    have n: "snd s = n" using assms(1,2) GetSession by (simp add: wired_def)
    have "wired n (p # past) (env(p \<mapsto> TheSession (DbSession n h))) (p', Suc (snd s))"
      by (rule wired_add [OF assms(1,2)]) (use run GetSession n in simp_all)
    then show ?thesis using assms(4) run(1) GetSession n by (auto simp: prog_simps)
  next
    case GetAuthThrottle
    obtain t p' where run: "get_auth_throttle st s = (Inr t, (p', snd s))" "runtime_ok p'" "pr_open (fst s) \<subseteq> pr_open p'"
      "th_redis t \<in> pr_open p'"
      using throttle_run [OF ok(1)] by blast
    have "wired n (p # past) (env(p \<mapsto> TheThrottle t)) (p', snd s)"
      by (rule wired_add [OF assms(1,2)]) (use run GetAuthThrottle in simp_all)
    then show ?thesis using assms(4) run(1) GetAuthThrottle by (auto simp: prog_simps)
  next
    case GetGatewayService
    obtain h where h: "env GetSession = Some (TheSession (DbSession n h))" "session_in env s = (Inr (DbSession n h), s)"
      using ses GetGatewayService by auto
    obtain g p' where run: "get_gateway_service st (DbSession n h) s = (Inr g, (p', snd s))" "runtime_ok p'"
      "pr_open (fst s) \<subseteq> pr_open p'" "{gs_redis g, gs_http g} \<subseteq> pr_open p'" "set (sessions_of (TheGateway g)) = {DbSession n h}"
      using gateway_service_run [OF ok(1)] by blast
    have "wired n (p # past) (env(p \<mapsto> TheGateway g)) (p', snd s)"
      by (rule wired_add [OF assms(1,2)]) (use run h GetGatewayService in \<open>simp_all del: sessions_of.simps\<close>)
    then show ?thesis using assms(4) run(1) h(2) GetGatewayService by (auto simp: prog_simps)
  next
    case GetEmailSender
    then show ?thesis using assms(4) plain [of "TheSender ConsoleEmailSender"] by (auto simp: prog_simps)
  next
    case Bearer
    then show ?thesis using assms(4) plain [of TheCredentials] by (auto simp: prog_simps)
  next
    case GetCurrentSuperuser
    then have "GetCurrentUser \<in> dom env" using assms(1,3) by (simp add: wired_def)
    then obtain u where u: "env GetCurrentUser = Some u" by blast
    have "fits GetCurrentUser u" "\<forall>t \<in> set (sessions_of u). env GetSession = Some (TheSession t)"
      by (rule wiredD [OF assms(1) u])+
    moreover from this have "clients_of u = []" by auto
    ultimately show ?thesis
      using assms(4) plain [of u] ok u GetCurrentSuperuser by (auto simp: prog_simps split: option.splits)
  next
    case GetAuthService
    then have "GetEmailSender \<in> dom env" using assms(1,3) by (simp add: wired_def)
    then obtain e where e: "env GetEmailSender = Some e" by blast
    then have "env GetEmailSender = Some (TheSender ConsoleEmailSender)" using wiredD(1) [OF assms(1) e] by simp
    then show ?thesis using assms(4) ses plain GetAuthService by (auto simp: prog_simps wiring_defs)
  next
    case GetCurrentUser
    show ?thesis
    proof (cases "refuses p")
      case (Some e)
      then have "r = Inl e" "s' = s" using assms(4) ses GetCurrentUser by (auto simp: prog_simps)
      then show ?thesis using ok Some by auto
    next
      case None
      then show ?thesis using assms(4) ses plain GetCurrentUser by (auto simp: prog_simps)
    qed
  next
    case (RequirePermission q)
    show ?thesis
    proof (cases "refuses p")
      case (Some e)
      then have "r = Inl e" "s' = s" using assms(4) ses RequirePermission by (auto simp: prog_simps)
      then show ?thesis using ok Some by auto
    next
      case None
      then show ?thesis using assms(4) ses plain RequirePermission by (auto simp: prog_simps)
    qed
  qed (use assms(4) ses plain ok in \<open>auto simp: prog_simps wiring_defs\<close>)
qed

lemma inject_wired:
  assumes "wired n past env s" "in_order past ps"
  shows "case inject st refuses ps env s of
      (Inl e, s') \<Rightarrow> runtime_ok (fst s') \<and> snd s' \<le> Suc n \<and> (\<exists>q. refuses q = Some e)
    | (Inr env', s') \<Rightarrow> wired n (rev ps @ past) env' s'"
  using assms
proof (induction ps arbitrary: past env s)
  case (Cons p ps)
  obtain r s1 where run: "provide st refuses env p s = (r, s1)" by (cases "provide st refuses env p s")
  have order: "p \<notin> set past" "set (requires p) \<subseteq> set past" "in_order (p # past) ps" using Cons.prems(2) by simp_all
  note one = provide_wired [OF Cons.prems(1) order(1,2) run]
  show ?case
  proof (cases r)
    case (Inl e)
    then show ?thesis using one run by (simp add: bindP_run)
  next
    case (Inr x)
    then have "wired n (p # past) (env(p \<mapsto> x)) s1" using one by simp
    have e: "rev (p # ps) @ past = rev ps @ p # past" by simp
    show ?thesis
      using Cons.IH [of "p # past" "env(p \<mapsto> x)" s1, OF \<open>wired n (p # past) (env(p \<mapsto> x)) s1\<close> order(3)] run Inr
      unfolding e by (simp add: bindP_run del: fun_upd_apply)
  qed
qed (simp add: ret_run)

text \<open>C13: a request is one transaction on live connections. In whatever order FastAPI runs the providers an
  endpoint needs, from any sound state of the process: they fail only when the caller is refused; otherwise everything
  the endpoint declared is there, every repository of every service works on the same session, which was opened once and
  for this request, and every client held is an open one of the process. Either way at most one session was opened.\<close>

theorem one_session_per_request:
  assumes "runtime_ok p" "in_order [] ps" "set ds \<subseteq> set ps"
  shows "case inject st refuses ps Map.empty (p, n) of
      (Inl e, (p', n')) \<Rightarrow> runtime_ok p' \<and> n' \<le> n + 1 \<and> (\<exists>q. refuses q = Some e)
    | (Inr env, (p', n')) \<Rightarrow> runtime_ok p' \<and> n' \<le> n + 1 \<and> set ds \<subseteq> dom env \<and>
        (\<exists>h. \<forall>q x. env q = Some x \<longrightarrow> set (sessions_of x) \<subseteq> {DbSession n h} \<and> set (clients_of x) \<subseteq> pr_open p')"
proof -
  have start: "wired n [] Map.empty (p, n)" using assms(1) by (simp add: wired_def)
  obtain r p' n' where run: "inject st refuses ps Map.empty (p, n) = (r, (p', n'))" by (metis prod.exhaust)
  note w = inject_wired [OF start assms(2), where st = st and refuses = refuses, unfolded run]
  show ?thesis
  proof (cases r)
    case (Inl e)
    then show ?thesis using w run by simp
  next
    case (Inr env)
    then have env: "wired n (rev ps) env (p', n')" using w by simp
    have "\<exists>h. \<forall>q x. env q = Some x \<longrightarrow> set (sessions_of x) \<subseteq> {DbSession n h}"
    proof (cases "GetSession \<in> set ps")
      case True
      then obtain h where h: "env GetSession = Some (TheSession (DbSession n h))" using env by (auto simp: wired_def)
      then have "set (sessions_of x) \<subseteq> {DbSession n h}" if "env q = Some x" for q x
        using wiredD(2) [OF env that] by auto
      then show ?thesis by blast
    next
      case False
      then have "env GetSession = None" using env by (auto simp: wired_def)
      then have "sessions_of x = []" if "env q = Some x" for q x
        using wiredD(2) [OF env that] by (cases "sessions_of x") auto
      then show ?thesis by fastforce
    qed
    moreover have "set (clients_of x) \<subseteq> pr_open p'" if "env q = Some x" for q x
      using wiredD(3) [OF env that] by simp
    ultimately show ?thesis using env Inr run assms(3) by (auto simp: wired_def)
  qed
qed

theorem one_session_per_request_witness:
  "\<exists>env p' h. inject default_settings (\<lambda>_. None) [GetSession, Bearer, GetCurrentUser, RequirePermission KEY_CREATE, GetApiKeyService]
      Map.empty (new_process, 0) = (Inr env, (p', 1)) \<and>
    env GetApiKeyService = Some (TheKeys (get_api_key_service (DbSession 0 h))) \<and> env (RequirePermission KEY_CREATE) = Some (TheMember (DbSession 0 h))"
proof -
  let ?ps = "[GetSession, Bearer, GetCurrentUser, RequirePermission KEY_CREATE, GetApiKeyService]"
  have "\<exists>env p'. inject default_settings (\<lambda>_. None) ?ps Map.empty (new_process, 0) = (Inr env, (p', 1)) \<and>
      (\<exists>k. env GetApiKeyService = Some (TheKeys (get_api_key_service k))) \<and> (\<exists>s. env (RequirePermission KEY_CREATE) = Some (TheMember s))"
    by (simp add: prog_simps open_session_def on_process_run get_sessionmaker_def get_engine_def create_def new_process_def session_in_def)
      blast
  then obtain env p' k s where run: "inject default_settings (\<lambda>_. None) ?ps Map.empty (new_process, 0) = (Inr env, (p', 1))"
    and objs: "env GetApiKeyService = Some (TheKeys (get_api_key_service k))" "env (RequirePermission KEY_CREATE) = Some (TheMember s)"
    by blast
  obtain h where "\<forall>q x. env q = Some x \<longrightarrow> set (sessions_of x) \<subseteq> {DbSession 0 h}"
    using one_session_per_request [OF runtime_ok_new, where ps = ?ps and ds = ?ps and st = default_settings and refuses = "\<lambda>_. None" and n = 0] run by auto
  then have "set (sessions_of (TheKeys (get_api_key_service k))) \<subseteq> {DbSession 0 h}" "set (sessions_of (TheMember s)) \<subseteq> {DbSession 0 h}"
    using objs by blast+
  then have "k = DbSession 0 h" "s = DbSession 0 h" by (simp_all add: wiring_defs)
  then show ?thesis using run objs by blast
qed

section \<open>What the endpoints declare\<close>

text \<open>Module by module, in the order of the routes.\<close>

definition probe_dependencies :: "(string \<times> provider list) list" where
  "probe_dependencies =
     [(''live'', []),
      (''ready'', []),
      (''health'', []),
      (''metrics'', [])]"

definition auth_dependencies :: "(string \<times> provider list) list" where
  "auth_dependencies =
     [(''register'', [GetAuthService]),
      (''login'', [GetAuthService, GetAuthThrottle]),
      (''refresh'', [GetAuthService]),
      (''logout'', [GetAuthService]),
      (''me'', [GetCurrentUser]),
      (''verify_email'', [GetAuthService]),
      (''request_password_reset'', [GetAuthService, GetAuthThrottle]),
      (''confirm_password_reset'', [GetAuthService])]"

definition organization_dependencies :: "(string \<times> provider list) list" where
  "organization_dependencies =
     [(''create_organization'', [GetCurrentUser, GetOrgService]),
      (''list_organizations'', [GetCurrentUser, GetOrgService]),
      (''get_organization'', [GetOrgService, RequirePermission ORG_READ]),
      (''update_organization'', [GetOrgService, RequirePermission ORG_UPDATE]),
      (''delete_organization'', [GetOrgService, RequirePermission ORG_DELETE]),
      (''list_members'', [GetOrgService, RequirePermission MEMBER_READ]),
      (''add_member'', [GetOrgService, GetSession, RequirePermission MEMBER_INVITE]),
      (''update_member_role'', [GetOrgService, RequirePermission MEMBER_UPDATE_ROLE]),
      (''remove_member'', [GetOrgService, RequirePermission MEMBER_REMOVE])]"

definition api_dependencies :: "(string \<times> provider list) list" where
  "api_dependencies =
     [(''create_api'', [GetApiCatalogService, RequirePermission API_CREATE]),
      (''list_apis'', [GetApiCatalogService, RequirePermission API_READ]),
      (''get_api'', [GetApiCatalogService, RequirePermission API_READ]),
      (''update_api'', [GetApiCatalogService, RequirePermission API_UPDATE]),
      (''delete_api'', [GetApiCatalogService, RequirePermission API_DELETE]),
      (''add_version'', [GetApiCatalogService, RequirePermission API_UPDATE]),
      (''delete_version'', [GetApiCatalogService, RequirePermission API_UPDATE]),
      (''set_quota'', [GetApiCatalogService, RequirePermission API_UPDATE]),
      (''get_quota'', [GetApiCatalogService, RequirePermission API_READ]),
      (''set_rate_limit'', [GetApiCatalogService, RequirePermission API_UPDATE]),
      (''get_rate_limit'', [GetApiCatalogService, RequirePermission API_READ])]"

definition key_dependencies :: "(string \<times> provider list) list" where
  "key_dependencies =
     [(''create_key'', [GetCurrentUser, GetApiKeyService, GetSession, RequirePermission KEY_CREATE]),
      (''list_keys'', [GetApiKeyService, RequirePermission KEY_READ]),
      (''rotate_key'', [GetCurrentUser, GetApiKeyService, GetSession, RequirePermission KEY_ROTATE]),
      (''revoke_key'', [GetCurrentUser, GetApiKeyService, GetSession, RequirePermission KEY_REVOKE])]"

definition audit_dependencies :: "(string \<times> provider list) list" where
  "audit_dependencies =
     [(''list_audit_logs'', [GetSession, RequirePermission AUDIT_READ])]"

definition analytics_dependencies :: "(string \<times> provider list) list" where
  "analytics_dependencies =
     [(''summary'', [GetSession, RequirePermission ANALYTICS_READ]),
      (''top_endpoints'', [GetSession, RequirePermission ANALYTICS_READ]),
      (''status_breakdown'', [GetSession, RequirePermission ANALYTICS_READ]),
      (''timeseries'', [GetSession, RequirePermission ANALYTICS_READ]),
      (''top_keys'', [GetSession, RequirePermission ANALYTICS_READ])]"

definition dashboard_dependencies :: "(string \<times> provider list) list" where
  "dashboard_dependencies =
     [(''developer_dashboard'', [GetSession, RequirePermission ANALYTICS_READ]),
      (''admin_overview'', [GetCurrentSuperuser, GetSession])]"

definition notification_dependencies :: "(string \<times> provider list) list" where
  "notification_dependencies =
     [(''list_notifications'', [GetCurrentUser, GetSession]),
      (''mark_read'', [GetCurrentUser, GetSession]),
      (''mark_all_read'', [GetCurrentUser, GetSession])]"

definition log_dependencies :: "(string \<times> provider list) list" where
  "log_dependencies =
     [(''search_request_logs'', [GetSession, RequirePermission ANALYTICS_READ])]"

definition gateway_dependencies :: "(string \<times> provider list) list" where
  "gateway_dependencies =
     [(''proxy'', [GetGatewayService, GetSession])]"

definition root_dependencies :: "(string \<times> provider list) list" where
  "root_dependencies =
     [(''root'', [])]"

definition endpoint_dependencies :: "(string \<times> provider list) list" where
  "endpoint_dependencies = concat [probe_dependencies, auth_dependencies, organization_dependencies, api_dependencies, key_dependencies, audit_dependencies,
     analytics_dependencies, dashboard_dependencies, notification_dependencies, log_dependencies, gateway_dependencies, root_dependencies]"

definition declared :: "string \<Rightarrow> provider list" where
  "declared f = (case map_of endpoint_dependencies f of Some ds \<Rightarrow> ds | None \<Rightarrow> [])"

text \<open>With what those depend on.\<close>

definition reach :: "provider \<Rightarrow> provider list" where
  "reach p = p # requires p @ concat (map requires (requires p))"

lemma reach_closed: "q \<in> set (reach p) \<Longrightarrow> set (requires q) \<subseteq> set (reach p)"
  by (cases p) (auto simp: reach_def)

definition needed :: "provider list \<Rightarrow> provider list" where
  "needed ds = concat (map reach ds)"

lemma needed_closed: "q \<in> set (needed ds) \<Longrightarrow> set (requires q) \<subseteq> set (needed ds)"
  using reach_closed by (fastforce simp: needed_def)

fun permission_of :: "provider \<Rightarrow> permission list" where
  "permission_of (RequirePermission p) = [p]"
| "permission_of _ = []"

definition guards :: "route \<Rightarrow> permission list" where
  "guards r = concat (map permission_of (declared (rt_endpoint r)))"

text \<open>The routes of an organization a role is refused on.\<close>

definition refused_to :: "role_name \<Rightarrow> route \<Rightarrow> bool" where
  "refused_to role r \<longleftrightarrow> list_ex (\<lambda>p. \<not> role_has_permission role p) (guards r)"

text \<open>The table is in the order of the routes, so that what the routes declare is read off without a lookup.\<close>

lemma endpoint_names: "map rt_endpoint app_routes = map fst endpoint_dependencies"
  by code_simp

lemma endpoints_differ: "distinct (map fst endpoint_dependencies)"
  by code_simp

lemma declared_all: "map (\<lambda>r. declared (rt_endpoint r)) app_routes = map snd endpoint_dependencies"
proof -
  have "map (\<lambda>r. declared (rt_endpoint r)) app_routes = map (declared \<circ> fst) endpoint_dependencies"
    using arg_cong [OF endpoint_names, of "map declared"] by (simp add: comp_def)
  also have "\<dots> = map snd endpoint_dependencies"
    using endpoints_differ by (auto simp: declared_def dest: map_of_is_SomeI)
  finally show ?thesis .
qed

lemma filter_by_table: "map f xs = ys \<Longrightarrow> filter (\<lambda>r. Q (f r) r) xs = map snd (filter (\<lambda>(y, r). Q y r) (zip ys xs))"
  by (induction xs arbitrary: ys) auto

lemma routes_by_table:
  "filter (\<lambda>r. Q (declared (rt_endpoint r)) r) app_routes =
   map snd (filter (\<lambda>(ds, r). Q ds r) (zip (map snd endpoint_dependencies) app_routes))"
  by (rule filter_by_table [OF declared_all])

lemma guarded_routes:
  "filter (\<lambda>r. guards r \<noteq> []) app_routes = filter (\<lambda>r. Param ''org_id'' \<in> set (rt_path r)) app_routes"
  unfolding guards_def routes_by_table [where Q = "\<lambda>ds r. concat (map permission_of ds) \<noteq> []"] by code_simp

lemma userless_routes:
  "map rt_endpoint (filter (\<lambda>r. GetCurrentUser \<notin> set (needed (declared (rt_endpoint r)))) app_routes) =
     [''live'', ''ready'', ''health'', ''metrics'', ''register'', ''login'', ''refresh'', ''logout'', ''verify_email'',
      ''request_password_reset'', ''confirm_password_reset'', ''proxy'', ''root'']"
  unfolding routes_by_table [where Q = "\<lambda>ds r. GetCurrentUser \<notin> set (needed ds)"] by code_simp

lemma refused_routes:
  "filter (refused_to role) app_routes = map snd (filter (\<lambda>(ds, r). list_ex (\<lambda>p. \<not> role_has_permission role p)
     (concat (map permission_of ds))) (zip (map snd endpoint_dependencies) app_routes))"
  unfolding refused_to_def guards_def
  by (rule routes_by_table [where Q = "\<lambda>ds r. list_ex (\<lambda>p. \<not> role_has_permission role p) (concat (map permission_of ds))"])

lemma changing_routes:
  "filter (\<lambda>r. guards r \<noteq> [] \<and> rt_methods r \<noteq> [''GET'']) app_routes =
   map snd (filter (\<lambda>(ds, r). concat (map permission_of ds) \<noteq> [] \<and> rt_methods r \<noteq> [''GET''])
     (zip (map snd endpoint_dependencies) app_routes))"
  unfolding guards_def by (rule routes_by_table [where Q = "\<lambda>ds r. concat (map permission_of ds) \<noteq> [] \<and> rt_methods r \<noteq> [''GET'']"])

lemma viewer_routes: "filter (refused_to VIEWER) app_routes = filter (\<lambda>r. guards r \<noteq> [] \<and> rt_methods r \<noteq> [''GET'']) app_routes"
  unfolding refused_routes changing_routes by code_simp

lemma refused_names:
  "map rt_endpoint (filter (refused_to DEVELOPER) app_routes) =
     [''update_organization'', ''delete_organization'', ''add_member'', ''update_member_role'', ''remove_member'']"
  "map rt_endpoint (filter (refused_to ADMIN) app_routes) = [''delete_organization'']"
  "filter (refused_to OWNER) app_routes = []"
  unfolding refused_routes by code_simp+

lemma all_declared: "list_all (\<lambda>r. rt_endpoint r \<in> fst ` set endpoint_dependencies) app_routes"
  using arg_cong [OF endpoint_names, of set] by (auto simp: list_all_iff)

text \<open>C9: who may call what. Every route is declared; the routes under an organization are exactly those that ask for
  a permission in it; the routes that need no user are the probes, the account operations and the gateway; and of the routes under
  an organization, a viewer is refused on exactly those that are not a GET, a developer on those that change the
  organization or its members, an admin on its deletion only, an owner on none.\<close>

theorem routes_guarded:
  "list_all (\<lambda>r. rt_endpoint r \<in> fst ` set endpoint_dependencies) app_routes \<and>
   filter (\<lambda>r. guards r \<noteq> []) app_routes = filter (\<lambda>r. Param ''org_id'' \<in> set (rt_path r)) app_routes \<and>
   map rt_endpoint (filter (\<lambda>r. GetCurrentUser \<notin> set (needed (declared (rt_endpoint r)))) app_routes) =
     [''live'', ''ready'', ''health'', ''metrics'', ''register'', ''login'', ''refresh'', ''logout'', ''verify_email'',
      ''request_password_reset'', ''confirm_password_reset'', ''proxy'', ''root''] \<and>
   filter (refused_to VIEWER) app_routes = filter (\<lambda>r. guards r \<noteq> [] \<and> rt_methods r \<noteq> [''GET'']) app_routes \<and>
   map rt_endpoint (filter (refused_to DEVELOPER) app_routes) =
     [''update_organization'', ''delete_organization'', ''add_member'', ''update_member_role'', ''remove_member''] \<and>
   map rt_endpoint (filter (refused_to ADMIN) app_routes) = [''delete_organization''] \<and>
   filter (refused_to OWNER) app_routes = []"
  using all_declared guarded_routes userless_routes viewer_routes refused_names by blast

end
