(* ===== verification/Logging.thy ===== *)
theory Logging
  imports Prelude Errors
begin

text \<open>
  \<open>core/logging.py\<close>: the configuration of the loggers of a process, made once. The loggers of structlog and of the
  standard library are the levels they are given and how they render; rendering itself is the libraries'.
\<close>

section \<open>Levels\<close>

text \<open>An upper-case name in the module \<open>logging\<close>: a level, or one of the attributes that are no number.\<close>

datatype logging_attribute = Level int | NoLevel

definition logging_attributes :: "(string \<times> logging_attribute) list" where
  "logging_attributes = [(''CRITICAL'', Level 50), (''FATAL'', Level 50), (''ERROR'', Level 40), (''WARNING'', Level 30),
     (''WARN'', Level 30), (''INFO'', Level 20), (''DEBUG'', Level 10), (''NOTSET'', Level 0), (''BASIC_FORMAT'', NoLevel),
     (''_STYLES'', NoLevel)]"

definition WARNING :: int where "WARNING = 30"

definition ascii_upper :: "char \<Rightarrow> char" where
  "ascii_upper c = (let n = (of_char c :: nat) in if 97 \<le> n \<and> n \<le> 122 then char_of (n - 32) else c)"

text \<open>\<open>getattr(logging, log_level.upper(), logging.INFO)\<close>.\<close>

definition level_of :: "string \<Rightarrow> logging_attribute" where
  "level_of s = (case map_of logging_attributes (map ascii_upper s) of Some a \<Rightarrow> a | None \<Rightarrow> Level 20)"

section \<open>Configuration\<close>

datatype renderer = JSONRenderer | ConsoleRenderer bool

datatype processor = MergeContextvars | AddLogLevel | TimeStamper | StackInfo | ExcInfo | Renderer renderer

text \<open>What the process has set up: structlog's processors and least level, the root logger's level, and the levels of
  named loggers.\<close>

record logging_state =
  lg_configured :: bool
  lg_processors :: "processor list"
  lg_bound_level :: int
  lg_root_level :: int
  lg_named :: "string \<Rightarrow> int option"

text \<open>\<open>basicConfig\<close> sets the root level only when the root logger has no handler yet: \<open>handled\<close>. A level that is no
  number has no filtering logger.\<close>

definition configure_logging :: "string \<Rightarrow> bool \<Rightarrow> bool \<Rightarrow> bool \<Rightarrow> (logging_state, exn, unit) prog" where
  "configure_logging log_level log_json isatty handled = (\<lambda>s.
     if lg_configured s then (Inr (), s) else
     case level_of log_level of
       NoLevel \<Rightarrow> (Inl (PyExc ''KeyError''), s)
     | Level lv \<Rightarrow>
         (Inr (), s\<lparr>lg_processors := [MergeContextvars, AddLogLevel, TimeStamper, StackInfo, ExcInfo,
                       Renderer (if log_json then JSONRenderer else ConsoleRenderer isatty)],
                    lg_bound_level := lv,
                    lg_root_level := (if handled then lg_root_level s else lv),
                    lg_named := (lg_named s)(''uvicorn.access'' \<mapsto> max lv WARNING, ''sqlalchemy.engine'' \<mapsto> max lv WARNING),
                    lg_configured := True\<rparr>))"

text \<open>A bound logger emits a line of at least its level.\<close>

definition emits :: "logging_state \<Rightarrow> int \<Rightarrow> bool" where
  "emits s lv \<longleftrightarrow> lg_bound_level s \<le> lv"

text \<open>Configuring again changes nothing, whatever the settings say by then.\<close>

lemma configured_once:
  assumes "fst (configure_logging l j t h s) = Inr ()"
  shows "configure_logging l' j' t' h' (snd (configure_logging l j t h s)) = (Inr (), snd (configure_logging l j t h s))"
  using assms by (auto simp: configure_logging_def split: logging_attribute.splits if_splits)

text \<open>A name nobody knows is \<open>INFO\<close>; whatever the level, the access and SQL loggers stay at warnings or above; and no
  level hides a critical line.\<close>

lemma unknown_level: "map ascii_upper l \<notin> fst ` set logging_attributes \<Longrightarrow> level_of l = Level 20"
  by (simp add: level_of_def map_of_eq_None_iff [THEN iffD2])

lemma level_bounds: "level_of l = Level lv \<Longrightarrow> 0 \<le> lv \<and> lv \<le> 50"
  unfolding level_of_def logging_attributes_def by (auto split: if_splits)

lemma logging_levels:
  assumes "\<not> lg_configured s" "configure_logging l j t h s = (Inr (), s')"
  shows "emits s' 50" "\<exists>lv \<ge> WARNING. lg_named s' ''uvicorn.access'' = Some lv \<and> lg_named s' ''sqlalchemy.engine'' = Some lv"
    "last (lg_processors s') = Renderer (if j then JSONRenderer else ConsoleRenderer t)"
  using assms level_bounds by (auto simp: configure_logging_def emits_def split: logging_attribute.splits)

end
