(* ===== verification/Spec2Isabelle.thy ===== *)
theory Spec2Isabelle
  imports Errors Permissions Models Redis Clock Quota RateSpec RateLimit Session Security AuthService
    Notifications Slug Organization ApiCatalog Telemetry ApiKeys Gateway Analytics Seed Web System
    Ddl Migrations Constraints Integrity Concurrency Tenancy Isolation Routing Schemas Application Runtime Responses
    Journey Traffic Wiring Logging
begin

text \<open>
  A verification development of the API traffic platform: a FastAPI backend (\<open>src/backend/app\<close>) in which
  organizations register APIs and issue API keys, a gateway authenticates, rate-limits, meters and forwards
  the traffic of those keys to upstream services, and workers publish telemetry and roll up usage. The
  migrations of its database (\<open>src/backend/alembic\<close>) are part of the development.

  \<^bold>\<open>How programs are modelled.\<close> A coroutine that uses the database is a function from the database to a result
  (an exception or a value) and the database after it (\<open>'a dbprog\<close>, theory Prelude); a raise keeps what was
  written so far, and \<open>session_scope\<close> and \<open>get_session\<close> (theory Session) roll it back, as \<open>db/session.py\<close>
  does. What also talks to Redis, the mail logger or the HTTP client runs on a \<open>world\<close> that holds them beside
  the database. A table is a list of records, one record per ORM class, with the constraints the models
  declare checked at each INSERT (theory Models). Fresh UUIDs, secrets, salts and every reading of a clock are
  arguments, so a theorem holds for any of them. Strings are ASCII. Python and Postgres floats are rationals;
  in the rate limiters every operation is rounded by an argument.

  \<^bold>\<open>Parameters.\<close> Code that is not in the repository is an argument with named laws: Redis (locale
  \<open>redis_server\<close>, interpreted by an in-memory server), Argon2, SHA-256 and PyJWT (locale \<open>crypto\<close>, interpreted
  by a transparent instance), IEEE rounding (locale \<open>rounding\<close>, interpreted by exact arithmetic), the HTTP
  client, the telemetry sink, and the texts of datetimes and floats (no laws).

  \<^bold>\<open>Theories and the code they model.\<close>
  \<^item> Prelude: state-and-exception programs, tables, string functions of Python, UUIDs and their text.
  \<^item> Errors: \<open>core/errors.py\<close>; the error envelope of every handler.
  \<^item> Permissions: \<open>core/permissions.py\<close>. Seed: \<open>db/seed.py\<close>, shown to make the database grant exactly the
    catalogue, from any database, and to be idempotent.
  \<^item> Models: \<open>app/models\<close>, the constraints (\<open>db_ok\<close>), cascading deletes, and that every INSERT, UPDATE and
    DELETE the code makes keeps them. Session: \<open>db/session.py\<close>, \<open>repositories/base.py\<close> (locale \<open>repository\<close>,
    interpreted for nine tables), \<open>services/email.py\<close>.
  \<^item> Ddl, Migrations, Constraints: the data definition operations, \<open>alembic/versions\<close>, the ORM metadata of
    \<open>app/models\<close> and \<open>db/base.py\<close>, \<open>alembic/env.py\<close>. The migrations build exactly the declared schema, each
    downgrade undoes its upgrade, and the schema's keys are exactly \<open>db_ok\<close> and \<open>links_ok\<close>.
  \<^item> Redis, Clock: the environment. RateSpec: the three rate-limiting algorithms as machines with their bounds.
    RateLimit: \<open>services/rate_limit\<close> and \<open>services/auth_throttle.py\<close>, each Lua script a refinement of its
    machine (locale \<open>rate_limiter\<close>, a sublocale per algorithm). Quota: \<open>services/quota.py\<close>.
  \<^item> Security: \<open>core/security.py\<close>, \<open>core/config.py\<close>. AuthService: \<open>services/auth.py\<close>, \<open>repositories/user.py\<close>,
    \<open>api/auth.py\<close>, the current-user dependencies of \<open>api/deps.py\<close>: rotation of refresh tokens, reuse
    detection, login, verification, reset.
  \<^item> Slug, Organization, Notifications: \<open>services/organization.py\<close>, \<open>repositories/organization.py\<close>,
    \<open>api/organizations.py\<close>, the permission check, \<open>services/notification.py\<close> with its endpoints.
  \<^item> ApiCatalog: \<open>services/api_catalog.py\<close>, \<open>repositories/api.py\<close>, \<open>api/apis.py\<close>, \<open>schemas/api.py\<close>. ApiKeys:
    \<open>services/api_key.py\<close>, \<open>api/api_keys.py\<close>. Telemetry: \<open>services/telemetry\<close>, \<open>services/request_log.py\<close>,
    \<open>services/audit.py\<close>, \<open>repositories/telemetry.py\<close>, the publishing worker, log search.
  \<^item> Gateway: \<open>services/gateway.py\<close> and \<open>api/gateway.py\<close>. Analytics: \<open>repositories/analytics.py\<close>,
    \<open>services/analytics.py\<close>, \<open>api/analytics.py\<close>, the dashboard, the rollup worker.
  \<^item> Web: \<open>middleware/request_context.py\<close>, \<open>api/health.py\<close>, the admin overview.
  \<^item> System: the steps of the whole platform (every state-changing endpoint, both workers, the seeding of a
    startup) and what holds in every reachable state. Integrity: that every reachable state satisfies the
    schema the migrations build.
  \<^item> Tenancy, Isolation: the requests below \<open>/organizations/{org_id}\<close> as one type with the handler and the
    permission of each. Who can change anything, on which rows an answer depends (relation \<open>agree\<close>), and that
    a request leaves the rows of other tenants alone. Responses: the response models of \<open>schemas\<close> and of the
    routers as JSON, and that no stored hash shows in any of them.
  \<^item> Schemas: the request models of \<open>schemas\<close>, their patterns with a matcher by derivatives, which accepted
    fields fit the columns of Migrations, and that a chosen slug is stored as it is.
  \<^item> Routing: \<open>api/router.py\<close> and the prefixes and paths of every router; no two routes claim one request.
    Application: \<open>create_app\<close> of \<open>main.py\<close>, the layers around the router. Runtime: \<open>lifespan\<close>, \<open>core/redis.py\<close>,
    \<open>core/http_client.py\<close>, the engine of \<open>db/session.py\<close>, the schedule of \<open>workers/celery_app.py\<close>.
  \<^item> Concurrency: requests that overlap, statement by statement: refreshes with one token, quota checks over
    any interleaving of their Redis commands, a login throttle cut short.
  \<^item> Wiring: the providers of \<open>api/deps.py\<close>, the constructors of the services, and what every endpoint declares.
    In whatever order the providers run, a request works on one session and on open clients; and which routes
    a role is refused on. Logging: \<open>core/logging.py\<close>.
  \<^item> Journey, Traffic: \<open>scripts/seed_traffic.py\<close>, a client that walks through the platform: sign-up, publishing, and
    the loop that sends traffic. What is published is served, the loop keeps its rate, and every request it
    sends is in the request logs of the organization it made. These theorems run AuthService, Organization,
    ApiCatalog, ApiKeys, Gateway and Telemetry one after the other, on any well-formed database.

  \<^bold>\<open>How the parts interact.\<close> A proxied request (\<open>Gateway.proxy\<close>) runs \<open>gw_authenticate\<close> over the tables of
  ApiKeys and ApiCatalog, the limiter of RateLimit, the counters of Quota, the HTTP client, and
  \<open>record_request\<close> of Telemetry in the request's transaction; Analytics reads the logs that writes. Every
  endpoint below an organization is an \<open>authorized\<close> body of Organization, which takes the caller from
  AuthService and the roles from Permissions.

  \<^bold>\<open>Bounds and fuel.\<close> The slug search is a total recursion over the suffixes, with the number of rows as its
  measure. The publishing loop has the 50 rounds of the code. The walk along the \<open>down_revision\<close> links is
  bounded by the number of revisions, and \<open>migrations_build_metadata\<close> shows that it reaches the head. The loop
  of the traffic generator consumes the turns it is given; \<open>traffic_rate_bounded\<close> bounds how many it takes, for
  a list of any length, so it ends by itself unless it was told to go on forever.

  \<^bold>\<open>Clocks.\<close> A rate-limited request reads the application's clock and Redis runs the script by its own, so a
  \<open>tick\<close> has both. \<open>sliding_window_exact\<close> bounds what is accepted by how much the difference of the two varies
  (\<open>clocks_within\<close>), \<open>token_bucket_bound\<close> lets it vary by less than the second the code adds to the expiry
  (\<open>clocks_in_step\<close>); a constant difference matters to neither. The quota theorems speak of a stretch of one day
  in which no counter opened expires (\<open>day_window\<close>, \<open>one_window\<close>); \<open>opened_outlives\<close> shows that, with Redis at
  most \<open>skew\<close> behind the application, any stretch ending two seconds and the skew before midnight is one.

  \<^bold>\<open>Not modelled.\<close> The rendering of log lines by structlog and of metrics by Prometheus (\<open>api/metrics.py\<close> is one
  call of its library), the connection options of clients and pools, the command line and the printing of the
  traffic generator, the offline mode of Alembic. Pydantic's
  conversion of JSON to the declared types is left to Pydantic: Schemas starts from the converted values, and
  the endpoints from accepted ones. Requests that overlap are modelled where the code's check and write are
  separate statements (Concurrency, \<open>concurrent_removals_leave_no_owner\<close>); a step of System is one whole
  request. Where one service call reads the clock several times (a token rotation, the revocations of a
  password reset), one reading stands for them. The \<open>content-length\<close> the framework adds to a response is
  left out, and a client whose closing raises is taken to stay open. The event loops of the Celery worker, which share one engine, are not modelled.
\<close>

end
